(* ===== verification/Prelude.thy ===== *)
theory Prelude
  imports Main "HOL-Library.Word" "HOL-Library.Char_ord" "HOL-Library.List_Lexorder"
begin

text \<open>
  What every component of the model shares: the machine integers of the source, the outcome of a
  Go call (it returns, it panics, or it blocks for ever on a lock), sequencing of calls over an
  explicit state, and the order in which a \<open>range\<close> loop visits a Go map, which the language
  leaves open and the model takes as an argument.
\<close>

named_theorems go_defs \<open>definitions of the state passing combinators\<close>
named_theorems go_elims \<open>inversion of a sequence of calls that returned\<close>

type_synonym u32 = "32 word"
type_synonym u64 = "64 word"

section \<open>Outcomes of calls\<close>

text \<open>The run-time panics the source can meet, and the two ways it panics on purpose.\<close>

datatype 'e panic =
    NilDeref
  | IndexRange
  | BadAssertion
  | DivZero
  | BadLength
  | PanicMsg string
  | PanicVal 'e

datatype ('e, 'a) outcome = Ret 'a | Panicked "'e panic" | Blocked

primrec out_bind :: "('e, 'a) outcome \<Rightarrow> ('a \<Rightarrow> ('e, 'b) outcome) \<Rightarrow> ('e, 'b) outcome" where
  "out_bind (Ret a) f = f a"
| "out_bind (Panicked p) f = Panicked p"
| "out_bind Blocked f = Blocked"

text \<open>
  A call on a state keeps the state it has reached when it panics or blocks, because the locks it
  holds and the fields it has written stay as they are.
\<close>

type_synonym ('s, 'e, 'a) go = "'s \<Rightarrow> ('e, 'a) outcome \<times> 's"

definition go_ret :: "'a \<Rightarrow> ('s, 'e, 'a) go" where
  "go_ret a = (\<lambda>s. (Ret a, s))"

definition go_panic :: "'e panic \<Rightarrow> ('s, 'e, 'a) go" where
  "go_panic p = (\<lambda>s. (Panicked p, s))"

definition go_bind :: "('s, 'e, 'a) go \<Rightarrow> ('a \<Rightarrow> ('s, 'e, 'b) go) \<Rightarrow> ('s, 'e, 'b) go" where
  "go_bind m f =
     (\<lambda>s. case m s of
            (Ret a, s') \<Rightarrow> f a s'
          | (Panicked p, s') \<Rightarrow> (Panicked p, s')
          | (Blocked, s') \<Rightarrow> (Blocked, s'))"

declare go_ret_def [go_defs] go_panic_def [go_defs]

lemma go_bind_Ret [simp]: "m s = (Ret a, s') \<Longrightarrow> go_bind m f s = f a s'"
  by (simp add: go_bind_def)

lemma go_bind_Panicked [simp]: "m s = (Panicked p, s') \<Longrightarrow> go_bind m f s = (Panicked p, s')"
  by (simp add: go_bind_def)

lemma go_bind_Blocked [simp]: "m s = (Blocked, s') \<Longrightarrow> go_bind m f s = (Blocked, s')"
  by (simp add: go_bind_def)

lemma go_ret_apply [simp]: "go_ret a s = (Ret a, s)"
  by (simp add: go_ret_def)

lemma go_panic_apply [simp]: "go_panic p s = (Panicked p, s)"
  by (simp add: go_panic_def)

lemma go_bind_eq_Ret [go_elims]:
  "go_bind m f s = (Ret b, t) \<longleftrightarrow> (\<exists>a s'. m s = (Ret a, s') \<and> f a s' = (Ret b, t))"
  by (auto simp: go_bind_def split: prod.splits outcome.splits)

lemma out_bind_eq_Ret [go_elims]:
  "out_bind m f = Ret b \<longleftrightarrow> (\<exists>a. m = Ret a \<and> f a = Ret b)"
  by (cases m) auto

text \<open>A method of a component called on the component inside a larger state or a union of types.\<close>

fun lift_state :: "('s \<Rightarrow> 't) \<Rightarrow> 'r \<times> 's \<Rightarrow> 'r \<times> 't" where
  "lift_state f (r, c) = (r, f c)"

lemma lift_state_sel [simp]: "fst (lift_state f x) = fst x" "snd (lift_state f x) = f (snd x)"
  by (cases x; simp)+

section \<open>Mutexes\<close>

text \<open>
  A \<open>sync.Mutex\<close> of one goroutine's view: locking a mutex that is held blocks for ever, because
  nobody is left to unlock it in a sequential run of the component.
\<close>

definition lock_mu :: "('s \<Rightarrow> bool) \<Rightarrow> (bool \<Rightarrow> 's \<Rightarrow> 's) \<Rightarrow> ('s, 'e, unit) go" where
  "lock_mu held set_held = (\<lambda>s. if held s then (Blocked, s) else (Ret (), set_held True s))"

definition unlock_mu :: "(bool \<Rightarrow> 's \<Rightarrow> 's) \<Rightarrow> ('s, 'e, unit) go" where
  "unlock_mu set_held = (\<lambda>s. (Ret (), set_held False s))"

text \<open>A body between \<open>mu.Lock()\<close> and a deferred \<open>mu.Unlock()\<close>, which runs on a panic too.\<close>

definition with_mu :: "('s \<Rightarrow> bool) \<Rightarrow> (bool \<Rightarrow> 's \<Rightarrow> 's) \<Rightarrow> ('s, 'e, 'a) go \<Rightarrow> ('s, 'e, 'a) go" where
  "with_mu held set_held body =
     (\<lambda>s. if held s then (Blocked, s)
          else (case body (set_held True s) of
                  (Blocked, s') \<Rightarrow> (Blocked, s')
                | (r, s') \<Rightarrow> (r, set_held False s')))"

lemma with_mu_Ret [simp]:
  "\<not> held s \<Longrightarrow> body (set_held True s) = (Ret a, s') \<Longrightarrow>
     with_mu held set_held body s = (Ret a, set_held False s')"
  by (simp add: with_mu_def)

lemma with_mu_Blocked [simp]: "held s \<Longrightarrow> with_mu held set_held body s = (Blocked, s)"
  by (simp add: with_mu_def)

section \<open>Range loops over Go maps\<close>

text \<open>
  The order in which \<open>for k := range m\<close> visits the keys of \<open>m\<close>: any enumeration without
  repetition.
\<close>

definition range_order :: "'k list \<Rightarrow> ('k \<rightharpoonup> 'v) \<Rightarrow> bool" where
  "range_order ord m \<longleftrightarrow> distinct ord \<and> set ord = dom m"

lemma range_order_distinct [dest]: "range_order ord m \<Longrightarrow> distinct ord"
  by (simp add: range_order_def)

lemma range_order_set: "range_order ord m \<Longrightarrow> set ord = dom m"
  by (simp add: range_order_def)

lemma range_order_finite: "range_order ord m \<Longrightarrow> finite (dom m)"
  by (metis List.finite_set range_order_def)

lemma range_order_length: "range_order ord m \<Longrightarrow> length ord = card (dom m)"
  by (metis distinct_card range_order_def)

lemma range_order_Nil_iff: "range_order ord m \<Longrightarrow> ord = [] \<longleftrightarrow> m = Map.empty"
  by (metis dom_eq_empty_conv range_order_set set_empty)

lemma range_order_lookup: "range_order ord m \<Longrightarrow> k \<in> set ord \<Longrightarrow> \<exists>v. m k = Some v"
  by (auto simp: range_order_def)

text \<open>The key-value pairs such a loop sees.\<close>

definition range_items :: "'k list \<Rightarrow> ('k \<rightharpoonup> 'v) \<Rightarrow> ('k \<times> 'v) list" where
  "range_items ord m = List.map_filter (\<lambda>k. map_option (Pair k) (m k)) ord"

lemma range_items_simps [simp]:
  "range_items [] m = []"
  "range_items (k # ord) m = (case m k of None \<Rightarrow> range_items ord m | Some v \<Rightarrow> (k, v) # range_items ord m)"
  by (simp_all add: range_items_def List.map_filter_def split: option.split)

lemma range_items_keys: "set ord \<subseteq> dom m \<Longrightarrow> map fst (range_items ord m) = ord"
  by (induction ord) auto

lemma range_items_fst: "range_order ord m \<Longrightarrow> map fst (range_items ord m) = ord"
  by (simp add: range_items_keys range_order_set)

lemma range_items_set: "set (range_items ord m) = {(k, v). k \<in> set ord \<and> m k = Some v}"
  by (induction ord) (auto split: option.splits)

lemma range_items_mem: "range_order ord m \<Longrightarrow> (k, v) \<in> set (range_items ord m) \<longleftrightarrow> m k = Some v"
  by (auto simp: range_items_set range_order_def)

lemma range_items_fst_set: "range_order ord m \<Longrightarrow> fst ` set (range_items ord m) = dom m"
  by (metis list.set_map range_items_fst range_order_set)

lemma range_items_length: "range_order ord m \<Longrightarrow> length (range_items ord m) = length ord"
  by (metis length_map range_items_fst)

section \<open>Indexing\<close>

text \<open>Go panics on an index out of range.\<close>

definition nth_go :: "'a list \<Rightarrow> nat \<Rightarrow> ('e, 'a) outcome" where
  "nth_go xs i = (if i < length xs then Ret (xs ! i) else Panicked IndexRange)"

lemma nth_go_Ret [simp]: "i < length xs \<Longrightarrow> nth_go xs i = Ret (xs ! i)"
  by (simp add: nth_go_def)

section \<open>Lists and words\<close>

lemma count_list_distinct: "distinct xs \<Longrightarrow> count_list xs x = (if x \<in> set xs then 1 else 0)"
  by (induction xs) auto

lemma nth_mod_mem: "xs \<noteq> [] \<Longrightarrow> xs ! (i mod length xs) \<in> set xs"
  by simp

lemma unat_word_Suc: "unat (w :: 'a :: len word) + 1 < 2 ^ LENGTH('a) \<Longrightarrow> unat (w + 1) = unat w + 1"
  by (simp add: unat_word_ariths)

text \<open>Counting the positions of a full period of a cyclic index.\<close>

lemma mod_window_permutes:
  fixes b n :: nat
  assumes "0 < n"
  shows "(\<lambda>k. (b + k) mod n) ` {..<n} = {..<n}" and "inj_on (\<lambda>k. (b + k) mod n) {..<n}"
proof -
  show inj: "inj_on (\<lambda>k. (b + k) mod n) {..<n}"
  proof (rule inj_onI)
    fix x y
    assume xy: "x \<in> {..<n}" "y \<in> {..<n}" "(b + x) mod n = (b + y) mod n"
    then obtain q1 q2 where "b + x + n * q1 = b + y + n * q2"
      by (auto simp: nat_mod_eq_iff)
    then have "(x + n * q1) mod n = (y + n * q2) mod n" by simp
    with xy show "x = y" by simp
  qed
  show "(\<lambda>k. (b + k) mod n) ` {..<n} = {..<n}"
  proof (rule card_subset_eq)
    show "(\<lambda>k. (b + k) mod n) ` {..<n} \<subseteq> {..<n}"
      using assms by auto
    show "card ((\<lambda>k. (b + k) mod n) ` {..<n}) = card {..<n}"
      by (rule card_image) (rule inj)
  qed simp
qed

end
