(* ===== verification/Json.thy ===== *)
theory Json
  imports GoText
begin

text \<open>
  The part of the Go package \<open>encoding/json\<close> the source uses: JSON values, the compact text
  \<open>json.Marshal\<close> writes for them, and the scanner and parser behind \<open>json.Unmarshal\<close>. A number
  keeps its literal, as Go's decoder does until it knows the target type. Strings are byte
  strings assumed to be valid UTF-8 without U+2028 and U+2029, which Go would rewrite. The parser
  takes fuel; \<open>json_parse\<close> gives it twice the length of the text, which the round trip shows to
  be enough for every text the printer writes.
\<close>

datatype json =
    JNull
  | JBool bool
  | JNum string
  | JStr string
  | JArr "json list"
  | JObj "(string \<times> json) list"

section \<open>Printing\<close>

abbreviation dquote :: char where "dquote \<equiv> CHR 0x22"
abbreviation bslash :: char where "bslash \<equiv> CHR 0x5C"

definition hex_char :: "nat \<Rightarrow> char" where
  "hex_char d = (if d < 10 then char_of (48 + d) else char_of (87 + d))"

text \<open>\<open>appendString\<close> of the encoder, with its HTML escaping on, as \<open>Marshal\<close> has it.\<close>

definition escape_char :: "char \<Rightarrow> string" where
  "escape_char c =
     (if c = dquote then [bslash, dquote]
      else if c = bslash then [bslash, bslash]
      else if c = CHR 0x08 then [bslash, CHR ''b'']
      else if c = CHR 0x0C then [bslash, CHR ''f'']
      else if c = CHR 0x0A then [bslash, CHR ''n'']
      else if c = CHR 0x0D then [bslash, CHR ''r'']
      else if c = CHR 0x09 then [bslash, CHR ''t'']
      else if (of_char c :: nat) < 32 \<or> c = CHR ''<'' \<or> c = CHR ''>'' \<or> c = CHR ''&'' then
        [bslash, CHR ''u'', CHR ''0'', CHR ''0'', hex_char (of_char c div 16), hex_char (of_char c mod 16)]
      else [c])"

definition quote_text :: "string \<Rightarrow> string" where
  "quote_text s = dquote # concat (map escape_char s) @ [dquote]"

fun sep_concat :: "string list \<Rightarrow> string" where
  "sep_concat [] = []"
| "sep_concat [x] = x"
| "sep_concat (x # y # xs) = x @ CHR '','' # sep_concat (y # xs)"

fun json_text :: "json \<Rightarrow> string" where
  "json_text JNull = ''null''"
| "json_text (JBool b) = (if b then ''true'' else ''false'')"
| "json_text (JNum l) = l"
| "json_text (JStr s) = quote_text s"
| "json_text (JArr js) = CHR ''['' # sep_concat (map json_text js) @ '']''"
| "json_text (JObj ms) =
     CHR ''{'' # sep_concat (map (\<lambda>(k, v). quote_text k @ CHR '':'' # json_text v) ms) @ ''}''"

section \<open>Scanning\<close>

definition is_ws :: "char \<Rightarrow> bool" where
  "is_ws c = (c = CHR '' '' \<or> c = CHR 0x09 \<or> c = CHR 0x0A \<or> c = CHR 0x0D)"

definition skip_ws :: "string \<Rightarrow> string" where
  "skip_ws s = dropWhile is_ws s"

definition hex_val :: "char \<Rightarrow> nat option" where
  "hex_val c =
     (let n = (of_char c :: nat) in
      if 48 \<le> n \<and> n \<le> 57 then Some (n - 48)
      else if 97 \<le> n \<and> n \<le> 102 then Some (n - 87)
      else if 65 \<le> n \<and> n \<le> 70 then Some (n - 55)
      else None)"

definition hex4 :: "char \<Rightarrow> char \<Rightarrow> char \<Rightarrow> char \<Rightarrow> nat option" where
  "hex4 a b c d =
     (case (hex_val a, hex_val b, hex_val c, hex_val d) of
        (Some w, Some x, Some y, Some z) \<Rightarrow> Some (((w * 16 + x) * 16 + y) * 16 + z)
      | _ \<Rightarrow> None)"

definition utf8_enc :: "nat \<Rightarrow> string" where
  "utf8_enc n =
     (if n < 128 then [char_of n]
      else if n < 2048 then [char_of (192 + n div 64), char_of (128 + n mod 64)]
      else if n < 65536 then
        [char_of (224 + n div 4096), char_of (128 + n div 64 mod 64), char_of (128 + n mod 64)]
      else
        [char_of (240 + n div 262144), char_of (128 + n div 4096 mod 64),
         char_of (128 + n div 64 mod 64), char_of (128 + n mod 64)])"

definition surrogate :: "nat \<Rightarrow> bool" where
  "surrogate n = (55296 \<le> n \<and> n < 57344)"

text \<open>A surrogate pair decodes to one character, a lone surrogate to U+FFFD.\<close>

definition surrogate_pair :: "nat \<Rightarrow> nat \<Rightarrow> nat option" where
  "surrogate_pair hi lo =
     (if 55296 \<le> hi \<and> hi < 56320 \<and> 56320 \<le> lo \<and> lo < 57344
      then Some (65536 + (hi - 55296) * 1024 + (lo - 56320)) else None)"

definition unescape :: "char \<Rightarrow> char option" where
  "unescape e =
     (if e = dquote \<or> e = bslash \<or> e = CHR ''/'' then Some e
      else if e = CHR ''b'' then Some (CHR 0x08)
      else if e = CHR ''f'' then Some (CHR 0x0C)
      else if e = CHR ''n'' then Some (CHR 0x0A)
      else if e = CHR ''r'' then Some (CHR 0x0D)
      else if e = CHR ''t'' then Some (CHR 0x09)
      else None)"

abbreviation prepend :: "string \<Rightarrow> (string \<times> string) option \<Rightarrow> (string \<times> string) option" where
  "prepend p \<equiv> map_option (\<lambda>(t, r). (p @ t, r))"

text \<open>The text after an opening quote: the decoded string and what follows the closing quote.\<close>

definition low_half :: "string \<Rightarrow> (nat \<times> string) option" where
  "low_half s =
     (case s of
        b # u # w # x # y # z # r \<Rightarrow>
          if b = bslash \<and> u = CHR ''u'' then map_option (\<lambda>n. (n, r)) (hex4 w x y z) else None
      | _ \<Rightarrow> None)"

lemma low_half_shorter: "low_half s = Some (n, r) \<Longrightarrow> length r < length s"
  by (auto simp: low_half_def split: list.splits if_splits)

function (sequential) parse_str :: "string \<Rightarrow> (string \<times> string) option" where
  "parse_str [] = None"
| "parse_str (c # cs) =
     (if c = dquote then Some ([], cs)
      else if c = bslash then
        (case cs of
           [] \<Rightarrow> None
         | e # r \<Rightarrow>
             if e = CHR ''u'' then
               (case r of
                  w # x # y # z # r' \<Rightarrow>
                    (case hex4 w x y z of
                       None \<Rightarrow> None
                     | Some n \<Rightarrow>
                         if surrogate n then
                           (case low_half r' of
                              Some (lo, r'') \<Rightarrow>
                                (case surrogate_pair n lo of
                                   Some m \<Rightarrow> prepend (utf8_enc m) (parse_str r'')
                                 | None \<Rightarrow> prepend (utf8_enc 65533) (parse_str r'))
                            | None \<Rightarrow> prepend (utf8_enc 65533) (parse_str r'))
                         else prepend (utf8_enc n) (parse_str r'))
                | _ \<Rightarrow> None)
             else (case unescape e of None \<Rightarrow> None | Some d \<Rightarrow> prepend [d] (parse_str r)))
      else if (of_char c :: nat) < 32 then None
      else prepend [c] (parse_str cs))"
  by pat_completeness auto
termination
  by (relation "measure length") (auto dest: low_half_shorter)

text \<open>The number literal a text starts with.\<close>

definition scan_frac :: "string \<Rightarrow> (string \<times> string) option" where
  "scan_frac s =
     (case s of
        c # r \<Rightarrow>
          if c = CHR ''.'' then
            (let ds = takeWhile is_digit r
             in if ds = [] then None else Some (c # ds, drop (length ds) r))
          else Some ([], s)
      | [] \<Rightarrow> Some ([], s))"

definition scan_exp :: "string \<Rightarrow> (string \<times> string) option" where
  "scan_exp s =
     (case s of
        c # r \<Rightarrow>
          if c = CHR ''e'' \<or> c = CHR ''E'' then
            (let sg = (case r of d # _ \<Rightarrow> if d = CHR ''+'' \<or> d = CHR ''-'' then [d] else [] | [] \<Rightarrow> []);
                 r' = drop (length sg) r;
                 ds = takeWhile is_digit r'
             in if ds = [] then None else Some (c # sg @ ds, drop (length ds) r'))
          else Some ([], s)
      | [] \<Rightarrow> Some ([], s))"

definition scan_int :: "string \<Rightarrow> (string \<times> string) option" where
  "scan_int s =
     (let sg = (case s of c # _ \<Rightarrow> if c = CHR ''-'' then [c] else [] | [] \<Rightarrow> []);
          r = drop (length sg) s;
          ds = takeWhile is_digit r
      in case ds of
           [] \<Rightarrow> None
         | d # _ \<Rightarrow>
             if d = CHR ''0'' then Some (sg @ [d], drop 1 r) else Some (sg @ ds, drop (length ds) r))"

definition scan_num :: "string \<Rightarrow> (string \<times> string) option" where
  "scan_num s =
     (case scan_int s of
        None \<Rightarrow> None
      | Some (i, r) \<Rightarrow>
          (case scan_frac r of
             None \<Rightarrow> None
           | Some (f, r') \<Rightarrow>
               (case scan_exp r' of None \<Rightarrow> None | Some (e, r'') \<Rightarrow> Some (i @ f @ e, r''))))"

section \<open>Parsing\<close>

fun p_value :: "nat \<Rightarrow> string \<Rightarrow> (json \<times> string) option"
  and p_elems :: "nat \<Rightarrow> string \<Rightarrow> (json list \<times> string) option"
  and p_members :: "nat \<Rightarrow> string \<Rightarrow> ((string \<times> json) list \<times> string) option" where
  "p_value 0 s = None"
| "p_value (Suc n) s =
     (let t = skip_ws s in
      case t of
        [] \<Rightarrow> None
      | c # cs \<Rightarrow>
          if c = CHR ''{'' then
            (if HasPrefix (skip_ws cs) ''}'' then Some (JObj [], drop 1 (skip_ws cs))
             else map_option (\<lambda>(ms, r). (JObj ms, r)) (p_members n cs))
          else if c = CHR ''['' then
            (if HasPrefix (skip_ws cs) '']'' then Some (JArr [], drop 1 (skip_ws cs))
             else map_option (\<lambda>(js, r). (JArr js, r)) (p_elems n cs))
          else if c = dquote then map_option (\<lambda>(u, r). (JStr u, r)) (parse_str cs)
          else if HasPrefix t ''null'' then Some (JNull, drop 4 t)
          else if HasPrefix t ''true'' then Some (JBool True, drop 4 t)
          else if HasPrefix t ''false'' then Some (JBool False, drop 5 t)
          else map_option (\<lambda>(l, r). (JNum l, r)) (scan_num t))"
| "p_elems 0 s = None"
| "p_elems (Suc n) s =
     (case p_value n s of
        None \<Rightarrow> None
      | Some (v, r) \<Rightarrow>
          (case skip_ws r of
             [] \<Rightarrow> None
           | c # cs \<Rightarrow>
               if c = CHR '','' then map_option (\<lambda>(vs, r'). (v # vs, r')) (p_elems n cs)
               else if c = CHR '']'' then Some ([v], cs)
               else None))"
| "p_members 0 s = None"
| "p_members (Suc n) s =
     (case skip_ws s of
        [] \<Rightarrow> None
      | q # t \<Rightarrow>
          if q \<noteq> dquote then None
          else (case parse_str t of
                  None \<Rightarrow> None
                | Some (k, r) \<Rightarrow>
                    (case skip_ws r of
                       [] \<Rightarrow> None
                     | d # r1 \<Rightarrow>
                         if d \<noteq> CHR '':'' then None
                         else (case p_value n r1 of
                                 None \<Rightarrow> None
                               | Some (v, r2) \<Rightarrow>
                                   (case skip_ws r2 of
                                      [] \<Rightarrow> None
                                    | c # cs \<Rightarrow>
                                        if c = CHR '','' then
                                          map_option (\<lambda>(ms, r'). ((k, v) # ms, r')) (p_members n cs)
                                        else if c = CHR ''}'' then Some ([(k, v)], cs)
                                        else None)))))"

definition json_parse :: "string \<Rightarrow> json option" where
  "json_parse s =
     (case p_value (2 * length s) s of
        Some (v, r) \<Rightarrow> if skip_ws r = [] then Some v else None
      | None \<Rightarrow> None)"

section \<open>The parser inverts the printer\<close>

lemma hex_val_hex_char: "d < 16 \<Longrightarrow> hex_val (hex_char d) = Some d"
  by (auto simp: hex_val_def hex_char_def Let_def)

lemma of_char_bound: "(of_char c :: nat) < 256"
  by (metis nat_of_char_less_256)

lemma hex4_byte:
  "hex4 (CHR ''0'') (CHR ''0'') (hex_char (of_char c div 16)) (hex_char (of_char c mod 16))
     = Some (of_char c)"
proof -
  have "(of_char c :: nat) div 16 < 16"
    using of_char_bound [of c] by (simp add: less_mult_imp_div_less)
  moreover have "hex_val (CHR ''0'') = Some 0" by (simp add: hex_val_def)
  ultimately show ?thesis by (simp add: hex4_def hex_val_hex_char)
qed

definition quick_escape :: "char \<Rightarrow> bool" where
  "quick_escape c =
     (c = dquote \<or> c = bslash \<or> c = CHR 0x08 \<or> c = CHR 0x0C \<or> c = CHR 0x0A \<or> c = CHR 0x0D \<or> c = CHR 0x09)"

definition hex_escape :: "char \<Rightarrow> bool" where
  "hex_escape c = ((of_char c :: nat) < 32 \<or> c = CHR ''<'' \<or> c = CHR ''>'' \<or> c = CHR ''&'')"

lemma parse_quick_escape: "quick_escape c \<Longrightarrow> parse_str (escape_char c @ t) = prepend [c] (parse_str t)"
  unfolding quick_escape_def by (elim disjE) (simp_all add: escape_char_def unescape_def)

lemma parse_hex_escape:
  assumes "\<not> quick_escape c" and "hex_escape c"
  shows "parse_str (escape_char c @ t) = prepend [c] (parse_str t)"
proof -
  have "(of_char c :: nat) < 128"
    using assms(2) unfolding hex_escape_def by (elim disjE) simp_all
  then have u: "utf8_enc (of_char c) = [c]" "\<not> surrogate (of_char c)"
    by (simp_all add: utf8_enc_def surrogate_def)
  have e: "escape_char c =
      [bslash, CHR ''u'', CHR ''0'', CHR ''0'', hex_char (of_char c div 16), hex_char (of_char c mod 16)]"
    using assms by (simp add: escape_char_def quick_escape_def hex_escape_def)
  show ?thesis by (simp add: e hex4_byte u)
qed

lemma parse_plain_char:
  assumes "\<not> quick_escape c" and "\<not> hex_escape c"
  shows "parse_str (escape_char c @ t) = prepend [c] (parse_str t)"
proof -
  have "escape_char c = [c]"
    using assms by (simp add: escape_char_def quick_escape_def hex_escape_def)
  then show ?thesis
    using assms by (simp add: quick_escape_def hex_escape_def)
qed

lemma parse_str_escape [simp]: "parse_str (escape_char c @ t) = prepend [c] (parse_str t)"
  by (cases "quick_escape c"; cases "hex_escape c")
    (simp_all add: parse_quick_escape parse_hex_escape parse_plain_char)

lemma parse_str_quoted: "parse_str (concat (map escape_char s) @ dquote # t) = Some (s, t)"
  by (induction s) simp_all

lemma quote_text_append:
  "quote_text s @ t = dquote # concat (map escape_char s) @ dquote # t"
  by (simp add: quote_text_def)

text \<open>What may follow a value inside a compact text.\<close>

definition delim :: "string \<Rightarrow> bool" where
  "delim r = (r = [] \<or> hd r = CHR '','' \<or> hd r = CHR '']'' \<or> hd r = CHR ''}'')"

lemma delim_simps [simp]:
  "delim []" "delim (CHR '','' # r)" "delim (CHR '']'' # r)" "delim (CHR ''}'' # r)"
  by (simp_all add: delim_def)

lemma skip_ws_keep [simp]: "\<not> is_ws c \<Longrightarrow> skip_ws (c # r) = c # r"
  by (simp add: skip_ws_def)

lemma skip_ws_Nil [simp]: "skip_ws [] = []"
  by (simp add: skip_ws_def)

lemma not_ws [simp]:
  "\<not> is_ws dquote" "\<not> is_ws (CHR '','')" "\<not> is_ws (CHR '':'')" "\<not> is_ws (CHR '']'')"
  "\<not> is_ws (CHR ''}'')" "\<not> is_ws (CHR ''{'')" "\<not> is_ws (CHR ''['')" "\<not> is_ws (CHR ''-'')"
  by (simp_all add: is_ws_def)

lemma digit_not_ws: "is_digit c \<Longrightarrow> \<not> is_ws c"
  by (auto simp: is_digit_def is_ws_def)

subsection \<open>Integer literals\<close>

lemma show_nat_head_zero: "show_nat n = CHR ''0'' # cs \<Longrightarrow> n = 0"
proof (induction n arbitrary: cs rule: show_nat.induct)
  case (1 n)
  show ?case
  proof (cases "n < 10")
    case True
    with "1.prems" have "digit_val (digit_char n) = digit_val (CHR ''0'')"
      by (simp add: show_nat.simps [of n])
    with True show ?thesis by (simp add: digit_val_def [of "CHR ''0''"])
  next
    case False
    with "1.prems" obtain cs' where "show_nat (n div 10) = CHR ''0'' # cs'"
      by (cases "show_nat (n div 10)") (auto simp: show_nat.simps [of n])
    with "1.IH" False have "n div 10 = 0" by blast
    with False show ?thesis by simp
  qed
qed

lemma delim_no_digit: "delim r \<Longrightarrow> takeWhile is_digit r = []"
  by (cases r) (auto simp: delim_def is_digit_def)

lemma takeWhile_show_nat:
  assumes "takeWhile is_digit r = []"
  shows "takeWhile is_digit (show_nat n @ r) = show_nat n"
  using show_nat_digits [of n] assms by (simp add: takeWhile_append list_all_iff)

lemma scan_int_show_nat:
  assumes "takeWhile is_digit r = []"
  shows "scan_int (show_nat n @ r) = Some (show_nat n, r)"
proof -
  obtain c cs where c: "show_nat n = c # cs" by (cases "show_nat n") auto
  have "c \<noteq> CHR ''-''" using show_nat_unsigned [OF c] by blast
  moreover have "c = CHR ''0'' \<Longrightarrow> cs = []"
    using c show_nat_head_zero [of n cs] by (auto simp: show_nat.simps [of 0])
  moreover have "is_digit c" "takeWhile is_digit (cs @ r) = cs"
    using takeWhile_show_nat [OF assms, of n] c by (auto split: if_splits)
  ultimately show ?thesis
    by (auto simp: scan_int_def c Let_def)
qed

lemma scan_int_Itoa: "delim r \<Longrightarrow> scan_int (Itoa i @ r) = Some (Itoa i, r)"
proof (cases "i < 0")
  case True
  assume "delim r"
  obtain c cs where c: "show_nat (nat (- i)) = c # cs" by (cases "show_nat (nat (- i))") auto
  have "c = CHR ''0'' \<Longrightarrow> False"
    using c show_nat_head_zero [of "nat (- i)" cs] True by auto
  moreover have "is_digit c" "takeWhile is_digit (cs @ r) = cs"
    using takeWhile_show_nat [OF delim_no_digit [OF \<open>delim r\<close>], of "nat (- i)"] c by (auto split: if_splits)
  ultimately show ?thesis using True by (auto simp: Itoa_def scan_int_def c Let_def)
qed (simp add: Itoa_def scan_int_show_nat delim_no_digit)

lemma scan_num_Itoa: "delim r \<Longrightarrow> scan_num (Itoa i @ r) = Some (Itoa i, r)"
  using scan_int_Itoa [of r i]
  by (cases r) (auto simp: scan_num_def scan_frac_def scan_exp_def delim_def)

lemma Itoa_head: "\<exists>c cs. Itoa i = c # cs \<and> (c = CHR ''-'' \<or> is_digit c)"
proof (cases "i < 0")
  case False
  obtain c cs where c: "show_nat (nat i) = c # cs" by (cases "show_nat (nat i)") auto
  then show ?thesis using show_nat_digits [of "nat i"] False by (simp add: Itoa_def)
qed (simp add: Itoa_def)

text \<open>A literal that is a number from its first to its last character is scanned in front of a delimiter too.\<close>

lemma takeWhile_fits [simp]: "length (takeWhile P s) - length s = 0"
  using length_takeWhile_le [of P s] by simp

lemma takeWhile_delim:
  assumes "delim r"
  shows "takeWhile is_digit (s @ r) = takeWhile is_digit s"
    and "drop (length (takeWhile is_digit s)) (s @ r) = drop (length (takeWhile is_digit s)) s @ r"
  by (induction s) (simp_all add: delim_no_digit [OF assms])

lemma scan_int_append:
  assumes "delim r" and "scan_int s = Some (i, t)"
  shows "scan_int (s @ r) = Some (i, t @ r)"
proof -
  obtain c cs where s: "s = c # cs" using assms(2) by (cases s) (auto simp: scan_int_def)
  show ?thesis
  proof (cases "c = CHR ''-''")
    case True
    with s assms show ?thesis
      by (cases cs) (auto simp: scan_int_def Let_def takeWhile_delim delim_no_digit split: list.splits if_splits)
  next
    case False
    with s assms show ?thesis
      by (auto simp: scan_int_def Let_def takeWhile_delim split: list.splits if_splits)
  qed
qed

lemma scan_frac_append:
  assumes "delim r" and "scan_frac s = Some (f, t)"
  shows "scan_frac (s @ r) = Some (f, t @ r)"
  using assms
  by (cases s; cases r) (auto simp: scan_frac_def Let_def takeWhile_delim delim_def split: if_splits)

lemma scan_exp_append:
  assumes "delim r" and "scan_exp s = Some (e, t)"
  shows "scan_exp (s @ r) = Some (e, t @ r)"
proof (cases s)
  case Nil
  with assms show ?thesis by (cases r) (auto simp: scan_exp_def delim_def)
next
  case (Cons c cs)
  show ?thesis
  proof (cases cs)
    case Nil
    with Cons assms show ?thesis by (auto simp: scan_exp_def Let_def split: if_splits)
  next
    case (Cons d ds)
    with \<open>s = c # cs\<close> assms show ?thesis
      by (auto simp: scan_exp_def Let_def takeWhile_delim split: if_splits)
  qed
qed

lemma scan_num_append:
  assumes "delim r" and "scan_num s = Some (l, t)"
  shows "scan_num (s @ r) = Some (l, t @ r)"
proof -
  obtain i s1 f s2 e where s: "scan_int s = Some (i, s1)" "scan_frac s1 = Some (f, s2)" "scan_exp s2 = Some (e, t)"
    "l = i @ f @ e"
    using assms(2) by (auto simp: scan_num_def split: option.splits prod.splits)
  show ?thesis
    unfolding scan_num_def
    by (simp add: scan_int_append [OF assms(1) s(1)] scan_frac_append [OF assms(1) s(2)]
        scan_exp_append [OF assms(1) s(3)] s(4))
qed

lemma scan_num_head: "scan_num l = Some x \<Longrightarrow> \<exists>c cs. l = c # cs \<and> (c = CHR ''-'' \<or> is_digit c)"
  by (cases l) (auto simp: scan_num_def scan_int_def Let_def split: option.splits list.splits if_splits)

subsection \<open>Values\<close>

text \<open>The values the source marshals: the literals in them are numbers.\<close>

fun json_ok :: "json \<Rightarrow> bool" where
  "json_ok (JNum l) = (scan_num l = Some (l, []))"
| "json_ok (JArr js) = list_all json_ok js"
| "json_ok (JObj ms) = list_all (\<lambda>(k, v). json_ok v) ms"
| "json_ok _ = True"

lemma scan_num_Itoa_alone [simp]: "scan_num (Itoa i) = Some (Itoa i, [])"
  using scan_num_Itoa [of "[]" i] by simp

lemma json_ok_Itoa: "json_ok (JNum (Itoa i))"
  by simp

lemma not_literal_head: "c = CHR ''-'' \<or> is_digit c \<Longrightarrow>
    c \<noteq> CHR ''{'' \<and> c \<noteq> CHR ''['' \<and> c \<noteq> dquote \<and> c \<noteq> CHR ''n'' \<and> c \<noteq> CHR ''t'' \<and> c \<noteq> CHR ''f''"
  by (auto simp: is_digit_def)

lemma json_text_head: "json_ok j \<Longrightarrow> \<exists>c cs. json_text j = c # cs \<and> \<not> is_ws c \<and> c \<noteq> CHR '']''"
proof (cases j)
  case (JNum l)
  assume "json_ok j"
  with JNum obtain c cs where c: "l = c # cs" "c = CHR ''-'' \<or> is_digit c"
    using scan_num_head [of l] by auto
  then have "\<not> is_ws c \<and> c \<noteq> CHR '']''" using digit_not_ws by (auto simp: is_digit_def)
  with JNum c(1) show ?thesis by simp
qed (auto simp: quote_text_def is_ws_def)

lemma json_text_length: "json_ok j \<Longrightarrow> 0 < length (json_text j)"
  using json_text_head by fastforce

definition parses_back :: "json \<Rightarrow> bool" where
  "parses_back v \<longleftrightarrow>
     (\<forall>n r. 2 * length (json_text v) \<le> n \<longrightarrow> delim r \<longrightarrow> p_value n (json_text v @ r) = Some (v, r))"

lemma p_elems_back:
  assumes "js \<noteq> []" and "\<forall>v \<in> set js. parses_back v"
    and "2 * length (sep_concat (map json_text js)) + 1 \<le> n"
  shows "p_elems n (sep_concat (map json_text js) @ CHR '']'' # r) = Some (js, r)"
  using assms
proof (induction js arbitrary: n rule: induct_list012)
  case (2 v)
  then obtain m where "n = Suc m" by (cases n) auto
  with 2 show ?case by (simp add: parses_back_def)
next
  case (3 v w js)
  then obtain m where m: "n = Suc m" by (cases n) auto
  have "p_value m (json_text v @ CHR '','' # sep_concat (map json_text (w # js)) @ CHR '']'' # r)
      = Some (v, CHR '','' # sep_concat (map json_text (w # js)) @ CHR '']'' # r)"
    using 3 m by (simp add: parses_back_def)
  with 3 m show ?case by simp
qed simp

abbreviation member_text :: "string \<times> json \<Rightarrow> string" where
  "member_text \<equiv> \<lambda>(k, v). quote_text k @ CHR '':'' # json_text v"

lemma p_members_back:
  assumes "ms \<noteq> []" and "\<forall>m \<in> set ms. parses_back (snd m) \<and> json_ok (snd m)"
    and "2 * length (sep_concat (map member_text ms)) + 1 \<le> n"
  shows "p_members n (sep_concat (map member_text ms) @ CHR ''}'' # r) = Some (ms, r)"
  using assms
proof (induction ms arbitrary: n rule: induct_list012)
  case (2 m)
  obtain k v where kv: "m = (k, v)" by (cases m)
  from 2 obtain l where "n = Suc l" by (cases n) auto
  with 2 kv show ?case
    by (simp add: parses_back_def quote_text_append parse_str_quoted)
next
  case (3 m m' ms)
  obtain k v where kv: "m = (k, v)" by (cases m)
  from 3 obtain l where l: "n = Suc l" by (cases n) auto
  obtain S where S_def: "S = sep_concat (map member_text (m' # ms))"
    by blast
  have whole: "sep_concat (map member_text (m # m' # ms))
      = quote_text k @ CHR '':'' # json_text v @ CHR '','' # S"
    by (simp add: kv S_def)
  have len: "2 * length (json_text v) \<le> l" "2 * length S + 1 \<le> l"
    using 3(5) l unfolding whole by auto
  have "p_members l (S @ CHR ''}'' # r) = Some (m' # ms, r)"
    using 3(2) 3(4) len(2) unfolding S_def by simp
  moreover have "p_value l (json_text v @ CHR '','' # S @ CHR ''}'' # r) = Some (v, CHR '','' # S @ CHR ''}'' # r)"
    using 3(4) kv len(1) by (simp add: parses_back_def)
  ultimately show ?case
    unfolding whole by (simp add: l kv quote_text_append parse_str_quoted)
qed simp

lemma p_value_back: "json_ok j \<Longrightarrow> parses_back j"
proof (induction j)
  case (JNum l)
  then obtain c cs where c: "l = c # cs" "c = CHR ''-'' \<or> is_digit c"
    using scan_num_head [of l] by auto
  show ?case
    unfolding parses_back_def
  proof (intro allI impI)
    fix n r assume n: "2 * length (json_text (JNum l)) \<le> n" and r: "delim r"
    then obtain m where m: "n = Suc m" using c by (cases n) auto
    have "scan_num (l @ r) = Some (l, r)" using scan_num_append [OF r, of l l "[]"] JNum by simp
    moreover have "\<not> is_ws c" using c(2) digit_not_ws by auto
    ultimately show "p_value n (json_text (JNum l) @ r) = Some (JNum l, r)"
      using not_literal_head [OF c(2)] c m by (simp add: HasPrefix_def)
  qed
next
  case (JStr s)
  show ?case
    unfolding parses_back_def
  proof (intro allI impI)
    fix n r assume "2 * length (json_text (JStr s)) \<le> n"
    then obtain m where m: "n = Suc m" by (cases n) (auto simp: quote_text_def)
    then show "p_value n (json_text (JStr s) @ r) = Some (JStr s, r)"
      by (simp add: quote_text_append parse_str_quoted)
  qed
next
  case (JArr js)
  then have all: "\<forall>v \<in> set js. parses_back v" "list_all json_ok js"
    by (auto simp: list_all_iff)
  show ?case
    unfolding parses_back_def
  proof (intro allI impI)
    fix n r assume n: "2 * length (json_text (JArr js)) \<le> n"
    then obtain m where m: "n = Suc m" by (cases n) auto
    show "p_value n (json_text (JArr js) @ r) = Some (JArr js, r)"
    proof (cases js)
      case Nil
      with m show ?thesis by (simp add: HasPrefix_def)
    next
      case (Cons v vs)
      then obtain c cs where c: "json_text v = c # cs" "\<not> is_ws c" "c \<noteq> CHR '']''"
        using all(2) json_text_head [of v] by auto
      obtain t where t: "sep_concat (map json_text js) = c # t"
        using Cons c(1) by (cases vs) auto
      have "p_elems m (sep_concat (map json_text js) @ CHR '']'' # r) = Some (js, r)"
        using n m Cons all(1) by (intro p_elems_back) auto
      with m t c show ?thesis by (simp add: HasPrefix_def)
    qed
  qed
next
  case (JObj ms)
  then have all: "\<forall>m \<in> set ms. parses_back (snd m) \<and> json_ok (snd m)"
    by (fastforce simp: list_all_iff)
  show ?case
    unfolding parses_back_def
  proof (intro allI impI)
    fix n r assume n: "2 * length (json_text (JObj ms)) \<le> n"
    then obtain m where m: "n = Suc m" by (cases n) auto
    show "p_value n (json_text (JObj ms) @ r) = Some (JObj ms, r)"
    proof (cases ms)
      case Nil
      with m show ?thesis by (simp add: HasPrefix_def)
    next
      case (Cons kv ms')
      obtain t where t: "sep_concat (map member_text ms) = dquote # t"
        using Cons by (cases ms'; cases kv) (auto simp: quote_text_def)
      have "p_members m (sep_concat (map member_text ms) @ CHR ''}'' # r) = Some (ms, r)"
        using n m Cons all by (intro p_members_back) auto
      with m t show ?thesis by (simp add: HasPrefix_def)
    qed
  qed
next
  case JNull
  show ?case
    unfolding parses_back_def
  proof (intro allI impI)
    fix n r assume "2 * length (json_text JNull) \<le> n"
    then obtain m where m: "n = Suc m" by (cases n) auto
    then show "p_value n (json_text JNull @ r) = Some (JNull, r)"
      by (simp add: HasPrefix_def is_ws_def)
  qed
next
  case (JBool b)
  show ?case
    unfolding parses_back_def
  proof (intro allI impI)
    fix n r assume "2 * length (json_text (JBool b)) \<le> n"
    then obtain m where m: "n = Suc m" by (cases n) (auto split: if_splits)
    then show "p_value n (json_text (JBool b) @ r) = Some (JBool b, r)"
      by (simp add: HasPrefix_def is_ws_def)
  qed
qed

theorem json_parse_text: "json_ok j \<Longrightarrow> json_parse (json_text j) = Some j"
  using p_value_back [of j] json_text_length [of j]
  by (auto simp: parses_back_def json_parse_def dest!: spec [of _ "2 * length (json_text j)"]
      dest: spec [of _ "[]"])

section \<open>Members of a decoded object\<close>

text \<open>
  \<open>Unmarshal\<close> sets struct fields member by member, in the text's order; a member belongs to the
  field whose name it equals up to the case of letters.
\<close>

definition lower_char :: "char \<Rightarrow> char" where
  "lower_char c =
     (if 65 \<le> (of_char c :: nat) \<and> (of_char c :: nat) \<le> 90 then char_of ((of_char c :: nat) + 32) else c)"

definition field_is :: "string \<Rightarrow> string \<Rightarrow> bool" where
  "field_is k name = (map lower_char k = map lower_char name)"

end
