(* ===== verification/Errcode.thy ===== *)
theory Errcode
  imports Json "HOL-Library.AList"
begin

text \<open>
  \<open>pkg/yapr/core/errcode/errcode.go\<close>: the coded errors of the router, their JSON text, the
  recovery of a coded error from any error's text (\<open>As\<close>), the comparison \<open>errors.Is\<close> uses
  (\<open>Is\<close>), and the conversion to and from gRPC status errors. The package
  \<open>google.golang.org/grpc/status\<close> is outside the repository: the text it prints for a status
  and its \<open>FromError\<close> are arguments.
\<close>

named_theorems errcodes \<open>the error constants of the source\<close>

section \<open>Errors\<close>

record errWithCode =
  Code :: int
  Data :: "(string \<times> string) list"
  Msg :: string

text \<open>
  The errors that occur in the source: coded errors; errors known by their text only
  (\<open>errors.New\<close>, \<open>fmt.Errorf\<close>, and those of the client libraries); the errors of \<open>strconv\<close>;
  gRPC status errors with their code, message and text; errors that wrap another one. A Go map
  of strings is an association list with distinct keys.
\<close>

datatype go_error =
    ErrCode errWithCode
  | ErrText string
  | ErrNum string string string
  | ErrStatus int string string
  | ErrWrap string go_error

type_synonym 'a result = "(go_error, 'a) outcome"

definition New :: "int \<Rightarrow> string \<Rightarrow> errWithCode" where
  "New code msg = \<lparr>Code = code, Data = [], Msg = msg\<rparr>"

definition WithData :: "errWithCode \<Rightarrow> (string \<times> string) list \<Rightarrow> errWithCode" where
  "WithData err data = \<lparr>Code = Code err, Data = data, Msg = Msg err\<rparr>"

section \<open>The JSON text of a coded error\<close>

text \<open>
  \<open>json.Marshal\<close> of the struct: fields in declaration order, an empty \<open>data\<close> left out, the keys
  of a map sorted.
\<close>

definition ewc_json :: "errWithCode \<Rightarrow> json" where
  "ewc_json e =
     JObj ([(''code'', JNum (Itoa (Code e)))]
       @ (if Data e = [] then []
          else [(''data'', JObj (map (\<lambda>(k, v). (k, JStr v)) (sort_key fst (Data e))))])
       @ [(''msg'', JStr (Msg e))])"

definition Error :: "errWithCode \<Rightarrow> string" where
  "Error e = json_text (ewc_json e)"

definition zero_ewc :: errWithCode where
  "zero_ewc = \<lparr>Code = 0, Data = [], Msg = []\<rparr>"

text \<open>Decoding into a \<open>map[string]string\<close>, which keeps the entries it already has.\<close>

fun dec_strings :: "(string \<times> json) list \<Rightarrow> (string \<times> string) list \<Rightarrow> (string \<times> string) list option" where
  "dec_strings [] m = Some m"
| "dec_strings ((k, JStr v) # ms) m = dec_strings ms (AList.update k v m)"
| "dec_strings ((k, JNull) # ms) m = dec_strings ms (AList.update k [] m)"
| "dec_strings (_ # ms) m = None"

definition dec_field :: "string \<times> json \<Rightarrow> errWithCode \<Rightarrow> errWithCode option" where
  "dec_field m e =
     (case m of (k, v) \<Rightarrow>
        if field_is k ''code'' then
          (case v of
             JNum l \<Rightarrow> map_option (\<lambda>i. e\<lparr>Code := i\<rparr>) (Atoi l)
           | JNull \<Rightarrow> Some e
           | _ \<Rightarrow> None)
        else if field_is k ''data'' then
          (case v of
             JObj ms \<Rightarrow> map_option (\<lambda>d. e\<lparr>Data := d\<rparr>) (dec_strings ms (Data e))
           | JNull \<Rightarrow> Some (e\<lparr>Data := []\<rparr>)
           | _ \<Rightarrow> None)
        else if field_is k ''msg'' then
          (case v of
             JStr s \<Rightarrow> Some (e\<lparr>Msg := s\<rparr>)
           | JNull \<Rightarrow> Some e
           | _ \<Rightarrow> None)
        else Some e)"

fun dec_fields :: "(string \<times> json) list \<Rightarrow> errWithCode \<Rightarrow> errWithCode option" where
  "dec_fields [] e = Some e"
| "dec_fields (m # ms) e = (case dec_field m e of None \<Rightarrow> None | Some e' \<Rightarrow> dec_fields ms e')"

definition UnmarshalError :: "string \<Rightarrow> errWithCode option" where
  "UnmarshalError s =
     (case json_parse s of
        Some (JObj ms) \<Rightarrow> dec_fields ms zero_ewc
      | Some JNull \<Rightarrow> Some zero_ewc
      | _ \<Rightarrow> None)"

section \<open>Texts and wrapping of errors\<close>

text \<open>\<open>strconv.Quote\<close>, on printable text.\<close>

definition go_quote :: "string \<Rightarrow> string" where
  "go_quote s =
     dquote # concat (map (\<lambda>c. if c = dquote \<or> c = bslash then [bslash, c] else [c]) s) @ [dquote]"

primrec error_text :: "go_error \<Rightarrow> string" where
  "error_text (ErrCode e) = Error e"
| "error_text (ErrText t) = t"
| "error_text (ErrNum fn num msg) =
     ''strconv.'' @ fn @ '': parsing '' @ go_quote num @ '': '' @ msg"
| "error_text (ErrStatus c m t) = t"
| "error_text (ErrWrap t e) = t"

primrec Unwrap :: "go_error \<Rightarrow> go_error option" where
  "Unwrap (ErrCode e) = None"
| "Unwrap (ErrText t) = None"
| "Unwrap (ErrNum fn num msg) = Some (ErrText msg)"
| "Unwrap (ErrStatus c m t) = None"
| "Unwrap (ErrWrap t e) = Some e"

section \<open>As, Is and errors.Is\<close>

text \<open>The attempt of one round of the loop in \<open>As\<close>.\<close>

definition as_here :: "go_error \<Rightarrow> errWithCode option" where
  "as_here err = (if HasPrefix (error_text err) ''{'' then UnmarshalError (error_text err) else None)"

function As :: "go_error \<Rightarrow> errWithCode option" where
  "As err =
     (case as_here err of
        Some e \<Rightarrow> Some e
      | None \<Rightarrow> (case Unwrap err of None \<Rightarrow> None | Some err' \<Rightarrow> As err'))"
  by pat_completeness auto

text \<open>How many times an error can still be unwrapped.\<close>

primrec wraps :: "go_error \<Rightarrow> nat" where
  "wraps (ErrCode e) = 0"
| "wraps (ErrText t) = 0"
| "wraps (ErrNum fn num msg) = 1"
| "wraps (ErrStatus c m t) = 0"
| "wraps (ErrWrap t e) = Suc (wraps e)"

lemma Unwrap_wraps: "Unwrap err = Some err' \<Longrightarrow> wraps err' < wraps err"
  by (cases err) auto

termination As
  by (relation "measure wraps") (auto dest: Unwrap_wraps)

declare As.simps [simp del]

definition Is :: "errWithCode \<Rightarrow> go_error \<Rightarrow> bool" where
  "Is e target = (case As target of None \<Rightarrow> False | Some as \<Rightarrow> Code e = Code as)"

text \<open>
  \<open>errors.Is(err, target)\<close> of the standard library for a coded target, the only kind the source
  compares with: equality, else the error's own \<open>Is\<close>, else the wrapped error.
\<close>

primrec errors_Is :: "go_error \<Rightarrow> errWithCode \<Rightarrow> bool" where
  "errors_Is (ErrCode e) t = (e = t \<or> Is e (ErrCode t))"
| "errors_Is (ErrText s) t = False"
| "errors_Is (ErrNum fn num msg) t = False"
| "errors_Is (ErrStatus c m s) t = False"
| "errors_Is (ErrWrap s e) t = errors_Is e t"

section \<open>gRPC status errors\<close>

text \<open>
  \<open>status_text\<close> is the text the status package prints for a code and a message, \<open>from_error\<close> its
  \<open>FromError\<close>: the message of the status an error carries, if it carries one.
\<close>

definition ToGRPCError :: "(int \<Rightarrow> string \<Rightarrow> string) \<Rightarrow> errWithCode \<Rightarrow> go_error" where
  "ToGRPCError status_text e = ErrStatus 10086 (Error e) (status_text 10086 (Error e))"

definition FromGRPCError :: "(go_error \<Rightarrow> string option) \<Rightarrow> go_error \<Rightarrow> errWithCode option" where
  "FromGRPCError from_error err =
     (case from_error err of None \<Rightarrow> None | Some msg \<Rightarrow> UnmarshalError msg)"

text \<open>What the client relies on: the message put into a status error comes back out.\<close>

definition status_keeps_message :: "(go_error \<Rightarrow> string option) \<Rightarrow> bool" where
  "status_keeps_message from_error \<longleftrightarrow> (\<forall>c m t. from_error (ErrStatus c m t) = Some m)"

text \<open>A concrete \<open>FromError\<close>: the status error itself or the one wrapped.\<close>

primrec status_of :: "go_error \<Rightarrow> string option" where
  "status_of (ErrCode e) = None"
| "status_of (ErrText t) = None"
| "status_of (ErrNum fn num msg) = None"
| "status_of (ErrStatus c m t) = Some m"
| "status_of (ErrWrap t e) = (case status_of e of None \<Rightarrow> None | Some _ \<Rightarrow> Some t)"

section \<open>The constants\<close>

definition ErrContextCanceled :: errWithCode where
  [errcodes]: "ErrContextCanceled = New 1001 ''context canceled''"
definition ErrRouteAlreadyExists :: errWithCode where
  [errcodes]: "ErrRouteAlreadyExists = New 1002 ''route already exists''"
definition ErrRouterNotFound :: errWithCode where
  [errcodes]: "ErrRouterNotFound = New 1003 ''router not found''"
definition ErrSelectorNotFound :: errWithCode where
  [errcodes]: "ErrSelectorNotFound = New 1004 ''selector not found''"
definition ErrServiceNotFound :: errWithCode where
  [errcodes]: "ErrServiceNotFound = New 1005 ''service not found''"
definition ErrNoEndpointAvailable :: errWithCode where
  [errcodes]: "ErrNoEndpointAvailable = New 1006 ''no endpoint available''"
definition ErrEndpointUnavailable :: errWithCode where
  [errcodes]: "ErrEndpointUnavailable = New 1007 ''bad endpoint''"
definition ErrNoRuleMatched :: errWithCode where
  [errcodes]: "ErrNoRuleMatched = New 1008 ''no rule matched''"
definition ErrNoCustomRoute :: errWithCode where
  [errcodes]: "ErrNoCustomRoute = New 1009 ''no custom route''"
definition ErrNoKeyAvailable :: errWithCode where
  [errcodes]: "ErrNoKeyAvailable = New 1010 ''no key available (for stateful routing)''"
definition ErrNoValueAvailable :: errWithCode where
  [errcodes]: "ErrNoValueAvailable = New 1011 ''no value available (for stateful routing)''"
definition ErrCacheNotFound :: errWithCode where
  [errcodes]: "ErrCacheNotFound = New 1012 ''cache not found''"
definition ErrBadDirectSelect :: errWithCode where
  [errcodes]: "ErrBadDirectSelect = New 1013 ''bad direct select''"
definition ErrLuaScriptNotFound :: errWithCode where
  [errcodes]: "ErrLuaScriptNotFound = New 1014 ''lua script not found''"
definition ErrLuaIndexOutOfRange :: errWithCode where
  [errcodes]: "ErrLuaIndexOutOfRange = New 1015 ''lua index out of range''"
definition ErrBadLuaScript :: errWithCode where
  [errcodes]: "ErrBadLuaScript = New 1016 ''bad lua script''"
definition ErrWrongEndpoint :: errWithCode where
  [errcodes]: "ErrWrongEndpoint = New 1017 ''wrong endpoint''"
definition ErrMetadataNotFound :: errWithCode where
  [errcodes]: "ErrMetadataNotFound = New 1018 ''metadata not found''"
definition ErrInvalidMetadata :: errWithCode where
  [errcodes]: "ErrInvalidMetadata = New 1019 ''invalid metadata''"
definition ErrMaxRetries :: errWithCode where
  [errcodes]: "ErrMaxRetries = New 1020 ''max retries''"
definition ErrUnknownStrategy :: errWithCode where
  [errcodes]: "ErrUnknownStrategy = New 1021 ''unknown strategy''"
definition ErrServiceAlreadyRegistered :: errWithCode where
  [errcodes]: "ErrServiceAlreadyRegistered = New 1022 ''service already registered''"
definition ErrBlockTimeout :: errWithCode where
  [errcodes]: "ErrBlockTimeout = New 1023 ''block timeout''"
definition ErrEndpointRPSLimit :: errWithCode where
  [errcodes]: "ErrEndpointRPSLimit = New 1024 ''endpoint rps limit''"

section \<open>Decoding inverts encoding\<close>

text \<open>Errors the source can build: the code is an \<open>int\<close>, the keys of \<open>data\<close> are distinct.\<close>

definition wf_ewc :: "errWithCode \<Rightarrow> bool" where
  "wf_ewc e \<longleftrightarrow> int64_range (Code e) \<and> distinct (map fst (Data e))"

lemma wf_New [simp]: "wf_ewc (New c m) \<longleftrightarrow> int64_range c"
  by (simp add: wf_ewc_def New_def)

lemma New_sel [simp]: "Code (New c m) = c" "Data (New c m) = []" "Msg (New c m) = m"
  by (simp_all add: New_def)

lemma WithData_sel [simp]:
  "Code (WithData e d) = Code e" "Data (WithData e d) = d" "Msg (WithData e d) = Msg e"
  by (simp_all add: WithData_def)

lemma ewc_json_ok: "int64_range (Code e) \<Longrightarrow> json_ok (ewc_json e)"
  by (auto simp: ewc_json_def list_all_iff Atoi_Itoa)

lemma alist_update_new: "k \<notin> fst ` set m \<Longrightarrow> AList.update k v m = m @ [(k, v)]"
  by (induction m) auto

lemma dec_strings_fresh:
  "distinct (map fst (m @ d)) \<Longrightarrow>
     dec_strings (map (\<lambda>(k, v). (k, JStr v)) d) m = Some (m @ d)"
proof (induction d arbitrary: m)
  case (Cons kv d)
  obtain k v where kv: "kv = (k, v)" by (cases kv)
  with Cons.prems have "k \<notin> fst ` set m" by auto
  moreover have "distinct (map fst ((m @ [(k, v)]) @ d))" using Cons.prems kv by simp
  ultimately show ?case using Cons.IH [of "m @ [(k, v)]"] kv by (simp add: alist_update_new)
qed simp

lemma field_is_simps [simp]:
  "field_is ''code'' ''code''" "field_is ''data'' ''data''" "field_is ''msg'' ''msg''"
  "\<not> field_is ''data'' ''code''" "\<not> field_is ''msg'' ''code''" "\<not> field_is ''msg'' ''data''"
  by (simp_all add: field_is_def lower_char_def)

lemma sorted_data_distinct:
  "distinct (map fst (d :: (string \<times> string) list)) \<Longrightarrow> distinct (map fst (sort_key fst d))"
  by (simp add: distinct_map)

lemma UnmarshalError_Error:
  assumes "wf_ewc e"
  shows "UnmarshalError (Error e) = Some (e\<lparr>Data := sort_key fst (Data e)\<rparr>)"
proof -
  have c: "Atoi (Itoa (Code e)) = Some (Code e)" and d: "distinct (map fst (sort_key fst (Data e)))"
    using assms by (simp_all add: wf_ewc_def Atoi_Itoa sorted_data_distinct)
  have "json_parse (Error e) = Some (ewc_json e)"
    using assms by (simp add: Error_def wf_ewc_def ewc_json_ok json_parse_text)
  then show ?thesis
    using c dec_strings_fresh [of "[]" "sort_key fst (Data e)"] d
    by (auto simp: UnmarshalError_def ewc_json_def dec_field_def zero_ewc_def)
qed

lemma Error_prefix: "HasPrefix (Error e) ''{''"
  by (simp add: Error_def ewc_json_def HasPrefix_def)

lemma As_ErrCode: "wf_ewc e \<Longrightarrow> As (ErrCode e) = Some (e\<lparr>Data := sort_key fst (Data e)\<rparr>)"
  by (simp add: As.simps [of "ErrCode e"] as_here_def Error_prefix UnmarshalError_Error)

lemma Is_ErrCode: "wf_ewc t \<Longrightarrow> Is e (ErrCode t) \<longleftrightarrow> Code e = Code t"
  by (simp add: Is_def As_ErrCode)

lemma errors_Is_ErrCode: "wf_ewc t \<Longrightarrow> errors_Is (ErrCode e) t \<longleftrightarrow> Code e = Code t"
  by (auto simp: Is_ErrCode)

lemma FromGRPC_ToGRPC:
  "status_keeps_message fe \<Longrightarrow> wf_ewc e \<Longrightarrow>
     FromGRPCError fe (ToGRPCError st e) = Some (e\<lparr>Data := sort_key fst (Data e)\<rparr>)"
  by (simp add: FromGRPCError_def ToGRPCError_def status_keeps_message_def UnmarshalError_Error)

lemma map_of_sort_key:
  "distinct (map fst (d :: (string \<times> string) list)) \<Longrightarrow> map_of (sort_key fst d) = map_of d"
  by (metis map_of_inject_set set_sort sorted_data_distinct)

end
