(* ===== verification/Float32.thy ===== *)
theory Float32
  imports Json
begin

text \<open>
  Go's \<open>float32\<close> as far as the source uses it: numbers that come out of a configuration, go into JSON
  and are read back. A finite number is a multiple of \<open>2^-149\<close> with at most 24 significant bits;
  \<open>round32\<close> is rounding to nearest, ties to even. \<open>f32_text\<close> is what \<open>encoding/json\<close> writes, the
  shortest decimal that reads back, and \<open>ParseFloat32\<close> is \<open>strconv.ParseFloat(s, 32)\<close> on a JSON number.
\<close>

section \<open>Numbers\<close>

text \<open>\<open>FNum neg v\<close> is \<open>v * 2^-149\<close> with a sign; zero has a sign as well.\<close>

datatype float32 =
    FNum bool nat
  | FInf bool
  | FNaN

text \<open>The binary places to drop so that 24 remain of the quotient of two numbers, at most \<open>fuel\<close>.\<close>

fun excess :: "nat \<Rightarrow> nat \<Rightarrow> nat \<Rightarrow> nat" where
  "excess 0 a b = 0"
| "excess (Suc fuel) a b = (if a < 16777216 * b then 0 else Suc (excess fuel a (2 * b)))"

definition half_even :: "nat \<Rightarrow> nat \<Rightarrow> nat" where
  "half_even a b =
     (let q = a div b; r = a mod b in
      if 2 * r < b then q else if b < 2 * r then Suc q else if even q then q else Suc q)"

text \<open>The quotient of \<open>a\<close> and \<open>b\<close> rounded, in units of \<open>2^-149\<close>; \<open>None\<close> is an overflow.\<close>

definition round32 :: "nat \<Rightarrow> nat \<Rightarrow> nat option" where
  "round32 a b =
     (let a' = a * 2 ^ 149; k = excess 254 a' b; v = half_even a' (b * 2 ^ k) * 2 ^ k
      in if v < 2 ^ 277 then Some v else None)"

definition wf_f32 :: "float32 \<Rightarrow> bool" where
  "wf_f32 x = (case x of FNum _ v \<Rightarrow> v < 2 ^ 277 \<and> 2 ^ excess 254 v 1 dvd v | _ \<Rightarrow> True)"

definition finite_f32 :: "float32 \<Rightarrow> bool" where
  "finite_f32 x = (case x of FNum _ _ \<Rightarrow> True | _ \<Rightarrow> False)"

section \<open>Reading a literal\<close>

definition signed_digits :: "string \<Rightarrow> int" where
  "signed_digits s =
     (case s of
        [] \<Rightarrow> 0
      | c # r \<Rightarrow>
          if c = CHR ''-'' then - int (foldl add_digit 0 r)
          else if c = CHR ''+'' then int (foldl add_digit 0 r)
          else int (foldl add_digit 0 s))"

text \<open>The digits and the exponent of ten of a number without a sign.\<close>

definition decimal :: "string \<Rightarrow> nat \<times> int" where
  "decimal s =
     (let ip = takeWhile is_digit s; r = drop (length ip) s;
          fp = (case r of c # r' \<Rightarrow> if c = CHR ''.'' then takeWhile is_digit r' else [] | [] \<Rightarrow> []);
          r'' = (if fp = [] then r else drop (Suc (length fp)) r)
      in (foldl add_digit 0 (ip @ fp), (case r'' of [] \<Rightarrow> 0 | _ # x \<Rightarrow> signed_digits x) - int (length fp)))"

definition round_decimal :: "nat \<times> int \<Rightarrow> nat option" where
  "round_decimal d =
     (case d of (k, p) \<Rightarrow> if 0 \<le> p then round32 (k * 10 ^ nat p) 1 else round32 k (10 ^ nat (- p)))"

definition ParseFloat32 :: "string \<Rightarrow> float32 option" where
  "ParseFloat32 l =
     (case l of
        [] \<Rightarrow> None
      | c # r \<Rightarrow>
          if c = CHR ''-'' then map_option (FNum True) (round_decimal (decimal r))
          else map_option (FNum False) (round_decimal (decimal l)))"

section \<open>Writing a number\<close>

text \<open>The last \<open>q\<close> digits of a number.\<close>

fun pad_digits :: "nat \<Rightarrow> nat \<Rightarrow> string" where
  "pad_digits 0 n = []"
| "pad_digits (Suc q) n = pad_digits q (n div 10) @ [digit_char (n mod 10)]"

definition fixed_text :: "nat \<Rightarrow> int \<Rightarrow> string" where
  "fixed_text k p =
     (if 0 \<le> p then show_nat k @ (if k = 0 then [] else replicate (nat p) (CHR ''0''))
      else show_nat (k div 10 ^ nat (- p)) @ CHR ''.'' # pad_digits (nat (- p)) k)"

definition exp_text :: "nat \<Rightarrow> int \<Rightarrow> string" where
  "exp_text k p =
     (let ds = show_nat k; e = p + int (length ds) - 1
      in hd ds # (if tl ds = [] then [] else CHR ''.'' # tl ds)
         @ CHR ''e'' # (if e < 0 then CHR ''-'' # show_nat (nat (- e)) else CHR ''+'' # show_nat (nat e)))"

text \<open>Values below \<open>1e-6\<close> and from \<open>1e21\<close> on are written with an exponent.\<close>

definition plain_size :: "nat \<Rightarrow> bool" where
  "plain_size v = (v = 0 \<or> the (round32 1 1000000) \<le> v \<and> v < the (round32 (10 ^ 21) 1))"

definition decimal_text :: "bool \<Rightarrow> nat \<Rightarrow> int \<Rightarrow> string" where
  "decimal_text plain k p = (if plain then fixed_text k p else exp_text k p)"

text \<open>
  The two decimals around the number whose last digit counts \<open>10^p\<close>; of those that read back, the nearer.
\<close>

definition near_decimals :: "nat \<Rightarrow> int \<Rightarrow> nat list" where
  "near_decimals v p =
     (let a = v * 10 ^ nat (- p); b = 2 ^ 149 * 10 ^ nat p; k = a div b; r = a mod b in
      if r = 0 then [k]
      else if 2 * r < b \<or> 2 * r = b \<and> even k then [k, Suc k] else [Suc k, k])"

definition reads_back :: "nat \<Rightarrow> int \<Rightarrow> nat \<Rightarrow> bool" where
  "reads_back v p k = (round_decimal (k, p) = Some v)"

fun shortest :: "nat \<Rightarrow> int \<Rightarrow> nat \<Rightarrow> nat \<times> int" where
  "shortest v p 0 = (hd (near_decimals v p), p)"
| "shortest v p (Suc fuel) =
     (case find (reads_back v p) (near_decimals v p) of
        Some k \<Rightarrow> (k, p)
      | None \<Rightarrow> shortest v (p - 1) fuel)"

definition shortest_decimal :: "nat \<Rightarrow> nat \<times> int" where
  "shortest_decimal v =
     (if v = 0 then (0, 0)
      else let n = length (show_nat (v div 2 ^ 149)) in shortest v (int n) (n + 149))"

definition f32_text :: "float32 \<Rightarrow> string option" where
  "f32_text x =
     (case x of
        FNum neg v \<Rightarrow>
          (case shortest_decimal v of (k, p) \<Rightarrow>
             Some ((if neg then ''-'' else []) @ decimal_text (plain_size v) k p))
      | _ \<Rightarrow> None)"

section \<open>Rounding an exact value\<close>

lemma excess_scale: "0 < c \<Longrightarrow> excess fuel (a * c) (b * c) = excess fuel a b"
proof (induction fuel arbitrary: b)
  case (Suc fuel)
  have "2 * (b * c) = (2 * b) * c" by simp
  then have "excess fuel (a * c) (2 * (b * c)) = excess fuel a (2 * b)"
    using Suc.IH [of "2 * b"] Suc.prems by metis
  moreover have "a * c < 16777216 * (b * c) \<longleftrightarrow> a < 16777216 * b" using Suc.prems by (simp add: mult.assoc [symmetric])
  ultimately show ?case by simp
qed simp

lemma half_even_exact: "0 < b \<Longrightarrow> half_even (q * b) b = q"
  by (simp add: half_even_def)

lemma round32_exact:
  assumes "0 < b" and "a * 2 ^ 149 = v * b" and "wf_f32 (FNum neg v)"
  shows "round32 a b = Some v"
proof -
  let ?k = "excess 254 v 1"
  have k: "excess 254 (a * 2 ^ 149) b = ?k"
    unfolding assms(2) using excess_scale [OF assms(1), of 254 v 1] by simp
  obtain q where q: "v = q * 2 ^ ?k" using assms(3) by (auto simp: wf_f32_def dvd_def mult.commute)
  have vb: "v * b = q * (b * 2 ^ ?k)" by (subst q) simp
  have "half_even (a * 2 ^ 149) (b * 2 ^ ?k) = q"
    unfolding assms(2) vb by (rule half_even_exact) (use assms(1) in simp)
  then show ?thesis
    using q assms(3) unfolding round32_def Let_def k by (simp add: wf_f32_def)
qed

section \<open>A number is read back\<close>

lemma near_decimals_exact: "near_decimals v (- 149) = [v * 5 ^ 149]"
proof -
  have "v * 10 ^ 149 = (v * 5 ^ 149) * 2 ^ 149" by (simp only: mult.assoc power_mult_distrib [symmetric]) simp
  then have "v * 10 ^ 149 div 2 ^ 149 = v * 5 ^ 149" "v * 10 ^ 149 mod 2 ^ 149 = 0"
    by (metis nonzero_mult_div_cancel_right power_not_zero zero_neq_numeral, metis mod_mult_self2_is_0)
  then show ?thesis unfolding near_decimals_def Let_def by (simp del: power_numeral)
qed

lemma reads_back_exact:
  assumes "wf_f32 (FNum neg v)"
  shows "reads_back v (- 149) (v * 5 ^ 149)"
proof -
  have "round32 (v * 5 ^ 149) (10 ^ 149) = Some v"
  proof (rule round32_exact [OF _ _ assms])
    show "v * 5 ^ 149 * 2 ^ 149 = v * 10 ^ 149"
      by (simp only: mult.assoc power_mult_distrib [symmetric]) simp
  qed simp
  then show ?thesis by (simp add: reads_back_def round_decimal_def del: power_numeral)
qed

lemma shortest_reads_back:
  assumes "wf_f32 (FNum neg v)" and "p = int fuel - 149" and "shortest v p fuel = (k, q)"
  shows "reads_back v q k"
  using assms(2,3)
proof (induction fuel arbitrary: p)
  case 0
  then show ?case using reads_back_exact [OF assms(1)] by (auto simp: near_decimals_exact)
next
  case (Suc fuel)
  show ?case
  proof (cases "find (reads_back v p) (near_decimals v p)")
    case None
    then show ?thesis using Suc.prems by (intro Suc.IH [of "p - 1"]) auto
  next
    case (Some x)
    then have "reads_back v p x" by (auto simp: find_Some_iff)
    then show ?thesis using Suc.prems(2) Some by simp
  qed
qed

lemma shortest_decimal_reads_back:
  assumes "wf_f32 (FNum neg v)" and "shortest_decimal v = (k, q)"
  shows "round_decimal (k, q) = Some v"
proof (cases "v = 0")
  case True
  have "round32 0 1 = Some 0" by (rule round32_exact [where neg = neg]) (use assms True in simp_all)
  then show ?thesis using True assms(2) by (simp add: shortest_decimal_def round_decimal_def)
next
  case False
  have "reads_back v q k"
    using assms(2) False by (intro shortest_reads_back [OF assms(1)]) (auto simp: shortest_decimal_def Let_def)
  then show ?thesis by (simp add: reads_back_def)
qed

subsection \<open>The texts\<close>

lemma pad_digits_all: "list_all is_digit (pad_digits q n)"
  by (induction q n rule: pad_digits.induct) simp_all

lemma pad_digits_Nil [simp]: "pad_digits q n = [] \<longleftrightarrow> q = 0"
  by (cases q) simp_all

lemma pad_digits_length [simp]: "length (pad_digits q n) = q"
  by (induction q n rule: pad_digits.induct) simp_all

lemma pad_digits_value: "foldl add_digit m (pad_digits q n) = m * 10 ^ q + n mod 10 ^ q"
proof (induction q n rule: pad_digits.induct)
  case (2 q n)
  have "n mod (10 * 10 ^ q) = 10 * (n div 10 mod 10 ^ q) + n mod 10" by (simp add: mod_mult2_eq)
  then show ?case using 2 by (simp add: add_digit_def algebra_simps)
qed simp

lemma takeWhile_show_nat_alone [simp]: "takeWhile is_digit (show_nat n) = show_nat n"
  using takeWhile_show_nat [of "[]" n] by simp

lemma scan_num_show_nat: "scan_num (show_nat n) = Some (show_nat n, [])"
  using scan_num_Itoa [of "[]" "int n"] by (simp add: Itoa_def)

lemma takeWhile_digits: "list_all is_digit s \<Longrightarrow> takeWhile is_digit r = [] \<Longrightarrow> takeWhile is_digit (s @ r) = s"
  by (simp add: takeWhile_append list_all_iff)

lemma digit_char_0 [simp]: "digit_char 0 = CHR ''0''"
  by code_simp

lemma show_nat_times: "0 < k \<Longrightarrow> show_nat k @ replicate n (CHR ''0'') = show_nat (k * 10 ^ n)"
proof (induction n arbitrary: k)
  case (Suc n)
  have "show_nat (k * 10) = show_nat k @ [CHR ''0'']"
    using Suc.prems by (simp add: show_nat.simps [of "k * 10"])
  then show ?case using Suc.IH [of "k * 10"] Suc.prems by (simp add: mult.assoc)
qed simp

lemma fixed_text_whole: "0 \<le> p \<Longrightarrow> fixed_text k p = show_nat (k * 10 ^ nat p)"
  using show_nat_times [of k "nat p"] by (simp add: fixed_text_def)

lemma decimal_parts:
  assumes "list_all is_digit ip" and "list_all is_digit fp" and "fp \<noteq> []"
    and "takeWhile is_digit r = []"
  shows "decimal (ip @ CHR ''.'' # fp @ r)
    = (foldl add_digit 0 (ip @ fp), (case r of [] \<Rightarrow> 0 | _ # x \<Rightarrow> signed_digits x) - int (length fp))"
proof -
  have "takeWhile is_digit (ip @ CHR ''.'' # fp @ r) = ip"
    by (rule takeWhile_digits [OF assms(1)]) (simp add: is_digit_def)
  then show ?thesis using takeWhile_digits [OF assms(2,4)] assms(3) by (simp add: decimal_def)
qed

lemma decimal_whole:
  assumes "list_all is_digit ip" and "takeWhile is_digit r = []" and "r = [] \<or> hd r \<noteq> CHR ''.''"
  shows "decimal (ip @ r) = (foldl add_digit 0 ip, (case r of [] \<Rightarrow> 0 | _ # x \<Rightarrow> signed_digits x))"
  using assms(3) unfolding decimal_def takeWhile_digits [OF assms(1,2)] Let_def by (cases r) simp_all

lemma fixed_value: "round_decimal (decimal (fixed_text k p)) = round_decimal (k, p)"
proof (cases "0 \<le> p")
  case True
  have "decimal (show_nat n) = (n, 0)" for n
    using decimal_whole [OF show_nat_digits, of "[]" n] by (simp add: show_nat_value)
  then show ?thesis using True by (simp add: fixed_text_whole round_decimal_def)
next
  case False
  let ?q = "nat (- p)"
  have "decimal (show_nat (k div 10 ^ ?q) @ CHR ''.'' # pad_digits ?q k @ []) = (k, - int ?q)"
    using False
    by (subst decimal_parts [OF show_nat_digits pad_digits_all]) (simp_all add: show_nat_value pad_digits_value div_mult_mod_eq)
  then show ?thesis using False by (simp add: fixed_text_def)
qed

lemma signed_digits_exp:
  "signed_digits (if e < 0 then CHR ''-'' # show_nat (nat (- e)) else CHR ''+'' # show_nat (nat e)) = e"
  by (simp add: signed_digits_def show_nat_value)

lemma exp_value: "round_decimal (decimal (exp_text k p)) = round_decimal (k, p)"
proof -
  obtain d ds where ds: "show_nat k = d # ds" by (cases "show_nat k") auto
  have dig: "list_all is_digit [d]" "list_all is_digit ds" and val: "foldl add_digit 0 (d # ds) = k"
    using show_nat_digits [of k] show_nat_value [of k] by (simp_all add: ds)
  let ?e = "p + int (length ds)"
  let ?x = "CHR ''e'' # (if ?e < 0 then CHR ''-'' # show_nat (nat (- ?e)) else CHR ''+'' # show_nat (nat ?e))"
  have x: "takeWhile is_digit ?x = []" "signed_digits (tl ?x) = ?e"
    using signed_digits_exp [of ?e] by (simp_all add: is_digit_def)
  have "decimal (exp_text k p) = (k, p)"
  proof (cases "ds = []")
    case True
    then have "exp_text k p = [d] @ ?x" by (simp add: exp_text_def ds Let_def)
    then show ?thesis using decimal_whole [OF dig(1) x(1)] x(2) val True by simp
  next
    case False
    then have "exp_text k p = [d] @ CHR ''.'' # ds @ ?x" by (simp add: exp_text_def ds Let_def)
    then show ?thesis using decimal_parts [OF dig(1) dig(2) False x(1)] x(2) val by simp
  qed
  then show ?thesis by simp
qed

lemma decimal_text_value: "round_decimal (decimal (decimal_text b k p)) = round_decimal (k, p)"
  by (simp add: decimal_text_def fixed_value exp_value)

subsection \<open>The literals are numbers of JSON\<close>

lemma scan_frac_digits:
  assumes "list_all is_digit fp" and "fp \<noteq> []" and "takeWhile is_digit r = []"
  shows "scan_frac (CHR ''.'' # fp @ r) = Some (CHR ''.'' # fp, r)"
  using takeWhile_digits [OF assms(1,3)] assms(2) by (simp add: scan_frac_def)

lemma scan_exp_digits:
  assumes "sg = CHR ''-'' \<or> sg = CHR ''+''"
  shows "scan_exp (CHR ''e'' # sg # show_nat n) = Some (CHR ''e'' # sg # show_nat n, [])"
  using assms by (auto simp: scan_exp_def Let_def)

lemma scan_fixed: "scan_num (fixed_text k p) = Some (fixed_text k p, [])"
proof (cases "0 \<le> p")
  case True
  then show ?thesis by (simp add: fixed_text_whole scan_num_show_nat)
next
  case False
  let ?f = "CHR ''.'' # pad_digits (nat (- p)) k"
  have "scan_int (show_nat (k div 10 ^ nat (- p)) @ ?f) = Some (show_nat (k div 10 ^ nat (- p)), ?f)"
    by (rule scan_int_show_nat) (simp add: is_digit_def)
  moreover have "scan_frac ?f = Some (?f, [])"
    using scan_frac_digits [of "pad_digits (nat (- p)) k" "[]"] False by (simp add: pad_digits_all)
  ultimately show ?thesis using False by (simp add: scan_num_def fixed_text_def scan_exp_def)
qed

lemma scan_int_digit:
  assumes "is_digit d" and "takeWhile is_digit r = []"
  shows "scan_int (d # r) = Some ([d], r)"
proof -
  have "d \<noteq> CHR ''-''" using assms(1) by (auto simp: is_digit_def)
  then show ?thesis using assms by (simp add: scan_int_def Let_def)
qed

lemma scan_exp_text: "scan_num (exp_text k p) = Some (exp_text k p, [])"
proof -
  obtain d ds where ds: "show_nat k = d # ds" by (cases "show_nat k") auto
  have dig: "is_digit d" "list_all is_digit ds" using show_nat_digits [of k] by (simp_all add: ds)
  let ?e = "p + int (length ds)"
  let ?x = "CHR ''e'' # (if ?e < 0 then CHR ''-'' # show_nat (nat (- ?e)) else CHR ''+'' # show_nat (nat ?e))"
  let ?f = "(if ds = [] then [] else CHR ''.'' # ds)"
  have txt_eq: "exp_text k p = d # ?f @ ?x" by (simp add: exp_text_def ds Let_def)
  have x: "takeWhile is_digit ?x = []" "scan_exp ?x = Some (?x, [])"
    using scan_exp_digits [of "CHR ''-''"] scan_exp_digits [of "CHR ''+''"] by (simp_all add: is_digit_def)
  have "takeWhile is_digit (?f @ ?x) = []" using x(1) by (simp add: is_digit_def)
  then have i: "scan_int (d # ?f @ ?x) = Some ([d], ?f @ ?x)" by (rule scan_int_digit [OF dig(1)])
  have "scan_frac (?f @ ?x) = Some (?f, ?x)"
    using scan_frac_digits [OF dig(2) _ x(1)] by (simp add: scan_frac_def)
  then show ?thesis unfolding txt_eq using i x(2) by (simp add: scan_num_def)
qed

lemma scan_decimal_text: "scan_num (decimal_text b k p) = Some (decimal_text b k p, [])"
  by (simp add: decimal_text_def scan_fixed scan_exp_text)

lemma show_nat_head_digit: "is_digit (hd (show_nat n))"
  using show_nat_digits [of n] by (cases "show_nat n") auto

lemma decimal_text_head: "\<exists>c cs. decimal_text b k p = c # cs \<and> is_digit c"
proof -
  have "is_digit (hd (show_nat k))" "is_digit (hd (show_nat (k div 10 ^ nat (- p))))"
    by (rule show_nat_head_digit)+
  then have "decimal_text b k p \<noteq> [] \<and> is_digit (hd (decimal_text b k p))"
    by (simp add: decimal_text_def fixed_text_def exp_text_def Let_def)
  then show ?thesis by (cases "decimal_text b k p") auto
qed

lemma scan_num_negative:
  assumes "is_digit c" and "scan_num (c # s) = Some (l, r)"
  shows "scan_num (CHR ''-'' # c # s) = Some (CHR ''-'' # l, r)"
proof -
  have "c \<noteq> CHR ''-''" using assms(1) by (auto simp: is_digit_def)
  then have "scan_int (CHR ''-'' # c # s) = map_option (\<lambda>(i, t). (CHR ''-'' # i, t)) (scan_int (c # s))"
    using assms(1) by (simp add: scan_int_def Let_def)
  then show ?thesis using assms(2) by (auto simp: scan_num_def split: option.splits)
qed

theorem f32_text_literal:
  assumes "f32_text x = Some l"
  shows "scan_num l = Some (l, [])"
proof -
  obtain neg v where x: "x = FNum neg v" using assms by (cases x) (auto simp: f32_text_def)
  obtain k p where kp: "shortest_decimal v = (k, p)" by (cases "shortest_decimal v")
  obtain c cs where c: "decimal_text (plain_size v) k p = c # cs" "is_digit c" using decimal_text_head by blast
  have "scan_num (c # cs) = Some (c # cs, [])" using scan_decimal_text [of "plain_size v" k p] c(1) by simp
  then show ?thesis
    using assms scan_num_negative [OF c(2)] by (auto simp: f32_text_def x kp c(1) split: if_splits)
qed

theorem f32_roundtrip:
  assumes "wf_f32 x" and "f32_text x = Some l"
  shows "ParseFloat32 l = Some x"
proof -
  obtain neg v where x: "x = FNum neg v" using assms(2) by (cases x) (auto simp: f32_text_def)
  obtain k p where kp: "shortest_decimal v = (k, p)" by (cases "shortest_decimal v")
  obtain c cs where c: "decimal_text (plain_size v) k p = c # cs" "is_digit c" using decimal_text_head by blast
  have "round_decimal (decimal (c # cs)) = Some v"
    using decimal_text_value [of "plain_size v" k p] shortest_decimal_reads_back [OF assms(1) [unfolded x] kp]
    by (simp add: c(1))
  moreover have "c \<noteq> CHR ''-''" using c(2) by (auto simp: is_digit_def)
  ultimately show ?thesis
    using assms(2) by (auto simp: f32_text_def x kp c(1) ParseFloat32_def split: if_splits)
qed

lemma f32_text_None: "f32_text x = None \<longleftrightarrow> \<not> finite_f32 x"
  by (auto simp: f32_text_def finite_f32_def split: float32.split prod.split)

subsection \<open>Evaluation\<close>

lemma excess_numeral [simp]:
  "excess (numeral n) a b = (if a < 16777216 * b then 0 else Suc (excess (pred_numeral n) a (2 * b)))"
  unfolding numeral_eq_Suc [of n] by (rule excess.simps(2))

end
