(* ===== verification/Types.thy ===== *)
theory Types
  imports Errcode Float32 "HOL-Library.Product_Lexorder"
begin

text \<open>
  \<open>pkg/yapr/core/types/types.go\<close>: endpoints and their text form, attributes and the endpoint
  filters, matchers with their memoised regular expressions, rules, routers and selectors.
  Go pointers to values nobody changes are \<open>option\<close>s. The compiled regular expressions of Go's
  \<open>regexp\<close> are values of a type parameter with the engine as an argument.
\<close>

section \<open>Endpoints\<close>

record endpoint =
  IP :: string
  Pod :: string
  Port :: u32

definition endpoint_String :: "endpoint \<Rightarrow> string" where
  "endpoint_String e = IP e @ ''#'' @ Pod e @ ''#'' @ show_nat (unat (Port e))"

definition EndpointFromString :: "string \<Rightarrow> endpoint option" where
  "EndpointFromString s =
     (let parts = Split s (CHR ''#'') in
      if length parts \<noteq> 3 then None
      else (case Atoi (parts ! 2) of
              None \<Rightarrow> None
            | Some portInt \<Rightarrow> Some \<lparr>IP = parts ! 0, Pod = parts ! 1, Port = word_of_int portInt\<rparr>))"

definition EqualEndpoints :: "endpoint option \<Rightarrow> endpoint option \<Rightarrow> bool" where
  "EqualEndpoints e1 e2 =
     (case (e1, e2) of
        (None, None) \<Rightarrow> True
      | (Some a, Some b) \<Rightarrow> IP a = IP b \<and> Port a = Port b
      | _ \<Rightarrow> False)"

text \<open>A total order, so that sorted enumerations of sets of endpoints are available.\<close>

definition endpoint_key :: "('a :: linorder) endpoint_scheme \<Rightarrow> (string \<times> string) \<times> (u32 \<times> 'a)" where
  "endpoint_key e = ((IP e, Pod e), (Port e, endpoint.more e))"

lemma endpoint_key_inj: "endpoint_key e = endpoint_key f \<Longrightarrow> e = f"
  by (simp add: endpoint_key_def)

instantiation endpoint_ext :: (linorder) linorder
begin

definition less_endpoint_ext :: "'a endpoint_scheme \<Rightarrow> 'a endpoint_scheme \<Rightarrow> bool" where
  "less_endpoint_ext e f = (endpoint_key e < endpoint_key f)"

definition less_eq_endpoint_ext :: "'a endpoint_scheme \<Rightarrow> 'a endpoint_scheme \<Rightarrow> bool" where
  "less_eq_endpoint_ext e f = (endpoint_key e \<le> endpoint_key f)"

instance
  by standard (auto simp: less_endpoint_ext_def less_eq_endpoint_ext_def intro: endpoint_key_inj)

end

section \<open>Attributes\<close>

record attributeInSelector =
  Weight :: "u32 option"
  RPS :: "u32 option"
  Deadline :: "int option"

text \<open>
  An \<open>Attribute\<close> embeds two pointers. The common attribute is never nil in the source; the
  attribute in the selector is nil where \<open>GetAttribute\<close> finds none, and reading one of its
  fields then panics.
\<close>

record attribute =
  Available :: bool
  InSel :: "attributeInSelector option"

definition attr_field :: "(attributeInSelector \<Rightarrow> 'a) \<Rightarrow> attribute \<Rightarrow> 'a result" where
  "attr_field f a = (case InSel a of None \<Rightarrow> Panicked NilDeref | Some x \<Rightarrow> Ret (f x))"

lemma attr_field_Some [simp]: "InSel a = Some x \<Longrightarrow> attr_field f a = Ret (f x)"
  by (simp add: attr_field_def)

record attributes =
  CommonAvailable :: bool
  InSelector :: "string \<rightharpoonup> attributeInSelector"

section \<open>Routers, rules, matchers and selectors\<close>

definition BufferTypeNone :: string where "BufferTypeNone = ''none''"
definition BufferTypeLRU :: string where "BufferTypeLRU = ''lru''"

definition RuleErrorDefault :: string where "RuleErrorDefault = ''default''"
definition RuleErrorNoEndpoint :: string where "RuleErrorNoEndpoint = ''no_endpoint''"
definition RuleErrorEndpointUnavailable :: string where "RuleErrorEndpointUnavailable = ''unavailable''"
definition RuleErrorEndpointRPSLimit :: string where "RuleErrorEndpointRPSLimit = ''rps_limit''"

definition SolutionDefault :: string where "SolutionDefault = ''default''"
definition SolutionRetry :: string where "SolutionRetry = ''retry''"
definition SolutionPass :: string where "SolutionPass = ''pass''"
definition SolutionBlock :: string where "SolutionBlock = ''block''"
definition SolutionThrow :: string where "SolutionThrow = ''throw''"
definition SolutionPanic :: string where "SolutionPanic = ''panic''"

lemmas rule_consts =
  RuleErrorDefault_def RuleErrorNoEndpoint_def RuleErrorEndpointUnavailable_def
  RuleErrorEndpointRPSLimit_def SolutionDefault_def SolutionRetry_def SolutionPass_def
  SolutionBlock_def SolutionThrow_def SolutionPanic_def

text \<open>The two durations are in seconds; how long a wait takes does not show in the model of a route.\<close>

record errorHandler =
  Solution :: string
  Times :: "u32 option"
  Interval :: "float32 option"
  HTimeout :: "float32 option"
  Message :: "string option"
  HCode :: "u32 option"

record matchTarget =
  URI :: string
  TPort :: u32
  Headers :: "string \<rightharpoonup> string"
  Timeout :: bool

text \<open>
  A map that is only configured and read is an association list with distinct keys, in the order
  of the loop that ranges over it. \<open>regexURI\<close> and \<open>regexHeaders\<close> are the memoised compilations.
\<close>

record 're matcher =
  MURI :: string
  MPort :: u32
  MHeaders :: "(string \<times> string) list option"
  regexURI :: "'re option"
  regexHeaders :: "(string \<times> 're) list option"

record 're rule =
  Matchers :: "'re matcher list"
  RSelector :: string
  Catch :: "(string \<times> errorHandler) list"

record 're router =
  RouterName :: string
  Rules :: "'re rule list"
  Direct :: string

record selector =
  Name :: string
  Service :: string
  SPort :: u32
  SHeaders :: "(string \<times> string) list"
  Strategy :: string
  MaxRequests :: "u32 option"
  Key :: string
  CacheType :: string
  CacheSize :: "u32 option"
  Script :: string

definition StrategyRandom :: string where "StrategyRandom = ''random''"
definition StrategyRoundRobin :: string where "StrategyRoundRobin = ''round_robin''"
definition StrategyWeightedRandom :: string where "StrategyWeightedRandom = ''weighted_random''"
definition StrategyWeightedRoundRobin :: string where "StrategyWeightedRoundRobin = ''weighted_round_robin''"
definition StrategyLeastRequest :: string where "StrategyLeastRequest = ''least_request''"
definition StrategyLeastCost :: string where "StrategyLeastCost = ''least_cost''"
definition StrategyHashRing :: string where "StrategyHashRing = ''hash_ring''"
definition StrategyDirect :: string where "StrategyDirect = ''direct''"
definition StrategyCustomLua :: string where "StrategyCustomLua = ''custom_lua''"

lemmas strategy_consts =
  StrategyRandom_def StrategyRoundRobin_def StrategyWeightedRandom_def
  StrategyWeightedRoundRobin_def StrategyLeastRequest_def StrategyLeastCost_def
  StrategyHashRing_def StrategyDirect_def StrategyCustomLua_def

section \<open>Endpoint filters\<close>

type_synonym endpointFilter = "selector \<Rightarrow> endpoint \<Rightarrow> attribute \<Rightarrow> bool result"

definition IsGood :: "attribute \<Rightarrow> bool" where
  "IsGood a = Available a"

definition GoodEndpointFilter :: endpointFilter where
  "GoodEndpointFilter sel e a = Ret (IsGood a)"

definition FuseEndpointFilter :: endpointFilter where
  "FuseEndpointFilter sel e a =
     out_bind (attr_field RPS a) (\<lambda>rps.
       Ret (case (rps, MaxRequests sel) of
              (Some r, Some mx) \<Rightarrow> r \<le> mx
            | _ \<Rightarrow> True))"

section \<open>Memoised regular expressions\<close>

text \<open>\<open>re_compile\<close> is \<open>None\<close> where \<open>regexp.Compile\<close> fails and \<open>MustCompile\<close> panics.\<close>

record 're regexEngine =
  re_compile :: "string \<Rightarrow> 're option"
  re_match :: "'re \<Rightarrow> string \<Rightarrow> bool"

definition MustCompile :: "'re regexEngine \<Rightarrow> string \<Rightarrow> 're result" where
  "MustCompile eng s =
     (case re_compile eng s of None \<Rightarrow> Panicked (PanicMsg ''regexp: Compile'') | Some re \<Rightarrow> Ret re)"

definition RegexURI :: "'re regexEngine \<Rightarrow> ('re matcher, go_error, 're) go" where
  "RegexURI eng = (\<lambda>m.
     case regexURI m of
       Some re \<Rightarrow> (Ret re, m)
     | None \<Rightarrow>
         (case MustCompile eng (MURI m) of
            Ret re \<Rightarrow> (Ret re, m\<lparr>regexURI := Some re\<rparr>)
          | Panicked p \<Rightarrow> (Panicked p, m)
          | Blocked \<Rightarrow> (Blocked, m)))"

text \<open>The loop that fills \<open>regexHeaders\<close>: an invalid pattern leaves it filled up to there.\<close>

fun fill_headers :: "'re regexEngine \<Rightarrow> (string \<times> string) list \<Rightarrow> (string \<times> 're) list \<Rightarrow>
    unit result \<times> (string \<times> 're) list" where
  "fill_headers eng [] acc = (Ret (), acc)"
| "fill_headers eng ((k, v) # hs) acc =
     (case MustCompile eng v of
        Ret re \<Rightarrow> fill_headers eng hs (AList.update k re acc)
      | Panicked p \<Rightarrow> (Panicked p, acc)
      | Blocked \<Rightarrow> (Blocked, acc))"

definition RegexHeaders :: "'re regexEngine \<Rightarrow> ('re matcher, go_error, (string \<times> 're) list option) go" where
  "RegexHeaders eng = (\<lambda>m.
     case MHeaders m of
       None \<Rightarrow> (Ret None, m)
     | Some hs \<Rightarrow>
         (case regexHeaders m of
            Some rhs \<Rightarrow> (Ret (Some rhs), m)
          | None \<Rightarrow>
              (case fill_headers eng hs [] of
                 (Ret _, rhs) \<Rightarrow> (Ret (Some rhs), m\<lparr>regexHeaders := Some rhs\<rparr>)
               | (Panicked p, rhs) \<Rightarrow> (Panicked p, m\<lparr>regexHeaders := Some rhs\<rparr>)
               | (Blocked, rhs) \<Rightarrow> (Blocked, m\<lparr>regexHeaders := Some rhs\<rparr>))))"

section \<open>Lemmas on endpoints\<close>

text \<open>The text form is read back when the address and the pod name are free of the separator.\<close>

definition sep_free :: "endpoint \<Rightarrow> bool" where
  "sep_free e \<longleftrightarrow> CHR ''#'' \<notin> set (IP e) \<and> CHR ''#'' \<notin> set (Pod e)"

lemma uint_u32_int64 [simp]: "int64_range (uint (w :: u32))"
proof -
  have "uint w < 4294967296" "0 \<le> uint w" using uint_bounded [of w] by simp_all
  then have "- 9223372036854775808 \<le> uint w \<and> uint w < 9223372036854775808" by linarith
  then show ?thesis by (simp add: int64_range_def)
qed

lemma EndpointFromString_String: "sep_free e \<Longrightarrow> EndpointFromString (endpoint_String e) = Some e"
  by (simp add: sep_free_def endpoint_String_def EndpointFromString_def)

lemma EndpointFromString_ambiguous:
  "\<not> sep_free e \<Longrightarrow> EndpointFromString (endpoint_String e) = None"
proof -
  have len: "length (Split (a @ CHR ''#'' # b) (CHR ''#'')) = length (Split a (CHR ''#'')) + length (Split b (CHR ''#''))"
    for a b by (induction a) (auto split: list.splits)
  have two: "CHR ''#'' \<in> set a \<Longrightarrow> 2 \<le> length (Split a (CHR ''#''))" for a
  proof -
    assume "CHR ''#'' \<in> set a"
    then obtain x y where "a = x @ CHR ''#'' # y" by (auto simp: in_set_conv_decomp)
    moreover have "1 \<le> length (Split x (CHR ''#''))" "1 \<le> length (Split y (CHR ''#''))"
      by (simp_all add: Suc_le_eq)
    ultimately show ?thesis by (simp only: len)
  qed
  have one: "1 \<le> length (Split a (CHR ''#''))" for a by (simp add: Suc_le_eq)
  assume "\<not> sep_free e"
  then have "3 < length (Split (endpoint_String e) (CHR ''#''))"
    using two [of "IP e"] two [of "Pod e"] one [of "IP e"] one [of "Pod e"]
    by (auto simp: sep_free_def endpoint_String_def len simp del: One_nat_def)
  then show ?thesis by (simp add: EndpointFromString_def)
qed

lemma endpoint_String_inj: "sep_free e \<Longrightarrow> sep_free f \<Longrightarrow> endpoint_String e = endpoint_String f \<Longrightarrow> e = f"
  by (metis EndpointFromString_String option.inject)

lemma EqualEndpoints_refl [simp]: "EqualEndpoints e e"
  by (simp add: EqualEndpoints_def split: option.splits)

lemma EqualEndpoints_sym: "EqualEndpoints e f = EqualEndpoints f e"
  by (auto simp: EqualEndpoints_def split: option.splits)

lemma EqualEndpoints_trans: "EqualEndpoints e f \<Longrightarrow> EqualEndpoints f g \<Longrightarrow> EqualEndpoints e g"
  by (auto simp: EqualEndpoints_def split: option.splits)

lemma EqualEndpoints_None [simp]: "EqualEndpoints None e \<longleftrightarrow> e = None" "EqualEndpoints e None \<longleftrightarrow> e = None"
  by (auto simp: EqualEndpoints_def split: option.splits)

section \<open>Lemmas on the memoised expressions\<close>

text \<open>A matcher whose memo fields, where set, are the compilations of its patterns.\<close>

definition compile_all :: "'re regexEngine \<Rightarrow> (string \<times> string) list \<Rightarrow> (string \<times> 're) list option" where
  "compile_all eng hs =
     those (map (\<lambda>(k, v). map_option (Pair k) (re_compile eng v)) hs)"

definition wf_matcher :: "'re regexEngine \<Rightarrow> 're matcher \<Rightarrow> bool" where
  "wf_matcher eng m \<longleftrightarrow>
     re_compile eng (MURI m) \<noteq> None
     \<and> (\<forall>re. regexURI m = Some re \<longrightarrow> re_compile eng (MURI m) = Some re)
     \<and> (\<forall>hs. MHeaders m = Some hs \<longrightarrow> distinct (map fst hs) \<and> compile_all eng hs \<noteq> None)
     \<and> (\<forall>hs rhs. MHeaders m = Some hs \<longrightarrow> regexHeaders m = Some rhs \<longrightarrow> compile_all eng hs = Some rhs)"

lemma compile_all_Nil [simp]: "compile_all eng [] = Some []"
  by (simp add: compile_all_def)

lemma compile_all_Cons [simp]:
  "compile_all eng ((k, v) # hs) =
     (case re_compile eng v of
        None \<Rightarrow> None
      | Some re \<Rightarrow> map_option (Cons (k, re)) (compile_all eng hs))"
  by (simp add: compile_all_def split: option.split)

lemma fill_headers_all:
  "compile_all eng hs = Some rhs \<Longrightarrow> distinct (map fst (acc @ map (\<lambda>(k, v). (k, undefined)) hs)) \<Longrightarrow>
     fill_headers eng hs acc = (Ret (), acc @ rhs)"
proof (induction hs arbitrary: acc rhs)
  case (Cons kv hs)
  obtain k v where kv: "kv = (k, v)" by (cases kv)
  from Cons.prems(1) kv obtain re rhs' where re: "re_compile eng v = Some re"
    and rhs: "compile_all eng hs = Some rhs'" "rhs = (k, re) # rhs'"
    by (auto split: option.splits)
  have "AList.update k re acc = acc @ [(k, re)]"
    using Cons.prems(2) kv by (intro alist_update_new) auto
  moreover have "fill_headers eng hs (acc @ [(k, re)]) = (Ret (), (acc @ [(k, re)]) @ rhs')"
    using Cons.prems(2) kv by (intro Cons.IH rhs(1)) auto
  ultimately show ?case using kv re rhs by (simp add: MustCompile_def)
qed simp

lemma RegexURI_wf:
  assumes "wf_matcher eng m"
  obtains re where "re_compile eng (MURI m) = Some re"
    and "RegexURI eng m = (Ret re, m\<lparr>regexURI := Some re\<rparr>)"
proof (cases "regexURI m")
  case None
  with assms that show thesis by (auto simp: RegexURI_def wf_matcher_def MustCompile_def)
next
  case (Some re)
  then have "m\<lparr>regexURI := Some re\<rparr> = m" by (cases m) auto
  with Some assms that show thesis by (auto simp: RegexURI_def wf_matcher_def)
qed

lemma RegexHeaders_wf:
  assumes "wf_matcher eng m" and "MHeaders m = Some hs"
  obtains rhs where "compile_all eng hs = Some rhs"
    and "RegexHeaders eng m = (Ret (Some rhs), m\<lparr>regexHeaders := Some rhs\<rparr>)"
proof (cases "regexHeaders m")
  case None
  from assms obtain rhs where rhs: "compile_all eng hs = Some rhs" and d: "distinct (map fst hs)"
    by (auto simp: wf_matcher_def)
  have "distinct (map fst (map (\<lambda>(k, v). (k, undefined)) hs))"
    using d by (simp add: comp_def case_prod_unfold)
  with rhs have "fill_headers eng hs [] = (Ret (), rhs)"
    using fill_headers_all [of eng hs rhs "[]"] by simp
  with None assms that rhs show thesis by (simp add: RegexHeaders_def)
next
  case (Some rhs)
  then have "m\<lparr>regexHeaders := Some rhs\<rparr> = m" by (cases m) auto
  with Some assms that show thesis by (auto simp: RegexHeaders_def wf_matcher_def)
qed

lemma wf_matcher_memo:
  assumes "wf_matcher eng m" and "re_compile eng (MURI m) = Some re"
  shows "wf_matcher eng (m\<lparr>regexURI := Some re\<rparr>)"
  using assms by (auto simp: wf_matcher_def)

lemma wf_matcher_memo_headers:
  assumes "wf_matcher eng m" and "MHeaders m = Some hs" and "compile_all eng hs = Some rhs"
  shows "wf_matcher eng (m\<lparr>regexHeaders := Some rhs\<rparr>)"
  using assms by (auto simp: wf_matcher_def)

end
