(* ===== verification/Treemap.thy ===== *)
theory Treemap
  imports Types
begin

text \<open>
  The ordered map \<open>treemap.Map\<close> of \<open>github.com/emirpasic/gods\<close> with its integer comparator, which
  the weighted strategies and the hash ring use. The package is not part of the repository, so
  its operations are an argument, and \<open>treemap_ok\<close> states what its documentation promises of the
  ones the source calls: \<open>Put\<close> inserts or replaces, \<open>Floor\<close> and \<open>Ceiling\<close> find the entry with
  the greatest key at most, or the least key at least, a bound, \<open>Min\<close> the entry with the least
  key, \<open>Size\<close> the number of keys. \<open>tm_content\<close> is the finite map a tree stands for, used in
  statements only. At the end a list of entries is shown to satisfy it, for concrete runs.
\<close>

record 'm treemap =
  tm_new :: 'm
  tm_Put :: "int \<Rightarrow> endpoint \<Rightarrow> 'm \<Rightarrow> 'm"
  tm_Floor :: "'m \<Rightarrow> int \<Rightarrow> (int \<times> endpoint) option"
  tm_Ceiling :: "'m \<Rightarrow> int \<Rightarrow> (int \<times> endpoint) option"
  tm_Min :: "'m \<Rightarrow> (int \<times> endpoint) option"
  tm_Size :: "'m \<Rightarrow> nat"
  tm_content :: "'m \<Rightarrow> int \<rightharpoonup> endpoint"

definition is_floor :: "(int \<rightharpoonup> endpoint) \<Rightarrow> int \<Rightarrow> int \<times> endpoint \<Rightarrow> bool" where
  "is_floor c x kv \<longleftrightarrow>
     c (fst kv) = Some (snd kv) \<and> fst kv \<le> x \<and> (\<forall>j. c j \<noteq> None \<longrightarrow> j \<le> x \<longrightarrow> j \<le> fst kv)"

definition is_ceiling :: "(int \<rightharpoonup> endpoint) \<Rightarrow> int \<Rightarrow> int \<times> endpoint \<Rightarrow> bool" where
  "is_ceiling c x kv \<longleftrightarrow>
     c (fst kv) = Some (snd kv) \<and> x \<le> fst kv \<and> (\<forall>j. c j \<noteq> None \<longrightarrow> x \<le> j \<longrightarrow> fst kv \<le> j)"

definition is_min :: "(int \<rightharpoonup> endpoint) \<Rightarrow> int \<times> endpoint \<Rightarrow> bool" where
  "is_min c kv \<longleftrightarrow> c (fst kv) = Some (snd kv) \<and> (\<forall>j. c j \<noteq> None \<longrightarrow> fst kv \<le> j)"

definition treemap_ok :: "'m treemap \<Rightarrow> bool" where
  "treemap_ok tm \<longleftrightarrow>
     tm_content tm (tm_new tm) = Map.empty
     \<and> (\<forall>m k v. tm_content tm (tm_Put tm k v m) = (tm_content tm m)(k \<mapsto> v))
     \<and> (\<forall>m. finite (dom (tm_content tm m)))
     \<and> (\<forall>m. tm_Size tm m = card (dom (tm_content tm m)))
     \<and> (\<forall>m x kv. tm_Floor tm m x = Some kv \<longleftrightarrow> is_floor (tm_content tm m) x kv)
     \<and> (\<forall>m x kv. tm_Ceiling tm m x = Some kv \<longleftrightarrow> is_ceiling (tm_content tm m) x kv)
     \<and> (\<forall>m kv. tm_Min tm m = Some kv \<longleftrightarrow> is_min (tm_content tm m) kv)"

lemma treemap_okD:
  assumes "treemap_ok tm"
  shows "tm_content tm (tm_new tm) = Map.empty"
    and "tm_content tm (tm_Put tm k v m) = (tm_content tm m)(k \<mapsto> v)"
    and "finite (dom (tm_content tm m))"
    and "tm_Size tm m = card (dom (tm_content tm m))"
    and "tm_Floor tm m x = Some kv \<longleftrightarrow> is_floor (tm_content tm m) x kv"
    and "tm_Ceiling tm m x = Some kv \<longleftrightarrow> is_ceiling (tm_content tm m) x kv"
    and "tm_Min tm m = Some kv \<longleftrightarrow> is_min (tm_content tm m) kv"
  using assms unfolding treemap_ok_def by blast+

lemma ceiling_exists:
  assumes "finite (dom c)" and "c j \<noteq> None" and "x \<le> j"
  obtains kv where "is_ceiling c x kv"
proof -
  let ?K = "{i \<in> dom c. x \<le> i}"
  have fin: "finite ?K" and ne: "?K \<noteq> {}" using assms by auto
  then have mem: "Min ?K \<in> ?K" by (rule Min_in)
  then obtain v where v: "c (Min ?K) = Some v" by auto
  have "Min ?K \<le> i" if "c i \<noteq> None" "x \<le> i" for i
    using that by (intro Min_le [OF fin]) auto
  then have "is_ceiling c x (Min ?K, v)" using v mem by (auto simp: is_ceiling_def)
  then show thesis by (rule that)
qed

lemma min_exists:
  assumes "finite (dom c)" and "c \<noteq> Map.empty"
  obtains kv where "is_min c kv"
proof -
  have ne: "dom c \<noteq> {}" using assms(2) by simp
  then have "Min (dom c) \<in> dom c" using assms(1) by (intro Min_in)
  then obtain v where "c (Min (dom c)) = Some v" by auto
  moreover have "Min (dom c) \<le> i" if "c i \<noteq> None" for i
    using that by (intro Min_le [OF assms(1)]) auto
  ultimately have "is_min c (Min (dom c), v)" by (auto simp: is_min_def)
  then show thesis by (rule that)
qed

lemma is_ceiling_unique:
  assumes "is_ceiling c x kv" and "is_ceiling c x kv'"
  shows "kv = kv'"
proof -
  have "fst kv \<le> fst kv'" "fst kv' \<le> fst kv" using assms by (auto simp: is_ceiling_def)
  then have "fst kv = fst kv'" by simp
  then show ?thesis using assms by (simp add: is_ceiling_def prod_eq_iff)
qed

section \<open>A list of entries as an ordered map\<close>

fun best :: "(int \<Rightarrow> bool) \<Rightarrow> (int \<Rightarrow> int \<Rightarrow> bool) \<Rightarrow> (int \<times> endpoint) list \<Rightarrow> (int \<times> endpoint) option" where
  "best P R [] = None"
| "best P R (kv # kvs) =
     (case best P R kvs of
        None \<Rightarrow> if P (fst kv) then Some kv else None
      | Some kv' \<Rightarrow> if P (fst kv) \<and> R (fst kv) (fst kv') then Some kv else Some kv')"

text \<open>The entries are kept with distinct keys by construction.\<close>

typedef entry_list = "{kvs :: (int \<times> endpoint) list. distinct (map fst kvs)}"
  by (rule exI [of _ "[]"]) simp

setup_lifting type_definition_entry_list

lift_definition entries_empty :: entry_list is "[]" by simp
lift_definition entries_put :: "int \<Rightarrow> endpoint \<Rightarrow> entry_list \<Rightarrow> entry_list" is AList.update
  by (rule distinct_update)
lift_definition entries_find :: "(int \<Rightarrow> bool) \<Rightarrow> (int \<Rightarrow> int \<Rightarrow> bool) \<Rightarrow> entry_list \<Rightarrow> (int \<times> endpoint) option"
  is best .
lift_definition entries_size :: "entry_list \<Rightarrow> nat" is length .
lift_definition entries_content :: "entry_list \<Rightarrow> int \<rightharpoonup> endpoint" is map_of .

definition entry_treemap :: "entry_list treemap" where
  "entry_treemap =
     \<lparr>tm_new = entries_empty, tm_Put = entries_put,
      tm_Floor = (\<lambda>m x. entries_find (\<lambda>k. k \<le> x) (\<ge>) m),
      tm_Ceiling = (\<lambda>m x. entries_find (\<lambda>k. x \<le> k) (\<le>) m),
      tm_Min = entries_find (\<lambda>k. True) (\<le>), tm_Size = entries_size,
      tm_content = entries_content\<rparr>"

definition is_best :: "(int \<Rightarrow> bool) \<Rightarrow> (int \<Rightarrow> int \<Rightarrow> bool) \<Rightarrow> (int \<rightharpoonup> endpoint) \<Rightarrow> int \<times> endpoint \<Rightarrow> bool" where
  "is_best P R c kv \<longleftrightarrow>
     c (fst kv) = Some (snd kv) \<and> P (fst kv) \<and> (\<forall>j. c j \<noteq> None \<longrightarrow> P j \<longrightarrow> R (fst kv) j)"

lemma best_None: "best P R kvs = None \<Longrightarrow> map_of kvs j \<noteq> None \<Longrightarrow> \<not> P j"
  by (induction kvs) (auto split: option.splits if_splits)

lemma best_sound:
  assumes "\<And>a b. R a b \<or> R b a" and "\<And>a b c. R a b \<Longrightarrow> R b c \<Longrightarrow> R a c"
  shows "distinct (map fst kvs) \<Longrightarrow> best P R kvs = Some kv \<Longrightarrow> is_best P R (map_of kvs) kv"
proof (induction kvs arbitrary: kv)
  case (Cons a kvs)
  have refl: "R x x" for x using assms(1) by blast
  have fresh: "map_of kvs (fst a) = None" using Cons.prems(1) by (simp add: map_of_eq_None_iff)
  show ?case
  proof (cases "best P R kvs")
    case None
    then show ?thesis using Cons.prems(2) best_None [OF None] refl
      by (auto simp: is_best_def split: if_splits)
  next
    case (Some b)
    then have b: "is_best P R (map_of kvs) b" using Cons by simp
    then have "fst b \<noteq> fst a" using fresh by (auto simp: is_best_def)
    then show ?thesis
      using Cons.prems(2) Some b refl assms
      by (auto simp: is_best_def split: if_splits)
  qed
qed simp

lemma best_eq_Some:
  assumes "\<And>a b. R a b \<or> R b a" and "\<And>a b c. R a b \<Longrightarrow> R b c \<Longrightarrow> R a c"
    and "\<And>a b. R a b \<Longrightarrow> R b a \<Longrightarrow> a = b" and "distinct (map fst kvs)"
  shows "best P R kvs = Some kv \<longleftrightarrow> is_best P R (map_of kvs) kv"
proof
  assume r: "is_best P R (map_of kvs) kv"
  then have "best P R kvs \<noteq> None" using best_None [of P R kvs "fst kv"]
    unfolding is_best_def by (metis option.distinct(1))
  then obtain kv' where kv': "best P R kvs = Some kv'" by blast
  then have l: "is_best P R (map_of kvs) kv'" 
    by (rule best_sound [OF assms(1) assms(2) assms(4), rotated 2])
  have "fst kv = fst kv'"
    using l r unfolding is_best_def by (metis assms(3) option.distinct(1))
  then have "kv = kv'" using l r by (simp add: is_best_def prod_eq_iff)
  then show "best P R kvs = Some kv" using kv' by simp
qed (rule best_sound [OF assms(1) assms(2) assms(4)])

lemma entry_treemap_ok: "treemap_ok entry_treemap"
proof -
  have floor: "entries_find (\<lambda>k. k \<le> x) (\<ge>) m = Some kv \<longleftrightarrow> is_floor (entries_content m) x kv" for m x kv
    by transfer (subst best_eq_Some; auto simp: is_best_def is_floor_def)
  have ceiling: "entries_find (\<lambda>k. x \<le> k) (\<le>) m = Some kv \<longleftrightarrow> is_ceiling (entries_content m) x kv" for m x kv
    by transfer (subst best_eq_Some; auto simp: is_best_def is_ceiling_def)
  have mn: "entries_find (\<lambda>k. True) (\<le>) m = Some kv \<longleftrightarrow> is_min (entries_content m) kv" for m kv
    by transfer (subst best_eq_Some; auto simp: is_best_def is_min_def)
  have "entries_content entries_empty = Map.empty" by transfer simp
  moreover have "entries_content (entries_put k v m) = (entries_content m)(k \<mapsto> v)" for k v m
    by transfer (simp add: update_conv')
  moreover have "finite (dom (entries_content m))" for m by transfer (rule finite_dom_map_of)
  moreover have "entries_size m = card (dom (entries_content m))" for m
    by transfer (metis distinct_card dom_map_of_conv_image_fst length_map list.set_map)
  ultimately show ?thesis
    by (simp add: treemap_ok_def entry_treemap_def floor ceiling mn)
qed

end
