(* ===== verification/Strategies.thy ===== *)
theory Strategies
  imports Types
begin

text \<open>
  The interface \<open>strategy.Strategy\<close> (\<open>pkg/yapr/core/strategy/strategy.go\<close>) as a contract, and
  the strategies that keep a plain list of endpoints (\<open>strategy/impl/random.go\<close>,
  \<open>round_robin.go\<close>, \<open>least_request.go\<close>, \<open>least_cost.go\<close>). A random number is a \<open>draw\<close>, an
  arbitrary natural number handed to the call; \<open>rand.Intn(n)\<close> is a draw modulo \<open>n\<close>, so a theorem
  for all draws is a theorem for everything the generator can return.
\<close>

section \<open>Results, draws and the contract\<close>

type_synonym headers = "string \<rightharpoonup> string"
type_synonym selectResult = "endpoint option \<times> headers option \<times> go_error option"

record draws =
  draw1 :: nat
  draw2 :: nat

definition Intn :: "nat \<Rightarrow> nat \<Rightarrow> nat result" where
  "Intn d n = (if n = 0 then Panicked (PanicMsg ''invalid argument to Intn'') else Ret (d mod n))"

lemma Intn_Ret [simp]: "0 < n \<Longrightarrow> Intn d n = Ret (d mod n)"
  by (simp add: Intn_def)

abbreviation sel_error :: "errWithCode \<Rightarrow> selectResult" where
  "sel_error e \<equiv> (None, None, Some (ErrCode e))"

abbreviation sel_ok :: "endpoint \<Rightarrow> selectResult" where
  "sel_ok e \<equiv> (Some e, None, None)"

text \<open>A call that may panic but changes no state, as a step.\<close>

definition read_only :: "('s \<Rightarrow> 'a result) \<Rightarrow> ('s, go_error, 'a) go" where
  "read_only f = (\<lambda>s. (f s, s))"

lemma read_only_apply [simp]: "read_only f s = (f s, s)"
  by (simp add: read_only_def)

text \<open>Every attribute carries its part for the selector, as \<open>Attributes\<close> of a service guarantees.\<close>

definition attrs_present :: "(endpoint \<rightharpoonup> attribute) \<Rightarrow> bool" where
  "attrs_present m \<longleftrightarrow> (\<forall>e a. m e = Some a \<longrightarrow> InSel a \<noteq> None)"

text \<open>
  A result that is an endpoint of the set, or an error without endpoint; with no endpoint in the
  set there is none to pick.
\<close>

definition good_pick :: "endpoint set \<Rightarrow> selectResult \<Rightarrow> bool" where
  "good_pick E r = (case r of (e, h, err) \<Rightarrow>
     (case err of
        None \<Rightarrow> (case e of Some x \<Rightarrow> x \<in> E | None \<Rightarrow> False)
      | Some x \<Rightarrow> e = None))"

lemma good_pick_simps [simp]:
  "good_pick E (Some x, h, None) \<longleftrightarrow> x \<in> E"
  "\<not> good_pick E (None, h, None)"
  "good_pick E (e, h, Some err) \<longleftrightarrow> e = None"
  by (simp_all add: good_pick_def)

lemma good_pick_empty: "good_pick {} (e, h, err) \<Longrightarrow> err \<noteq> None \<and> e = None"
  by (auto simp: good_pick_def split: option.splits)

text \<open>A sequence of selections on one state.\<close>

fun select_run :: "(matchTarget \<Rightarrow> draws \<Rightarrow> ('s, go_error, selectResult) go) \<Rightarrow>
    (matchTarget \<times> draws) list \<Rightarrow> 's \<Rightarrow> selectResult result list \<times> 's" where
  "select_run sel [] s = ([], s)"
| "select_run sel ((t, d) # calls) s =
     (let (r, s') = sel t d s; (rs, s'') = select_run sel calls s' in (r # rs, s''))"

text \<open>
  The contract between a selector and its strategy: \<open>Update\<close> returns and makes the strategy hold
  the endpoints of the map; \<open>Select\<close> returns, keeps what is held, and an endpoint it returns
  without an error is one of them. \<open>ok\<close> is what the strategy needs of the libraries it uses.
\<close>

definition safe_pick :: "endpoint set \<Rightarrow> selectResult \<Rightarrow> bool" where
  "safe_pick E r = (case r of (e, h, err) \<Rightarrow> err = None \<longrightarrow> (case e of Some x \<Rightarrow> x \<in> E | None \<Rightarrow> False))"

lemma safe_pick_simps [simp]:
  "safe_pick E (Some x, h, None) \<longleftrightarrow> x \<in> E"
  "\<not> safe_pick E (None, h, None)"
  "safe_pick E (e, h, Some err)"
  by (simp_all add: safe_pick_def)

lemma good_safe: "good_pick E r \<Longrightarrow> safe_pick E r"
  by (simp add: good_pick_def safe_pick_def split: prod.splits option.splits)

locale safe_strategy =
  fixes ok :: bool
    and Update :: "endpoint list \<Rightarrow> (endpoint \<rightharpoonup> attribute) \<Rightarrow> 's \<Rightarrow> 's result"
    and Select :: "matchTarget \<Rightarrow> draws \<Rightarrow> ('s, go_error, selectResult) go"
    and wf :: "'s \<Rightarrow> bool"
    and holds :: "'s \<Rightarrow> endpoint set \<Rightarrow> bool"
  assumes update_holds: "ok \<Longrightarrow> wf s \<Longrightarrow> range_order ord m \<Longrightarrow> attrs_present m \<Longrightarrow>
      \<exists>s'. Update ord m s = Ret s' \<and> wf s' \<and> holds s' (dom m)"
    and select_holds: "ok \<Longrightarrow> wf s \<Longrightarrow> holds s E \<Longrightarrow>
      wf (snd (Select t d s)) \<and> holds (snd (Select t d s)) E"
    and select_safe: "ok \<Longrightarrow> wf s \<Longrightarrow> holds s E \<Longrightarrow> \<exists>r. fst (Select t d s) = Ret r \<and> safe_pick E r"
begin

lemma select_run_safe:
  "ok \<Longrightarrow> wf s \<Longrightarrow> holds s E \<Longrightarrow>
     (\<forall>r \<in> set (fst (select_run Select calls s)). \<exists>p. r = Ret p \<and> safe_pick E p)
     \<and> wf (snd (select_run Select calls s)) \<and> holds (snd (select_run Select calls s)) E"
proof (induction calls arbitrary: s)
  case (Cons c calls)
  obtain t d where c: "c = (t, d)" by (cases c)
  obtain r s' where step: "Select t d s = (r, s')" by (cases "Select t d s")
  then have "wf s'" "holds s' E" "\<exists>p. r = Ret p \<and> safe_pick E p"
    using select_holds [OF Cons.prems, of t d] select_safe [OF Cons.prems, of t d] by simp_all
  with Cons.IH [OF Cons.prems(1), of s'] step c show ?case
    by (auto split: prod.splits)
qed simp

text \<open>Whatever is selected without an error after an update was in the updated map.\<close>

lemma updated_run_safe:
  assumes ok and "wf s" and "range_order ord m" and "attrs_present m"
  shows "\<exists>s'. Update ord m s = Ret s'
    \<and> (\<forall>r \<in> set (fst (select_run Select calls s')). \<exists>p. r = Ret p \<and> safe_pick (dom m) p)"
  using update_holds [OF assms] select_run_safe [OF assms(1)] by blast

end

text \<open>
  The stricter contract of the strategies without memory of single endpoints: an error comes
  without an endpoint, and any state can be updated.
\<close>

locale strategy_contract =
  fixes ok :: bool
    and Update :: "endpoint list \<Rightarrow> (endpoint \<rightharpoonup> attribute) \<Rightarrow> 's \<Rightarrow> 's result"
    and Select :: "matchTarget \<Rightarrow> draws \<Rightarrow> ('s, go_error, selectResult) go"
    and holds :: "'s \<Rightarrow> endpoint set \<Rightarrow> bool"
  assumes update_holds: "ok \<Longrightarrow> range_order ord m \<Longrightarrow> attrs_present m \<Longrightarrow>
      \<exists>s'. Update ord m s = Ret s' \<and> holds s' (dom m)"
    and select_holds: "ok \<Longrightarrow> holds s E \<Longrightarrow> holds (snd (Select t d s)) E"
    and select_picks: "ok \<Longrightarrow> holds s E \<Longrightarrow> \<exists>r. fst (Select t d s) = Ret r \<and> good_pick E r"
begin

lemma select_run_picks:
  "ok \<Longrightarrow> holds s E \<Longrightarrow>
     (\<forall>r \<in> set (fst (select_run Select calls s)). \<exists>p. r = Ret p \<and> good_pick E p)
     \<and> holds (snd (select_run Select calls s)) E"
proof (induction calls arbitrary: s)
  case (Cons c calls)
  obtain t d where c: "c = (t, d)" by (cases c)
  obtain r s' where step: "Select t d s = (r, s')" by (cases "Select t d s")
  then have "holds s' E" "\<exists>p. r = Ret p \<and> good_pick E p"
    using select_holds [OF Cons.prems, of t d] select_picks [OF Cons.prems, of t d] by simp_all
  with Cons.IH [OF Cons.prems(1), of s'] step c show ?case
    by (auto split: prod.splits)
qed simp

text \<open>Whatever is selected after an update was in the updated map, however often it is called.\<close>

lemma updated_run_picks:
  assumes ok and "range_order ord m" and "attrs_present m"
  obtains s' where "Update ord m s = Ret s'"
    and "\<forall>r \<in> set (fst (select_run Select calls s')). \<exists>p. r = Ret p \<and> good_pick (dom m) p"
  using update_holds [OF assms, of s] select_run_picks [OF assms(1)] by blast

lemma updated_select:
  assumes ok and "range_order ord m" and "attrs_present m"
  shows "\<exists>s' r s''. Update ord m s = Ret s' \<and> Select t d s' = (Ret r, s'') \<and> good_pick (dom m) r"
  using update_holds [OF assms, of s] select_picks [OF assms(1)]
  by (metis fst_conv surj_pair)

end

sublocale strategy_contract \<subseteq> safe: safe_strategy ok Update Select "\<lambda>_. True" holds
proof unfold_locales
  show "\<exists>r. fst (Select t d s) = Ret r \<and> safe_pick E r" if ok "holds s E" for s E t d
    using select_picks [OF that] good_safe by blast
qed (simp_all add: update_holds select_holds)

text \<open>
  A strategy that does not refuse: with an endpoint to pick, and fewer than the range of its counters,
  it picks one.
\<close>

locale generous_strategy = strategy_contract +
  assumes select_some: "ok \<Longrightarrow> holds s E \<Longrightarrow> E \<noteq> {} \<Longrightarrow> card E < 2 ^ 32 \<Longrightarrow>
      \<exists>e h. fst (Select t d s) = Ret (Some e, h, None)"
begin

lemma select_one:
  assumes ok and "holds s E" and "E \<noteq> {}" and "card E < 2 ^ 32"
  shows "\<exists>e h. fst (Select t d s) = Ret (Some e, h, None) \<and> e \<in> E"
proof -
  obtain e h where e: "fst (Select t d s) = Ret (Some e, h, None)" using select_some [OF assms] by blast
  then have "good_pick E (Some e, h, None)" using select_picks [OF assms(1,2), of t d] by simp
  then show ?thesis using e by simp
qed

end

section \<open>Random\<close>

record randomStrategy =
  rnd_endpoints :: "endpoint list"

definition Random_Build :: "selector \<Rightarrow> randomStrategy" where
  "Random_Build s = \<lparr>rnd_endpoints = []\<rparr>"

definition Random_Select :: "matchTarget \<Rightarrow> draws \<Rightarrow> (randomStrategy, go_error, selectResult) go" where
  "Random_Select t d = read_only (\<lambda>r.
     let size = length (rnd_endpoints r) in
     if size = 0 then Ret (sel_error ErrNoEndpointAvailable)
     else out_bind (Intn (draw1 d) size) (\<lambda>i.
            out_bind (nth_go (rnd_endpoints r) i) (\<lambda>e. Ret (sel_ok e))))"

definition Random_EndpointFilters :: "endpointFilter list" where
  "Random_EndpointFilters = [GoodEndpointFilter, FuseEndpointFilter]"

definition Random_Update :: "endpoint list \<Rightarrow> (endpoint \<rightharpoonup> attribute) \<Rightarrow> randomStrategy \<Rightarrow> randomStrategy result" where
  "Random_Update ord m r = Ret (r\<lparr>rnd_endpoints := map fst (range_items ord m)\<rparr>)"

definition random_holds :: "randomStrategy \<Rightarrow> endpoint set \<Rightarrow> bool" where
  "random_holds r E \<longleftrightarrow> set (rnd_endpoints r) = E"

lemma Random_Select_eq:
  "Random_Select t d r =
     (if rnd_endpoints r = [] then (Ret (sel_error ErrNoEndpointAvailable), r)
      else (Ret (sel_ok (rnd_endpoints r ! (draw1 d mod length (rnd_endpoints r)))), r))"
  by (simp add: Random_Select_def Let_def)

interpretation random: strategy_contract True Random_Update Random_Select random_holds
  by unfold_locales
    (auto simp: Random_Update_def random_holds_def range_items_fst range_order_set Random_Select_eq)

interpretation random: generous_strategy True Random_Update Random_Select random_holds
  by unfold_locales (auto simp: random_holds_def Random_Select_eq)

section \<open>Round robin\<close>

record roundRobinStrategy =
  rr_endpoints :: "endpoint list"
  rr_lastIdx :: u32

definition RoundRobin_Build :: "selector \<Rightarrow> roundRobinStrategy" where
  "RoundRobin_Build s = \<lparr>rr_endpoints = [], rr_lastIdx = 0\<rparr>"

definition RoundRobin_Select :: "matchTarget \<Rightarrow> draws \<Rightarrow> (roundRobinStrategy, go_error, selectResult) go" where
  "RoundRobin_Select t d = (\<lambda>r.
     let size = (word_of_nat (length (rr_endpoints r)) :: u32) in
     if size = 0 then (Ret (sel_error ErrNoEndpointAvailable), r)
     else (let r' = r\<lparr>rr_lastIdx := rr_lastIdx r + 1\<rparr> in
           (out_bind (nth_go (rr_endpoints r') (unat (rr_lastIdx r' mod size))) (\<lambda>e. Ret (sel_ok e)), r')))"

definition RoundRobin_EndpointFilters :: "endpointFilter list" where
  "RoundRobin_EndpointFilters = [GoodEndpointFilter, FuseEndpointFilter]"

definition RoundRobin_Update :: "endpoint list \<Rightarrow> (endpoint \<rightharpoonup> attribute) \<Rightarrow> roundRobinStrategy \<Rightarrow> roundRobinStrategy result" where
  "RoundRobin_Update ord m r = Ret (r\<lparr>rr_endpoints := map fst (range_items ord m)\<rparr>)"

definition round_robin_holds :: "roundRobinStrategy \<Rightarrow> endpoint set \<Rightarrow> bool" where
  "round_robin_holds r E \<longleftrightarrow> distinct (rr_endpoints r) \<and> set (rr_endpoints r) = E"

lemma RoundRobin_index:
  assumes "(word_of_nat (length xs) :: u32) \<noteq> 0"
  shows "unat (w mod (word_of_nat (length xs) :: u32)) < length xs"
proof -
  have "unat (w mod (word_of_nat (length xs) :: u32)) < unat (word_of_nat (length xs) :: u32)"
    using assms by (simp add: unat_mod_distrib unat_gt_0)
  also have "\<dots> \<le> length xs" by (simp add: unat_of_nat)
  finally show ?thesis .
qed

interpretation round_robin: strategy_contract True RoundRobin_Update RoundRobin_Select round_robin_holds
  by unfold_locales
    (auto simp: RoundRobin_Update_def round_robin_holds_def range_items_fst range_order_set
      RoundRobin_Select_def Let_def RoundRobin_index)

text \<open>
  With at least one endpoint and fewer than \<open>2^32\<close>, a selection advances the index and returns the
  endpoint it points to.
\<close>

lemma RoundRobin_Select_eq:
  assumes "rr_endpoints r \<noteq> []" and "length (rr_endpoints r) < 2 ^ 32"
  shows "RoundRobin_Select t d r =
    (Ret (sel_ok (rr_endpoints r ! (unat (rr_lastIdx r + 1) mod length (rr_endpoints r)))),
     r\<lparr>rr_lastIdx := rr_lastIdx r + 1\<rparr>)"
proof -
  have "unat (word_of_nat (length (rr_endpoints r)) :: u32) = length (rr_endpoints r)"
    using assms(2) by (simp add: unat_of_nat)
  moreover from this have "(word_of_nat (length (rr_endpoints r)) :: u32) \<noteq> 0"
    using assms(1) by (metis length_0_conv unat_0)
  ultimately show ?thesis
    using assms(1) by (simp add: RoundRobin_Select_def Let_def unat_mod_distrib)
qed

interpretation round_robin: generous_strategy True RoundRobin_Update RoundRobin_Select round_robin_holds
proof unfold_locales
  show "\<exists>e h. fst (RoundRobin_Select t d s) = Ret (Some e, h, None)"
    if "round_robin_holds s E" "E \<noteq> {}" "card E < 2 ^ 32" for s E t d
  proof -
    have "rr_endpoints s \<noteq> []" "length (rr_endpoints s) < 2 ^ 32"
      using that by (auto simp: round_robin_holds_def distinct_card)
    then show ?thesis by (simp add: RoundRobin_Select_eq)
  qed
qed

text \<open>The \<open>k\<close>-th of a row of selections, counted from 0.\<close>

fun rr_nth :: "nat \<Rightarrow> roundRobinStrategy \<Rightarrow> endpoint" where
  "rr_nth k r = rr_endpoints r ! ((unat (rr_lastIdx r) + k + 1) mod length (rr_endpoints r))"

lemma round_robin_run:
  assumes "rr_endpoints r \<noteq> []" and "length (rr_endpoints r) < 2 ^ 32"
    and "unat (rr_lastIdx r) + length calls < 2 ^ 32"
  shows "select_run RoundRobin_Select calls r =
    (map (\<lambda>k. Ret (sel_ok (rr_nth k r))) [0..<length calls],
     r\<lparr>rr_lastIdx := rr_lastIdx r + word_of_nat (length calls)\<rparr>)"
  using assms
proof (induction calls arbitrary: r)
  case (Cons c calls)
  obtain t d where c: "c = (t, d)" by (cases c)
  have idx: "unat (rr_lastIdx r + 1) = Suc (unat (rr_lastIdx r))"
    using Cons.prems(3) by (simp add: unat_word_Suc)
  have "select_run RoundRobin_Select calls (r\<lparr>rr_lastIdx := rr_lastIdx r + 1\<rparr>) =
      (map (\<lambda>k. Ret (sel_ok (rr_nth k (r\<lparr>rr_lastIdx := rr_lastIdx r + 1\<rparr>)))) [0..<length calls],
       r\<lparr>rr_lastIdx := rr_lastIdx r + 1 + word_of_nat (length calls)\<rparr>)"
    using Cons.prems idx by (subst Cons.IH) simp_all
  with Cons.prems(1,2) idx show ?case
    by (simp add: c RoundRobin_Select_eq upt_conv_Cons map_Suc_upt [symmetric] add.assoc
        del: upt_Suc map_Suc_upt)
qed simp

lemma rr_window_bij:
  assumes "rr_endpoints r \<noteq> []" and "distinct (rr_endpoints r)"
  shows "bij_betw (\<lambda>k. rr_nth k r) {..<length (rr_endpoints r)} (set (rr_endpoints r))"
proof -
  let ?n = "length (rr_endpoints r)"
  have pos: "0 < ?n" using assms(1) by simp
  have "bij_betw (\<lambda>k. (unat (rr_lastIdx r) + 1 + k) mod ?n) {..<?n} {..<?n}"
    unfolding bij_betw_def using mod_window_permutes [OF pos, of "unat (rr_lastIdx r) + 1"] by blast
  moreover have "bij_betw ((!) (rr_endpoints r)) {..<?n} (set (rr_endpoints r))"
    using assms(2) by (simp add: bij_betw_nth)
  ultimately have "bij_betw ((!) (rr_endpoints r) \<circ> (\<lambda>k. (unat (rr_lastIdx r) + 1 + k) mod ?n))
      {..<?n} (set (rr_endpoints r))"
    by (rule bij_betw_trans)
  then show ?thesis by (simp add: comp_def add_ac)
qed

section \<open>Least request\<close>

record leastRequestStrategy =
  lr_endpoints :: "endpoint list"
  lr_attributes :: "attribute list"

definition LeastRequest_Build :: "selector \<Rightarrow> leastRequestStrategy" where
  "LeastRequest_Build s = \<lparr>lr_endpoints = [], lr_attributes = []\<rparr>"

definition LeastRequest_Select :: "matchTarget \<Rightarrow> draws \<Rightarrow> (leastRequestStrategy, go_error, selectResult) go" where
  "LeastRequest_Select t d = read_only (\<lambda>r.
     let size = length (lr_endpoints r) in
     if size = 0 then Ret (sel_error ErrNoEndpointAvailable)
     else if size = 1 then out_bind (nth_go (lr_endpoints r) 0) (\<lambda>e. Ret (sel_ok e))
     else out_bind (Intn (draw1 d) size) (\<lambda>index1.
          out_bind (Intn (draw2 d) size) (\<lambda>index2.
          out_bind (nth_go (lr_attributes r) index1) (\<lambda>a1.
          out_bind (attr_field RPS a1) (\<lambda>rps1p.
          out_bind (nth_go (lr_attributes r) index2) (\<lambda>a2.
          out_bind (attr_field RPS a2) (\<lambda>rps2p.
            let rps1 = (case rps1p of Some x \<Rightarrow> x | None \<Rightarrow> 0);
                rps2 = (case rps2p of Some x \<Rightarrow> x | None \<Rightarrow> 0)
            in if rps1 < rps2 then out_bind (nth_go (lr_endpoints r) index1) (\<lambda>e. Ret (sel_ok e))
               else out_bind (nth_go (lr_endpoints r) index2) (\<lambda>e. Ret (sel_ok e)))))))))"

definition LeastRequest_EndpointFilters :: "endpointFilter list" where
  "LeastRequest_EndpointFilters = [GoodEndpointFilter, FuseEndpointFilter]"

definition LeastRequest_Update :: "endpoint list \<Rightarrow> (endpoint \<rightharpoonup> attribute) \<Rightarrow> leastRequestStrategy \<Rightarrow> leastRequestStrategy result" where
  "LeastRequest_Update ord m r =
     Ret (r\<lparr>lr_endpoints := map fst (range_items ord m), lr_attributes := map snd (range_items ord m)\<rparr>)"

section \<open>Least cost\<close>

record leastCostStrategy =
  lc_endpoints :: "endpoint list"
  lc_attributes :: "attribute list"

definition LeastCost_Build :: "selector \<Rightarrow> leastCostStrategy" where
  "LeastCost_Build s = \<lparr>lc_endpoints = [], lc_attributes = []\<rparr>"

definition LeastCost_Select :: "matchTarget \<Rightarrow> draws \<Rightarrow> (leastCostStrategy, go_error, selectResult) go" where
  "LeastCost_Select t d = read_only (\<lambda>r.
     let size = length (lc_endpoints r) in
     if size = 0 then Ret (sel_error ErrNoEndpointAvailable)
     else if size = 1 then out_bind (nth_go (lc_endpoints r) 0) (\<lambda>e. Ret (sel_ok e))
     else out_bind (Intn (draw1 d) size) (\<lambda>index1.
          out_bind (Intn (draw2 d) size) (\<lambda>index2.
          out_bind (nth_go (lc_attributes r) index1) (\<lambda>a1.
          out_bind (attr_field Weight a1) (\<lambda>w1.
          out_bind (nth_go (lc_attributes r) index2) (\<lambda>a2.
          out_bind (attr_field Weight a2) (\<lambda>w2.
            let weight1 = (case w1 of Some x \<Rightarrow> x | None \<Rightarrow> 1);
                weight2 = (case w2 of Some x \<Rightarrow> x | None \<Rightarrow> 1)
            in if weight1 < weight2 then out_bind (nth_go (lc_endpoints r) index1) (\<lambda>e. Ret (sel_ok e))
               else out_bind (nth_go (lc_endpoints r) index2) (\<lambda>e. Ret (sel_ok e)))))))))"

definition LeastCost_EndpointFilters :: "endpointFilter list" where
  "LeastCost_EndpointFilters = [GoodEndpointFilter, FuseEndpointFilter]"

definition LeastCost_Update :: "endpoint list \<Rightarrow> (endpoint \<rightharpoonup> attribute) \<Rightarrow> leastCostStrategy \<Rightarrow> leastCostStrategy result" where
  "LeastCost_Update ord m r =
     Ret (r\<lparr>lc_endpoints := map fst (range_items ord m), lc_attributes := map snd (range_items ord m)\<rparr>)"

section \<open>The choice between two sampled endpoints\<close>

text \<open>
  What both strategies compute, over the value they compare: the better of two sampled entries,
  the second on a tie.
\<close>

definition better_of :: "(attribute \<Rightarrow> u32) \<Rightarrow> (endpoint \<times> attribute) list \<Rightarrow> draws \<Rightarrow> endpoint" where
  "better_of cost items d =
     (let x = items ! (draw1 d mod length items); y = items ! (draw2 d mod length items)
      in if cost (snd x) < cost (snd y) then fst x else fst y)"

definition rps_cost :: "attribute \<Rightarrow> u32" where
  "rps_cost a = (case InSel a of Some x \<Rightarrow> (case RPS x of Some n \<Rightarrow> n | None \<Rightarrow> 0) | None \<Rightarrow> 0)"

definition weight_cost :: "attribute \<Rightarrow> u32" where
  "weight_cost a = (case InSel a of Some x \<Rightarrow> (case Weight x of Some n \<Rightarrow> n | None \<Rightarrow> 1) | None \<Rightarrow> 1)"

definition lr_items :: "leastRequestStrategy \<Rightarrow> (endpoint \<times> attribute) list" where
  "lr_items r = zip (lr_endpoints r) (lr_attributes r)"

definition lc_items :: "leastCostStrategy \<Rightarrow> (endpoint \<times> attribute) list" where
  "lc_items r = zip (lc_endpoints r) (lc_attributes r)"

definition lr_holds :: "leastRequestStrategy \<Rightarrow> endpoint set \<Rightarrow> bool" where
  "lr_holds r E \<longleftrightarrow>
     length (lr_attributes r) = length (lr_endpoints r)
     \<and> (\<forall>a \<in> set (lr_attributes r). InSel a \<noteq> None) \<and> set (lr_endpoints r) = E"

definition lc_holds :: "leastCostStrategy \<Rightarrow> endpoint set \<Rightarrow> bool" where
  "lc_holds r E \<longleftrightarrow>
     length (lc_attributes r) = length (lc_endpoints r)
     \<and> (\<forall>a \<in> set (lc_attributes r). InSel a \<noteq> None) \<and> set (lc_endpoints r) = E"

lemma better_of_mem: "items \<noteq> [] \<Longrightarrow> better_of cost items d \<in> fst ` set items"
  by (auto simp: better_of_def Let_def intro!: imageI nth_mod_mem)

lemma LeastRequest_Select_eq:
  assumes "lr_holds r E"
  shows "LeastRequest_Select t d r =
    (if lr_endpoints r = [] then (Ret (sel_error ErrNoEndpointAvailable), r)
     else (Ret (sel_ok (better_of rps_cost (lr_items r) d)), r))"
proof (cases "length (lr_endpoints r) \<le> 1")
  case True
  with assms show ?thesis
    by (cases "lr_endpoints r") (auto simp: LeastRequest_Select_def better_of_def lr_items_def lr_holds_def
        length_Suc_conv)
next
  case False
  let ?n = "length (lr_endpoints r)" and ?a = "lr_attributes r"
  have n: "length ?a = ?n" "0 < ?n" "?n \<noteq> 1" using assms False by (auto simp: lr_holds_def)
  have "?a ! (i mod ?n) \<in> set ?a" for i using n by (metis mod_less_divisor nth_mem)
  then have "\<exists>x. InSel (?a ! (i mod ?n)) = Some x" for i
    using assms by (fastforce simp: lr_holds_def)
  then obtain f where f: "\<And>i. InSel (?a ! (i mod ?n)) = Some (f i)" by metis
  have ne: "lr_endpoints r \<noteq> []" using n by auto
  from n ne show ?thesis
    by (simp add: LeastRequest_Select_def Let_def f better_of_def lr_items_def rps_cost_def)
qed

lemma LeastCost_Select_eq:
  assumes "lc_holds r E"
  shows "LeastCost_Select t d r =
    (if lc_endpoints r = [] then (Ret (sel_error ErrNoEndpointAvailable), r)
     else (Ret (sel_ok (better_of weight_cost (lc_items r) d)), r))"
proof (cases "length (lc_endpoints r) \<le> 1")
  case True
  with assms show ?thesis
    by (cases "lc_endpoints r") (auto simp: LeastCost_Select_def better_of_def lc_items_def lc_holds_def
        length_Suc_conv)
next
  case False
  let ?n = "length (lc_endpoints r)" and ?a = "lc_attributes r"
  have n: "length ?a = ?n" "0 < ?n" "?n \<noteq> 1" using assms False by (auto simp: lc_holds_def)
  have "?a ! (i mod ?n) \<in> set ?a" for i using n by (metis mod_less_divisor nth_mem)
  then have "\<exists>x. InSel (?a ! (i mod ?n)) = Some x" for i
    using assms by (fastforce simp: lc_holds_def)
  then obtain f where f: "\<And>i. InSel (?a ! (i mod ?n)) = Some (f i)" by metis
  have ne: "lc_endpoints r \<noteq> []" using n by auto
  from n ne show ?thesis
    by (simp add: LeastCost_Select_def Let_def f better_of_def lc_items_def weight_cost_def)
qed

lemma range_items_snd_present:
  "attrs_present m \<Longrightarrow> a \<in> set (map snd (range_items ord m)) \<Longrightarrow> InSel a \<noteq> None"
  by (auto simp: attrs_present_def range_items_set)

lemma zip_pick_mem:
  assumes "length xs = length ys" and "xs \<noteq> []"
  shows "better_of c (zip xs ys) d \<in> set xs"
proof -
  have "zip xs ys \<noteq> []" using assms by (cases xs; cases ys) auto
  then have "better_of c (zip xs ys) d \<in> set (map fst (zip xs ys))"
    using better_of_mem by (metis list.set_map)
  then show ?thesis using assms(1) by simp
qed

lemma lr_pick_mem: "lr_holds r E \<Longrightarrow> lr_endpoints r \<noteq> [] \<Longrightarrow> better_of c (lr_items r) d \<in> E"
  using zip_pick_mem [of "lr_endpoints r" "lr_attributes r" c d] by (simp add: lr_holds_def lr_items_def)

lemma lc_pick_mem: "lc_holds r E \<Longrightarrow> lc_endpoints r \<noteq> [] \<Longrightarrow> better_of c (lc_items r) d \<in> E"
  using zip_pick_mem [of "lc_endpoints r" "lc_attributes r" c d] by (simp add: lc_holds_def lc_items_def)

interpretation least_request: strategy_contract True LeastRequest_Update LeastRequest_Select lr_holds
proof unfold_locales
  show "\<exists>s'. LeastRequest_Update ord m s = Ret s' \<and> lr_holds s' (dom m)"
    if "range_order ord m" "attrs_present m" for ord m s
    using that range_items_snd_present [OF that(2)]
    by (auto simp: LeastRequest_Update_def lr_holds_def range_items_fst range_items_length range_order_set)
qed (auto simp: LeastRequest_Select_eq lr_pick_mem)

interpretation least_cost: strategy_contract True LeastCost_Update LeastCost_Select lc_holds
proof unfold_locales
  show "\<exists>s'. LeastCost_Update ord m s = Ret s' \<and> lc_holds s' (dom m)"
    if "range_order ord m" "attrs_present m" for ord m s
    using that range_items_snd_present [OF that(2)]
    by (auto simp: LeastCost_Update_def lc_holds_def range_items_fst range_items_length range_order_set)
qed (auto simp: LeastCost_Select_eq lc_pick_mem)

interpretation least_request: generous_strategy True LeastRequest_Update LeastRequest_Select lr_holds
  by unfold_locales (auto simp: LeastRequest_Select_eq lr_holds_def)

interpretation least_cost: generous_strategy True LeastCost_Update LeastCost_Select lc_holds
  by unfold_locales (auto simp: LeastCost_Select_eq lc_holds_def)

end
