(* ===== verification/Weighted.thy ===== *)
theory Weighted
  imports Treemap Strategies "HOL-Library.Multiset"
begin

text \<open>
  The two weighted strategies (\<open>strategy/impl/weighted_random.go\<close>, \<open>weighted_round_robin.go\<close>):
  a tree from the running sum of the weights to the endpoint whose stretch starts there. The
  reference is the \<open>wheel\<close>, the list in which every endpoint stands as often as its weight. The
  running sum of the first is a 64-bit \<open>int\<close>, too wide for a sum of 32-bit weights to overflow,
  and is an integer here; the one of the second is a \<open>uint32\<close> and wraps around.
\<close>

section \<open>Weighted random\<close>

record 'm weightedRandomStrategy =
  wr_total :: int
  wr_stages :: "'m option"

definition WeightedRandom_Build :: "selector \<Rightarrow> 'm weightedRandomStrategy" where
  "WeightedRandom_Build s = \<lparr>wr_total = 0, wr_stages = None\<rparr>"

definition WeightedRandom_Select :: "'m treemap \<Rightarrow> matchTarget \<Rightarrow> draws \<Rightarrow>
    ('m weightedRandomStrategy, go_error, selectResult) go" where
  "WeightedRandom_Select tm t d = read_only (\<lambda>r.
     if wr_total r = 0 then Ret (sel_error ErrNoEndpointAvailable)
     else (let rnd = int (draw1 d) mod wr_total r in
       case wr_stages r of
         None \<Rightarrow> Panicked NilDeref
       | Some m \<Rightarrow>
           (case tm_Floor tm m rnd of
              None \<Rightarrow> Ret (sel_error ErrNoEndpointAvailable)
            | Some kv \<Rightarrow> Ret (sel_ok (snd kv)))))"

definition WeightedRandom_EndpointFilters :: "endpointFilter list" where
  "WeightedRandom_EndpointFilters = [GoodEndpointFilter, FuseEndpointFilter]"

fun wr_fill :: "'m treemap \<Rightarrow> (endpoint \<times> attribute) list \<Rightarrow> int \<Rightarrow> 'm \<Rightarrow> (int \<times> 'm) result" where
  "wr_fill tm [] tw m = Ret (tw, m)"
| "wr_fill tm ((e, a) # items) tw m =
     out_bind (attr_field Weight a) (\<lambda>w.
       wr_fill tm items (tw + (case w of None \<Rightarrow> 1 | Some x \<Rightarrow> uint x)) (tm_Put tm tw e m))"

definition WeightedRandom_Update :: "'m treemap \<Rightarrow> endpoint list \<Rightarrow> (endpoint \<rightharpoonup> attribute) \<Rightarrow>
    'm weightedRandomStrategy \<Rightarrow> 'm weightedRandomStrategy result" where
  "WeightedRandom_Update tm ord m r =
     out_bind (wr_fill tm (range_items ord m) 0 (tm_new tm)) (\<lambda>(tw, stages).
       Ret (r\<lparr>wr_total := tw, wr_stages := Some stages\<rparr>))"

section \<open>Weighted round robin\<close>

record 'm weightedRoundRobinStrategy =
  wrr_stages :: "'m option"
  wrr_total :: u32
  wrr_lastIdx :: u32

definition WeightedRoundRobin_Build :: "selector \<Rightarrow> 'm weightedRoundRobinStrategy" where
  "WeightedRoundRobin_Build s = \<lparr>wrr_stages = None, wrr_total = 0, wrr_lastIdx = 0\<rparr>"

text \<open>The result of \<open>Floor\<close> is asserted to be an endpoint without a test for nil.\<close>

definition WeightedRoundRobin_Select :: "'m treemap \<Rightarrow> matchTarget \<Rightarrow> draws \<Rightarrow>
    ('m weightedRoundRobinStrategy, go_error, selectResult) go" where
  "WeightedRoundRobin_Select tm t d = (\<lambda>r.
     if wrr_total r = 0 then (Ret (sel_error ErrNoEndpointAvailable), r)
     else (let r' = r\<lparr>wrr_lastIdx := wrr_lastIdx r + 1\<rparr> in
       (case wrr_stages r' of
          None \<Rightarrow> Panicked NilDeref
        | Some m \<Rightarrow>
            (case tm_Floor tm m (uint (wrr_lastIdx r' mod wrr_total r')) of
               None \<Rightarrow> Panicked BadAssertion
             | Some kv \<Rightarrow> Ret (sel_ok (snd kv))), r')))"

definition WeightedRoundRobin_EndpointFilters :: "endpointFilter list" where
  "WeightedRoundRobin_EndpointFilters = [GoodEndpointFilter, FuseEndpointFilter]"

fun wrr_fill :: "'m treemap \<Rightarrow> (endpoint \<times> attribute) list \<Rightarrow> u32 \<Rightarrow> 'm \<Rightarrow> (u32 \<times> 'm) result" where
  "wrr_fill tm [] tw m = Ret (tw, m)"
| "wrr_fill tm ((e, a) # items) tw m =
     out_bind (attr_field Weight a) (\<lambda>w.
       wrr_fill tm items (tw + (case w of None \<Rightarrow> 1 | Some x \<Rightarrow> x)) (tm_Put tm (uint tw) e m))"

definition WeightedRoundRobin_Update :: "'m treemap \<Rightarrow> endpoint list \<Rightarrow> (endpoint \<rightharpoonup> attribute) \<Rightarrow>
    'm weightedRoundRobinStrategy \<Rightarrow> 'm weightedRoundRobinStrategy result" where
  "WeightedRoundRobin_Update tm ord m r =
     out_bind (wrr_fill tm (range_items ord m) 0 (tm_new tm)) (\<lambda>(tw, stages).
       Ret (r\<lparr>wrr_total := tw, wrr_stages := Some stages\<rparr>))"

section \<open>The wheel\<close>

text \<open>The weight the strategies use: the configured one, or 1.\<close>

definition weight_of :: "attribute \<Rightarrow> nat" where
  "weight_of a = (case InSel a of Some x \<Rightarrow> (case Weight x of Some w \<Rightarrow> unat w | None \<Rightarrow> 1) | None \<Rightarrow> 1)"

definition wheel :: "(endpoint \<times> attribute) list \<Rightarrow> endpoint list" where
  "wheel items = concat (map (\<lambda>(e, a). replicate (weight_of a) e) items)"

definition total_weight :: "(endpoint \<times> attribute) list \<Rightarrow> nat" where
  "total_weight items = sum_list (map (weight_of \<circ> snd) items)"

lemma wheel_Nil [simp]: "wheel [] = []"
  by (simp add: wheel_def)

lemma wheel_Cons [simp]: "wheel ((e, a) # items) = replicate (weight_of a) e @ wheel items"
  by (simp add: wheel_def)

lemma total_weight_simps [simp]:
  "total_weight [] = 0" "total_weight ((e, a) # items) = weight_of a + total_weight items"
  by (simp_all add: total_weight_def)

lemma length_wheel [simp]: "length (wheel items) = total_weight items"
  by (induction items) auto

lemma wheel_subset: "set (wheel items) \<subseteq> fst ` set items"
  by (induction items) (auto split: if_splits)

lemma count_replicate: "count_list (replicate n x) y = (if x = y then n else 0)"
  by (induction n) auto

lemma count_wheel_notin: "e \<notin> fst ` set items \<Longrightarrow> count_list (wheel items) e = 0"
  unfolding count_list_0_iff using wheel_subset [of items] by blast

lemma count_wheel:
  "distinct (map fst items) \<Longrightarrow> (e, a) \<in> set items \<Longrightarrow> count_list (wheel items) e = weight_of a"
proof (induction items)
  case (Cons x items)
  obtain e' a' where x: "x = (e', a')" by (cases x)
  show ?case
  proof (cases "e = e'")
    case True
    then have "e \<notin> fst ` set items" using Cons.prems(1) x by simp
    moreover from this have "a = a'" using Cons.prems(2) x True by force
    ultimately show ?thesis using True x by (simp add: count_replicate count_wheel_notin)
  next
    case False
    then show ?thesis using Cons x by (simp add: count_replicate)
  qed
qed simp

text \<open>What the tree says of the stretch filled so far.\<close>

definition tree_reads :: "(int \<rightharpoonup> endpoint) \<Rightarrow> endpoint list \<Rightarrow> bool" where
  "tree_reads c L \<longleftrightarrow>
     (\<forall>x < length L. \<exists>k. is_floor c (int x) (k, L ! x)) \<and> (\<forall>j. c j \<noteq> None \<longrightarrow> j \<le> int (length L))"

lemma tree_reads_Put:
  assumes "tree_reads c L"
  shows "tree_reads (c(int (length L) \<mapsto> e)) (L @ replicate w e)"
  unfolding tree_reads_def
proof (intro conjI allI impI)
  fix x assume x: "x < length (L @ replicate w e)"
  show "\<exists>k. is_floor (c(int (length L) \<mapsto> e)) (int x) (k, (L @ replicate w e) ! x)"
  proof (cases "x < length L")
    case True
    then obtain k where "is_floor c (int x) (k, L ! x)" using assms by (auto simp: tree_reads_def)
    with True have "is_floor (c(int (length L) \<mapsto> e)) (int x) (k, (L @ replicate w e) ! x)"
      by (auto simp: is_floor_def nth_append)
    then show ?thesis ..
  next
    case False
    with x assms have "is_floor (c(int (length L) \<mapsto> e)) (int x) (int (length L), (L @ replicate w e) ! x)"
      by (auto simp: is_floor_def nth_append tree_reads_def)
    then show ?thesis ..
  qed
next
  fix j assume "(c(int (length L) \<mapsto> e)) j \<noteq> None"
  with assms show "j \<le> int (length (L @ replicate w e))"
    by (fastforce simp: tree_reads_def split: if_splits)
qed

lemma attrs_weight:
  "InSel a \<noteq> None \<Longrightarrow> \<exists>w. attr_field Weight a = Ret w
     \<and> (case w of None \<Rightarrow> 1 | Some x \<Rightarrow> uint x) = int (weight_of a)
     \<and> (case w of None \<Rightarrow> 1 | Some x \<Rightarrow> x) = (word_of_nat (weight_of a) :: u32)"
  by (auto simp: weight_of_def split: option.split)

lemma wr_fill_reads:
  assumes "treemap_ok tm" and "\<forall>a \<in> set (map snd items). InSel a \<noteq> None"
    and "tree_reads (tm_content tm m) L"
  shows "\<exists>m'. wr_fill tm items (int (length L)) m = Ret (int (length (L @ wheel items)), m')
     \<and> tree_reads (tm_content tm m') (L @ wheel items)"
  using assms(2,3)
proof (induction items arbitrary: m L)
  case (Cons x items)
  obtain e a where x: "x = (e, a)" by (cases x)
  obtain w where w: "attr_field Weight a = Ret w"
    "(case w of None \<Rightarrow> 1 | Some x \<Rightarrow> uint x) = int (weight_of a)"
    using attrs_weight [of a] Cons.prems(1) x by auto
  have "tree_reads (tm_content tm (tm_Put tm (int (length L)) e m)) (L @ replicate (weight_of a) e)"
    using tree_reads_Put [OF Cons.prems(2)] by (simp add: treemap_okD(2) [OF assms(1)])
  from Cons.IH [OF _ this] Cons.prems(1) w x show ?case by (simp add: algebra_simps)
qed auto

lemma wrr_fill_reads:
  assumes "treemap_ok tm" and "\<forall>a \<in> set (map snd items). InSel a \<noteq> None"
    and "tree_reads (tm_content tm m) L" and "length L + total_weight items < 2 ^ 32"
  shows "\<exists>m'. wrr_fill tm items (word_of_nat (length L)) m =
      Ret (word_of_nat (length (L @ wheel items)), m')
     \<and> tree_reads (tm_content tm m') (L @ wheel items)"
  using assms(2-4)
proof (induction items arbitrary: m L)
  case (Cons x items)
  obtain e a where x: "x = (e, a)" by (cases x)
  obtain w where w: "attr_field Weight a = Ret w"
    "(case w of None \<Rightarrow> 1 | Some x \<Rightarrow> x) = (word_of_nat (weight_of a) :: u32)"
    using attrs_weight [of a] Cons.prems(1) x by auto
  have "uint (word_of_nat (length L) :: u32) = int (length L)"
    using Cons.prems(3) by (simp add: uint_nat unat_of_nat)
  then have "tree_reads (tm_content tm (tm_Put tm (uint (word_of_nat (length L) :: u32)) e m))
      (L @ replicate (weight_of a) e)"
    using tree_reads_Put [OF Cons.prems(2)] by (simp add: treemap_okD(2) [OF assms(1)])
  from Cons.IH [OF _ this] Cons.prems(1,3) w x show ?case by (simp add: algebra_simps)
qed auto

text \<open>A floor the tree answers is the element of the wheel at that place.\<close>

lemma is_floor_unique:
  assumes "is_floor c x kv" and "is_floor c x kv'"
  shows "kv = kv'"
proof -
  have "fst kv \<le> fst kv'" "fst kv' \<le> fst kv" using assms by (auto simp: is_floor_def)
  then have "fst kv = fst kv'" by simp
  then show ?thesis using assms by (simp add: is_floor_def prod_eq_iff)
qed

lemma floor_reads:
  assumes "treemap_ok tm" and "tree_reads (tm_content tm m) L" and "x < length L"
  shows "\<exists>k. tm_Floor tm m (int x) = Some (k, L ! x)"
  using assms(2,3) by (auto simp: tree_reads_def treemap_okD(5) [OF assms(1)])

section \<open>What the strategies hold after an update\<close>

text \<open>
  A state whose tree reads as the wheel \<open>L\<close> (\<open>wr_wheel\<close>, \<open>wrr_wheel\<close>), and the weaker one the
  contract needs, which also holds when the sum of the weights wraps around.
\<close>

definition wr_wheel :: "'m treemap \<Rightarrow> 'm weightedRandomStrategy \<Rightarrow> endpoint list \<Rightarrow> bool" where
  "wr_wheel tm r L \<longleftrightarrow>
     wr_total r = int (length L) \<and> (\<exists>m. wr_stages r = Some m \<and> tree_reads (tm_content tm m) L)"

definition wrr_wheel :: "'m treemap \<Rightarrow> 'm weightedRoundRobinStrategy \<Rightarrow> endpoint list \<Rightarrow> bool" where
  "wrr_wheel tm r L \<longleftrightarrow>
     unat (wrr_total r) = length L \<and> (\<exists>m. wrr_stages r = Some m \<and> tree_reads (tm_content tm m) L)"

definition wr_holds :: "'m treemap \<Rightarrow> 'm weightedRandomStrategy \<Rightarrow> endpoint set \<Rightarrow> bool" where
  "wr_holds tm r E \<longleftrightarrow> (\<exists>L. wr_wheel tm r L \<and> set L \<subseteq> E)"

definition wrr_holds :: "'m treemap \<Rightarrow> 'm weightedRoundRobinStrategy \<Rightarrow> endpoint set \<Rightarrow> bool" where
  "wrr_holds tm r E \<longleftrightarrow>
     (\<exists>m. wrr_stages r = Some m \<and> ran (tm_content tm m) \<subseteq> E
        \<and> (wrr_total r \<noteq> 0 \<longrightarrow> tm_content tm m 0 \<noteq> None))"

lemma items_present: "attrs_present m \<Longrightarrow> \<forall>a \<in> set (map snd (range_items ord m)). InSel a \<noteq> None"
  by (auto simp: attrs_present_def range_items_set)

lemma tree_reads_empty: "tree_reads Map.empty []"
  by (simp add: tree_reads_def)

lemma WeightedRandom_Update_wheel:
  assumes "treemap_ok tm" and "attrs_present m"
  shows "\<exists>r'. WeightedRandom_Update tm ord m r = Ret r' \<and> wr_wheel tm r' (wheel (range_items ord m))"
  using wr_fill_reads [OF assms(1) items_present [OF assms(2), of ord], of "tm_new tm" "[]"]
  by (auto simp: treemap_okD(1) [OF assms(1)] tree_reads_empty WeightedRandom_Update_def wr_wheel_def)

lemma WeightedRoundRobin_Update_wheel:
  assumes "treemap_ok tm" and "attrs_present m" and "total_weight (range_items ord m) < 2 ^ 32"
  shows "\<exists>r'. WeightedRoundRobin_Update tm ord m r = Ret r'
    \<and> wrr_wheel tm r' (wheel (range_items ord m)) \<and> wrr_lastIdx r' = wrr_lastIdx r"
  using wrr_fill_reads [OF assms(1) items_present [OF assms(2), of ord], of "tm_new tm" "[]"] assms(3)
  by (auto simp: treemap_okD(1) [OF assms(1)] tree_reads_empty WeightedRoundRobin_Update_def
      wrr_wheel_def unat_of_nat)

lemma WeightedRandom_Select_eq:
  assumes "treemap_ok tm" and "wr_wheel tm r L"
  shows "WeightedRandom_Select tm t d r =
    (if L = [] then (Ret (sel_error ErrNoEndpointAvailable), r)
     else (Ret (sel_ok (L ! (draw1 d mod length L))), r))"
proof (cases "L = []")
  case False
  obtain m where m: "wr_stages r = Some m" "tree_reads (tm_content tm m) L"
    using assms(2) by (auto simp: wr_wheel_def)
  have idx: "int (draw1 d) mod wr_total r = int (draw1 d mod length L)"
    using assms(2) by (simp add: wr_wheel_def zmod_int)
  obtain k where "tm_Floor tm m (int (draw1 d mod length L)) = Some (k, L ! (draw1 d mod length L))"
    using floor_reads [OF assms(1) m(2), of "draw1 d mod length L"] False by auto
  with m idx False assms(2) show ?thesis by (simp add: WeightedRandom_Select_def wr_wheel_def)
qed (use assms in \<open>simp add: WeightedRandom_Select_def wr_wheel_def\<close>)

lemma WeightedRoundRobin_Select_eq:
  assumes "treemap_ok tm" and "wrr_wheel tm r L"
  shows "WeightedRoundRobin_Select tm t d r =
    (if L = [] then (Ret (sel_error ErrNoEndpointAvailable), r)
     else (Ret (sel_ok (L ! (unat (wrr_lastIdx r + 1) mod length L))),
           r\<lparr>wrr_lastIdx := wrr_lastIdx r + 1\<rparr>))"
proof (cases "L = []")
  case False
  obtain m where m: "wrr_stages r = Some m" "tree_reads (tm_content tm m) L"
    using assms(2) by (auto simp: wrr_wheel_def)
  let ?i = "unat (wrr_lastIdx r + 1) mod length L"
  have "unat ((wrr_lastIdx r + 1) mod wrr_total r) = ?i"
    using assms(2) by (simp add: wrr_wheel_def unat_mod_distrib)
  then have idx: "uint ((wrr_lastIdx r + 1) mod wrr_total r) = int ?i" by (simp add: uint_nat)
  have "wrr_total r \<noteq> 0" using assms(2) False by (auto simp: wrr_wheel_def)
  moreover obtain k where "tm_Floor tm m (int ?i) = Some (k, L ! ?i)"
    using floor_reads [OF assms(1) m(2), of ?i] False by auto
  ultimately show ?thesis using m idx False
    by (simp add: WeightedRoundRobin_Select_def Let_def)
next
  case True
  then have "wrr_total r = 0" using assms(2) by (simp add: wrr_wheel_def unat_eq_0)
  with True show ?thesis by (simp add: WeightedRoundRobin_Select_def)
qed

section \<open>The contract\<close>

lemma wr_update_holds:
  assumes "treemap_ok tm" and "range_order ord m" and "attrs_present m"
  shows "\<exists>r'. WeightedRandom_Update tm ord m r = Ret r' \<and> wr_holds tm r' (dom m)"
  using WeightedRandom_Update_wheel [OF assms(1,3), of ord r] wheel_subset range_items_fst_set [OF assms(2)]
  unfolding wr_holds_def by metis

text \<open>With wrap-around the keys repeat, but the first one put is 0 and it stays.\<close>

lemma wrr_fill_ok:
  assumes "treemap_ok tm" and "\<forall>a \<in> set (map snd items). InSel a \<noteq> None"
  shows "\<exists>tw' m'. wrr_fill tm items tw m = Ret (tw', m')
     \<and> ran (tm_content tm m') \<subseteq> ran (tm_content tm m) \<union> fst ` set items
     \<and> dom (tm_content tm m) \<subseteq> dom (tm_content tm m')
     \<and> (items \<noteq> [] \<longrightarrow> tm_content tm m' (uint tw) \<noteq> None) \<and> (items = [] \<longrightarrow> tw' = tw)"
  using assms(2)
proof (induction items arbitrary: tw m)
  case (Cons x items)
  obtain e a where x: "x = (e, a)" by (cases x)
  obtain w where w: "attr_field Weight a = Ret w"
    using attrs_weight [of a] Cons.prems(1) x by auto
  let ?m = "tm_Put tm (uint tw) e m"
  have c: "tm_content tm ?m = (tm_content tm m)(uint tw \<mapsto> e)" by (rule treemap_okD(2) [OF assms(1)])
  obtain tw' m' where r: "wrr_fill tm items (tw + (case w of None \<Rightarrow> 1 | Some x \<Rightarrow> x)) ?m = Ret (tw', m')"
    "ran (tm_content tm m') \<subseteq> ran (tm_content tm ?m) \<union> fst ` set items"
    "dom (tm_content tm ?m) \<subseteq> dom (tm_content tm m')"
    using Cons.IH [of "tw + (case w of None \<Rightarrow> 1 | Some x \<Rightarrow> x)" ?m] Cons.prems by auto
  have "ran (tm_content tm ?m) \<subseteq> insert e (ran (tm_content tm m))" by (auto simp: c ran_def)
  moreover have "dom (tm_content tm m) \<subseteq> dom (tm_content tm m')" "uint tw \<in> dom (tm_content tm m')"
    using r(3) by (auto simp: c)
  ultimately show ?case using r(1,2) x w by auto
qed auto

lemma wrr_update_holds:
  assumes "treemap_ok tm" and "range_order ord m" and "attrs_present m"
  shows "\<exists>r'. WeightedRoundRobin_Update tm ord m r = Ret r' \<and> wrr_holds tm r' (dom m)"
  using wrr_fill_ok [OF assms(1) items_present [OF assms(3), of ord], of 0 "tm_new tm"]
    range_items_fst_set [OF assms(2)] treemap_okD(1) [OF assms(1)]
  by (fastforce simp: WeightedRoundRobin_Update_def wrr_holds_def)

lemma wr_select_holds:
  "treemap_ok tm \<Longrightarrow> wr_holds tm r E \<Longrightarrow> wr_holds tm (snd (WeightedRandom_Select tm t d r)) E"
  by (simp add: WeightedRandom_Select_def)

lemma wr_select_picks:
  assumes "treemap_ok tm" and "wr_holds tm r E"
  shows "\<exists>p. fst (WeightedRandom_Select tm t d r) = Ret p \<and> good_pick E p"
proof -
  obtain L where L: "wr_wheel tm r L" "set L \<subseteq> E" using assms(2) by (auto simp: wr_holds_def)
  show ?thesis
    using L(2) by (auto simp: WeightedRandom_Select_eq [OF assms(1) L(1)] intro: nth_mod_mem subsetD)
qed

lemma wrr_select_holds:
  "treemap_ok tm \<Longrightarrow> wrr_holds tm r E \<Longrightarrow> wrr_holds tm (snd (WeightedRoundRobin_Select tm t d r)) E"
  by (auto simp: WeightedRoundRobin_Select_def wrr_holds_def Let_def)

lemma floor_exists:
  assumes "finite (dom c)" and "c j \<noteq> None" and "j \<le> x"
  obtains kv where "is_floor c x kv"
proof -
  let ?K = "{i \<in> dom c. i \<le> x}"
  have fin: "finite ?K" and ne: "?K \<noteq> {}" using assms by auto
  then have mem: "Max ?K \<in> ?K" by (rule Max_in)
  then obtain v where v: "c (Max ?K) = Some v" by auto
  have "i \<le> Max ?K" if "c i \<noteq> None" "i \<le> x" for i
    using that by (intro Max_ge [OF fin]) auto
  then have "is_floor c x (Max ?K, v)" using v mem by (auto simp: is_floor_def)
  then show thesis by (rule that)
qed

lemma wrr_select_picks:
  assumes "treemap_ok tm" and "wrr_holds tm r E"
  shows "\<exists>p. fst (WeightedRoundRobin_Select tm t d r) = Ret p \<and> good_pick E p"
proof (cases "wrr_total r = 0")
  case False
  obtain m where m: "wrr_stages r = Some m" "ran (tm_content tm m) \<subseteq> E" "tm_content tm m 0 \<noteq> None"
    using assms(2) False by (auto simp: wrr_holds_def)
  let ?x = "uint ((wrr_lastIdx r + 1) mod wrr_total r)"
  have "0 \<le> ?x" by simp
  then obtain kv where kv: "is_floor (tm_content tm m) ?x kv"
    by (rule floor_exists [OF treemap_okD(3) [OF assms(1)] m(3)])
  then have "tm_Floor tm m ?x = Some kv" by (simp add: treemap_okD(5) [OF assms(1)])
  moreover have "snd kv \<in> E" using kv m(2) by (auto simp: is_floor_def ran_def)
  ultimately show ?thesis using False m(1) by (simp add: WeightedRoundRobin_Select_def Let_def)
qed (simp add: WeightedRoundRobin_Select_def)

interpretation weighted_random: strategy_contract "treemap_ok tm" "WeightedRandom_Update tm"
    "WeightedRandom_Select tm" "wr_holds tm" for tm :: "'m treemap"
  by unfold_locales (rule wr_update_holds wr_select_holds wr_select_picks; assumption)+

interpretation weighted_round_robin: strategy_contract "treemap_ok tm" "WeightedRoundRobin_Update tm"
    "WeightedRoundRobin_Select tm" "wrr_holds tm" for tm :: "'m treemap"
  by unfold_locales (rule wrr_update_holds wrr_select_holds wrr_select_picks; assumption)+

section \<open>Fair shares\<close>

text \<open>The selections of one turn of the wheel, starting after the last index.\<close>

lemma weighted_round_robin_run:
  assumes "treemap_ok tm" and "wrr_wheel tm r L" and "L \<noteq> []"
    and "unat (wrr_lastIdx r) + length calls < 2 ^ 32"
  shows "fst (select_run (WeightedRoundRobin_Select tm) calls r) =
    map (\<lambda>k. Ret (sel_ok (L ! ((unat (wrr_lastIdx r) + 1 + k) mod length L)))) [0..<length calls]"
  using assms(2,4)
proof (induction calls arbitrary: r)
  case (Cons c calls)
  obtain t d where c: "c = (t, d)" by (cases c)
  have idx: "unat (wrr_lastIdx r + 1) = Suc (unat (wrr_lastIdx r))"
    using Cons.prems(2) by (simp add: unat_word_Suc)
  have "wrr_wheel tm (r\<lparr>wrr_lastIdx := wrr_lastIdx r + 1\<rparr>) L"
    using Cons.prems(1) by (simp add: wrr_wheel_def)
  with Cons.IH [OF this] Cons.prems assms(3) idx show ?case
    by (simp add: c WeightedRoundRobin_Select_eq [OF assms(1) Cons.prems(1)] upt_conv_Cons
        map_Suc_upt [symmetric] comp_def split_beta Let_def del: upt_Suc map_Suc_upt)
qed simp

lemma mset_rotation:
  fixes b :: nat
  assumes "xs \<noteq> []"
  shows "mset (map (\<lambda>k. xs ! ((b + k) mod length xs)) [0..<length xs]) = mset xs"
proof -
  let ?n = "length xs" and ?f = "\<lambda>k. (b + k) mod length xs"
  have pos: "0 < ?n" using assms by simp
  have "mset (map ?f [0..<?n]) = mset [0..<?n]"
    using mod_window_permutes [OF pos, of b]
    by (subst set_eq_iff_mset_eq_distinct [symmetric]) (simp_all add: distinct_map atLeast0LessThan)
  then have "image_mset ((!) xs) (mset (map ?f [0..<?n])) = image_mset ((!) xs) (mset [0..<?n])" by simp
  moreover have "mset (map ((!) xs) [0..<?n]) = mset xs" by (simp only: map_nth)
  ultimately show ?thesis by (simp add: comp_def multiset.map_comp)
qed

end
