(* ===== verification/HashRing.thy ===== *)
theory HashRing
  imports Treemap Strategies
begin

text \<open>
  The hash ring strategy (\<open>strategy/impl/hash_ring.go\<close>) and the hash it uses
  (\<open>strategy/util.go\<close>, the CRC-32 of \<open>hash/crc32\<close> with the IEEE polynomial, bit by bit). The
  lemmas show that a header value has one owner on the ring, that the ring does not depend on the
  order in which the endpoints are visited unless hashes of different endpoints collide, and that
  an endpoint that leaves or joins moves no value between two others.
\<close>

unbundle bit_operations_syntax

section \<open>The checksum\<close>

definition crc_shift :: "u32 \<Rightarrow> u32" where
  "crc_shift c = (if c AND 1 = 1 then drop_bit 1 c XOR 0xEDB88320 else drop_bit 1 c)"

definition crc_byte :: "u32 \<Rightarrow> char \<Rightarrow> u32" where
  "crc_byte c b = (crc_shift ^^ 8) (c XOR word_of_nat (of_char b))"

definition ChecksumIEEE :: "string \<Rightarrow> u32" where
  "ChecksumIEEE bs = NOT (foldl crc_byte (NOT 0) bs)"

text \<open>A short string is first copied into an array of 64 zero bytes.\<close>

definition HashString :: "string \<Rightarrow> u32" where
  "HashString s =
     (if length s < 64 then
        (let scratch = s @ replicate (64 - length s) (CHR 0x00) in ChecksumIEEE (take (length s) scratch))
      else ChecksumIEEE s)"

lemma HashString_eq: "HashString s = ChecksumIEEE s"
  by (simp add: HashString_def)

section \<open>The strategy\<close>

record 'm hashRingStrategy =
  hr_headerKey :: string
  hr_ring :: "'m option"

definition HashRing_Build :: "selector \<Rightarrow> 'm hashRingStrategy" where
  "HashRing_Build s = \<lparr>hr_headerKey = Key s, hr_ring = None\<rparr>"

definition HashRing_Select :: "'m treemap \<Rightarrow> matchTarget \<Rightarrow> draws \<Rightarrow>
    ('m hashRingStrategy, go_error, selectResult) go" where
  "HashRing_Select tm t d = read_only (\<lambda>r.
     case hr_ring r of
       None \<Rightarrow> Panicked NilDeref
     | Some ring \<Rightarrow>
         if tm_Size tm ring = 0 then Ret (sel_error ErrNoEndpointAvailable)
         else (case Headers t (hr_headerKey r) of
             None \<Rightarrow> Ret (sel_error ErrNoValueAvailable)
           | Some hv \<Rightarrow>
               (let hashed = uint (HashString hv) in
                case tm_Ceiling tm ring hashed of
                  Some kv \<Rightarrow> Ret (sel_ok (snd kv))
                | None \<Rightarrow>
                    (case tm_Min tm ring of
                       None \<Rightarrow> Ret (sel_error ErrNoEndpointAvailable)
                     | Some kv \<Rightarrow> Ret (sel_ok (snd kv))))))"

definition HashRing_EndpointFilters :: "endpointFilter list" where
  "HashRing_EndpointFilters = []"

definition point :: "endpoint \<Rightarrow> nat \<Rightarrow> int" where
  "point e i = uint (HashString (endpoint_String e @ Itoa (int i)))"

fun hr_put :: "'m treemap \<Rightarrow> endpoint \<Rightarrow> nat list \<Rightarrow> 'm \<Rightarrow> 'm" where
  "hr_put tm e [] ring = ring"
| "hr_put tm e (i # idx) ring = hr_put tm e idx (tm_Put tm (point e i) e ring)"

fun hr_fill :: "'m treemap \<Rightarrow> (endpoint \<times> attribute) list \<Rightarrow> 'm \<Rightarrow> 'm result" where
  "hr_fill tm [] ring = Ret ring"
| "hr_fill tm ((e, a) # items) ring =
     out_bind (attr_field Weight a) (\<lambda>w.
       let weight = (case w of None \<Rightarrow> 1 | Some x \<Rightarrow> x)
       in hr_fill tm items (hr_put tm e [0..<unat weight * 8] ring))"

definition HashRing_Update :: "'m treemap \<Rightarrow> endpoint list \<Rightarrow> (endpoint \<rightharpoonup> attribute) \<Rightarrow>
    'm hashRingStrategy \<Rightarrow> 'm hashRingStrategy result" where
  "HashRing_Update tm ord m r =
     out_bind (hr_fill tm (range_items ord m) (tm_new tm)) (\<lambda>ring. Ret (r\<lparr>hr_ring := Some ring\<rparr>))"

section \<open>The points of an endpoint\<close>

definition vnodes :: "attribute \<Rightarrow> nat" where
  "vnodes a = (case InSel a of Some x \<Rightarrow> (case Weight x of Some w \<Rightarrow> unat w | None \<Rightarrow> 1) | None \<Rightarrow> 1) * 8"

definition owns :: "(endpoint \<rightharpoonup> attribute) \<Rightarrow> int \<Rightarrow> endpoint \<Rightarrow> bool" where
  "owns m h e \<longleftrightarrow> (\<exists>a. m e = Some a \<and> (\<exists>i < vnodes a. point e i = h))"

definition collision_free :: "(endpoint \<rightharpoonup> attribute) \<Rightarrow> bool" where
  "collision_free m \<longleftrightarrow> (\<forall>h e f. owns m h e \<longrightarrow> owns m h f \<longrightarrow> e = f)"

definition ring_of :: "(endpoint \<rightharpoonup> attribute) \<Rightarrow> (int \<rightharpoonup> endpoint) \<Rightarrow> bool" where
  "ring_of m c \<longleftrightarrow>
     (\<forall>h. case c h of Some e \<Rightarrow> owns m h e | None \<Rightarrow> (\<forall>e. \<not> owns m h e))"

lemma ring_of_Some: "ring_of m c \<Longrightarrow> c h = Some e \<Longrightarrow> owns m h e"
  unfolding ring_of_def by (metis option.simps(5))

lemma ring_of_None: "ring_of m c \<Longrightarrow> c h = None \<Longrightarrow> \<not> owns m h e"
  unfolding ring_of_def by (metis option.simps(4))

text \<open>The points a list of items puts on the ring.\<close>

definition pts :: "(endpoint \<times> attribute) list \<Rightarrow> int \<Rightarrow> endpoint \<Rightarrow> bool" where
  "pts items h e \<longleftrightarrow> (\<exists>a. (e, a) \<in> set items \<and> h \<in> point e ` {..<vnodes a})"

lemma pts_simps [simp]:
  "\<not> pts [] h e"
  "pts ((f, a) # items) h e \<longleftrightarrow> e = f \<and> h \<in> point f ` {..<vnodes a} \<or> pts items h e"
  by (auto simp: pts_def)

lemma hr_put_content:
  assumes "treemap_ok tm"
  shows "tm_content tm (hr_put tm e idx ring) h =
    (if h \<in> point e ` set idx then Some e else tm_content tm ring h)"
  by (induction idx arbitrary: ring) (auto simp: treemap_okD(2) [OF assms])

lemma weight_vnodes:
  "InSel a \<noteq> None \<Longrightarrow> \<exists>w. attr_field Weight a = Ret w
     \<and> unat (case w of None \<Rightarrow> 1 | Some x \<Rightarrow> (x :: u32)) * 8 = vnodes a"
  by (auto simp: vnodes_def split: option.split)

lemma hr_fill_content:
  assumes "treemap_ok tm" and "\<forall>a \<in> set (map snd items). InSel a \<noteq> None"
  shows "\<exists>ring'. hr_fill tm items ring = Ret ring'
    \<and> (\<forall>h. case tm_content tm ring' h of
             Some e \<Rightarrow> tm_content tm ring h = Some e \<or> pts items h e
           | None \<Rightarrow> tm_content tm ring h = None \<and> (\<forall>e. \<not> pts items h e))"
  using assms(2)
proof (induction items arbitrary: ring)
  case Nil
  then show ?case by (simp split: option.split)
next
  case (Cons x items)
  obtain e a where x: "x = (e, a)" by (cases x)
  obtain w where w: "attr_field Weight a = Ret w" "unat (case w of None \<Rightarrow> 1 | Some x \<Rightarrow> (x :: u32)) * 8 = vnodes a"
    using weight_vnodes [of a] Cons.prems x by auto
  let ?r = "hr_put tm e [0..<vnodes a] ring"
  have c: "tm_content tm ?r h = (if h \<in> point e ` {..<vnodes a} then Some e else tm_content tm ring h)" for h
    by (simp add: hr_put_content [OF assms(1)] atLeast0LessThan)
  have prems: "\<forall>a \<in> set (map snd items). InSel a \<noteq> None" using Cons.prems by simp
  obtain ring' where r: "hr_fill tm items ?r = Ret ring'"
    and ih: "\<And>h. case tm_content tm ring' h of
             Some e \<Rightarrow> tm_content tm ?r h = Some e \<or> pts items h e
           | None \<Rightarrow> tm_content tm ?r h = None \<and> (\<forall>e. \<not> pts items h e)"
    using Cons.IH [OF prems, of ?r] by blast
  have "case tm_content tm ring' h of
             Some f \<Rightarrow> tm_content tm ring h = Some f \<or> pts (x # items) h f
           | None \<Rightarrow> tm_content tm ring h = None \<and> (\<forall>f. \<not> pts (x # items) h f)" for h
    using ih [of h] by (cases "tm_content tm ring' h"; cases "h \<in> point e ` {..<vnodes a}") (auto simp: c x)
  then show ?case using r w x by (auto simp: Let_def)
qed

lemma pts_owns:
  assumes "range_order ord m"
  shows "pts (range_items ord m) h e \<longleftrightarrow> owns m h e"
  unfolding pts_def owns_def range_items_mem [OF assms] by blast

lemma HashRing_Update_ring:
  assumes "treemap_ok tm" and "range_order ord m" and "attrs_present m"
  shows "\<exists>ring. HashRing_Update tm ord m r = Ret (r\<lparr>hr_ring := Some ring\<rparr>)
    \<and> ring_of m (tm_content tm ring)"
proof -
  have present: "\<forall>a \<in> set (map snd (range_items ord m)). InSel a \<noteq> None"
    using assms(3) by (auto simp: attrs_present_def range_items_set)
  obtain ring where ring: "hr_fill tm (range_items ord m) (tm_new tm) = Ret ring"
    and cs: "\<forall>h. case tm_content tm ring h of
             Some e \<Rightarrow> tm_content tm (tm_new tm) h = Some e \<or> owns m h e
           | None \<Rightarrow> tm_content tm (tm_new tm) h = None \<and> (\<forall>e. \<not> owns m h e)"
    using hr_fill_content [OF assms(1) present, of "tm_new tm"] unfolding pts_owns [OF assms(2)] by blast
  have "case tm_content tm ring h of Some e \<Rightarrow> owns m h e | None \<Rightarrow> (\<forall>e. \<not> owns m h e)" for h
    using spec [OF cs, of h] by (cases "tm_content tm ring h") (simp_all add: treemap_okD(1) [OF assms(1)])
  then have "ring_of m (tm_content tm ring)" unfolding ring_of_def by blast
  with ring show ?thesis by (intro exI [of _ ring]) (simp add: HashRing_Update_def)
qed

text \<open>Without collisions the content is determined by the map alone.\<close>

lemma ring_of_unique:
  assumes "ring_of m c" and "ring_of m c'" and "collision_free m"
  shows "c = c'"
proof
  fix h
  show "c h = c' h"
  proof (cases "c h"; cases "c' h")
    fix e f
    assume "c h = Some e" "c' h = Some f"
    then show ?thesis
      using ring_of_Some [OF assms(1)] ring_of_Some [OF assms(2)] assms(3)
      by (simp add: collision_free_def) metis
  qed (use ring_of_Some [OF assms(1)] ring_of_None [OF assms(1)] ring_of_Some [OF assms(2)]
        ring_of_None [OF assms(2)] in \<open>fastforce+\<close>)
qed

section \<open>The owner of a value\<close>

text \<open>The first entry clockwise from a place on the ring.\<close>

definition is_owner :: "(int \<rightharpoonup> endpoint) \<Rightarrow> int \<Rightarrow> endpoint \<Rightarrow> bool" where
  "is_owner c x e \<longleftrightarrow>
     (\<exists>k. is_ceiling c x (k, e)) \<or> (\<nexists>kv. is_ceiling c x kv) \<and> (\<exists>k. is_min c (k, e))"

lemma is_min_unique:
  assumes "is_min c kv" and "is_min c kv'"
  shows "kv = kv'"
proof -
  have "fst kv \<le> fst kv'" "fst kv' \<le> fst kv" using assms by (auto simp: is_min_def)
  then have "fst kv = fst kv'" by simp
  then show ?thesis using assms by (simp add: is_min_def prod_eq_iff)
qed

lemma is_owner_unique: "is_owner c x e \<Longrightarrow> is_owner c x f \<Longrightarrow> e = f"
  unfolding is_owner_def using is_ceiling_unique is_min_unique by (metis prod.inject)

lemma is_owner_ran: "is_owner c x e \<Longrightarrow> e \<in> ran c"
  by (auto simp: is_owner_def is_ceiling_def is_min_def ran_def)

lemma is_owner_exists:
  assumes "finite (dom c)" and "c \<noteq> Map.empty"
  obtains e where "is_owner c x e"
proof (cases "\<exists>kv. is_ceiling c x kv")
  case True
  then show thesis using that by (auto simp: is_owner_def)
next
  case False
  then show thesis using that min_exists [OF assms] by (metis is_owner_def surj_pair)
qed

lemma HashRing_Select_owner:
  assumes "treemap_ok tm" and "hr_ring r = Some ring"
    and "Headers t (hr_headerKey r) = Some hv"
    and "is_owner (tm_content tm ring) (uint (HashString hv)) e"
  shows "HashRing_Select tm t d r = (Ret (sel_ok e), r)"
proof -
  let ?c = "tm_content tm ring" and ?x = "uint (HashString hv)"
  have "?c \<noteq> Map.empty" using is_owner_ran [OF assms(4)] by auto
  then have size: "tm_Size tm ring \<noteq> 0"
    by (simp add: treemap_okD(4) [OF assms(1)] treemap_okD(3) [OF assms(1)] card_eq_0_iff)
  show ?thesis
  proof (cases "tm_Ceiling tm ring ?x")
    case (Some kv)
    then have kv: "is_ceiling ?c ?x kv" by (simp add: treemap_okD(6) [OF assms(1)])
    then have "snd kv = e" using assms(4) is_ceiling_unique by (metis is_owner_def snd_conv)
    with Some size show ?thesis by (simp add: HashRing_Select_def assms(2,3))
  next
    case None
    then have no: "\<nexists>kv. is_ceiling ?c ?x kv" using treemap_okD(6) [OF assms(1)] by (metis option.distinct(1))
    then obtain k where "is_min ?c (k, e)" using assms(4) by (auto simp: is_owner_def)
    then have "tm_Min tm ring = Some (k, e)" by (simp add: treemap_okD(7) [OF assms(1)])
    with None size show ?thesis by (simp add: HashRing_Select_def assms(2,3))
  qed
qed

text \<open>Taking entries away that are not the owner leaves the owner.\<close>

lemma is_owner_restrict:
  assumes "is_owner c x e" and fin: "finite (dom c)"
    and sub: "\<And>h. c' h = (case c h of Some f \<Rightarrow> if P f then Some f else None | None \<Rightarrow> None)" and "P e"
  shows "is_owner c' x e"
proof (cases "\<exists>k. is_ceiling c x (k, e)")
  case True
  then obtain k where "c k = Some e" "x \<le> k" "\<forall>j. c j \<noteq> None \<longrightarrow> x \<le> j \<longrightarrow> k \<le> j"
    by (auto simp: is_ceiling_def)
  then have "is_ceiling c' x (k, e)" using assms(4) by (auto simp: is_ceiling_def sub split: option.splits)
  then show ?thesis by (auto simp: is_owner_def)
next
  case False
  then have no: "\<nexists>kv. is_ceiling c x kv" and mn: "\<exists>k. is_min c (k, e)"
    using assms(1) by (auto simp: is_owner_def)
  from no have "c j = None" if "x \<le> j" for j
    using ceiling_exists [OF fin _ that] by blast
  then have "c' j = None" if "x \<le> j" for j using that by (simp add: sub)
  then have no': "\<nexists>kv. is_ceiling c' x kv" by (auto simp: is_ceiling_def)
  from mn obtain k where "c k = Some e" "\<forall>j. c j \<noteq> None \<longrightarrow> k \<le> j" by (auto simp: is_min_def)
  then have "is_min c' (k, e)" using assms(4) by (auto simp: is_min_def sub split: option.splits)
  with no' show ?thesis by (auto simp: is_owner_def)
qed

text \<open>The ring of a map from which an endpoint was deleted is the ring without its points.\<close>

lemma ring_of_delete:
  assumes "ring_of m c" and "ring_of (m(e := None)) c'" and "collision_free m"
  shows "c' h = (case c h of Some f \<Rightarrow> if f \<noteq> e then Some f else None | None \<Rightarrow> None)"
proof -
  have owns: "owns (m(e := None)) h f \<longleftrightarrow> owns m h f \<and> f \<noteq> e" for f by (auto simp: owns_def)
  show ?thesis
  proof (cases "c h")
    case None
    then have "\<not> owns (m(e := None)) h f" for f using ring_of_None [OF assms(1)] owns by blast
    then have "c' h = None" using ring_of_Some [OF assms(2)] by (cases "c' h") auto
    with None show ?thesis by simp
  next
    case (Some f)
    then have f: "owns m h f" by (rule ring_of_Some [OF assms(1)])
    show ?thesis
    proof (cases "c' h")
      case None
      then have "f = e" using ring_of_None [OF assms(2)] f owns by blast
      then show ?thesis using Some None by simp
    next
      case (Some g)
      then have "owns m h g \<and> g \<noteq> e" using ring_of_Some [OF assms(2)] owns by blast
      moreover from this have "g = f" using f assms(3) by (simp add: collision_free_def) metis
      ultimately show ?thesis using Some \<open>c h = Some f\<close> by simp
    qed
  qed
qed

section \<open>The contract\<close>

definition hr_holds :: "'m treemap \<Rightarrow> 'm hashRingStrategy \<Rightarrow> endpoint set \<Rightarrow> bool" where
  "hr_holds tm r E \<longleftrightarrow> (\<exists>ring. hr_ring r = Some ring \<and> ran (tm_content tm ring) \<subseteq> E)"

lemma ring_of_ran: "ring_of m c \<Longrightarrow> ran c \<subseteq> dom m"
  by (auto simp: ran_def owns_def dest!: ring_of_Some)

lemma hr_update_holds:
  assumes "treemap_ok tm" and "range_order ord m" and "attrs_present m"
  shows "\<exists>r'. HashRing_Update tm ord m r = Ret r' \<and> hr_holds tm r' (dom m)"
proof -
  obtain ring where "HashRing_Update tm ord m r = Ret (r\<lparr>hr_ring := Some ring\<rparr>)"
    "ring_of m (tm_content tm ring)"
    using HashRing_Update_ring [OF assms] by blast
  then show ?thesis using ring_of_ran by (auto simp: hr_holds_def)
qed

lemma hr_select_holds: "hr_holds tm r E \<Longrightarrow> hr_holds tm (snd (HashRing_Select tm t d r)) E"
  by (simp add: HashRing_Select_def)

lemma hr_select_picks:
  assumes "treemap_ok tm" and "hr_holds tm r E"
  shows "\<exists>p. fst (HashRing_Select tm t d r) = Ret p \<and> good_pick E p"
proof -
  obtain ring where ring: "hr_ring r = Some ring" "ran (tm_content tm ring) \<subseteq> E"
    using assms(2) by (auto simp: hr_holds_def)
  show ?thesis
  proof (cases "tm_content tm ring = Map.empty \<or> Headers t (hr_headerKey r) = None")
    case True
    then show ?thesis
      by (auto simp: HashRing_Select_def ring treemap_okD(4) [OF assms(1)] split: option.split)
  next
    case False
    then obtain hv where v: "Headers t (hr_headerKey r) = Some hv" by auto
    obtain e where e: "is_owner (tm_content tm ring) (uint (HashString hv)) e"
      using is_owner_exists [OF treemap_okD(3) [OF assms(1)]] False by blast
    then show ?thesis
      using HashRing_Select_owner [OF assms(1) ring(1) v e] is_owner_ran [OF e] ring(2) by auto
  qed
qed

interpretation hash_ring: strategy_contract "treemap_ok tm" "HashRing_Update tm"
    "HashRing_Select tm" "hr_holds tm" for tm :: "'m treemap"
  by unfold_locales (rule hr_update_holds hr_select_holds hr_select_picks; assumption)+

end
