(* ===== verification/Caches.thy ===== *)
theory Caches
  imports Types "HOL-Library.Multiset"
begin

text \<open>
  The caches of the direct strategy (\<open>strategy/impl/cache\<close>): the interface \<open>DirectCache\<close> as a
  contract, the pass-through \<open>DefaultCache\<close> and the \<open>LRUCache\<close>, whose doubly linked list of heap
  nodes is modelled with its pointers and refined to a list, most recently used first. The store
  behind a cache is the value of \<open>GetCustomRoute\<close> at the time of the call, or absent before
  \<open>RegisterStore\<close>.
\<close>

section \<open>The store a cache reads\<close>

type_synonym routeAnswer = "endpoint option \<times> go_error option"
type_synonym routeStore = "string \<Rightarrow> string \<Rightarrow> routeAnswer"

definition MustStore :: "'s option \<Rightarrow> 's result" where
  "MustStore st = (case st of None \<Rightarrow> Panicked (PanicMsg ''store not registered'') | Some g \<Rightarrow> Ret g)"

lemma MustStore_Some [simp]: "MustStore (Some g) = Ret g"
  by (simp add: MustStore_def)

text \<open>Answers a client cannot tell apart: the same error, and without one the same endpoint.\<close>

definition same_answer :: "routeAnswer \<Rightarrow> routeAnswer \<Rightarrow> bool" where
  "same_answer a b \<longleftrightarrow> snd a = snd b \<and> (snd a = None \<longrightarrow> fst a = fst b)"

lemma same_answer_refl [simp]: "same_answer a a"
  by (simp add: same_answer_def)

section \<open>The contract of a cache\<close>

text \<open>
  \<open>agrees g hv s\<close>: what the cache \<open>s\<close> would answer for \<open>hv\<close> is what the store \<open>g\<close> says. A cache
  answers as the store where it agrees; \<open>Refresh\<close> makes it agree; calls for other values do not
  change that.
\<close>

locale direct_cache =
  fixes Get :: "routeStore option \<Rightarrow> string \<Rightarrow> ('s, go_error, routeAnswer) go"
    and Refresh :: "routeStore option \<Rightarrow> string \<Rightarrow> ('s, go_error, unit) go"
    and Clear :: "('s, go_error, unit) go"
    and name :: "'s \<Rightarrow> string"
    and wf :: "'s \<Rightarrow> bool"
    and agrees :: "routeStore \<Rightarrow> string \<Rightarrow> 's \<Rightarrow> bool"
  assumes get_wf: "wf s \<Longrightarrow> \<exists>r s'. Get (Some g) hv s = (Ret r, s') \<and> wf s' \<and> name s' = name s
      \<and> (\<forall>k. agrees g k s \<longrightarrow> agrees g k s')"
    and get_agrees: "wf s \<Longrightarrow> agrees g hv s \<Longrightarrow> Get (Some g) hv s = (Ret r, s') \<Longrightarrow>
      same_answer r (g (name s) hv)"
    and refresh_agrees: "wf s \<Longrightarrow> \<exists>s'. Refresh (Some g) hv s = (Ret (), s') \<and> wf s' \<and> name s' = name s
      \<and> agrees g hv s' \<and> (\<forall>k. agrees g k s \<longrightarrow> agrees g k s')"
    and clear_agrees: "wf s \<Longrightarrow> \<exists>s'. Clear s = (Ret (), s') \<and> wf s' \<and> name s' = name s \<and> agrees g hv s'"
begin

text \<open>After a refresh the cache answers what the store holds now, whatever it had cached.\<close>

lemma get_after_refresh:
  assumes "wf s" and "Refresh (Some g) hv s = (Ret (), s1)"
  obtains r s2 where "Get (Some g) hv s1 = (Ret r, s2)" and "same_answer r (g (name s) hv)" and "wf s2"
proof -
  have s1: "wf s1" "name s1 = name s" "agrees g hv s1"
    using refresh_agrees [OF assms(1), of g hv] assms(2) by auto
  then obtain r s2 where "Get (Some g) hv s1 = (Ret r, s2)" "wf s2" using get_wf by blast
  then show thesis using that get_agrees [OF s1(1,3)] s1(2) by metis
qed

text \<open>A cache that agrees everywhere is transparent for as long as the store does not change.\<close>

fun get_run :: "routeStore \<Rightarrow> string list \<Rightarrow> 's \<Rightarrow> routeAnswer result list" where
  "get_run g [] s = []"
| "get_run g (hv # hvs) s = (case Get (Some g) hv s of (r, s') \<Rightarrow> r # get_run g hvs s')"

lemma get_run_transparent:
  "wf s \<Longrightarrow> \<forall>k. agrees g k s \<Longrightarrow>
     list_all2 (\<lambda>r hv. \<exists>a. r = Ret a \<and> same_answer a (g (name s) hv)) (get_run g hvs s) hvs"
proof (induction hvs arbitrary: s)
  case (Cons hv hvs)
  obtain r s' where step: "Get (Some g) hv s = (Ret r, s')" "wf s'" "name s' = name s" "\<forall>k. agrees g k s'"
    using get_wf [OF Cons.prems(1), of g hv] Cons.prems(2) by blast
  then show ?case
    using get_agrees [OF Cons.prems(1) spec [OF Cons.prems(2)] step(1)] Cons.IH [OF step(2,4)]
    by (simp del: split_paired_Ex)
qed simp

end

section \<open>The pass-through cache\<close>

record defaultCache =
  dc_selectorName :: string

definition NewDefaultBuffer :: "string \<Rightarrow> defaultCache" where
  "NewDefaultBuffer n = \<lparr>dc_selectorName = n\<rparr>"

definition DefaultCache_Get :: "routeStore option \<Rightarrow> string \<Rightarrow> (defaultCache, go_error, routeAnswer) go" where
  "DefaultCache_Get st hv = (\<lambda>d. (out_bind (MustStore st) (\<lambda>g. Ret (g (dc_selectorName d) hv)), d))"

definition DefaultCache_Refresh :: "routeStore option \<Rightarrow> string \<Rightarrow> (defaultCache, go_error, unit) go" where
  "DefaultCache_Refresh st hv = (\<lambda>d. (Ret (), d))"

definition DefaultCache_Clear :: "(defaultCache, go_error, unit) go" where
  "DefaultCache_Clear = (\<lambda>d. (Ret (), d))"

interpretation default_cache: direct_cache DefaultCache_Get DefaultCache_Refresh DefaultCache_Clear
    dc_selectorName "\<lambda>_. True" "\<lambda>g hv s. True"
  by unfold_locales (auto simp: DefaultCache_Get_def DefaultCache_Refresh_def DefaultCache_Clear_def)

section \<open>The LRU cache\<close>

text \<open>
  Pointers are addresses; \<open>nodes\<close> is the heap and \<open>fresh\<close> the next address to allocate. A pointer
  that is not nil always points to a node. \<open>buf\<close> is the Go map, as an association list with
  distinct keys.
\<close>

record node =
  HeaderValue :: string
  NEndpoint :: "endpoint option"
  Prev :: "nat option"
  Next :: "nat option"

record lruCache =
  selectorName :: string
  capacity :: u32
  buf :: "(string \<times> nat) list"
  head :: "nat option"
  tail :: "nat option"
  lmu :: bool
  nodes :: "nat \<Rightarrow> node"
  fresh :: nat

definition nil_node :: node where
  "nil_node = \<lparr>HeaderValue = [], NEndpoint = None, Prev = None, Next = None\<rparr>"

definition NewLRUBuffer :: "string \<Rightarrow> u32 \<Rightarrow> lruCache result" where
  "NewLRUBuffer n cap =
     (if cap \<le> 0 then Panicked (PanicMsg ''capacity must be greater than 0'')
      else Ret \<lparr>selectorName = n, capacity = cap, buf = [], head = None, tail = None, lmu = False,
                nodes = (\<lambda>_. nil_node), fresh = 0\<rparr>)"

definition set_node :: "nat \<Rightarrow> (node \<Rightarrow> node) \<Rightarrow> lruCache \<Rightarrow> lruCache" where
  "set_node p f l = l\<lparr>nodes := (nodes l)(p := f (nodes l p))\<rparr>"

definition lru_remove :: "nat \<Rightarrow> lruCache \<Rightarrow> lruCache" where
  "lru_remove n l =
     (let l = (case Prev (nodes l n) of Some p \<Rightarrow> set_node p (Next_update (\<lambda>_. Next (nodes l n))) l | None \<Rightarrow> l);
          l = (case Next (nodes l n) of Some q \<Rightarrow> set_node q (Prev_update (\<lambda>_. Prev (nodes l n))) l | None \<Rightarrow> l);
          l = (if head l = Some n then l\<lparr>head := Next (nodes l n)\<rparr> else l)
      in if tail l = Some n then l\<lparr>tail := Prev (nodes l n)\<rparr> else l)"

definition moveToHead :: "nat \<Rightarrow> lruCache \<Rightarrow> lruCache" where
  "moveToHead n l =
     (if head l = Some n then l
      else (let l = lru_remove n l;
                l = set_node n (Prev_update (\<lambda>_. None)) l;
                l = set_node n (Next_update (\<lambda>_. head l)) l;
                l = (case head l of Some h \<Rightarrow> set_node h (Prev_update (\<lambda>_. Some n)) l | None \<Rightarrow> l);
                l = l\<lparr>head := Some n\<rparr>
            in if tail l = None then l\<lparr>tail := Some n\<rparr> else l))"

text \<open>
  The loop of \<open>resize\<close> with a bound on its iterations; a run that used it up has not ended. The
  lemmas below show that one more than the size of \<open>buf\<close> is enough.
\<close>

fun resize_loop :: "nat \<Rightarrow> (lruCache, go_error, unit) go" where
  "resize_loop 0 l = (Blocked, l)"
| "resize_loop (Suc n) l =
     (if (word_of_nat (length (buf l)) :: u32) > capacity l then
        (case tail l of
           None \<Rightarrow> (Panicked NilDeref, l)
         | Some t \<Rightarrow>
             (let l = l\<lparr>buf := AList.delete (HeaderValue (nodes l t)) (buf l)\<rparr>
              in resize_loop n (lru_remove t l)))
      else (Ret (), l))"

definition resize :: "(lruCache, go_error, unit) go" where
  "resize l = resize_loop (Suc (length (buf l))) l"

abbreviation lru_locked :: "(lruCache, go_error, 'a) go \<Rightarrow> (lruCache, go_error, 'a) go" where
  "lru_locked \<equiv> with_mu lmu (\<lambda>b. lmu_update (\<lambda>_. b))"

definition LRUCache_Get :: "routeStore option \<Rightarrow> string \<Rightarrow> (lruCache, go_error, routeAnswer) go" where
  "LRUCache_Get st hv = lru_locked (\<lambda>l.
     case map_of (buf l) hv of
       Some n \<Rightarrow> (let l = moveToHead n l in (Ret (NEndpoint (nodes l n), None), l))
     | None \<Rightarrow>
         (case MustStore st of
            Ret g \<Rightarrow>
              (case g (selectorName l) hv of
                 (_, Some err) \<Rightarrow> (Ret (None, Some err), l)
               | (endpoint, None) \<Rightarrow>
                   (let n = fresh l;
                        l = l\<lparr>fresh := n + 1,
                              nodes := (nodes l)(n := \<lparr>HeaderValue = hv, NEndpoint = endpoint, Prev = None, Next = None\<rparr>)\<rparr>;
                        l = l\<lparr>buf := AList.update hv n (buf l)\<rparr>;
                        l = moveToHead n l
                    in go_bind resize (\<lambda>_. go_ret (endpoint, None)) l))
          | Panicked p \<Rightarrow> (Panicked p, l)
          | Blocked \<Rightarrow> (Blocked, l)))"

definition LRUCache_Clear :: "(lruCache, go_error, unit) go" where
  "LRUCache_Clear = lru_locked (\<lambda>l. (Ret (), l\<lparr>buf := [], head := None, tail := None\<rparr>))"

definition LRUCache_Refresh :: "routeStore option \<Rightarrow> string \<Rightarrow> (lruCache, go_error, unit) go" where
  "LRUCache_Refresh st hv = lru_locked (\<lambda>l.
     case map_of (buf l) hv of
       None \<Rightarrow> (Ret (), l)
     | Some n \<Rightarrow>
         (case MustStore st of
            Ret g \<Rightarrow>
              (let (endpoint, err) = g (selectorName l) hv;
                   l = set_node n (NEndpoint_update (\<lambda>_. endpoint)) l
               in if err \<noteq> None
                  then (Ret (), lru_remove n (l\<lparr>buf := AList.delete hv (buf l)\<rparr>))
                  else (Ret (), l))
          | Panicked p \<Rightarrow> (Panicked p, l)
          | Blocked \<Rightarrow> (Blocked, l)))"

section \<open>Doubly linked lists\<close>

text \<open>
  The chain of nodes \<open>ps\<close> whose first node points back to \<open>prev\<close> and whose last one points on to
  \<open>next\<close>.
\<close>

definition first_or :: "nat list \<Rightarrow> nat option \<Rightarrow> nat option" where
  "first_or ps d = (case ps of [] \<Rightarrow> d | p # _ \<Rightarrow> Some p)"

definition last_or :: "nat list \<Rightarrow> nat option \<Rightarrow> nat option" where
  "last_or ps d = (if ps = [] then d else Some (last ps))"

lemma first_or_simps [simp]:
  "first_or [] d = d" "first_or (p # ps) d = Some p"
  "first_or (ps @ qs) d = first_or ps (first_or qs d)"
  by (simp_all add: first_or_def split: list.split)

lemma last_or_simps [simp]:
  "last_or [] d = d" "last_or (p # ps) d = last_or ps (Some p)"
  "last_or (ps @ qs) d = last_or qs (last_or ps d)"
  by (auto simp: last_or_def)

lemma first_or_in: "first_or ps None = Some p \<Longrightarrow> p \<in> set ps"
  by (auto simp: first_or_def split: list.splits)

lemma last_or_in: "last_or ps None = Some p \<Longrightarrow> p \<in> set ps"
  by (auto simp: last_or_def split: if_splits)

fun chain :: "(nat \<Rightarrow> node) \<Rightarrow> nat option \<Rightarrow> nat list \<Rightarrow> nat option \<Rightarrow> bool" where
  "chain h prev [] nxt = True"
| "chain h prev (p # ps) nxt =
     (Prev (h p) = prev \<and> Next (h p) = first_or ps nxt \<and> chain h (Some p) ps nxt)"

lemma chain_append [simp]:
  "chain h prev (us @ vs) nxt \<longleftrightarrow> chain h prev us (first_or vs nxt) \<and> chain h (last_or us prev) vs nxt"
  by (induction us arbitrary: prev) auto

text \<open>A chain depends on the links of its own nodes only.\<close>

lemma chain_cong:
  "(\<And>p. p \<in> set ps \<Longrightarrow> Prev (h p) = Prev (h' p) \<and> Next (h p) = Next (h' p)) \<Longrightarrow>
     chain h prev ps nxt \<longleftrightarrow> chain h' prev ps nxt"
  by (induction ps arbitrary: prev) auto

definition relink_last :: "(nat \<Rightarrow> node) \<Rightarrow> nat list \<Rightarrow> nat option \<Rightarrow> nat \<Rightarrow> node" where
  "relink_last h ps nxt =
     (case last_or ps None of None \<Rightarrow> h | Some p \<Rightarrow> h(p := Next_update (\<lambda>_. nxt) (h p)))"

definition relink_first :: "(nat \<Rightarrow> node) \<Rightarrow> nat list \<Rightarrow> nat option \<Rightarrow> nat \<Rightarrow> node" where
  "relink_first h ps prev =
     (case first_or ps None of None \<Rightarrow> h | Some p \<Rightarrow> h(p := Prev_update (\<lambda>_. prev) (h p)))"

lemma relink_other [simp]:
  "p \<notin> set ps \<Longrightarrow> relink_last h ps nxt p = h p" "p \<notin> set ps \<Longrightarrow> relink_first h ps prev p = h p"
  by (auto simp: relink_last_def relink_first_def split: option.split dest: first_or_in last_or_in)

lemma chain_relink_last:
  assumes "chain h prev ps nxt" and "distinct ps"
  shows "chain (relink_last h ps nxt') prev ps nxt'"
proof (cases ps rule: rev_cases)
  case (snoc us p)
  have "chain h prev us (Some p)" "Prev (h p) = last_or us prev" using assms(1) snoc by auto
  moreover have "p \<notin> set us" using assms(2) snoc by simp
  then have "chain (h(p := Next_update (\<lambda>_. nxt') (h p))) prev us (Some p) = chain h prev us (Some p)"
    by (intro chain_cong) auto
  ultimately show ?thesis by (simp add: snoc relink_last_def)
qed simp

lemma chain_relink_first:
  assumes "chain h prev ps nxt" and "distinct ps"
  shows "chain (relink_first h ps prev') prev' ps nxt"
proof (cases ps)
  case (Cons p us)
  then have "p \<notin> set us" using assms(2) by simp
  then have "chain (h(p := Prev_update (\<lambda>_. prev') (h p))) (Some p) us nxt = chain h (Some p) us nxt"
    by (intro chain_cong) auto
  then show ?thesis using assms(1) Cons by (simp add: relink_first_def)
qed simp

text \<open>The list of an LRU cache: its chain runs from head to tail.\<close>

definition linked :: "lruCache \<Rightarrow> nat list \<Rightarrow> bool" where
  "linked l ps \<longleftrightarrow>
     distinct ps \<and> chain (nodes l) None ps None \<and> head l = first_or ps None \<and> tail l = last_or ps None"

text \<open>What list operations leave alone: everything but the links.\<close>

definition same_data :: "lruCache \<Rightarrow> lruCache \<Rightarrow> bool" where
  "same_data l l' \<longleftrightarrow>
     selectorName l' = selectorName l \<and> capacity l' = capacity l \<and> buf l' = buf l \<and> lmu l' = lmu l
     \<and> fresh l' = fresh l
     \<and> (\<forall>p. HeaderValue (nodes l' p) = HeaderValue (nodes l p) \<and> NEndpoint (nodes l' p) = NEndpoint (nodes l p))"

lemma same_data_refl: "same_data l l"
  by (simp add: same_data_def)

lemma lru_remove_same: "same_data l (lru_remove n l)"
  by (simp add: same_data_def lru_remove_def set_node_def Let_def split: option.split)

lemma moveToHead_same: "same_data l (moveToHead n l)"
  using lru_remove_same [of l n]
  by (simp add: same_data_def moveToHead_def set_node_def Let_def split: option.split)

lemma lru_remove_linked:
  assumes "linked l (us @ p # vs)"
  shows "linked (lru_remove p l) (us @ vs)"
    and "nodes (lru_remove p l) p = nodes l p"
proof -
  have d: "distinct us" "distinct vs" "p \<notin> set us" "p \<notin> set vs" "set us \<inter> set vs = {}"
    and c: "chain (nodes l) None us (Some p)" "Prev (nodes l p) = last_or us None"
      "Next (nodes l p) = first_or vs None" "chain (nodes l) (Some p) vs None"
    and ht: "head l = first_or us (Some p)" "tail l = last_or vs (Some p)"
    using assms by (auto simp: linked_def)
  let ?h1 = "relink_last (nodes l) us (first_or vs None)"
  let ?h2 = "relink_first ?h1 vs (last_or us None)"
  have "lru_remove p l = l\<lparr>nodes := ?h2, head := first_or (us @ vs) None, tail := last_or (us @ vs) None\<rparr>"
  proof -
    let ?l1 = "l\<lparr>nodes := ?h1\<rparr>" and ?l2 = "l\<lparr>nodes := ?h2\<rparr>"
    have l1: "(case Prev (nodes l p) of Some q \<Rightarrow> set_node q (Next_update (\<lambda>_. Next (nodes l p))) l | None \<Rightarrow> l)
        = ?l1"
      unfolding c(2,3) by (simp add: relink_last_def set_node_def split: option.split)
    have n1: "Next (nodes ?l1 p) = first_or vs None" "Prev (nodes ?l1 p) = last_or us None" using c d by simp_all
    have l2: "(case first_or vs None of
        Some q \<Rightarrow> set_node q (Prev_update (\<lambda>_. last_or us None)) ?l1 | None \<Rightarrow> ?l1) = ?l2"
      by (simp add: relink_first_def set_node_def split: option.split)
    have n2: "Next (?h2 p) = first_or vs None" "Prev (?h2 p) = last_or us None" using c d by simp_all
    have hd: "head l = Some p \<longleftrightarrow> us = []" "us \<noteq> [] \<Longrightarrow> head l = first_or (us @ vs) None"
      and tl: "tail l = Some p \<longleftrightarrow> vs = []" "vs \<noteq> [] \<Longrightarrow> tail l = last_or (us @ vs) None"
      using d unfolding ht by (auto simp: first_or_def last_or_def split: list.splits)
    have "lru_remove p l =
        (let l = (if head ?l2 = Some p then ?l2\<lparr>head := Next (nodes ?l2 p)\<rparr> else ?l2)
         in if tail l = Some p then l\<lparr>tail := Prev (nodes l p)\<rparr> else l)"
      unfolding lru_remove_def l1 by (simp only: Let_def n1 l2)
    also have "\<dots> = l\<lparr>nodes := ?h2, head := first_or (us @ vs) None, tail := last_or (us @ vs) None\<rparr>"
      using hd tl n2 by (cases "us = []"; cases "vs = []") (simp_all del: first_or_simps(3) last_or_simps(3))
    finally show ?thesis .
  qed
  moreover have "chain ?h2 None us (first_or vs None)"
  proof -
    have "chain ?h1 None us (first_or vs None)" by (rule chain_relink_last [OF c(1) d(1)])
    moreover have "chain ?h2 None us (first_or vs None) = chain ?h1 None us (first_or vs None)"
      using d(5) by (intro chain_cong) (metis IntI empty_iff relink_other)
    ultimately show ?thesis by simp
  qed
  moreover have "chain ?h2 (last_or us None) vs None"
  proof -
    have "chain ?h1 (Some p) vs None = chain (nodes l) (Some p) vs None"
      using d(5) by (intro chain_cong) (metis IntI empty_iff relink_other)
    then show ?thesis using c(4) d(2) by (intro chain_relink_first) simp_all
  qed
  ultimately show "linked (lru_remove p l) (us @ vs)" and "nodes (lru_remove p l) p = nodes l p"
    using d by (simp_all add: linked_def)
qed

text \<open>The second half of \<open>moveToHead\<close>.\<close>

definition push_front :: "nat \<Rightarrow> lruCache \<Rightarrow> lruCache" where
  "push_front n l =
     (let l = set_node n (Prev_update (\<lambda>_. None)) l;
          l = set_node n (Next_update (\<lambda>_. head l)) l;
          l = (case head l of Some h \<Rightarrow> set_node h (Prev_update (\<lambda>_. Some n)) l | None \<Rightarrow> l);
          l = l\<lparr>head := Some n\<rparr>
      in if tail l = None then l\<lparr>tail := Some n\<rparr> else l)"

lemma moveToHead_eq:
  "moveToHead n l = (if head l = Some n then l else push_front n (lru_remove n l))"
  by (simp add: moveToHead_def push_front_def Let_def)

lemma push_front_linked:
  assumes "linked l ps" and "p \<notin> set ps"
  shows "linked (push_front p l) (p # ps)"
proof -
  have d: "distinct ps" and c: "chain (nodes l) None ps None"
    and ht: "head l = first_or ps None" "tail l = last_or ps None"
    using assms(1) by (simp_all add: linked_def)
  let ?k = "(nodes l)(p := Next_update (\<lambda>_. head l) (Prev_update (\<lambda>_. None) (nodes l p)))"
  let ?h = "relink_first ?k ps (Some p)"
  have "push_front p l = l\<lparr>nodes := ?h, head := Some p, tail := last_or ps (Some p)\<rparr>"
  proof (cases ps)
    case Nil
    then show ?thesis using ht by (simp add: push_front_def set_node_def relink_first_def)
  next
    case (Cons q qs)
    then show ?thesis using ht assms(2)
      by (simp add: push_front_def set_node_def relink_first_def last_or_def)
  qed
  moreover have "chain ?h (Some p) ps None"
  proof -
    have "chain ?k None ps None = chain (nodes l) None ps None"
      using assms(2) by (intro chain_cong) auto
    then show ?thesis using c d by (intro chain_relink_first) simp_all
  qed
  ultimately show ?thesis using assms(2) d ht by (simp add: linked_def)
qed

lemma moveToHead_linked:
  assumes "linked l (us @ p # vs)"
  shows "linked (moveToHead p l) (p # us @ vs)"
proof (cases "head l = Some p")
  case True
  then have "us = []" using assms by (cases us) (auto simp: linked_def)
  then show ?thesis using True assms by (simp add: moveToHead_eq)
next
  case False
  have "p \<notin> set (us @ vs)" using assms by (auto simp: linked_def)
  then show ?thesis
    using False lru_remove_linked(1) [OF assms] push_front_linked by (simp add: moveToHead_eq)
qed

lemma moveToHead_new:
  assumes "linked l ps" and "p \<notin> set ps" and "Prev (nodes l p) = None" and "Next (nodes l p) = None"
  shows "linked (moveToHead p l) (p # ps)"
proof -
  have "head l \<noteq> Some p" "tail l \<noteq> Some p"
    using assms(1,2) by (auto simp: linked_def dest: first_or_in last_or_in)
  then show ?thesis
    using push_front_linked [OF assms(1,2)] assms(3,4) by (simp add: moveToHead_eq lru_remove_def)
qed

section \<open>The cache as a list\<close>

text \<open>\<open>rep l ps\<close>: the nodes \<open>ps\<close> are linked, have distinct keys, and \<open>buf\<close> points to them.\<close>

definition keyed :: "(nat \<Rightarrow> node) \<Rightarrow> nat \<Rightarrow> string \<times> nat" where
  "keyed h p = (HeaderValue (h p), p)"

definition rep :: "lruCache \<Rightarrow> nat list \<Rightarrow> bool" where
  "rep l ps \<longleftrightarrow>
     linked l ps \<and> distinct (map (\<lambda>p. HeaderValue (nodes l p)) ps) \<and> distinct (map fst (buf l))
     \<and> set (buf l) = keyed (nodes l) ` set ps \<and> (\<forall>p \<in> set ps. p < fresh l)"

definition entries :: "(nat \<Rightarrow> node) \<Rightarrow> nat list \<Rightarrow> (string \<times> endpoint option) list" where
  "entries h ps = map (\<lambda>p. (HeaderValue (h p), NEndpoint (h p))) ps"

lemma entries_Cons: "entries h (p # ps) = (HeaderValue (h p), NEndpoint (h p)) # entries h ps"
  by (simp add: entries_def)

lemma entries_take: "entries h (take k ps) = take k (entries h ps)"
  by (simp add: entries_def take_map)

lemma rep_linked: "rep l ps \<Longrightarrow> linked l ps"
  by (simp add: rep_def)

lemma rep_length: "rep l ps \<Longrightarrow> length (buf l) = length ps"
proof -
  assume r: "rep l ps"
  then have "distinct (buf l)" by (simp add: rep_def distinct_map)
  then have "length (buf l) = card (set (buf l))" by (simp add: distinct_card)
  also have "\<dots> = card (set ps)" using r by (simp add: rep_def keyed_def card_image inj_on_def)
  also have "\<dots> = length ps" using r by (simp add: rep_def linked_def distinct_card)
  finally show ?thesis .
qed

lemma rep_lookup:
  "rep l ps \<Longrightarrow> map_of (buf l) k = Some p \<longleftrightarrow> p \<in> set ps \<and> HeaderValue (nodes l p) = k"
  by (auto simp: rep_def keyed_def image_iff)

lemma rep_same_data:
  assumes "rep l ps" and "same_data l l'" and "linked l' qs" and "mset qs = mset ps"
  shows "rep l' qs" and "entries (nodes l') qs = entries (nodes l) qs"
proof -
  have set_eq: "set qs = set ps" using assms(4) by (rule mset_eq_setD)
  have keys: "(\<lambda>p. HeaderValue (nodes l' p)) = (\<lambda>p. HeaderValue (nodes l p))"
    "keyed (nodes l') = keyed (nodes l)"
    using assms(2) by (auto simp: same_data_def keyed_def)
  have "mset (map (\<lambda>p. HeaderValue (nodes l p)) qs) = mset (map (\<lambda>p. HeaderValue (nodes l p)) ps)"
    using assms(4) by simp
  then have "distinct (map (\<lambda>p. HeaderValue (nodes l p)) qs)"
    using assms(1) by (metis mset_eq_imp_distinct_iff rep_def)
  then show "rep l' qs"
    using assms(1-3) set_eq by (simp add: rep_def same_data_def keys)
  show "entries (nodes l') qs = entries (nodes l) qs"
    using assms(2) by (simp add: entries_def same_data_def)
qed

lemma rep_moveToHead:
  assumes "rep l (us @ p # vs)"
  shows "rep (moveToHead p l) (p # us @ vs)"
    and "entries (nodes (moveToHead p l)) (p # us @ vs) = entries (nodes l) (p # us @ vs)"
  using rep_same_data [OF assms moveToHead_same moveToHead_linked [OF rep_linked [OF assms]]] by simp_all

lemma linked_buf [simp]: "linked (l\<lparr>buf := b\<rparr>) ps = linked l ps" "linked (l\<lparr>lmu := c\<rparr>) ps = linked l ps"
  by (simp_all add: linked_def)

lemma rep_lmu [simp]: "rep (l\<lparr>lmu := c\<rparr>) ps = rep l ps"
  by (simp add: rep_def)

lemma set_delete: "set (AList.delete k b) = {x \<in> set b. fst x \<noteq> k}"
  by (auto simp: AList.delete_eq)

lemma rep_other_keys:
  "rep l (us @ p # vs) \<Longrightarrow> q \<in> set us \<union> set vs \<Longrightarrow> HeaderValue (nodes l q) \<noteq> HeaderValue (nodes l p)"
proof -
  assume r: "rep l (us @ p # vs)" and q: "q \<in> set us \<union> set vs"
  then have "HeaderValue (nodes l p) \<notin> (\<lambda>q. HeaderValue (nodes l q)) ` (set us \<union> set vs)"
    by (auto simp: rep_def image_Un)
  then show ?thesis using q by (metis (no_types, lifting) image_eqI)
qed

lemma rep_delete:
  assumes "rep l (us @ p # vs)"
  defines "l' \<equiv> lru_remove p (l\<lparr>buf := AList.delete (HeaderValue (nodes l p)) (buf l)\<rparr>)"
  shows "rep l' (us @ vs)" and "entries (nodes l') (us @ vs) = entries (nodes l) (us @ vs)"
    and "same_data (l\<lparr>buf := AList.delete (HeaderValue (nodes l p)) (buf l)\<rparr>) l'"
proof -
  let ?l = "l\<lparr>buf := AList.delete (HeaderValue (nodes l p)) (buf l)\<rparr>"
  show same: "same_data ?l l'" unfolding l'_def by (rule lru_remove_same)
  have "linked ?l (us @ p # vs)" using rep_linked [OF assms(1)] by simp
  then have link: "linked l' (us @ vs)" unfolding l'_def by (rule lru_remove_linked)
  have keys: "(\<lambda>q. HeaderValue (nodes l' q)) = (\<lambda>q. HeaderValue (nodes l q))"
    "keyed (nodes l') = keyed (nodes l)"
    using same by (auto simp: same_data_def keyed_def)
  have "{x \<in> keyed (nodes l) ` set (us @ p # vs). fst x \<noteq> HeaderValue (nodes l p)} = keyed (nodes l) ` set (us @ vs)"
    using rep_other_keys [OF assms(1)] by (auto simp: keyed_def)
  then show "rep l' (us @ vs)"
    using assms(1) same link keys by (auto simp: rep_def same_data_def set_delete distinct_delete)
  show "entries (nodes l') (us @ vs) = entries (nodes l) (us @ vs)"
    using same by (simp add: entries_def same_data_def)
qed

lemma entries_delete:
  assumes "rep l (us @ p # vs)"
  shows "entries (nodes l) (us @ vs) = AList.delete (HeaderValue (nodes l p)) (entries (nodes l) (us @ p # vs))"
proof -
  have "filter (\<lambda>q. HeaderValue (nodes l p) \<noteq> HeaderValue (nodes l q)) us = us"
    "filter (\<lambda>q. HeaderValue (nodes l p) \<noteq> HeaderValue (nodes l q)) vs = vs"
    using rep_other_keys [OF assms] by (force intro!: filter_True)+
  then show ?thesis by (simp add: entries_def AList.delete_eq filter_map comp_def)
qed

text \<open>The loop of \<open>resize\<close> drops nodes from the tail until the capacity is met.\<close>

lemma resize_loop_rep:
  assumes "rep l ps" and "length ps < 2 ^ 32" and "length ps - unat (capacity l) < n" and "0 < capacity l"
  shows "\<exists>l'. resize_loop n l = (Ret (), l') \<and> rep l' (take (unat (capacity l)) ps)
     \<and> entries (nodes l') (take (unat (capacity l)) ps) = entries (nodes l) (take (unat (capacity l)) ps)
     \<and> capacity l' = capacity l \<and> selectorName l' = selectorName l \<and> lmu l' = lmu l"
  using assms
proof (induction n arbitrary: l ps)
  case (Suc n)
  have len: "length (buf l) = length ps" by (rule rep_length) (rule Suc.prems(1))
  have gt: "(word_of_nat (length (buf l)) :: u32) > capacity l \<longleftrightarrow> unat (capacity l) < length ps"
    using Suc.prems(2) by (simp add: len word_less_nat_alt unat_of_nat)
  show ?case
  proof (cases "unat (capacity l) < length ps")
    case False
    then show ?thesis using gt Suc.prems(1) by simp
  next
    case True
    then obtain us p where ps: "ps = us @ [p]" by (cases ps rule: rev_cases) auto
    let ?l = "lru_remove p (l\<lparr>buf := AList.delete (HeaderValue (nodes l p)) (buf l)\<rparr>)"
    have r: "rep l (us @ p # [])" using Suc.prems(1) ps by simp
    have d: "rep ?l us" "entries (nodes ?l) us = entries (nodes l) us"
      "capacity ?l = capacity l" "selectorName ?l = selectorName l" "lmu ?l = lmu l"
      using rep_delete [OF r] by (simp_all add: same_data_def)
    have "tail l = Some p" using rep_linked [OF r] by (simp add: linked_def)
    then have step: "resize_loop (Suc n) l = resize_loop n ?l" using gt True by (simp add: Let_def)
    have sub: "take (unat (capacity l)) ps = take (unat (capacity l)) us" using True ps by simp
    have "\<exists>l'. resize_loop n ?l = (Ret (), l') \<and> rep l' (take (unat (capacity ?l)) us)
       \<and> entries (nodes l') (take (unat (capacity ?l)) us) = entries (nodes ?l) (take (unat (capacity ?l)) us)
       \<and> capacity l' = capacity ?l \<and> selectorName l' = selectorName ?l \<and> lmu l' = lmu ?l"
      using Suc.prems(2-4) True ps d by (intro Suc.IH) auto
    then show ?thesis using step sub d by (simp add: entries_take)
  qed
qed simp

lemma resize_rep:
  assumes "rep l ps" and "length ps \<le> Suc (unat (capacity l))" and "unat (capacity l) + 1 < 2 ^ 32"
    and "0 < capacity l"
  shows "\<exists>l'. resize l = (Ret (), l') \<and> rep l' (take (unat (capacity l)) ps)
     \<and> entries (nodes l') (take (unat (capacity l)) ps) = take (unat (capacity l)) (entries (nodes l) ps)
     \<and> capacity l' = capacity l \<and> selectorName l' = selectorName l \<and> lmu l' = lmu l"
proof -
  have "length (buf l) = length ps" by (rule rep_length) (rule assms(1))
  then have "length ps - unat (capacity l) < Suc (length (buf l))" "length ps < 2 ^ 32"
    using assms(2,3) by simp_all
  from resize_loop_rep [OF assms(1) this(2,1) assms(4)] show ?thesis
    unfolding resize_def entries_take by blast
qed

section \<open>Refinement\<close>

text \<open>The operations on the list of cached answers, most recently used first.\<close>

type_synonym cached = "(string \<times> endpoint option) list"

definition abs_get :: "(string \<Rightarrow> routeAnswer) \<Rightarrow> nat \<Rightarrow> string \<Rightarrow> cached \<Rightarrow> routeAnswer \<times> cached" where
  "abs_get g cap hv xs =
     (case map_of xs hv of
        Some e \<Rightarrow> ((e, None), (hv, e) # AList.delete hv xs)
      | None \<Rightarrow>
          (case g hv of
             (_, Some err) \<Rightarrow> ((None, Some err), xs)
           | (e, None) \<Rightarrow> ((e, None), take cap ((hv, e) # xs))))"

definition abs_refresh :: "(string \<Rightarrow> routeAnswer) \<Rightarrow> string \<Rightarrow> cached \<Rightarrow> cached" where
  "abs_refresh g hv xs =
     (case map_of xs hv of
        None \<Rightarrow> xs
      | Some _ \<Rightarrow>
          (case g hv of
             (_, Some err) \<Rightarrow> AList.delete hv xs
           | (e, None) \<Rightarrow> AList.update hv e xs))"

definition lru_rel :: "lruCache \<Rightarrow> cached \<Rightarrow> bool" where
  "lru_rel l xs \<longleftrightarrow>
     \<not> lmu l \<and> 0 < capacity l \<and> unat (capacity l) + 1 < 2 ^ 32
     \<and> (\<exists>ps. rep l ps \<and> length ps \<le> unat (capacity l) \<and> xs = entries (nodes l) ps)"

lemma lru_rel_New:
  "0 < cap \<Longrightarrow> unat cap + 1 < 2 ^ 32 \<Longrightarrow> \<exists>l. NewLRUBuffer n cap = Ret l \<and> lru_rel l []
     \<and> selectorName l = n \<and> capacity l = cap"
  by (auto simp: NewLRUBuffer_def lru_rel_def rep_def linked_def entries_def intro!: exI [of _ "[]"])

lemma NewLRUBuffer_zero: "NewLRUBuffer n 0 = Panicked (PanicMsg ''capacity must be greater than 0'')"
  by (simp add: NewLRUBuffer_def)

lemma entries_keys: "map fst (entries h ps) = map (\<lambda>p. HeaderValue (h p)) ps"
  by (simp add: entries_def comp_def)

lemma length_entries [simp]: "length (entries h ps) = length ps"
  by (simp add: entries_def)

lemma lru_rel_distinct: "lru_rel l xs \<Longrightarrow> distinct (map fst xs)"
  by (auto simp: lru_rel_def rep_def entries_keys)

lemma lru_rel_bound: "lru_rel l xs \<Longrightarrow> length xs \<le> unat (capacity l)"
  by (auto simp: lru_rel_def)

lemma rep_map_of:
  assumes "rep l ps"
  shows "map_of (entries (nodes l) ps) k = map_option (\<lambda>p. NEndpoint (nodes l p)) (map_of (buf l) k)"
proof (cases "map_of (buf l) k")
  case (Some p)
  then have "p \<in> set ps" "HeaderValue (nodes l p) = k" using rep_lookup [OF assms] by auto
  moreover have "distinct (map fst (entries (nodes l) ps))" using assms by (simp add: entries_keys rep_def)
  ultimately show ?thesis using Some by (auto simp: entries_def)
next
  case None
  then have "k \<notin> fst ` set (entries (nodes l) ps)"
    using rep_lookup [OF assms, of k] by (auto simp: entries_def simp del: not_None_eq) (metis option.distinct(1))
  then have "map_of (entries (nodes l) ps) k = None" unfolding map_of_eq_None_iff .
  with None show ?thesis by simp
qed

lemma lru_get_hit:
  assumes "rep l ps" and "map_of (buf l) hv = Some n"
  shows "\<exists>qs. rep (moveToHead n l) qs \<and> length qs = length ps
    \<and> entries (nodes (moveToHead n l)) qs = (hv, NEndpoint (nodes l n)) # AList.delete hv (entries (nodes l) ps)"
proof -
  have n: "n \<in> set ps" "HeaderValue (nodes l n) = hv" using rep_lookup [OF assms(1)] assms(2) by auto
  then obtain us vs where ps: "ps = us @ n # vs" by (auto simp: in_set_conv_decomp)
  then have r: "rep l (us @ n # vs)" using assms(1) by simp
  show ?thesis
    using rep_moveToHead [OF r] entries_delete [OF r] n(2) ps
    by (intro exI [of _ "n # us @ vs"]) (simp add: entries_Cons)
qed

text \<open>A new node at the head.\<close>

lemma lru_insert:
  assumes "rep l ps" and "map_of (buf l) hv = None"
    and l': "l' = moveToHead (fresh l)
    (l\<lparr>fresh := fresh l + 1,
       nodes := (nodes l)(fresh l := \<lparr>HeaderValue = hv, NEndpoint = e, Prev = None, Next = None\<rparr>),
       buf := AList.update hv (fresh l) (buf l)\<rparr>)"
  shows "rep l' (fresh l # ps)" and "entries (nodes l') (fresh l # ps) = (hv, e) # entries (nodes l) ps"
    and "capacity l' = capacity l \<and> selectorName l' = selectorName l \<and> lmu l' = lmu l"
proof -
  let ?n = "\<lparr>HeaderValue = hv, NEndpoint = e, Prev = None, Next = None\<rparr>"
  let ?l = "l\<lparr>fresh := fresh l + 1, nodes := (nodes l)(fresh l := ?n), buf := AList.update hv (fresh l) (buf l)\<rparr>"
  have f: "fresh l \<notin> set ps" using assms(1) by (auto simp: rep_def)
  have key: "hv \<notin> (\<lambda>p. HeaderValue (nodes l p)) ` set ps"
    using rep_lookup [OF assms(1), of hv] assms(2) by auto
  have "chain ((nodes l)(fresh l := ?n)) None ps None = chain (nodes l) None ps None"
    using f by (intro chain_cong) auto
  then have "linked ?l ps" using rep_linked [OF assms(1)] by (simp add: linked_def)
  then have link: "linked l' (fresh l # ps)" unfolding l' by (rule moveToHead_new) (simp_all add: f)
  have same: "same_data ?l l'" unfolding l' by (rule moveToHead_same)
  have vals: "HeaderValue (nodes l' p) = (if p = fresh l then hv else HeaderValue (nodes l p))"
    "NEndpoint (nodes l' p) = (if p = fresh l then e else NEndpoint (nodes l p))" for p
    using same by (simp_all add: same_data_def)
  have on_ps: "map (\<lambda>p. HeaderValue (nodes l' p)) ps = map (\<lambda>p. HeaderValue (nodes l p)) ps"
    "map (\<lambda>p. (HeaderValue (nodes l' p), NEndpoint (nodes l' p))) ps
       = map (\<lambda>p. (HeaderValue (nodes l p), NEndpoint (nodes l p))) ps"
    "keyed (nodes l') ` set ps = keyed (nodes l) ` set ps"
    using f by (auto simp: vals keyed_def image_iff)
  show "entries (nodes l') (fresh l # ps) = (hv, e) # entries (nodes l) ps"
    using on_ps(2) by (simp add: entries_def vals)
  have "hv \<notin> fst ` set (buf l)" using assms(2) by (simp add: map_of_eq_None_iff)
  then have upd: "AList.update hv (fresh l) (buf l) = buf l @ [(hv, fresh l)]" by (rule alist_update_new)
  have "hv \<notin> set (map (\<lambda>p. HeaderValue (nodes l p)) ps)" using key by simp
  then have "distinct (map (\<lambda>p. HeaderValue (nodes l' p)) (fresh l # ps))"
    using assms(1) by (simp only: list.map distinct.simps on_ps(1)) (simp add: vals rep_def)
  moreover have "buf l' = buf l @ [(hv, fresh l)]" "fresh l' = fresh l + 1"
    using same by (simp_all add: same_data_def upd)
  moreover have "keyed (nodes l') ` set (fresh l # ps) = insert (hv, fresh l) (keyed (nodes l) ` set ps)"
    by (simp only: list.set image_insert on_ps(3)) (simp add: keyed_def vals)
  ultimately show "rep l' (fresh l # ps)"
    using link assms(1) \<open>hv \<notin> fst ` set (buf l)\<close> unfolding rep_def by (auto simp: less_Suc_eq)
  show "capacity l' = capacity l \<and> selectorName l' = selectorName l \<and> lmu l' = lmu l"
    using same by (simp add: same_data_def)
qed

lemma lru_relI:
  "rep l ps \<Longrightarrow> length ps \<le> unat (capacity l) \<Longrightarrow> 0 < capacity l \<Longrightarrow> unat (capacity l) + 1 < 2 ^ 32 \<Longrightarrow>
     \<not> lmu l \<Longrightarrow> lru_rel l (entries (nodes l) ps)"
  by (auto simp: lru_rel_def)

lemma lru_unlocked [simp]: "\<not> lmu l \<Longrightarrow> l\<lparr>lmu := False\<rparr> = l"
  by (cases l) simp

lemma LRUCache_Get_refines:
  assumes "lru_rel l xs"
  shows "\<exists>l'. LRUCache_Get (Some g) hv l = (Ret (fst (abs_get (g (selectorName l)) (unat (capacity l)) hv xs)), l')
    \<and> lru_rel l' (snd (abs_get (g (selectorName l)) (unat (capacity l)) hv xs))
    \<and> selectorName l' = selectorName l \<and> capacity l' = capacity l"
proof -
  obtain ps where ps: "rep l ps" "length ps \<le> unat (capacity l)" "xs = entries (nodes l) ps"
    and c: "\<not> lmu l" "0 < capacity l" "unat (capacity l) + 1 < 2 ^ 32"
    using assms by (auto simp: lru_rel_def)
  let ?l = "l\<lparr>lmu := True\<rparr>"
  have r: "rep ?l ps" using ps(1) by simp
  have m: "map_of xs hv = map_option (\<lambda>p. NEndpoint (nodes l p)) (map_of (buf l) hv)"
    using rep_map_of [OF ps(1)] ps(3) by simp
  show ?thesis
  proof (cases "map_of (buf l) hv")
    case (Some n)
    let ?m = "moveToHead n ?l"
    obtain qs where qs: "rep ?m qs" "length qs = length ps"
      "entries (nodes ?m) qs = (hv, NEndpoint (nodes l n)) # AList.delete hv xs"
      using lru_get_hit [OF r, of hv n] Some ps(3) by auto
    have same: "same_data ?l ?m" by (rule moveToHead_same)
    have "lru_rel (?m\<lparr>lmu := False\<rparr>) (entries (nodes ?m) qs)"
      using lru_relI [of "?m\<lparr>lmu := False\<rparr>" qs] qs c ps(2) same by (simp add: same_data_def)
    then show ?thesis
      using Some same m qs(3) c(1) by (simp add: LRUCache_Get_def Let_def abs_get_def same_data_def)
  next
    case None
    obtain e err where g: "g (selectorName l) hv = (e, err)" by fastforce
    show ?thesis
    proof (cases err)
      case (Some x)
      then show ?thesis using None g m assms c(1) by (simp add: LRUCache_Get_def abs_get_def)
    next
      case ok: None
      let ?n = "moveToHead (fresh ?l) (?l\<lparr>fresh := fresh ?l + 1,
          nodes := (nodes ?l)(fresh ?l := \<lparr>HeaderValue = hv, NEndpoint = e, Prev = None, Next = None\<rparr>),
          buf := AList.update hv (fresh ?l) (buf ?l)\<rparr>)"
      have n: "rep ?n (fresh ?l # ps)" "entries (nodes ?n) (fresh ?l # ps) = (hv, e) # xs"
        "capacity ?n = capacity l \<and> selectorName ?n = selectorName l \<and> lmu ?n"
        using lru_insert [OF r _ refl, of hv e] None ps(3) by simp_all
      obtain l' where l': "resize ?n = (Ret (), l')" "rep l' (take (unat (capacity l)) (fresh ?l # ps))"
        "entries (nodes l') (take (unat (capacity l)) (fresh ?l # ps)) = take (unat (capacity l)) ((hv, e) # xs)"
        "capacity l' = capacity l" "selectorName l' = selectorName l"
        using resize_rep [OF n(1)] unfolding n(2) using n(3) ps(2) c by (metis Suc_le_mono length_Cons)
      have "lru_rel (l'\<lparr>lmu := False\<rparr>) (take (unat (capacity l)) ((hv, e) # xs))"
        using lru_relI [of "l'\<lparr>lmu := False\<rparr>"] l'(2-4) c by (simp add: l'(3) [symmetric])
      then show ?thesis
        using None g ok m l' c(1) by (simp add: LRUCache_Get_def Let_def abs_get_def)
    qed
  qed
qed

lemma rep_set_endpoint:
  assumes "rep l ps"
  shows "rep (set_node n (NEndpoint_update (\<lambda>_. e)) l) ps"
proof -
  let ?l = "set_node n (NEndpoint_update (\<lambda>_. e)) l"
  have "HeaderValue (nodes ?l p) = HeaderValue (nodes l p)" for p by (simp add: set_node_def)
  moreover have "chain (nodes ?l) None ps None = chain (nodes l) None ps None"
    by (rule chain_cong) (simp add: set_node_def)
  moreover have "head ?l = head l" "tail ?l = tail l" "buf ?l = buf l" "fresh ?l = fresh l"
    by (simp_all add: set_node_def)
  ultimately show ?thesis using assms by (simp add: rep_def linked_def keyed_def)
qed

lemma update_in_place:
  "distinct (map fst xs) \<Longrightarrow> k \<in> fst ` set xs \<Longrightarrow>
     AList.update k v xs = map (\<lambda>(k', v'). if k' = k then (k', v) else (k', v')) xs"
proof (induction xs)
  case (Cons a xs)
  show ?case
  proof (cases "fst a = k")
    case True
    then have "map (\<lambda>(k', v'). if k' = k then (k', v) else (k', v')) xs = xs"
      using Cons.prems(1) by (intro map_idI) (auto simp: image_iff split: prod.split)
    then show ?thesis using True by (cases a) simp
  qed (use Cons in \<open>cases a; simp\<close>)
qed simp

lemma alist_delete_update: "AList.delete k (AList.update k v xs) = AList.delete k xs"
  by (induction xs) auto

lemma LRUCache_Refresh_refines:
  assumes "lru_rel l xs"
  shows "\<exists>l'. LRUCache_Refresh (Some g) hv l = (Ret (), l')
    \<and> lru_rel l' (abs_refresh (g (selectorName l)) hv xs)
    \<and> selectorName l' = selectorName l \<and> capacity l' = capacity l"
proof -
  obtain ps where ps: "rep l ps" "length ps \<le> unat (capacity l)" "xs = entries (nodes l) ps"
    and c: "\<not> lmu l" "0 < capacity l" "unat (capacity l) + 1 < 2 ^ 32"
    using assms by (auto simp: lru_rel_def)
  have m: "map_of xs hv = map_option (\<lambda>p. NEndpoint (nodes l p)) (map_of (buf l) hv)"
    using rep_map_of [OF ps(1)] ps(3) by simp
  show ?thesis
  proof (cases "map_of (buf l) hv")
    case None
    then show ?thesis using assms m c(1) by (simp add: LRUCache_Refresh_def abs_refresh_def)
  next
    case (Some n)
    obtain e err where g: "g (selectorName l) hv = (e, err)" by fastforce
    let ?l = "set_node n (NEndpoint_update (\<lambda>_. e)) (l\<lparr>lmu := True\<rparr>)"
    have r: "rep ?l ps" using rep_set_endpoint ps(1) by simp
    have keep: "buf ?l = buf l" "capacity ?l = capacity l" "selectorName ?l = selectorName l"
      "HeaderValue (nodes ?l p) = HeaderValue (nodes l p)"
      "NEndpoint (nodes ?l p) = (if p = n then e else NEndpoint (nodes l p))" for p
      by (simp_all add: set_node_def)
    have n: "n \<in> set ps" "HeaderValue (nodes l n) = hv" using rep_lookup [OF ps(1)] Some by auto
    have xs: "entries (nodes ?l) ps = AList.update hv e xs"
    proof -
      have "HeaderValue (nodes l p) = hv \<longleftrightarrow> p = n" if "p \<in> set ps" for p
        using that n ps(1) by (auto simp: rep_def distinct_map inj_on_def)
      moreover have "hv \<in> fst ` set xs" using n by (force simp: ps(3) entries_def)
      ultimately show ?thesis
        using lru_rel_distinct [OF assms] by (subst update_in_place) (auto simp: ps(3) entries_def keep)
    qed
    show ?thesis
    proof (cases err)
      case None
      have "lru_rel (?l\<lparr>lmu := False\<rparr>) (AList.update hv e xs)"
        using lru_relI [of "?l\<lparr>lmu := False\<rparr>" ps] r c ps(2) xs keep(2) by simp
      then show ?thesis
        using Some g None m c(1) keep by (simp add: LRUCache_Refresh_def Let_def abs_refresh_def)
    next
      case (Some x)
      obtain us vs where us: "ps = us @ n # vs" using n(1) by (auto simp: in_set_conv_decomp)
      let ?d = "lru_remove n (?l\<lparr>buf := AList.delete hv (buf ?l)\<rparr>)"
      have rn: "rep ?l (us @ n # vs)" using r us by simp
      have d: "rep ?d (us @ vs)" "entries (nodes ?d) (us @ vs) = entries (nodes ?l) (us @ vs)"
        "capacity ?d = capacity l" "selectorName ?d = selectorName l"
        using rep_delete [OF rn] n(2) keep by (simp_all add: same_data_def)
      have "entries (nodes ?l) (us @ vs) = AList.delete hv (entries (nodes ?l) ps)"
        using entries_delete [OF rn] n(2) keep us by simp
      then have ent: "entries (nodes ?d) (us @ vs) = AList.delete hv xs"
        using d(2) xs by (simp add: alist_delete_update)
      have "lru_rel (?d\<lparr>lmu := False\<rparr>) (AList.delete hv xs)"
        using lru_relI [of "?d\<lparr>lmu := False\<rparr>" "us @ vs"] d c ps(2) us ent by simp
      then show ?thesis
        using \<open>map_of (buf l) hv = Some n\<close> g Some m c(1) d by (simp add: LRUCache_Refresh_def Let_def abs_refresh_def)
    qed
  qed
qed

lemma LRUCache_Clear_refines:
  "lru_rel l xs \<Longrightarrow> \<exists>l'. LRUCache_Clear l = (Ret (), l') \<and> lru_rel l' []
     \<and> selectorName l' = selectorName l \<and> capacity l' = capacity l"
  by (auto simp: lru_rel_def LRUCache_Clear_def rep_def linked_def entries_def intro!: exI [of _ "[]"])

section \<open>The LRU cache meets the contract\<close>

text \<open>What is cached for a value is a success the store would give as well.\<close>

definition abs_agrees :: "(string \<Rightarrow> routeAnswer) \<Rightarrow> string \<Rightarrow> cached \<Rightarrow> bool" where
  "abs_agrees g hv xs \<longleftrightarrow> (\<forall>e. map_of xs hv = Some e \<longrightarrow> g hv = (e, None))"

lemma map_of_delete: "map_of (AList.delete k xs) j = (if j = k then None else map_of xs j)"
  by (simp add: delete_conv')

lemma map_of_take_Some: "distinct (map fst xs) \<Longrightarrow> map_of (take n xs) k = Some v \<Longrightarrow> map_of xs k = Some v"
  by (meson in_set_takeD map_of_SomeD map_of_is_SomeI)

lemma abs_get_agrees:
  assumes "distinct (map fst xs)" and "abs_agrees g k xs"
  shows "abs_agrees g k (snd (abs_get g cap hv xs))"
proof (cases "map_of xs hv")
  case None
  obtain e err where g: "g hv = (e, err)" by fastforce
  have d: "distinct (map fst ((hv, e) # xs))" using None assms(1) by (simp add: map_of_eq_None_iff)
  show ?thesis
    using None g assms(2) map_of_take_Some [OF d, of cap k]
    by (cases err) (auto simp: abs_get_def abs_agrees_def split: if_splits)
qed (use assms in \<open>auto simp: abs_get_def abs_agrees_def map_of_delete\<close>)

lemma abs_get_same: "abs_agrees g hv xs \<Longrightarrow> same_answer (fst (abs_get g cap hv xs)) (g hv)"
  by (auto simp: abs_get_def abs_agrees_def same_answer_def split: option.split prod.split)

lemma abs_refresh_agrees:
  "abs_agrees g hv (abs_refresh g hv xs)"
  "abs_agrees g k xs \<Longrightarrow> abs_agrees g k (abs_refresh g hv xs)"
  by (auto simp: abs_refresh_def abs_agrees_def map_of_delete update_conv' split: option.split prod.split)

definition lru_wf :: "lruCache \<Rightarrow> bool" where
  "lru_wf l \<longleftrightarrow> (\<exists>xs. lru_rel l xs)"

definition lru_agrees :: "routeStore \<Rightarrow> string \<Rightarrow> lruCache \<Rightarrow> bool" where
  "lru_agrees g hv l \<longleftrightarrow> (\<exists>xs. lru_rel l xs \<and> abs_agrees (g (selectorName l)) hv xs)"

lemma lru_rel_fun:
  assumes "lru_rel l xs" and "lru_rel l ys"
  shows "xs = ys"
proof -
  have "chain h prev ps None \<Longrightarrow> chain h prev qs None \<Longrightarrow> first_or ps None = first_or qs None \<Longrightarrow>
      distinct ps \<Longrightarrow> distinct qs \<Longrightarrow> ps = qs" for h prev ps qs
  proof (induction ps arbitrary: prev qs)
    case (Cons p ps)
    then obtain qs' where "qs = p # qs'" by (cases qs) auto
    then show ?case using Cons by auto
  qed (auto simp: first_or_def split: list.splits)
  then show ?thesis using assms unfolding lru_rel_def rep_def linked_def by metis
qed

lemma lru_agrees_rel: "lru_rel l xs \<Longrightarrow> lru_agrees g hv l \<longleftrightarrow> abs_agrees (g (selectorName l)) hv xs"
  using lru_rel_fun by (auto simp: lru_agrees_def)

interpretation lru_cache: direct_cache LRUCache_Get LRUCache_Refresh LRUCache_Clear
    selectorName lru_wf lru_agrees
proof unfold_locales
  fix l :: lruCache and g :: routeStore and hv
  assume "lru_wf l"
  then obtain xs where xs: "lru_rel l xs" by (auto simp: lru_wf_def)
  obtain l' where l': "LRUCache_Get (Some g) hv l = (Ret (fst (abs_get (g (selectorName l)) (unat (capacity l)) hv xs)), l')"
    "lru_rel l' (snd (abs_get (g (selectorName l)) (unat (capacity l)) hv xs))" "selectorName l' = selectorName l"
    using LRUCache_Get_refines [OF xs] by blast
  show "\<exists>r l'. LRUCache_Get (Some g) hv l = (Ret r, l') \<and> lru_wf l' \<and> selectorName l' = selectorName l
      \<and> (\<forall>k. lru_agrees g k l \<longrightarrow> lru_agrees g k l')"
    using l' lru_rel_distinct [OF xs] abs_get_agrees
    by (auto simp: lru_agrees_rel [OF xs] lru_agrees_rel [OF l'(2)] lru_wf_def)
  show "same_answer r (g (selectorName l) hv)"
    if "lru_agrees g hv l" "LRUCache_Get (Some g) hv l = (Ret r, l'')" for r l''
    using that l'(1) abs_get_same by (auto simp: lru_agrees_rel [OF xs])
next
  fix l :: lruCache and g :: routeStore and hv
  assume "lru_wf l"
  then obtain xs where xs: "lru_rel l xs" by (auto simp: lru_wf_def)
  obtain l' where l': "LRUCache_Refresh (Some g) hv l = (Ret (), l')"
    "lru_rel l' (abs_refresh (g (selectorName l)) hv xs)" "selectorName l' = selectorName l"
    using LRUCache_Refresh_refines [OF xs] by blast
  show "\<exists>l'. LRUCache_Refresh (Some g) hv l = (Ret (), l') \<and> lru_wf l' \<and> selectorName l' = selectorName l
      \<and> lru_agrees g hv l' \<and> (\<forall>k. lru_agrees g k l \<longrightarrow> lru_agrees g k l')"
    using l' abs_refresh_agrees
    by (auto simp: lru_agrees_rel [OF xs] lru_agrees_rel [OF l'(2)] lru_wf_def)
  obtain l2 where l2: "LRUCache_Clear l = (Ret (), l2)" "lru_rel l2 []" "selectorName l2 = selectorName l"
    using LRUCache_Clear_refines [OF xs] by blast
  then show "\<exists>l'. LRUCache_Clear l = (Ret (), l') \<and> lru_wf l' \<and> selectorName l' = selectorName l \<and> lru_agrees g hv l'"
    by (auto simp: lru_agrees_rel [OF l2(2)] lru_wf_def abs_agrees_def)
qed

end
