(* ===== verification/DirectStrategies.thy ===== *)
theory DirectStrategies
  imports Caches Strategies
begin

text \<open>
  The strategies that leave the choice to somebody else: the direct strategy
  (\<open>strategy/impl/direct.go\<close>), which reads the endpoint of a header value from a cache of custom
  routes, and the Lua strategy (\<open>strategy/impl/custom_lua.go\<close>), which asks a script. The Lua
  interpreter is not part of the repository and is an argument: whether the file runs, and what
  its function \<open>select\<close> returns for the headers and the texts of the endpoints.
\<close>

section \<open>The cache behind a direct strategy\<close>

text \<open>The interface value \<open>cache.DirectCache\<close>: nil or one of the two implementations.\<close>

datatype directCache = is_CacheNil: CacheNil | CacheLRU lruCache | CacheDefault defaultCache

fun DirectCache_Get :: "routeStore option \<Rightarrow> string \<Rightarrow> (directCache, go_error, routeAnswer) go" where
  "DirectCache_Get st hv CacheNil = (Panicked NilDeref, CacheNil)"
| "DirectCache_Get st hv (CacheLRU l) = lift_state CacheLRU (LRUCache_Get st hv l)"
| "DirectCache_Get st hv (CacheDefault d) = lift_state CacheDefault (DefaultCache_Get st hv d)"

fun DirectCache_Refresh :: "routeStore option \<Rightarrow> string \<Rightarrow> (directCache, go_error, unit) go" where
  "DirectCache_Refresh st hv CacheNil = (Panicked NilDeref, CacheNil)"
| "DirectCache_Refresh st hv (CacheLRU l) = lift_state CacheLRU (LRUCache_Refresh st hv l)"
| "DirectCache_Refresh st hv (CacheDefault d) = lift_state CacheDefault (DefaultCache_Refresh st hv d)"

fun DirectCache_Clear :: "(directCache, go_error, unit) go" where
  "DirectCache_Clear CacheNil = (Panicked NilDeref, CacheNil)"
| "DirectCache_Clear (CacheLRU l) = lift_state CacheLRU (LRUCache_Clear l)"
| "DirectCache_Clear (CacheDefault d) = lift_state CacheDefault (DefaultCache_Clear d)"

fun cache_name :: "directCache \<Rightarrow> string" where
  "cache_name CacheNil = []"
| "cache_name (CacheLRU l) = selectorName l"
| "cache_name (CacheDefault d) = dc_selectorName d"

fun cache_wf :: "directCache \<Rightarrow> bool" where
  "cache_wf CacheNil = False"
| "cache_wf (CacheLRU l) = lru_wf l"
| "cache_wf (CacheDefault d) = True"

lemma cache_wf_set [simp]: "cache_wf c \<Longrightarrow> \<not> is_CacheNil c"
  by (cases c) auto

fun cache_agrees :: "routeStore \<Rightarrow> string \<Rightarrow> directCache \<Rightarrow> bool" where
  "cache_agrees g hv CacheNil = False"
| "cache_agrees g hv (CacheLRU l) = lru_agrees g hv l"
| "cache_agrees g hv (CacheDefault d) = True"

interpretation any_cache: direct_cache DirectCache_Get DirectCache_Refresh DirectCache_Clear
    cache_name cache_wf cache_agrees
proof unfold_locales
  fix s :: directCache and g :: routeStore and hv
  assume wf: "cache_wf s"
  show "\<exists>r s'. DirectCache_Get (Some g) hv s = (Ret r, s') \<and> cache_wf s' \<and> cache_name s' = cache_name s
      \<and> (\<forall>k. cache_agrees g k s \<longrightarrow> cache_agrees g k s')"
  proof (cases s)
    case (CacheLRU l)
    then show ?thesis using wf lru_cache.get_wf [of l g hv] by fastforce
  next
    case (CacheDefault d)
    then show ?thesis by (simp add: DefaultCache_Get_def)
  qed (use wf in simp)
  show "\<exists>s'. DirectCache_Refresh (Some g) hv s = (Ret (), s') \<and> cache_wf s' \<and> cache_name s' = cache_name s
      \<and> cache_agrees g hv s' \<and> (\<forall>k. cache_agrees g k s \<longrightarrow> cache_agrees g k s')"
  proof (cases s)
    case (CacheLRU l)
    then show ?thesis using wf lru_cache.refresh_agrees [of l g hv] by fastforce
  next
    case (CacheDefault d)
    then show ?thesis by (simp add: DefaultCache_Refresh_def)
  qed (use wf in simp)
  show "\<exists>s'. DirectCache_Clear s = (Ret (), s') \<and> cache_wf s' \<and> cache_name s' = cache_name s
      \<and> cache_agrees g hv s'"
  proof (cases s)
    case (CacheLRU l)
    then show ?thesis using wf lru_cache.clear_agrees [of l g hv] by fastforce
  next
    case (CacheDefault d)
    then show ?thesis by (simp add: DefaultCache_Clear_def)
  qed (use wf in simp)
next
  fix s s' :: directCache and g :: routeStore and hv r
  assume a: "cache_wf s" "cache_agrees g hv s" "DirectCache_Get (Some g) hv s = (Ret r, s')"
  show "same_answer r (g (cache_name s) hv)"
  proof (cases s)
    case (CacheLRU l)
    then obtain l' where "LRUCache_Get (Some g) hv l = (Ret r, l')"
      using a(3) by (cases "LRUCache_Get (Some g) hv l") auto
    then show ?thesis using a(1,2) CacheLRU lru_cache.get_agrees [of l g hv r l'] by simp
  next
    case (CacheDefault d)
    then show ?thesis using a(3) by (auto simp: DefaultCache_Get_def)
  qed (use a in simp)
qed

section \<open>The direct strategy\<close>

text \<open>
  \<open>endpoints\<close> is a Go map, kept as its items: the source reads its size and its keys only.
\<close>

record directStrategy =
  ds_headerKey :: string
  ds_cache :: directCache
  ds_endpoints :: "(endpoint \<times> attribute) list"

definition Direct_Build :: "selector \<Rightarrow> directStrategy result" where
  "Direct_Build s =
     (let size = (case CacheSize s of Some n \<Rightarrow> if n \<noteq> 0 then n else 4096 | None \<Rightarrow> 4096) in
      out_bind (if CacheType s = BufferTypeLRU
                then out_bind (NewLRUBuffer (Name s) size) (\<lambda>l. Ret (CacheLRU l))
                else Ret (CacheDefault (NewDefaultBuffer (Name s))))
        (\<lambda>c. Ret \<lparr>ds_headerKey = Key s, ds_cache = c, ds_endpoints = []\<rparr>))"

definition header_of :: "string \<Rightarrow> headers" where
  "header_of hv = Map.empty(''yapr-header-value'' \<mapsto> hv)"

definition Direct_Select :: "routeStore option \<Rightarrow> matchTarget \<Rightarrow> draws \<Rightarrow>
    (directStrategy, go_error, selectResult) go" where
  "Direct_Select st t d = (\<lambda>r.
     if ds_headerKey r = [] then (Ret (sel_error ErrNoKeyAvailable), r)
     else if length (ds_endpoints r) = 0 then (Ret (sel_error ErrNoEndpointAvailable), r)
     else (case Headers t (ds_headerKey r) of
         None \<Rightarrow> (Ret (sel_error ErrNoValueAvailable), r)
       | Some hv \<Rightarrow>
           if is_CacheNil (ds_cache r) then (Ret (sel_error ErrCacheNotFound), r)
           else (case DirectCache_Get st hv (ds_cache r) of
               (Ret (endpoint, err), c) \<Rightarrow>
                 (let r = r\<lparr>ds_cache := c\<rparr> in
                  case err of
                    Some x \<Rightarrow> (Ret (None, None, Some x), r)
                  | None \<Rightarrow>
                      (case endpoint of
                         None \<Rightarrow> (Ret (sel_error ErrNoEndpointAvailable), r)
                       | Some e \<Rightarrow>
                           if map_of (ds_endpoints r) e = None
                           then (Ret (Some e, Some (header_of hv), Some (ErrCode ErrEndpointUnavailable)), r)
                           else (Ret (Some e, Some (header_of hv), None), r)))
             | (Panicked p, c) \<Rightarrow> (Panicked p, r\<lparr>ds_cache := c\<rparr>)
             | (Blocked, c) \<Rightarrow> (Blocked, r\<lparr>ds_cache := c\<rparr>))))"

definition Direct_EndpointFilters :: "endpointFilter list" where
  "Direct_EndpointFilters = []"

definition Direct_Update :: "endpoint list \<Rightarrow> (endpoint \<rightharpoonup> attribute) \<Rightarrow> directStrategy \<Rightarrow> directStrategy result" where
  "Direct_Update ord m r = Ret (r\<lparr>ds_endpoints := range_items ord m\<rparr>)"

definition Direct_NotifyRetry :: "routeStore option \<Rightarrow> string \<Rightarrow> (directStrategy, go_error, unit) go" where
  "Direct_NotifyRetry st hv = (\<lambda>r.
     if \<not> is_CacheNil (ds_cache r)
     then (case DirectCache_Refresh st hv (ds_cache r) of (res, c) \<Rightarrow> (res, r\<lparr>ds_cache := c\<rparr>))
     else (Ret (), r))"

section \<open>The Lua strategy\<close>

record luaEngine =
  lua_DoFile :: "string \<Rightarrow> go_error option"
  lua_Call :: "string \<Rightarrow> (string \<rightharpoonup> string) \<Rightarrow> string list \<Rightarrow> go_error + int"

record customLuaStrategy =
  lua_script :: string
  lua_endpoints :: "endpoint list"

definition CustomLua_Build :: "selector \<Rightarrow> customLuaStrategy" where
  "CustomLua_Build s = \<lparr>lua_script = Script s, lua_endpoints = []\<rparr>"

text \<open>An index that passed the bounds test is not negative, so \<open>nat\<close> is the index itself.\<close>

definition CustomLua_Select :: "luaEngine \<Rightarrow> matchTarget \<Rightarrow> draws \<Rightarrow>
    (customLuaStrategy, go_error, selectResult) go" where
  "CustomLua_Select lua t d = read_only (\<lambda>r.
     case lua_DoFile lua (lua_script r) of
       Some err \<Rightarrow> Ret (None, None, Some err)
     | None \<Rightarrow>
         (case lua_Call lua (lua_script r) (Headers t) (map endpoint_String (lua_endpoints r)) of
            Inl err \<Rightarrow> Ret (None, None, Some err)
          | Inr idx \<Rightarrow>
              if idx = - 1 then Ret (sel_error ErrNoEndpointAvailable)
              else if idx < 0 \<or> idx \<ge> int (length (lua_endpoints r)) then Ret (sel_error ErrLuaIndexOutOfRange)
              else out_bind (nth_go (lua_endpoints r) (nat idx)) (\<lambda>e. Ret (sel_ok e))))"

definition CustomLua_EndpointFilters :: "endpointFilter list" where
  "CustomLua_EndpointFilters = []"

definition CustomLua_Update :: "endpoint list \<Rightarrow> (endpoint \<rightharpoonup> attribute) \<Rightarrow> customLuaStrategy \<Rightarrow> customLuaStrategy result" where
  "CustomLua_Update ord m r = Ret (r\<lparr>lua_endpoints := map fst (range_items ord m)\<rparr>)"

definition lua_holds :: "customLuaStrategy \<Rightarrow> endpoint set \<Rightarrow> bool" where
  "lua_holds r E \<longleftrightarrow> set (lua_endpoints r) = E"

interpretation custom_lua: strategy_contract True CustomLua_Update "CustomLua_Select lua" lua_holds
    for lua :: luaEngine
  by unfold_locales
    (auto simp: CustomLua_Update_def CustomLua_Select_def lua_holds_def range_items_fst range_order_set
      split: option.split sum.split)

section \<open>What a direct selection returns\<close>

definition direct_holds :: "directStrategy \<Rightarrow> endpoint set \<Rightarrow> bool" where
  "direct_holds r E \<longleftrightarrow> set (map fst (ds_endpoints r)) = E"

abbreviation direct_wf :: "directStrategy \<Rightarrow> bool" where
  "direct_wf r \<equiv> cache_wf (ds_cache r)"

text \<open>The answer of the store, filtered by the endpoints that are known.\<close>

definition direct_answer :: "routeAnswer \<Rightarrow> string \<Rightarrow> (endpoint \<Rightarrow> bool) \<Rightarrow> selectResult" where
  "direct_answer a hv known =
     (case snd a of
        Some err \<Rightarrow> (None, None, Some err)
      | None \<Rightarrow>
          (case fst a of
             None \<Rightarrow> sel_error ErrNoEndpointAvailable
           | Some e \<Rightarrow>
               (Some e, Some (header_of hv), if known e then None else Some (ErrCode ErrEndpointUnavailable))))"

lemma direct_answer_same: "same_answer a b \<Longrightarrow> direct_answer a hv P = direct_answer b hv P"
  by (auto simp: same_answer_def direct_answer_def split: option.split)

lemma Direct_Select_known:
  assumes "direct_wf r" and "ds_headerKey r \<noteq> []" and "ds_endpoints r \<noteq> []"
    and "Headers t (ds_headerKey r) = Some hv"
  obtains a c where "DirectCache_Get (Some g) hv (ds_cache r) = (Ret a, c)" and "cache_wf c"
    and "Direct_Select (Some g) t d r =
      (Ret (direct_answer a hv (\<lambda>e. map_of (ds_endpoints r) e \<noteq> None)), r\<lparr>ds_cache := c\<rparr>)"
proof -
  obtain a c where a: "DirectCache_Get (Some g) hv (ds_cache r) = (Ret a, c)" "cache_wf c"
    using any_cache.get_wf [OF assms(1)] by blast
  moreover have "\<not> is_CacheNil (ds_cache r)" using assms(1) by auto
  ultimately have "Direct_Select (Some g) t d r =
      (Ret (direct_answer a hv (\<lambda>e. map_of (ds_endpoints r) e \<noteq> None)), r\<lparr>ds_cache := c\<rparr>)"
    using assms by (cases a) (simp add: Direct_Select_def direct_answer_def Let_def split: option.split)
  then show thesis using a that by blast
qed

lemma direct_answer_safe: "safe_pick {e. P e} (direct_answer a hv P)"
  by (simp add: direct_answer_def split: option.split)

lemma map_of_keys: "map_of xs e \<noteq> None \<longleftrightarrow> e \<in> set (map fst xs)"
  by (simp add: map_of_eq_None_iff)

lemma Direct_Select_all:
  assumes "direct_wf r" and "direct_holds r E"
  shows "\<exists>p r'. Direct_Select (Some g) t d r = (Ret p, r') \<and> safe_pick E p \<and> direct_wf r' \<and> direct_holds r' E"
proof (cases "ds_headerKey r = [] \<or> ds_endpoints r = [] \<or> Headers t (ds_headerKey r) = None")
  case True
  then show ?thesis using assms by (auto simp: Direct_Select_def)
next
  case False
  then obtain hv where hv: "Headers t (ds_headerKey r) = Some hv" "ds_headerKey r \<noteq> []" "ds_endpoints r \<noteq> []"
    by auto
  obtain a c where s: "cache_wf c" "Direct_Select (Some g) t d r =
      (Ret (direct_answer a hv (\<lambda>e. map_of (ds_endpoints r) e \<noteq> None)), r\<lparr>ds_cache := c\<rparr>)"
    using Direct_Select_known [OF assms(1) hv(2,3,1)] by metis
  moreover have "{e. map_of (ds_endpoints r) e \<noteq> None} = E"
    using assms(2) unfolding map_of_keys direct_holds_def by simp
  ultimately show ?thesis
    using assms(2) direct_answer_safe [of "\<lambda>e. map_of (ds_endpoints r) e \<noteq> None" a hv]
    by (simp add: direct_holds_def)
qed

interpretation direct: safe_strategy True Direct_Update "Direct_Select (Some g)" "\<lambda>r. cache_wf (ds_cache r)"
    direct_holds for g :: routeStore
proof unfold_locales
  show "\<exists>s'. Direct_Update ord m s = Ret s' \<and> cache_wf (ds_cache s') \<and> direct_holds s' (dom m)"
    if "direct_wf s" "range_order ord m" for s m ord
    using that by (simp add: Direct_Update_def direct_holds_def range_items_fst_set)
  show "cache_wf (ds_cache (snd (Direct_Select (Some g) t d s))) \<and> direct_holds (snd (Direct_Select (Some g) t d s)) E"
    "\<exists>r. fst (Direct_Select (Some g) t d s) = Ret r \<and> safe_pick E r"
    if "direct_wf s" "direct_holds s E" for s E t d
    using Direct_Select_all [OF that, of g t d] by auto
qed

text \<open>A selection after \<open>NotifyRetry\<close> for its header value answers what the store holds now.\<close>

lemma Direct_NotifyRetry_fresh:
  assumes "direct_wf r" and "ds_headerKey r \<noteq> []" and "ds_endpoints r \<noteq> []"
    and "Headers t (ds_headerKey r) = Some hv"
  shows "\<exists>r1. Direct_NotifyRetry (Some g) hv r = (Ret (), r1) \<and> direct_wf r1
    \<and> fst (Direct_Select (Some g) t d r1) =
        Ret (direct_answer (g (cache_name (ds_cache r)) hv) hv (\<lambda>e. map_of (ds_endpoints r) e \<noteq> None))"
proof -
  obtain c where c: "DirectCache_Refresh (Some g) hv (ds_cache r) = (Ret (), c)" "cache_wf c"
    using any_cache.refresh_agrees [OF assms(1)] by blast
  let ?r = "r\<lparr>ds_cache := c\<rparr>"
  have n: "Direct_NotifyRetry (Some g) hv r = (Ret (), ?r)"
    using c assms(1) by (auto simp: Direct_NotifyRetry_def)
  obtain a c' where a: "DirectCache_Get (Some g) hv c = (Ret a, c')" "same_answer a (g (cache_name (ds_cache r)) hv)"
    using any_cache.get_after_refresh [OF assms(1) c(1)] by blast
  obtain a' c'' where "DirectCache_Get (Some g) hv (ds_cache ?r) = (Ret a', c'')"
    "Direct_Select (Some g) t d ?r =
      (Ret (direct_answer a' hv (\<lambda>e. map_of (ds_endpoints ?r) e \<noteq> None)), ?r\<lparr>ds_cache := c''\<rparr>)"
    by (rule Direct_Select_known [of ?r t hv g d]) (use c(2) assms(2-4) in simp_all)
  then show ?thesis using n c(2) a direct_answer_same [OF a(2)] by auto
qed

lemma Direct_Build_wf:
  assumes "\<And>n. CacheSize s = Some n \<Longrightarrow> unat n + 1 < 2 ^ 32"
  shows "\<exists>r. Direct_Build s = Ret r \<and> direct_wf r \<and> direct_holds r {}
    \<and> ds_headerKey r = Key s \<and> cache_name (ds_cache r) = Name s"
proof -
  let ?size = "case CacheSize s of Some n \<Rightarrow> if n \<noteq> 0 then n else 4096 | None \<Rightarrow> (4096 :: u32)"
  have "0 < ?size" "unat ?size + 1 < 2 ^ 32"
    using assms by (auto simp: word_gt_0 split: option.split)
  then obtain l where "NewLRUBuffer (Name s) ?size = Ret l" "lru_rel l []" "selectorName l = Name s"
    using lru_rel_New by blast
  then show ?thesis
    by (auto simp: Direct_Build_def Let_def direct_holds_def lru_wf_def NewDefaultBuffer_def)
qed

end
