(* ===== verification/Dispatch.thy ===== *)
theory Dispatch
  imports Weighted HashRing DirectStrategies
begin

text \<open>
  The value of the interface \<open>strategy.Strategy\<close> and the registry of builders
  (\<open>core/strategy.go\<close>, \<open>strategy/strategy.go\<close>). All nine strategies together meet the contract of
  a strategy, given an ordered map that keeps its promises and a registered store.
\<close>

record 'm env =
  env_treemap :: "'m treemap"
  env_lua :: luaEngine

datatype 'm strategy =
    SRandom randomStrategy
  | SRoundRobin roundRobinStrategy
  | SWeightedRandom "'m weightedRandomStrategy"
  | SWeightedRoundRobin "'m weightedRoundRobinStrategy"
  | SLeastRequest leastRequestStrategy
  | SLeastCost leastCostStrategy
  | SHashRing "'m hashRingStrategy"
  | SDirect directStrategy
  | SCustomLua customLuaStrategy

fun Strategy_Select :: "'m env \<Rightarrow> routeStore option \<Rightarrow> matchTarget \<Rightarrow> draws \<Rightarrow>
    ('m strategy, go_error, selectResult) go" where
  "Strategy_Select env st t d (SRandom s) = lift_state SRandom (Random_Select t d s)"
| "Strategy_Select env st t d (SRoundRobin s) = lift_state SRoundRobin (RoundRobin_Select t d s)"
| "Strategy_Select env st t d (SWeightedRandom s) =
     lift_state SWeightedRandom (WeightedRandom_Select (env_treemap env) t d s)"
| "Strategy_Select env st t d (SWeightedRoundRobin s) =
     lift_state SWeightedRoundRobin (WeightedRoundRobin_Select (env_treemap env) t d s)"
| "Strategy_Select env st t d (SLeastRequest s) = lift_state SLeastRequest (LeastRequest_Select t d s)"
| "Strategy_Select env st t d (SLeastCost s) = lift_state SLeastCost (LeastCost_Select t d s)"
| "Strategy_Select env st t d (SHashRing s) = lift_state SHashRing (HashRing_Select (env_treemap env) t d s)"
| "Strategy_Select env st t d (SDirect s) = lift_state SDirect (Direct_Select st t d s)"
| "Strategy_Select env st t d (SCustomLua s) = lift_state SCustomLua (CustomLua_Select (env_lua env) t d s)"

fun Strategy_Update :: "'m env \<Rightarrow> endpoint list \<Rightarrow> (endpoint \<rightharpoonup> attribute) \<Rightarrow> 'm strategy \<Rightarrow> 'm strategy result" where
  "Strategy_Update env ord m (SRandom s) = out_bind (Random_Update ord m s) (\<lambda>s. Ret (SRandom s))"
| "Strategy_Update env ord m (SRoundRobin s) = out_bind (RoundRobin_Update ord m s) (\<lambda>s. Ret (SRoundRobin s))"
| "Strategy_Update env ord m (SWeightedRandom s) =
     out_bind (WeightedRandom_Update (env_treemap env) ord m s) (\<lambda>s. Ret (SWeightedRandom s))"
| "Strategy_Update env ord m (SWeightedRoundRobin s) =
     out_bind (WeightedRoundRobin_Update (env_treemap env) ord m s) (\<lambda>s. Ret (SWeightedRoundRobin s))"
| "Strategy_Update env ord m (SLeastRequest s) = out_bind (LeastRequest_Update ord m s) (\<lambda>s. Ret (SLeastRequest s))"
| "Strategy_Update env ord m (SLeastCost s) = out_bind (LeastCost_Update ord m s) (\<lambda>s. Ret (SLeastCost s))"
| "Strategy_Update env ord m (SHashRing s) =
     out_bind (HashRing_Update (env_treemap env) ord m s) (\<lambda>s. Ret (SHashRing s))"
| "Strategy_Update env ord m (SDirect s) = out_bind (Direct_Update ord m s) (\<lambda>s. Ret (SDirect s))"
| "Strategy_Update env ord m (SCustomLua s) = out_bind (CustomLua_Update ord m s) (\<lambda>s. Ret (SCustomLua s))"

fun Strategy_EndpointFilters :: "'m strategy \<Rightarrow> endpointFilter list" where
  "Strategy_EndpointFilters (SRandom s) = Random_EndpointFilters"
| "Strategy_EndpointFilters (SRoundRobin s) = RoundRobin_EndpointFilters"
| "Strategy_EndpointFilters (SWeightedRandom s) = WeightedRandom_EndpointFilters"
| "Strategy_EndpointFilters (SWeightedRoundRobin s) = WeightedRoundRobin_EndpointFilters"
| "Strategy_EndpointFilters (SLeastRequest s) = LeastRequest_EndpointFilters"
| "Strategy_EndpointFilters (SLeastCost s) = LeastCost_EndpointFilters"
| "Strategy_EndpointFilters (SHashRing s) = HashRing_EndpointFilters"
| "Strategy_EndpointFilters (SDirect s) = Direct_EndpointFilters"
| "Strategy_EndpointFilters (SCustomLua s) = CustomLua_EndpointFilters"

text \<open>Only the direct strategy implements \<open>StatefulStrategy\<close>.\<close>

fun Strategy_NotifyRetry :: "routeStore option \<Rightarrow> string \<Rightarrow> ('m strategy, go_error, unit) go" where
  "Strategy_NotifyRetry st hv (SDirect s) = lift_state SDirect (Direct_NotifyRetry st hv s)"
| "Strategy_NotifyRetry st hv s = (Ret (), s)"

section \<open>Builders\<close>

type_synonym 'm builder = "selector \<Rightarrow> ('m strategy option \<times> go_error option) result"
type_synonym 'm builders = "string \<rightharpoonup> 'm builder"

definition RegisterStrategyBuilder :: "string \<Rightarrow> 'm builder \<Rightarrow> 'm builders \<Rightarrow> 'm builders" where
  "RegisterStrategyBuilder n b bs = bs(n \<mapsto> b)"

definition built :: "'m strategy \<Rightarrow> ('m strategy option \<times> go_error option) result" where
  "built s = Ret (Some s, None)"

text \<open>The registrations of the client SDK (\<open>sdk/client/sdk.go\<close>), in its order.\<close>

definition builtin_builders :: "'m builders" where
  "builtin_builders =
     RegisterStrategyBuilder StrategyCustomLua (\<lambda>s. built (SCustomLua (CustomLua_Build s)))
    (RegisterStrategyBuilder StrategyDirect (\<lambda>s. out_bind (Direct_Build s) (\<lambda>x. built (SDirect x)))
    (RegisterStrategyBuilder StrategyHashRing (\<lambda>s. built (SHashRing (HashRing_Build s)))
    (RegisterStrategyBuilder StrategyLeastCost (\<lambda>s. built (SLeastCost (LeastCost_Build s)))
    (RegisterStrategyBuilder StrategyLeastRequest (\<lambda>s. built (SLeastRequest (LeastRequest_Build s)))
    (RegisterStrategyBuilder StrategyWeightedRoundRobin (\<lambda>s. built (SWeightedRoundRobin (WeightedRoundRobin_Build s)))
    (RegisterStrategyBuilder StrategyWeightedRandom (\<lambda>s. built (SWeightedRandom (WeightedRandom_Build s)))
    (RegisterStrategyBuilder StrategyRoundRobin (\<lambda>s. built (SRoundRobin (RoundRobin_Build s)))
    (RegisterStrategyBuilder StrategyRandom (\<lambda>s. built (SRandom (Random_Build s)))
     Map.empty))))))))"

definition GetStrategy :: "'m builders \<Rightarrow> selector \<Rightarrow> ('m strategy option \<times> go_error option) result" where
  "GetStrategy bs s =
     (case bs (Strategy s) of
        None \<Rightarrow> Ret (None, Some (ErrCode ErrUnknownStrategy))
      | Some b \<Rightarrow> b s)"

section \<open>The contract for every strategy\<close>

fun strategy_wf :: "'m strategy \<Rightarrow> bool" where
  "strategy_wf (SDirect s) = cache_wf (ds_cache s)"
| "strategy_wf _ = True"

fun strategy_holds :: "'m env \<Rightarrow> 'm strategy \<Rightarrow> endpoint set \<Rightarrow> bool" where
  "strategy_holds env (SRandom s) E = random_holds s E"
| "strategy_holds env (SRoundRobin s) E = round_robin_holds s E"
| "strategy_holds env (SWeightedRandom s) E = wr_holds (env_treemap env) s E"
| "strategy_holds env (SWeightedRoundRobin s) E = wrr_holds (env_treemap env) s E"
| "strategy_holds env (SLeastRequest s) E = lr_holds s E"
| "strategy_holds env (SLeastCost s) E = lc_holds s E"
| "strategy_holds env (SHashRing s) E = hr_holds (env_treemap env) s E"
| "strategy_holds env (SDirect s) E = direct_holds s E"
| "strategy_holds env (SCustomLua s) E = lua_holds s E"

lemma any_update_holds:
  assumes "treemap_ok (env_treemap env)" and "strategy_wf s" and "range_order ord m" and "attrs_present m"
  shows "\<exists>s'. Strategy_Update env ord m s = Ret s' \<and> strategy_wf s' \<and> strategy_holds env s' (dom m)"
proof (cases s)
  case (SRandom x)
  then show ?thesis using random.update_holds [OF TrueI assms(3,4), of x] by auto
next
  case (SRoundRobin x)
  then show ?thesis using round_robin.update_holds [OF TrueI assms(3,4), of x] by auto
next
  case (SWeightedRandom x)
  then show ?thesis using weighted_random.update_holds [OF assms(1,3,4), of x] by auto
next
  case (SWeightedRoundRobin x)
  then show ?thesis using weighted_round_robin.update_holds [OF assms(1,3,4), of x] by auto
next
  case (SLeastRequest x)
  then show ?thesis using least_request.update_holds [OF TrueI assms(3,4), of x] by auto
next
  case (SLeastCost x)
  then show ?thesis using least_cost.update_holds [OF TrueI assms(3,4), of x] by auto
next
  case (SHashRing x)
  then show ?thesis using hash_ring.update_holds [OF assms(1,3,4), of x] by auto
next
  case (SDirect x)
  then show ?thesis using direct.update_holds [OF TrueI _ assms(3,4), of x] assms(2) by auto
next
  case (SCustomLua x)
  then show ?thesis using custom_lua.update_holds [OF TrueI assms(3,4), of x] by auto
qed

lemma any_select:
  assumes "treemap_ok (env_treemap env)" and "strategy_wf s" and "strategy_holds env s E"
  shows "strategy_wf (snd (Strategy_Select env (Some g) t d s))
     \<and> strategy_holds env (snd (Strategy_Select env (Some g) t d s)) E
     \<and> (\<exists>r. fst (Strategy_Select env (Some g) t d s) = Ret r \<and> safe_pick E r)"
proof (cases s)
  case (SRandom x)
  then show ?thesis using assms random.safe.select_holds [OF TrueI TrueI, of x E t d]
      random.safe.select_safe [OF TrueI TrueI, of x E t d] by simp
next
  case (SRoundRobin x)
  then show ?thesis using assms round_robin.safe.select_holds [OF TrueI TrueI, of x E t d]
      round_robin.safe.select_safe [OF TrueI TrueI, of x E t d] by simp
next
  case (SWeightedRandom x)
  then show ?thesis using assms weighted_random.safe.select_holds [OF assms(1) TrueI, of x E t d]
      weighted_random.safe.select_safe [OF assms(1) TrueI, of x E t d] by simp
next
  case (SWeightedRoundRobin x)
  then show ?thesis using assms weighted_round_robin.safe.select_holds [OF assms(1) TrueI, of x E t d]
      weighted_round_robin.safe.select_safe [OF assms(1) TrueI, of x E t d] by simp
next
  case (SLeastRequest x)
  then show ?thesis using assms least_request.safe.select_holds [OF TrueI TrueI, of x E t d]
      least_request.safe.select_safe [OF TrueI TrueI, of x E t d] by simp
next
  case (SLeastCost x)
  then show ?thesis using assms least_cost.safe.select_holds [OF TrueI TrueI, of x E t d]
      least_cost.safe.select_safe [OF TrueI TrueI, of x E t d] by simp
next
  case (SHashRing x)
  then show ?thesis using assms hash_ring.safe.select_holds [OF assms(1) TrueI, of x E t d]
      hash_ring.safe.select_safe [OF assms(1) TrueI, of x E t d] by simp
next
  case (SDirect x)
  then show ?thesis using assms direct.select_holds [OF TrueI, of x E g t d]
      direct.select_safe [OF TrueI, of x E g t d] by simp
next
  case (SCustomLua x)
  then show ?thesis using assms custom_lua.safe.select_holds [OF TrueI TrueI, of x E "env_lua env" t d]
      custom_lua.safe.select_safe [OF TrueI TrueI, of x E "env_lua env" t d] by simp
qed

interpretation any_strategy: safe_strategy "treemap_ok (env_treemap env)" "Strategy_Update env"
    "Strategy_Select env (Some g)" strategy_wf "strategy_holds env" for env :: "'m env" and g
  by unfold_locales (use any_update_holds any_select in blast)+

text \<open>
  The strategies that do not refuse while they hold an endpoint. The others may: the weighted ones when
  all weights are zero, the rest when a request lacks the header or the route they ask for.
\<close>

fun generous :: "'m strategy \<Rightarrow> bool" where
  "generous (SRandom s) = True"
| "generous (SRoundRobin s) = True"
| "generous (SLeastRequest s) = True"
| "generous (SLeastCost s) = True"
| "generous _ = False"

lemma generous_wf: "generous s \<Longrightarrow> strategy_wf s"
  by (cases s) simp_all

lemma generous_select:
  assumes "generous s" and "strategy_holds env s E" and "E \<noteq> {}" and "card E < 2 ^ 32"
  shows "\<exists>e h. fst (Strategy_Select env g t d s) = Ret (Some e, h, None) \<and> e \<in> E"
proof (cases s)
  case (SRandom x)
  then show ?thesis using random.select_one [OF TrueI _ assms(3,4), of x t d] assms(2) by simp
next
  case (SRoundRobin x)
  then show ?thesis using round_robin.select_one [OF TrueI _ assms(3,4), of x t d] assms(2) by simp
next
  case (SLeastRequest x)
  then show ?thesis using least_request.select_one [OF TrueI _ assms(3,4), of x t d] assms(2) by simp
next
  case (SLeastCost x)
  then show ?thesis using least_cost.select_one [OF TrueI _ assms(3,4), of x t d] assms(2) by simp
qed (use assms(1) in simp_all)

text \<open>Every built-in strategy can be built, and a well-formed one is.\<close>

lemma GetStrategy_builtin:
  assumes "\<And>n. CacheSize s = Some n \<Longrightarrow> unat n + 1 < 2 ^ 32"
    and "Strategy s \<in> {StrategyRandom, StrategyRoundRobin, StrategyWeightedRandom,
      StrategyWeightedRoundRobin, StrategyLeastRequest, StrategyLeastCost, StrategyHashRing,
      StrategyDirect, StrategyCustomLua}"
  shows "\<exists>x. GetStrategy builtin_builders s = Ret (Some x, None) \<and> strategy_wf x"
proof -
  obtain r where "Direct_Build s = Ret r" "cache_wf (ds_cache r)"
    using Direct_Build_wf [of s] assms(1) by blast
  then show ?thesis using assms(2)
    by (auto simp: GetStrategy_def builtin_builders_def RegisterStrategyBuilder_def built_def strategy_consts)
qed

lemma GetStrategy_unknown:
  "bs (Strategy s) = None \<Longrightarrow> GetStrategy bs s = Ret (None, Some (ErrCode ErrUnknownStrategy))"
  by (simp add: GetStrategy_def)

end
