(* ===== verification/Service.thy ===== *)
theory Service
  imports Types
begin

text \<open>
  \<open>pkg/yapr/core/types/service.go\<close>: the endpoints a service is known to have, per pod, with their
  attributes. Every operation takes the write or the read lock on entry and releases it on exit,
  so an operation is one step. \<open>UpdateNTF\<close> is the number of the notification channel in use:
  \<open>update\<close> closes it and makes the next one.

  The second half states what the service is for, a directory of pods, and shows that the
  operations implement it as long as a pod is registered only while it is absent, which is how
  the server side registers; without that discipline the directory is not implemented, and two
  lemmas say how it fails.
\<close>

section \<open>State\<close>

record service =
  svName :: string
  svEndpoints :: "endpoint list"
  endpointsSet :: "endpoint set"
  endpointsByPod :: "string \<rightharpoonup> endpoint list"
  attrMap :: "endpoint \<rightharpoonup> attributes"
  dirty :: bool
  version :: u64
  UpdateNTF :: nat

definition NewService :: "string \<Rightarrow> service" where
  "NewService n =
     \<lparr>svName = n, svEndpoints = [], endpointsSet = {}, endpointsByPod = Map.empty,
      attrMap = Map.empty, dirty = False, version = 0, UpdateNTF = 0\<rparr>"

section \<open>Operations\<close>

definition setDirty :: "service \<Rightarrow> service" where
  "setDirty s = s\<lparr>dirty := True\<rparr>"

definition update :: "service \<Rightarrow> service" where
  "update s =
     (if \<not> dirty s then s
      else s\<lparr>dirty := False, version := version s + 1, UpdateNTF := Suc (UpdateNTF s)\<rparr>)"

definition Endpoints :: "service \<Rightarrow> endpoint list \<times> service" where
  "Endpoints s = (let s' = (if dirty s then update s else s) in (svEndpoints s', s'))"

definition EndpointsSet :: "service \<Rightarrow> endpoint set \<times> service" where
  "EndpointsSet s = (let s' = (if dirty s then update s else s) in (endpointsSet s', s'))"

definition Version :: "service \<Rightarrow> u64 \<times> service" where
  "Version s = (let s' = (if dirty s then update s else s) in (version s', s'))"

definition NewDefaultAttr :: attributeInSelector where
  "NewDefaultAttr = \<lparr>Weight = Some 1, RPS = None, Deadline = Some 0\<rparr>"

definition NewAttributes :: attributes where
  "NewAttributes = \<lparr>CommonAvailable = True, InSelector = Map.empty\<rparr>"

definition GetAttribute :: "endpoint \<Rightarrow> string \<Rightarrow> service \<Rightarrow> attribute option" where
  "GetAttribute e sel s =
     (case attrMap s e of
        None \<Rightarrow> None
      | Some m \<Rightarrow> Some \<lparr>Available = CommonAvailable m, InSel = InSelector m sel\<rparr>)"

text \<open>One element of the loop of \<open>Attributes\<close>.\<close>

definition attribute_of :: "string \<Rightarrow> service \<Rightarrow> endpoint \<Rightarrow> attribute" where
  "attribute_of sel s e =
     (case attrMap s e of
        Some attr \<Rightarrow>
          \<lparr>Available = CommonAvailable attr,
           InSel = Some (case InSelector attr sel of Some a \<Rightarrow> a | None \<Rightarrow> NewDefaultAttr)\<rparr>
      | None \<Rightarrow> \<lparr>Available = False, InSel = Some NewDefaultAttr\<rparr>)"

definition Attributes :: "string \<Rightarrow> service \<Rightarrow> (endpoint list \<times> attribute list) \<times> service" where
  "Attributes sel s =
     (let s' = (if dirty s then update s else s)
      in ((svEndpoints s', map (attribute_of sel s') (svEndpoints s')), s'))"

definition SetAttributeInSelector :: "endpoint \<Rightarrow> string \<Rightarrow> attributeInSelector \<Rightarrow> service \<Rightarrow> service" where
  "SetAttributeInSelector e sel a s =
     (if e \<notin> endpointsSet s then s
      else
        (let m = (case attrMap s e of Some m \<Rightarrow> m | None \<Rightarrow> NewAttributes)
         in setDirty (s\<lparr>attrMap := (attrMap s)(e \<mapsto> m\<lparr>InSelector := (InSelector m)(sel \<mapsto> a)\<rparr>)\<rparr>)))"

fun forget_attrs :: "endpoint list \<Rightarrow> (endpoint \<rightharpoonup> attributes) \<Rightarrow> (endpoint \<rightharpoonup> attributes)" where
  "forget_attrs [] m = m"
| "forget_attrs (e # es) m = forget_attrs es (m(e := None))"

fun add_endpoints :: "endpoint list \<Rightarrow> service \<Rightarrow> service" where
  "add_endpoints [] s = s"
| "add_endpoints (e # es) s =
     add_endpoints es
       (s\<lparr>attrMap := (attrMap s)(e \<mapsto> NewAttributes),
          endpointsSet := insert e (endpointsSet s),
          svEndpoints := svEndpoints s @ [e]\<rparr>)"

definition RegisterPod :: "string \<Rightarrow> endpoint list \<Rightarrow> service \<Rightarrow> service" where
  "RegisterPod pod es s =
     (let s1 = (case endpointsByPod s pod of
                  Some old \<Rightarrow> s\<lparr>attrMap := forget_attrs old (attrMap s)\<rparr>
                | None \<Rightarrow> s);
          s2 = add_endpoints es s1;
          s3 = s2\<lparr>endpointsByPod := (endpointsByPod s2)(pod \<mapsto> es)\<rparr>
      in update (setDirty s3))"

fun remove_endpoints :: "endpoint list \<Rightarrow> service \<Rightarrow> service" where
  "remove_endpoints [] s = s"
| "remove_endpoints (e # es) s =
     remove_endpoints es
       (s\<lparr>attrMap := (attrMap s)(e := None), endpointsSet := endpointsSet s - {e}\<rparr>)"

definition pod_endpoints :: "string \<Rightarrow> service \<Rightarrow> endpoint list" where
  "pod_endpoints pod s = (case endpointsByPod s pod of Some es \<Rightarrow> es | None \<Rightarrow> [])"

text \<open>
  \<open>RemovePod\<close> rebuilds the list of endpoints by a loop over the set; \<open>ord\<close> is the order of that
  loop, any enumeration of the set.
\<close>

definition set_order :: "'a list \<Rightarrow> 'a set \<Rightarrow> bool" where
  "set_order ord A \<longleftrightarrow> distinct ord \<and> set ord = A"

definition RemovePod :: "endpoint list \<Rightarrow> string \<Rightarrow> service \<Rightarrow> service" where
  "RemovePod ord pod s =
     (let s1 = remove_endpoints (pod_endpoints pod s) s;
          s2 = s1\<lparr>svEndpoints := ord\<rparr>;
          s3 = s2\<lparr>endpointsByPod := (endpointsByPod s2)(pod := None)\<rparr>
      in update (setDirty s3))"

definition remaining_endpoints :: "string \<Rightarrow> service \<Rightarrow> endpoint set" where
  "remaining_endpoints pod s = endpointsSet s - set (pod_endpoints pod s)"

fun hang_endpoints :: "endpoint list \<Rightarrow> (endpoint \<rightharpoonup> attributes) \<Rightarrow> (endpoint \<rightharpoonup> attributes)" where
  "hang_endpoints [] m = m"
| "hang_endpoints (e # es) m =
     hang_endpoints es
       (case m e of Some a \<Rightarrow> m(e \<mapsto> a\<lparr>CommonAvailable := False\<rparr>) | None \<Rightarrow> m)"

definition HangPod :: "string \<Rightarrow> service \<Rightarrow> service" where
  "HangPod pod s =
     update (setDirty (s\<lparr>attrMap := hang_endpoints (pod_endpoints pod s) (attrMap s)\<rparr>))"

section \<open>Effects of the loops\<close>

lemma forget_attrs_apply: "forget_attrs es m e = (if e \<in> set es then None else m e)"
  by (induction es arbitrary: m) auto

lemma add_endpoints_sel [simp]:
  "svName (add_endpoints es s) = svName s"
  "svEndpoints (add_endpoints es s) = svEndpoints s @ es"
  "endpointsSet (add_endpoints es s) = endpointsSet s \<union> set es"
  "endpointsByPod (add_endpoints es s) = endpointsByPod s"
  "dirty (add_endpoints es s) = dirty s"
  "version (add_endpoints es s) = version s"
  "UpdateNTF (add_endpoints es s) = UpdateNTF s"
  by (induction es arbitrary: s) auto

lemma add_endpoints_attrMap [simp]:
  "attrMap (add_endpoints es s) e = (if e \<in> set es then Some NewAttributes else attrMap s e)"
  by (induction es arbitrary: s) auto

lemma remove_endpoints_sel [simp]:
  "svName (remove_endpoints es s) = svName s"
  "svEndpoints (remove_endpoints es s) = svEndpoints s"
  "endpointsSet (remove_endpoints es s) = endpointsSet s - set es"
  "endpointsByPod (remove_endpoints es s) = endpointsByPod s"
  "dirty (remove_endpoints es s) = dirty s"
  "version (remove_endpoints es s) = version s"
  "UpdateNTF (remove_endpoints es s) = UpdateNTF s"
  by (induction es arbitrary: s) auto

lemma remove_endpoints_attrMap [simp]:
  "attrMap (remove_endpoints es s) e = (if e \<in> set es then None else attrMap s e)"
  by (induction es arbitrary: s) auto

lemma hang_endpoints_apply:
  "hang_endpoints es m e =
     (if e \<in> set es then map_option (CommonAvailable_update (\<lambda>_. False)) (m e) else m e)"
  by (induction es arbitrary: m) (auto split: option.splits simp: option.map_comp comp_def)

lemma update_setDirty [simp]:
  "update (setDirty s) = s\<lparr>dirty := False, version := version s + 1, UpdateNTF := Suc (UpdateNTF s)\<rparr>"
  by (simp add: update_def setDirty_def)

section \<open>The effect of each operation\<close>

lemma RegisterPod_sel [simp]:
  "svName (RegisterPod pod es s) = svName s"
  "svEndpoints (RegisterPod pod es s) = svEndpoints s @ es"
  "endpointsSet (RegisterPod pod es s) = endpointsSet s \<union> set es"
  "endpointsByPod (RegisterPod pod es s) = (endpointsByPod s)(pod \<mapsto> es)"
  "dirty (RegisterPod pod es s) = False"
  "version (RegisterPod pod es s) = version s + 1"
  "UpdateNTF (RegisterPod pod es s) = Suc (UpdateNTF s)"
  by (simp_all add: RegisterPod_def Let_def split: option.split)

lemma RegisterPod_attrMap [simp]:
  "attrMap (RegisterPod pod es s) e =
     (if e \<in> set es then Some NewAttributes
      else if e \<in> set (pod_endpoints pod s) then None else attrMap s e)"
  by (simp add: RegisterPod_def Let_def pod_endpoints_def forget_attrs_apply split: option.split)

lemma RemovePod_sel [simp]:
  "svName (RemovePod ord pod s) = svName s"
  "svEndpoints (RemovePod ord pod s) = ord"
  "endpointsSet (RemovePod ord pod s) = remaining_endpoints pod s"
  "endpointsByPod (RemovePod ord pod s) = (endpointsByPod s)(pod := None)"
  "dirty (RemovePod ord pod s) = False"
  "version (RemovePod ord pod s) = version s + 1"
  "UpdateNTF (RemovePod ord pod s) = Suc (UpdateNTF s)"
  by (simp_all add: RemovePod_def Let_def remaining_endpoints_def)

lemma RemovePod_attrMap [simp]:
  "attrMap (RemovePod ord pod s) e = (if e \<in> set (pod_endpoints pod s) then None else attrMap s e)"
  by (simp add: RemovePod_def Let_def)

lemma HangPod_sel [simp]:
  "svName (HangPod pod s) = svName s"
  "svEndpoints (HangPod pod s) = svEndpoints s"
  "endpointsSet (HangPod pod s) = endpointsSet s"
  "endpointsByPod (HangPod pod s) = endpointsByPod s"
  "dirty (HangPod pod s) = False"
  "version (HangPod pod s) = version s + 1"
  "UpdateNTF (HangPod pod s) = Suc (UpdateNTF s)"
  by (simp_all add: HangPod_def)

lemma HangPod_attrMap [simp]:
  "attrMap (HangPod pod s) e =
     (if e \<in> set (pod_endpoints pod s) then map_option (CommonAvailable_update (\<lambda>_. False)) (attrMap s e)
      else attrMap s e)"
  by (simp add: HangPod_def hang_endpoints_apply)

lemma SetAttribute_sel [simp]:
  "svName (SetAttributeInSelector e sel a s) = svName s"
  "svEndpoints (SetAttributeInSelector e sel a s) = svEndpoints s"
  "endpointsSet (SetAttributeInSelector e sel a s) = endpointsSet s"
  "endpointsByPod (SetAttributeInSelector e sel a s) = endpointsByPod s"
  "version (SetAttributeInSelector e sel a s) = version s"
  "UpdateNTF (SetAttributeInSelector e sel a s) = UpdateNTF s"
  by (simp_all add: SetAttributeInSelector_def setDirty_def Let_def)

lemma SetAttribute_dirty [simp]:
  "dirty (SetAttributeInSelector e sel a s) = (e \<in> endpointsSet s \<or> dirty s)"
  by (simp add: SetAttributeInSelector_def setDirty_def Let_def)

lemma SetAttribute_attrMap:
  "attrMap (SetAttributeInSelector e sel a s) f =
     (if f = e \<and> e \<in> endpointsSet s then
        (let m = (case attrMap s e of Some m \<Rightarrow> m | None \<Rightarrow> NewAttributes)
         in Some (m\<lparr>InSelector := (InSelector m)(sel \<mapsto> a)\<rparr>))
      else attrMap s f)"
  by (simp add: SetAttributeInSelector_def setDirty_def Let_def)

lemma update_sel [simp]:
  "svName (update s) = svName s" "svEndpoints (update s) = svEndpoints s"
  "endpointsSet (update s) = endpointsSet s" "endpointsByPod (update s) = endpointsByPod s"
  "attrMap (update s) = attrMap s" "\<not> dirty (update s)"
  by (simp_all add: update_def)

lemma if_dirty_update [simp]: "(if dirty s then update s else s) = update s"
  by (simp add: update_def)

lemma attribute_of_update [simp]: "attribute_of sel (update s) = attribute_of sel s"
  by (simp add: attribute_of_def fun_eq_iff)

lemma Attributes_eq:
  "Attributes sel s = ((svEndpoints s, map (attribute_of sel s) (svEndpoints s)), update s)"
  by (simp add: Attributes_def)

lemma attribute_of_InSel: "\<exists>x. InSel (attribute_of sel s e) = Some x"
  by (simp add: attribute_of_def split: option.split)

section \<open>Invariant\<close>

text \<open>
  The list and the set hold the same endpoints and only known endpoints have attributes. Every
  operation keeps it, whatever its arguments.
\<close>

definition svc_inv :: "service \<Rightarrow> bool" where
  "svc_inv s \<longleftrightarrow>
     set (svEndpoints s) = endpointsSet s
     \<and> (\<forall>e a. attrMap s e = Some a \<longrightarrow> e \<in> endpointsSet s)"

lemma svc_inv_New: "svc_inv (NewService n)"
  by (simp add: svc_inv_def NewService_def)

lemma svc_inv_update: "svc_inv (update s) = svc_inv s"
  by (simp add: svc_inv_def)

lemma svc_inv_Register: "svc_inv s \<Longrightarrow> svc_inv (RegisterPod pod es s)"
  by (auto simp: svc_inv_def split: if_splits)

lemma svc_inv_Remove:
  "svc_inv s \<Longrightarrow> set ord = remaining_endpoints pod s \<Longrightarrow> svc_inv (RemovePod ord pod s)"
  by (auto simp: svc_inv_def remaining_endpoints_def split: if_splits)

lemma svc_inv_Hang: "svc_inv s \<Longrightarrow> svc_inv (HangPod pod s)"
  by (auto simp: svc_inv_def split: if_splits)

lemma svc_inv_SetAttribute: "svc_inv s \<Longrightarrow> svc_inv (SetAttributeInSelector e sel a s)"
  by (auto simp: svc_inv_def SetAttribute_attrMap split: if_splits)

lemmas svc_invs =
  svc_inv_New svc_inv_Register svc_inv_Remove svc_inv_Hang svc_inv_SetAttribute

section \<open>Steps\<close>

text \<open>The events a client's copy of a service receives.\<close>

datatype svc_op =
    OpRegister string "endpoint list"
  | OpRemove "endpoint list" string
  | OpHang string
  | OpAttribute endpoint string attributeInSelector
  | OpRead

fun svc_apply :: "svc_op \<Rightarrow> service \<Rightarrow> service" where
  "svc_apply (OpRegister pod es) s = RegisterPod pod es s"
| "svc_apply (OpRemove ord pod) s = RemovePod ord pod s"
| "svc_apply (OpHang pod) s = HangPod pod s"
| "svc_apply (OpAttribute e sel a) s = SetAttributeInSelector e sel a s"
| "svc_apply OpRead s = snd (Version s)"

text \<open>An operation as the code can perform it: a removal enumerates the remaining set.\<close>

definition op_possible :: "svc_op \<Rightarrow> service \<Rightarrow> bool" where
  "op_possible q s = (case q of OpRemove ord pod \<Rightarrow> set_order ord (remaining_endpoints pod s) | _ \<Rightarrow> True)"

inductive svc_step :: "service \<Rightarrow> service \<Rightarrow> bool" where
  svc_step: "op_possible q s \<Longrightarrow> svc_step s (svc_apply q s)"

inductive svc_reachable :: "string \<Rightarrow> service \<Rightarrow> bool" for n where
  svc_start: "svc_reachable n (NewService n)"
| svc_next: "svc_reachable n s \<Longrightarrow> svc_step s t \<Longrightarrow> svc_reachable n t"

inductive_cases svc_stepE: "svc_step s t"

lemma svc_apply_inv: "svc_inv s \<Longrightarrow> op_possible q s \<Longrightarrow> svc_inv (svc_apply q s)"
  by (cases q) (auto simp: svc_invs op_possible_def set_order_def Version_def Let_def svc_inv_update)

lemma svc_reachable_inv: "svc_reachable n s \<Longrightarrow> svc_inv s"
  by (induction rule: svc_reachable.induct) (auto elim!: svc_stepE simp: svc_inv_New svc_apply_inv)

text \<open>Observers are told: an operation that changes what they can read leaves the flag or a new version.\<close>

lemma svc_apply_version:
  "version (svc_apply q s) = version s \<longrightarrow>
     attrMap (svc_apply q s) = attrMap s \<and> svEndpoints (svc_apply q s) = svEndpoints s
     \<or> dirty (svc_apply q s)"
  by (cases q)
    (auto simp: Version_def update_def SetAttributeInSelector_def setDirty_def Let_def split: if_splits)

section \<open>The directory a service implements\<close>

text \<open>
  Per pod, the endpoints it serves and whether its lease has expired. A pod registers while it is
  absent, with distinct endpoints that carry its name.
\<close>

type_synonym directory = "string \<rightharpoonup> endpoint list \<times> bool"

fun dir_apply :: "svc_op \<Rightarrow> directory \<Rightarrow> directory" where
  "dir_apply (OpRegister pod es) d = d(pod \<mapsto> (es, False))"
| "dir_apply (OpRemove ord pod) d = d(pod := None)"
| "dir_apply (OpHang pod) d = d(pod := map_option (\<lambda>(es, _). (es, True)) (d pod))"
| "dir_apply (OpAttribute e sel a) d = d"
| "dir_apply OpRead d = d"

definition disciplined :: "svc_op \<Rightarrow> directory \<Rightarrow> bool" where
  "disciplined q d =
     (case q of
        OpRegister pod es \<Rightarrow> d pod = None \<and> distinct es \<and> (\<forall>e \<in> set es. Pod e = pod)
      | _ \<Rightarrow> True)"

definition dir_endpoints :: "directory \<Rightarrow> endpoint set" where
  "dir_endpoints d = {e. \<exists>es h. d (Pod e) = Some (es, h) \<and> e \<in> set es}"

definition dir_available :: "directory \<Rightarrow> endpoint set" where
  "dir_available d = {e. \<exists>es. d (Pod e) = Some (es, False) \<and> e \<in> set es}"

definition wf_dir :: "directory \<Rightarrow> bool" where
  "wf_dir d \<longleftrightarrow> (\<forall>p es h. d p = Some (es, h) \<longrightarrow> distinct es \<and> (\<forall>e \<in> set es. Pod e = p))"

text \<open>What a client can read of a service: the endpoints, each once, and which are available.\<close>

definition implements :: "directory \<Rightarrow> service \<Rightarrow> bool" where
  "implements d s \<longleftrightarrow>
     wf_dir d
     \<and> (\<forall>p. endpointsByPod s p = map_option fst (d p))
     \<and> distinct (svEndpoints s)
     \<and> set (svEndpoints s) = endpointsSet s
     \<and> endpointsSet s = dir_endpoints d
     \<and> (\<forall>e. e \<in> dir_endpoints d \<longleftrightarrow> attrMap s e \<noteq> None)
     \<and> (\<forall>e a. attrMap s e = Some a \<longrightarrow> (CommonAvailable a \<longleftrightarrow> e \<in> dir_available d))"

lemma implements_New: "implements Map.empty (NewService n)"
  by (simp add: implements_def wf_dir_def NewService_def dir_endpoints_def)

lemma implements_pod_endpoints:
  "implements d s \<Longrightarrow> pod_endpoints p s = (case d p of None \<Rightarrow> [] | Some (es, h) \<Rightarrow> es)"
  by (auto simp: implements_def pod_endpoints_def split: option.split)

lemma implements_pod_mem:
  assumes "implements d s"
  shows "e \<in> set (pod_endpoints p s) \<longleftrightarrow> Pod e = p \<and> e \<in> dir_endpoints d"
proof -
  have "wf_dir d" using assms by (simp add: implements_def)
  then show ?thesis
    by (cases "d p") (fastforce simp: implements_pod_endpoints [OF assms] dir_endpoints_def wf_dir_def)+
qed

lemma implements_Register:
  assumes "implements d s" and "disciplined (OpRegister pod es) d"
  shows "implements (dir_apply (OpRegister pod es) d) (RegisterPod pod es s)"
proof -
  have fresh: "d pod = None" "distinct es" "\<forall>e \<in> set es. Pod e = pod"
    using assms(2) by (simp_all add: disciplined_def)
  then have "pod_endpoints pod s = []" using assms(1) by (simp add: implements_pod_endpoints)
  moreover have disj: "set es \<inter> dir_endpoints d = {}"
    using fresh by (auto simp: dir_endpoints_def)
  moreover have "dir_endpoints (dir_apply (OpRegister pod es) d) = dir_endpoints d \<union> set es"
    using fresh by (auto simp: dir_endpoints_def)
  moreover have "dir_available (dir_apply (OpRegister pod es) d) = dir_available d \<union> set es"
    using fresh by (auto simp: dir_available_def)
  moreover have "wf_dir (dir_apply (OpRegister pod es) d)"
    using assms(1) fresh by (auto simp: implements_def wf_dir_def)
  ultimately show ?thesis
    using assms(1) fresh(2) by (auto simp: implements_def NewAttributes_def)
qed

lemma implements_Remove:
  assumes "implements d s" and "set_order ord (remaining_endpoints pod s)"
  shows "implements (dir_apply (OpRemove ord pod) d) (RemovePod ord pod s)"
proof -
  have "dir_endpoints (dir_apply (OpRemove ord pod) d) = {e \<in> dir_endpoints d. Pod e \<noteq> pod}"
    by (auto simp: dir_endpoints_def split: if_splits)
  moreover have "dir_available (dir_apply (OpRemove ord pod) d) = {e \<in> dir_available d. Pod e \<noteq> pod}"
    by (auto simp: dir_available_def split: if_splits)
  moreover have "wf_dir (dir_apply (OpRemove ord pod) d)"
    using assms by (auto simp: implements_def wf_dir_def)
  ultimately show ?thesis
    using assms implements_pod_mem [OF assms(1), of _ pod]
    by (auto simp: implements_def set_order_def remaining_endpoints_def)
qed

lemma implements_Hang:
  assumes "implements d s"
  shows "implements (dir_apply (OpHang pod) d) (HangPod pod s)"
proof -
  have "dir_endpoints (dir_apply (OpHang pod) d) = dir_endpoints d"
    by (auto simp: dir_endpoints_def split: if_splits)
  moreover have "dir_available (dir_apply (OpHang pod) d) = {e \<in> dir_available d. Pod e \<noteq> pod}"
    by (auto simp: dir_available_def split: if_splits)
  moreover have "wf_dir (dir_apply (OpHang pod) d)"
    using assms by (auto simp: implements_def wf_dir_def)
  ultimately show ?thesis
    using assms implements_pod_mem [OF assms, of _ pod]
    by (auto simp: implements_def option.map_comp comp_def case_prod_unfold split: if_splits)
qed

lemma implements_SetAttribute:
  assumes "implements d s"
  shows "implements d (SetAttributeInSelector e sel a s)"
proof (cases "e \<in> endpointsSet s")
  case True
  then obtain m where "attrMap s e = Some m" using assms by (auto simp: implements_def)
  then have "attrMap (SetAttributeInSelector e sel a s) =
      (attrMap s)(e \<mapsto> m\<lparr>InSelector := (InSelector m)(sel \<mapsto> a)\<rparr>)"
    using True by (auto simp: SetAttribute_attrMap)
  with assms \<open>attrMap s e = Some m\<close> show ?thesis
    unfolding implements_def by (simp only: SetAttribute_sel) (auto split: if_splits)
qed (simp add: SetAttributeInSelector_def assms)

lemma implements_update: "implements d s \<Longrightarrow> implements d (update s)"
  by (simp add: implements_def)

lemma implements_step:
  assumes "implements d s" and "op_possible q s" and "disciplined q d"
  shows "implements (dir_apply q d) (svc_apply q s)"
  using assms
  by (cases q) (auto simp: implements_Register implements_Remove implements_Hang op_possible_def
      implements_SetAttribute Version_def Let_def implements_update simp del: dir_apply.simps(1-3))

text \<open>A run of possible, disciplined operations.\<close>

fun good_run :: "svc_op list \<Rightarrow> directory \<Rightarrow> service \<Rightarrow> bool" where
  "good_run [] d s = True"
| "good_run (q # qs) d s =
     (op_possible q s \<and> disciplined q d \<and> good_run qs (dir_apply q d) (svc_apply q s))"

lemma implements_run:
  "implements d s \<Longrightarrow> good_run qs d s \<Longrightarrow> implements (fold dir_apply qs d) (fold svc_apply qs s)"
  by (induction qs arbitrary: d s) (simp_all add: implements_step)

section \<open>Registering a pod that is still registered\<close>

text \<open>
  The old endpoints of the pod lose their attributes but stay in the set and in the list, and the
  new ones are appended even when they are there already.
\<close>

lemma reregister_duplicates:
  "es \<noteq> [] \<Longrightarrow> \<not> distinct (svEndpoints (RegisterPod pod es (RegisterPod pod es s)))"
  by (auto simp: neq_Nil_conv)

lemma reregister_keeps_stale:
  assumes "e \<in> set es" and "e \<notin> set es'"
    and "set_order ord (remaining_endpoints pod (RegisterPod pod es' (RegisterPod pod es s)))"
  shows "e \<in> endpointsSet (RemovePod ord pod (RegisterPod pod es' (RegisterPod pod es s)))"
    and "attrMap (RegisterPod pod es' (RegisterPod pod es s)) e = None"
  using assms by (auto simp: remaining_endpoints_def pod_endpoints_def)

end
