(* ===== verification/CoreSelector.thy ===== *)
theory CoreSelector
  imports Dispatch Service
begin

text \<open>
  \<open>core/service.go\<close> and \<open>core/selector.go\<close>: the table of services a client loads once from the
  store, and the selector that keeps a strategy up to date with its service and picks endpoints.
  A call works on a \<open>receiver\<close>, the selector together with the table of services; pointers to a
  service are the names under which the table holds them. The mutexes are part of the state, so a
  path that leaves one locked shows in the result. Times are in nanoseconds.
\<close>

section \<open>The store\<close>

record 're storeOps =
  st_GetRouter :: "string \<Rightarrow> go_error + 're router"
  st_GetSelectors :: "go_error + (string \<rightharpoonup> selector)"
  st_GetServices :: "go_error + (string \<rightharpoonup> service)"
  st_GetCustomRoute :: routeStore

abbreviation routes :: "'re storeOps option \<Rightarrow> routeStore option" where
  "routes st \<equiv> map_option st_GetCustomRoute st"

section \<open>Services\<close>

record serviceTable =
  services :: "(string \<rightharpoonup> service) option"
  serviceMu :: bool

definition load_services :: "'re storeOps option \<Rightarrow> (serviceTable, go_error, go_error option) go" where
  "load_services st = (\<lambda>w.
     case services w of
       Some m \<Rightarrow> (Ret None, w)
     | None \<Rightarrow>
         (case MustStore st of
            Ret g \<Rightarrow>
              (case st_GetServices g of
                 Inl err \<Rightarrow> (Ret (Some err), w)
               | Inr m \<Rightarrow> (Ret None, w\<lparr>services := Some m\<rparr>))
          | Panicked p \<Rightarrow> (Panicked p, w)
          | Blocked \<Rightarrow> (Blocked, w)))"

definition service_at :: "string \<Rightarrow> serviceTable \<Rightarrow> service option" where
  "service_at n w = (case services w of Some m \<Rightarrow> m n | None \<Rightarrow> None)"

definition GetService :: "'re storeOps option \<Rightarrow> string \<Rightarrow>
    (serviceTable, go_error, string option \<times> go_error option) go" where
  "GetService st n = with_mu serviceMu (\<lambda>b. serviceMu_update (\<lambda>_. b))
     (go_bind (load_services st) (\<lambda>err w.
        case err of
          Some e \<Rightarrow> (Ret (None, Some e), w)
        | None \<Rightarrow>
            (case service_at n w of
               Some s \<Rightarrow> (Ret (Some n, None), w)
             | None \<Rightarrow> (Ret (None, Some (ErrCode ErrServiceNotFound)), w))))"

section \<open>Selectors\<close>

record 'm coreSelector =
  raw :: selector
  smu :: bool
  lastVersion :: u64
  lastUpdate :: "int option"
  svc :: "string option"
  strategyMu :: bool
  strat :: "'m strategy option"

definition NewCoreSelector :: "selector \<Rightarrow> 'm coreSelector" where
  "NewCoreSelector s =
     \<lparr>raw = s, smu = False, lastVersion = 0, lastUpdate = None, svc = None, strategyMu = False, strat = None\<rparr>"

record 'm receiver =
  rs :: "'m coreSelector"
  rtab :: serviceTable

definition set_rs :: "('m coreSelector \<Rightarrow> 'm coreSelector) \<Rightarrow> 'm receiver \<Rightarrow> 'm receiver" where
  "set_rs f r = r\<lparr>rs := f (rs r)\<rparr>"

abbreviation lock_smu :: "('m receiver, go_error, unit) go" where
  "lock_smu \<equiv> lock_mu (\<lambda>r. smu (rs r)) (\<lambda>b. set_rs (smu_update (\<lambda>_. b)))"
abbreviation unlock_smu :: "('m receiver, go_error, unit) go" where
  "unlock_smu \<equiv> unlock_mu (\<lambda>b. set_rs (smu_update (\<lambda>_. b)))"
abbreviation lock_strategyMu :: "('m receiver, go_error, unit) go" where
  "lock_strategyMu \<equiv> lock_mu (\<lambda>r. strategyMu (rs r)) (\<lambda>b. set_rs (strategyMu_update (\<lambda>_. b)))"
abbreviation unlock_strategyMu :: "('m receiver, go_error, unit) go" where
  "unlock_strategyMu \<equiv> unlock_mu (\<lambda>b. set_rs (strategyMu_update (\<lambda>_. b)))"

text \<open>A method of the service a pointer leads to.\<close>

definition put_service :: "string \<Rightarrow> service \<Rightarrow> serviceTable \<Rightarrow> serviceTable" where
  "put_service n s w = w\<lparr>services := map_option (\<lambda>m. m(n \<mapsto> s)) (services w)\<rparr>"

definition on_service :: "string \<Rightarrow> (service \<Rightarrow> 'a \<times> service) \<Rightarrow> ('m receiver, go_error, 'a) go" where
  "on_service n f = (\<lambda>r.
     case service_at n (rtab r) of
       None \<Rightarrow> (Panicked NilDeref, r)
     | Some s \<Rightarrow> (let (a, s') = f s in (Ret a, r\<lparr>rtab := put_service n s' (rtab r)\<rparr>)))"

definition MustService :: "'re storeOps option \<Rightarrow> ('m receiver, go_error, string) go" where
  "MustService st = (\<lambda>r.
     case svc (rs r) of
       Some n \<Rightarrow> (Ret n, r)
     | None \<Rightarrow>
         go_bind lock_smu (\<lambda>_.
         go_bind (\<lambda>r.
           if svc (rs r) = None
           then (case GetService st (Service (raw (rs r))) (rtab r) of
                   (Ret (n, err), t) \<Rightarrow>
                     (case err of
                        Some e \<Rightarrow> (Panicked (PanicVal e), r\<lparr>rtab := t\<rparr>)
                      | None \<Rightarrow> (Ret (), set_rs (svc_update (\<lambda>_. n)) (r\<lparr>rtab := t\<rparr>)))
                 | (Panicked p, t) \<Rightarrow> (Panicked p, r\<lparr>rtab := t\<rparr>)
                 | (Blocked, t) \<Rightarrow> (Blocked, r\<lparr>rtab := t\<rparr>))
           else (Ret (), r)) (\<lambda>_.
         go_bind unlock_smu (\<lambda>_ r.
           case svc (rs r) of Some n \<Rightarrow> (Ret n, r) | None \<Rightarrow> (Panicked NilDeref, r)))) r)"

definition Selector_NotifyRetry :: "'re storeOps option \<Rightarrow> string \<Rightarrow> ('m receiver, go_error, unit) go" where
  "Selector_NotifyRetry st hv =
     with_mu (\<lambda>r. smu (rs r)) (\<lambda>b. set_rs (smu_update (\<lambda>_. b))) (\<lambda>r.
       case strat (rs r) of
         None \<Rightarrow> (Ret (), r)
       | Some s \<Rightarrow>
           (case Strategy_NotifyRetry (routes st) hv s of
              (res, s') \<Rightarrow> (res, set_rs (strat_update (\<lambda>_. Some s')) r)))"

definition Selector_Endpoints :: "'re storeOps option \<Rightarrow> ('m receiver, go_error, endpoint list) go" where
  "Selector_Endpoints st = go_bind (MustService st) (\<lambda>n. on_service n Endpoints)"

text \<open>The inner and the outer loop of \<open>EndpointsWithAttribute\<close>.\<close>

fun passes_filters :: "endpointFilter list \<Rightarrow> selector \<Rightarrow> endpoint \<Rightarrow> attribute \<Rightarrow> bool result" where
  "passes_filters [] s e a = Ret True"
| "passes_filters (f # fs) s e a = out_bind (f s e a) (\<lambda>b. if \<not> b then Ret False else passes_filters fs s e a)"

fun filter_endpoints :: "endpointFilter list \<Rightarrow> selector \<Rightarrow> endpoint list \<Rightarrow> attribute list \<Rightarrow>
    (endpoint \<rightharpoonup> attribute) \<Rightarrow> (endpoint \<rightharpoonup> attribute) result" where
  "filter_endpoints fs s [] as m = Ret m"
| "filter_endpoints fs s (e # es) [] m = Panicked IndexRange"
| "filter_endpoints fs s (e # es) (a # as) m =
     out_bind (passes_filters fs s e a) (\<lambda>b.
       filter_endpoints fs s es as (if b then m(e \<mapsto> a) else m))"

definition EndpointsWithAttribute :: "'re storeOps option \<Rightarrow> endpointFilter list \<Rightarrow>
    ('m receiver, go_error, endpoint \<rightharpoonup> attribute) go" where
  "EndpointsWithAttribute st fs =
     go_bind (MustService st) (\<lambda>n.
     go_bind (\<lambda>r. on_service n (Attributes (Name (raw (rs r)))) r) (\<lambda>(es, as) r.
       (filter_endpoints fs (raw (rs r)) es as Map.empty, r)))"

definition baseHeaders :: "selector \<Rightarrow> headers" where
  "baseHeaders s =
     [''yapr-strategy'' \<mapsto> Strategy s, ''yapr-selector'' \<mapsto> Name s, ''yapr-service'' \<mapsto> Service s]
     ++ map_of (SHeaders s)"

text \<open>
  What a call of \<open>Select\<close> finds in the world: the times at which it asks for them, the random
  numbers, and the order in which the update visits the map of endpoints.
\<close>

record selInput =
  now1 :: int
  now2 :: int
  in_ord :: "endpoint list"
  in_draws :: draws

text \<open>The lazy creation of the strategy: the error path returns with \<open>mu\<close> locked.\<close>

definition init_strategy :: "'m builders \<Rightarrow> ('m receiver, go_error, go_error option) go" where
  "init_strategy bs = (\<lambda>r.
     case strat (rs r) of
       Some _ \<Rightarrow> (Ret None, r)
     | None \<Rightarrow>
         go_bind lock_smu (\<lambda>_ r.
           if strat (rs r) = None
           then (case GetStrategy bs (raw (rs r)) of
                   Ret (s, err) \<Rightarrow>
                     (let r = set_rs (strat_update (\<lambda>_. s)) r in
                      case err of
                        Some e \<Rightarrow> (Ret (Some e), r)
                      | None \<Rightarrow> go_bind unlock_smu (\<lambda>_. go_ret None) r)
                 | Panicked p \<Rightarrow> (Panicked p, r)
                 | Blocked \<Rightarrow> (Blocked, r))
           else go_bind unlock_smu (\<lambda>_. go_ret None) r) r)"

definition update_strategy :: "'m env \<Rightarrow> 're storeOps option \<Rightarrow> selInput \<Rightarrow> ('m receiver, go_error, unit) go" where
  "update_strategy env st inp = (\<lambda>r.
     case strat (rs r) of
       None \<Rightarrow> (Panicked NilDeref, r)
     | Some s \<Rightarrow>
         go_bind (EndpointsWithAttribute st (Strategy_EndpointFilters s)) (\<lambda>m r.
           case Strategy_Update env (in_ord inp) m s of
             Ret s' \<Rightarrow> (Ret (), set_rs (strat_update (\<lambda>_. Some s')) r)
           | Panicked p \<Rightarrow> (Panicked p, r)
           | Blocked \<Rightarrow> (Blocked, r)) r)"

definition since_update :: "selInput \<Rightarrow> 'm receiver \<Rightarrow> bool" where
  "since_update inp r = (case lastUpdate (rs r) of None \<Rightarrow> True | Some u \<Rightarrow> now1 inp - u > 50000000)"

definition refresh_strategy :: "'m env \<Rightarrow> 're storeOps option \<Rightarrow> selInput \<Rightarrow> string \<Rightarrow>
    ('m receiver, go_error, unit) go" where
  "refresh_strategy env st inp n = (\<lambda>r.
     if since_update inp r
     then go_bind (on_service n Version) (\<lambda>version r.
       if version > lastVersion (rs r)
       then go_bind lock_smu (\<lambda>_.
            go_bind (\<lambda>r.
              if version > lastVersion (rs r)
              then go_bind lock_strategyMu (\<lambda>_.
                   go_bind (update_strategy env st inp) (\<lambda>_.
                   go_bind unlock_strategyMu (\<lambda>_ r.
                     (Ret (), set_rs (lastUpdate_update (\<lambda>_. Some (now2 inp)) \<circ> lastVersion_update (\<lambda>_. version)) r)))) r
              else (Ret (), r)) (\<lambda>_. unlock_smu)) r
       else (Ret (), r)) r
     else (Ret (), r))"

text \<open>The check of the chosen endpoint against its attribute.\<close>

definition check_attribute :: "selector \<Rightarrow> attribute option \<Rightarrow> (go_error option) result" where
  "check_attribute s at =
     (case at of
        None \<Rightarrow> Panicked NilDeref
      | Some a \<Rightarrow>
          if \<not> Available a then Ret (Some (ErrCode ErrEndpointUnavailable))
          else (case MaxRequests s of
                  None \<Rightarrow> Ret None
                | Some mx \<Rightarrow>
                    out_bind (attr_field RPS a) (\<lambda>rps.
                      Ret (case rps of
                             Some x \<Rightarrow> if x \<ge> mx then Some (ErrCode ErrEndpointRPSLimit) else None
                           | None \<Rightarrow> None))))"

definition merge_headers :: "headers \<Rightarrow> headers option \<Rightarrow> headers" where
  "merge_headers h a = (case a of None \<Rightarrow> h | Some x \<Rightarrow> h ++ x)"

definition pick_endpoint :: "'m env \<Rightarrow> 're storeOps option \<Rightarrow> selInput \<Rightarrow> matchTarget \<Rightarrow> string \<Rightarrow>
    ('m receiver, go_error, selectResult) go" where
  "pick_endpoint env st inp t n = (\<lambda>r.
     let headers = baseHeaders (raw (rs r)) in
     if strategyMu (rs r) then (Blocked, r)
     else case strat (rs r) of
       None \<Rightarrow> (Panicked NilDeref, r)
     | Some s \<Rightarrow>
         (case Strategy_Select env (routes st) t (in_draws inp) s of
            (Ret (endpoint, appendHeaders, err), s') \<Rightarrow>
              (let r = set_rs (strat_update (\<lambda>_. Some s')) r in
               case (endpoint, err) of
                 (Some e, None) \<Rightarrow>
                   (case service_at n (rtab r) of
                      None \<Rightarrow> (Panicked NilDeref, r)
                    | Some sv \<Rightarrow>
                        (out_bind (check_attribute (raw (rs r)) (GetAttribute e (Name (raw (rs r))) sv)) (\<lambda>err.
                           Ret (Some e, Some (merge_headers headers appendHeaders), err)), r))
               | _ \<Rightarrow> (Ret (endpoint, Some (merge_headers headers appendHeaders), err), r))
          | (Panicked p, s') \<Rightarrow> (Panicked p, set_rs (strat_update (\<lambda>_. Some s')) r)
          | (Blocked, s') \<Rightarrow> (Blocked, set_rs (strat_update (\<lambda>_. Some s')) r)))"

definition Selector_Select :: "'m env \<Rightarrow> 'm builders \<Rightarrow> 're storeOps option \<Rightarrow> selInput \<Rightarrow> matchTarget \<Rightarrow>
    ('m receiver, go_error, selectResult) go" where
  "Selector_Select env bs st inp t =
     go_bind (MustService st) (\<lambda>n.
     go_bind (init_strategy bs) (\<lambda>err.
       case err of
         Some e \<Rightarrow> go_ret (None, None, Some e)
       | None \<Rightarrow>
           go_bind (refresh_strategy env st inp n) (\<lambda>_.
           pick_endpoint env st inp t n)))"

section \<open>Evaluation of the parts\<close>

lemma on_service_eq:
  "service_at n (rtab r) = Some s \<Longrightarrow>
     on_service n f r = (Ret (fst (f s)), r\<lparr>rtab := put_service n (snd (f s)) (rtab r)\<rparr>)"
  by (simp add: on_service_def split_beta Let_def)

lemma service_at_put [simp]: "service_at n w = Some s' \<Longrightarrow> service_at n (put_service n s w) = Some s"
  by (auto simp: service_at_def put_service_def split: option.splits)

lemma put_service_twice [simp]: "put_service n s (put_service n s' w) = put_service n s w"
  by (simp add: put_service_def option.map_comp comp_def)

lemma set_rs_sel [simp]: "rs (set_rs f r) = f (rs r)" "rtab (set_rs f r) = rtab r"
  by (simp_all add: set_rs_def)

lemma MustService_known: "svc (rs r) = Some n \<Longrightarrow> MustService st r = (Ret n, r)"
  by (simp add: MustService_def)

text \<open>Which endpoints the filters leave.\<close>

definition filters_total :: "endpointFilter list \<Rightarrow> bool" where
  "filters_total fs \<longleftrightarrow> (\<forall>f \<in> set fs. \<forall>s e a. InSel a \<noteq> None \<longrightarrow> (\<exists>b. f s e a = Ret b))"

definition passes_all :: "endpointFilter list \<Rightarrow> selector \<Rightarrow> endpoint \<Rightarrow> attribute \<Rightarrow> bool" where
  "passes_all fs s e a \<longleftrightarrow> (\<forall>f \<in> set fs. f s e a = Ret True)"

lemma passes_all_simps [simp]:
  "passes_all [] s e a" "passes_all (f # fs) s e a \<longleftrightarrow> f s e a = Ret True \<and> passes_all fs s e a"
  by (auto simp: passes_all_def)

lemma passes_filters_eq:
  "filters_total fs \<Longrightarrow> InSel a \<noteq> None \<Longrightarrow> passes_filters fs s e a = Ret (passes_all fs s e a)"
proof (induction fs)
  case (Cons f fs)
  then obtain b where "f s e a = Ret b" unfolding filters_total_def by (metis list.set_intros(1))
  moreover have "filters_total fs" using Cons.prems(1) by (simp add: filters_total_def)
  ultimately show ?case using Cons by simp
qed simp

lemma filter_endpoints_eq:
  assumes "filters_total fs" and "\<And>e. InSel (f e) \<noteq> None"
  shows "filter_endpoints fs s es (map f es) m =
    Ret (\<lambda>e. if e \<in> set es \<and> passes_all fs s e (f e) then Some (f e) else m e)"
proof (induction es arbitrary: m)
  case (Cons e es)
  have "(\<lambda>x. if x \<in> set es \<and> passes_all fs s x (f x) then Some (f x)
        else (if passes_all fs s e (f e) then m(e \<mapsto> f e) else m) x)
      = (\<lambda>x. if x \<in> set (e # es) \<and> passes_all fs s x (f x) then Some (f x) else m x)"
    by auto
  then show ?case by (simp add: Cons passes_filters_eq [OF assms])
qed simp

text \<open>The map an update hands to the strategy.\<close>

definition eligible :: "endpointFilter list \<Rightarrow> selector \<Rightarrow> service \<Rightarrow> endpoint \<rightharpoonup> attribute" where
  "eligible fs q s = (\<lambda>e.
     if e \<in> set (svEndpoints s) \<and> passes_all fs q e (attribute_of (Name q) s e)
     then Some (attribute_of (Name q) s e) else None)"

lemma eligible_update [simp]: "eligible fs q (update s) = eligible fs q s"
  by (simp add: eligible_def cong: if_cong)

lemma eligible_dom: "dom (eligible fs q s) \<subseteq> set (svEndpoints s)"
  by (auto simp: eligible_def split: if_splits)

lemma eligible_present: "attrs_present (eligible fs q s)"
  using attribute_of_InSel by (fastforce simp: attrs_present_def eligible_def split: if_splits)

lemma EndpointsWithAttribute_eq:
  assumes "svc (rs r) = Some n" and "service_at n (rtab r) = Some s" and "filters_total fs"
  shows "EndpointsWithAttribute st fs r =
    (Ret (eligible fs (raw (rs r)) s), r\<lparr>rtab := put_service n (update s) (rtab r)\<rparr>)"
proof -
  have "InSel (attribute_of (Name (raw (rs r))) s e) \<noteq> None" for e
    using attribute_of_InSel by (metis option.distinct(1))
  from filter_endpoints_eq [OF assms(3) this] show ?thesis
    by (simp add: EndpointsWithAttribute_def MustService_known [OF assms(1)] on_service_eq [OF assms(2)]
        Attributes_eq eligible_def)
qed

lemma FuseEndpointFilter_eq:
  "InSel a = Some x \<Longrightarrow> FuseEndpointFilter s e a =
     Ret (case (RPS x, MaxRequests s) of (Some n, Some mx) \<Rightarrow> n \<le> mx | _ \<Rightarrow> True)"
  by (simp add: FuseEndpointFilter_def)

lemma strategy_filters_total: "filters_total (Strategy_EndpointFilters s)"
proof -
  have "filters_total [GoodEndpointFilter, FuseEndpointFilter]"
    by (auto simp: filters_total_def GoodEndpointFilter_def FuseEndpointFilter_eq)
  moreover have "filters_total []" by (simp add: filters_total_def)
  ultimately show ?thesis
    by (cases s) (simp_all add: Random_EndpointFilters_def RoundRobin_EndpointFilters_def
        WeightedRandom_EndpointFilters_def WeightedRoundRobin_EndpointFilters_def
        LeastRequest_EndpointFilters_def LeastCost_EndpointFilters_def HashRing_EndpointFilters_def
        Direct_EndpointFilters_def CustomLua_EndpointFilters_def)
qed

lemma update_strategy_eq:
  assumes "svc (rs r) = Some n" and "service_at n (rtab r) = Some s" and "strat (rs r) = Some x"
    and "treemap_ok (env_treemap env)" and "strategy_wf x"
    and "range_order (in_ord inp) (eligible (Strategy_EndpointFilters x) (raw (rs r)) s)"
  shows "\<exists>x'. update_strategy env st inp r =
      (Ret (), set_rs (strat_update (\<lambda>_. Some x')) (r\<lparr>rtab := put_service n (update s) (rtab r)\<rparr>))
    \<and> Strategy_Update env (in_ord inp) (eligible (Strategy_EndpointFilters x) (raw (rs r)) s) x = Ret x'
    \<and> strategy_wf x' \<and> strategy_holds env x' (dom (eligible (Strategy_EndpointFilters x) (raw (rs r)) s))"
proof -
  obtain x' where "Strategy_Update env (in_ord inp) (eligible (Strategy_EndpointFilters x) (raw (rs r)) s) x = Ret x'"
    "strategy_wf x'" "strategy_holds env x' (dom (eligible (Strategy_EndpointFilters x) (raw (rs r)) s))"
    using any_strategy.update_holds [OF assms(4,5,6) eligible_present] by blast
  then show ?thesis
    by (intro exI [of _ x']) (simp add: update_strategy_def assms(3) EndpointsWithAttribute_eq [OF assms(1,2) strategy_filters_total])
qed

section \<open>A selector that is ready\<close>

text \<open>
  Between calls: the mutexes are free, the service is known, and the strategy either has never
  been updated or holds endpoints which, unless the service has a newer version, are endpoints
  of the service.
\<close>

definition strategy_tracks :: "'m env \<Rightarrow> 'm coreSelector \<Rightarrow> service \<Rightarrow> 'm strategy \<Rightarrow> bool" where
  "strategy_tracks env c s x \<longleftrightarrow>
     strategy_wf x
     \<and> (lastVersion c = 0 \<and> lastUpdate c = None
        \<or> (\<exists>E. strategy_holds env x E \<and> (lastVersion c = version s \<longrightarrow> E \<subseteq> endpointsSet s)))"

definition sel_ready :: "'m env \<Rightarrow> string \<Rightarrow> 'm receiver \<Rightarrow> service \<Rightarrow> bool" where
  "sel_ready env n r s \<longleftrightarrow>
     svc (rs r) = Some n \<and> service_at n (rtab r) = Some s \<and> \<not> smu (rs r) \<and> \<not> strategyMu (rs r)
     \<and> svc_inv s \<and> lastVersion (rs r) \<le> version s
     \<and> (case strat (rs r) of
          None \<Rightarrow> lastVersion (rs r) = 0 \<and> lastUpdate (rs r) = None
        | Some x \<Rightarrow> strategy_tracks env (rs r) s x)"

text \<open>The strategy a call works with, and what it needs to know of an endpoint to check it.\<close>

definition strategy_in_use :: "'m builders \<Rightarrow> 'm receiver \<Rightarrow> 'm strategy option" where
  "strategy_in_use bs r =
     (case strat (rs r) of
        Some x \<Rightarrow> Some x
      | None \<Rightarrow> (case GetStrategy bs (raw (rs r)) of Ret (Some x, None) \<Rightarrow> Some x | _ \<Rightarrow> None))"

definition checkable :: "selector \<Rightarrow> service \<Rightarrow> endpoint \<Rightarrow> bool" where
  "checkable q s e \<longleftrightarrow>
     (\<exists>m. attrMap s e = Some m \<and> (MaxRequests q \<noteq> None \<longrightarrow> InSelector m (Name q) \<noteq> None))"

definition no_wrap :: "service \<Rightarrow> bool" where
  "no_wrap s \<longleftrightarrow> unat (version s) + 1 < 2 ^ 64"

lemma set_rs_set_rs [simp]: "set_rs f (set_rs g r) = set_rs (f \<circ> g) r"
  by (simp add: set_rs_def)

lemma set_rs_rt [simp]: "set_rs f (r\<lparr>rtab := w\<rparr>) = (set_rs f r)\<lparr>rtab := w\<rparr>"
  by (simp add: set_rs_def)

lemma lock_smu_free [simp]: "\<not> smu (rs r) \<Longrightarrow> lock_smu r = (Ret (), set_rs (smu_update (\<lambda>_. True)) r)"
  by (simp add: lock_mu_def)

lemma lock_smu_held [simp]: "smu (rs r) \<Longrightarrow> lock_smu r = (Blocked, r)"
  by (simp add: lock_mu_def)

lemma unlock_smu_eq [simp]: "unlock_smu r = (Ret (), set_rs (smu_update (\<lambda>_. False)) r)"
  by (simp add: unlock_mu_def)

lemma lock_strategyMu_free [simp]:
  "\<not> strategyMu (rs r) \<Longrightarrow> lock_strategyMu r = (Ret (), set_rs (strategyMu_update (\<lambda>_. True)) r)"
  by (simp add: lock_mu_def)

lemma unlock_strategyMu_eq [simp]: "unlock_strategyMu r = (Ret (), set_rs (strategyMu_update (\<lambda>_. False)) r)"
  by (simp add: unlock_mu_def)

lemma init_strategy_eq:
  assumes "\<not> smu (rs r)" and "strategy_in_use bs r = Some x"
  shows "init_strategy bs r = (Ret None, set_rs (strat_update (\<lambda>_. Some x)) r)"
proof (cases "strat (rs r)")
  case (Some y)
  then have "set_rs (strat_update (\<lambda>_. Some x)) r = r"
    using assms(2) by (cases r; cases "rs r") (simp add: set_rs_def strategy_in_use_def)
  then show ?thesis using Some by (simp add: init_strategy_def)
next
  case None
  have b: "GetStrategy bs (raw (rs r)) = Ret (Some x, None)"
    using assms(2) None by (auto simp: strategy_in_use_def split: outcome.splits option.splits)
  have "smu_update (\<lambda>_. False) (strat_update (\<lambda>_. Some x) (smu_update (\<lambda>_. True) (rs r)))
      = strat_update (\<lambda>_. Some x) (rs r)"
    using assms(1) by (cases "rs r") simp
  then show ?thesis using None assms(1) b by (simp add: init_strategy_def Let_def set_rs_def)
qed

lemma version_update_gt:
  assumes "no_wrap s" and "dirty s"
  shows "version s < version (update s)"
  using assms unat_word_Suc [of "version s"] by (simp add: update_def no_wrap_def word_less_nat_alt)

lemma Version_eq: "Version s = (version (update s), update s)"
  by (simp add: Version_def Let_def)

text \<open>The check passes or fails with an error; it does not panic where the attribute is there.\<close>

lemma check_attribute_Ret:
  "checkable q s e \<Longrightarrow> \<exists>err. check_attribute q (GetAttribute e (Name q) s) = Ret err"
  by (auto simp: checkable_def check_attribute_def GetAttribute_def attr_field_def split: option.splits)

lemma pick_endpoint_safe:
  assumes "treemap_ok (env_treemap env)" and "\<not> strategyMu (rs r)" and "strat (rs r) = Some x"
    and "strategy_wf x" and "strategy_holds env x E" and "service_at n (rtab r) = Some s"
    and "\<forall>e \<in> E. checkable (raw (rs r)) s e"
  shows "\<exists>p x'. pick_endpoint env (Some g) inp t n r = (Ret p, set_rs (strat_update (\<lambda>_. Some x')) r)
    \<and> safe_pick E p \<and> strategy_wf x' \<and> strategy_holds env x' E"
proof -
  obtain p x' where sel: "Strategy_Select env (Some (st_GetCustomRoute g)) t (in_draws inp) x = (p, x')"
    by (cases "Strategy_Select env (Some (st_GetCustomRoute g)) t (in_draws inp) x")
  then obtain e h err where p: "p = Ret (e, h, err)" "safe_pick E (e, h, err)"
    and x': "strategy_wf x'" "strategy_holds env x' E"
    using any_strategy.select_holds [OF assms(1,4,5), of "st_GetCustomRoute g" t "in_draws inp"]
      any_strategy.select_safe [OF assms(1,4,5), of "st_GetCustomRoute g" t "in_draws inp"] by auto
  show ?thesis
  proof (cases "\<exists>y. e = Some y \<and> err = None")
    case True
    then obtain y where y: "e = Some y" "err = None" "y \<in> E" using p(2) by auto
    then obtain err' where c: "check_attribute (raw (rs r)) (GetAttribute y (Name (raw (rs r))) s) = Ret err'"
      using assms(7) check_attribute_Ret by blast
    have "pick_endpoint env (Some g) inp t n r =
        (Ret (Some y, Some (merge_headers (baseHeaders (raw (rs r))) h), err'), set_rs (strat_update (\<lambda>_. Some x')) r)"
      using sel p(1) y(1,2) c assms(2,3,6) by (simp add: pick_endpoint_def Let_def)
    moreover have "safe_pick E (Some y, Some (merge_headers (baseHeaders (raw (rs r))) h), err')"
      using y(3) by (cases err') simp_all
    ultimately show ?thesis using x' by blast
  next
    case False
    then have "err \<noteq> None" using p(2) by (cases e; cases err) (auto simp: safe_pick_def)
    then have "pick_endpoint env (Some g) inp t n r =
        (Ret (e, Some (merge_headers (baseHeaders (raw (rs r))) h), err), set_rs (strat_update (\<lambda>_. Some x')) r)"
      using sel p(1) assms(2,3) by (cases e; cases err) (simp_all add: pick_endpoint_def Let_def)
    moreover have "safe_pick E (e, Some (merge_headers (baseHeaders (raw (rs r))) h), err)"
      using \<open>err \<noteq> None\<close> by (cases err) simp_all
    ultimately show ?thesis using x' by blast
  qed
qed

text \<open>
  A refresh that finds a newer version leaves a strategy that holds exactly the endpoints of the
  service that pass its filters.
\<close>

lemma refresh_newer:
  assumes "treemap_ok (env_treemap env)" and "sel_ready env n r s" and "strat (rs r) = Some x"
    and "since_update inp r" and "lastVersion (rs r) < version (update s)"
    and "range_order (in_ord inp) (eligible (Strategy_EndpointFilters x) (raw (rs r)) s)"
  shows "\<exists>r' x'. refresh_strategy env st inp n r = (Ret (), r') \<and> strat (rs r') = Some x'
    \<and> Strategy_Update env (in_ord inp) (eligible (Strategy_EndpointFilters x) (raw (rs r)) s) x = Ret x'
    \<and> strategy_wf x' \<and> strategy_holds env x' (dom (eligible (Strategy_EndpointFilters x) (raw (rs r)) s))
    \<and> raw (rs r') = raw (rs r) \<and> svc (rs r') = Some n \<and> service_at n (rtab r') = Some (update s)
    \<and> \<not> smu (rs r') \<and> \<not> strategyMu (rs r') \<and> lastVersion (rs r') = version (update s)"
proof -
  have ready: "svc (rs r) = Some n" "service_at n (rtab r) = Some s" "\<not> smu (rs r)" "\<not> strategyMu (rs r)"
    "strategy_wf x"
    using assms(2,3) by (simp_all add: sel_ready_def strategy_tracks_def)
  let ?v = "version (update s)" and ?t = "put_service n (update s) (rtab r)"
  have ver: "on_service n Version r = (Ret ?v, r\<lparr>rtab := ?t\<rparr>)"
    by (simp add: on_service_eq [OF ready(2)] Version_eq)
  have at: "service_at n ?t = Some (update s)" using ready(2) by simp
  let ?r = "set_rs (\<lambda>c. c\<lparr>smu := True, strategyMu := True\<rparr>) (r\<lparr>rtab := ?t\<rparr>)"
  let ?m = "eligible (Strategy_EndpointFilters x) (raw (rs r)) s"
  have "svc (rs ?r) = Some n" "service_at n (rtab ?r) = Some (update s)" "strat (rs ?r) = Some x"
    "raw (rs ?r) = raw (rs r)" using ready assms(3) at by (simp_all add: set_rs_def)
  then obtain x' where x': "update_strategy env st inp ?r =
      (Ret (), set_rs (strat_update (\<lambda>_. Some x')) (?r\<lparr>rtab := put_service n (update (update s)) (rtab ?r)\<rparr>))"
    "Strategy_Update env (in_ord inp) ?m x = Ret x'" "strategy_wf x'" "strategy_holds env x' (dom ?m)"
    using update_strategy_eq [of ?r n "update s" x env inp st] assms(1,6) ready(5) by auto
  have upd: "update (update s) = update s" by (simp add: update_def)
  have "refresh_strategy env st inp n r =
      (Ret (), set_rs (\<lambda>c. c\<lparr>smu := False, strategyMu := False, strat := Some x',
          lastVersion := ?v, lastUpdate := Some (now2 inp)\<rparr>) (r\<lparr>rtab := ?t\<rparr>))"
    using assms(4,5) ver ready(3,4) x'(1)
    by (simp add: refresh_strategy_def upd comp_def set_rs_def)
  then show ?thesis using x'(2-4) ready(1) at by (auto simp: set_rs_def)
qed

text \<open>
  A refresh that is due leaves a strategy that holds endpoints the service has now, and the
  version it has seen.
\<close>

lemma refresh_due:
  assumes "treemap_ok (env_treemap env)" and "sel_ready env n r s" and "strat (rs r) = Some x"
    and "since_update inp r" and "no_wrap s" and "0 < version (update s)"
    and "range_order (in_ord inp) (eligible (Strategy_EndpointFilters x) (raw (rs r)) s)"
  shows "\<exists>r' x' E. refresh_strategy env st inp n r = (Ret (), r') \<and> strat (rs r') = Some x'
    \<and> strategy_wf x' \<and> strategy_holds env x' E \<and> E \<subseteq> endpointsSet s \<and> raw (rs r') = raw (rs r)
    \<and> svc (rs r') = Some n \<and> service_at n (rtab r') = Some (update s)
    \<and> \<not> smu (rs r') \<and> \<not> strategyMu (rs r') \<and> lastVersion (rs r') = version (update s)"
proof (cases "lastVersion (rs r) < version (update s)")
  case True
  have "dom (eligible (Strategy_EndpointFilters x) (raw (rs r)) s) \<subseteq> endpointsSet s"
    using eligible_dom assms(2) unfolding sel_ready_def svc_inv_def by blast
  then show ?thesis using refresh_newer [OF assms(1-4) True assms(7), of st] by blast
next
  case False
  have ready: "svc (rs r) = Some n" "service_at n (rtab r) = Some s" "\<not> smu (rs r)" "\<not> strategyMu (rs r)"
    "lastVersion (rs r) \<le> version s" "strategy_tracks env (rs r) s x"
    using assms(2,3) by (simp_all add: sel_ready_def)
  have v: "version (update s) = lastVersion (rs r)" "version s = lastVersion (rs r)"
    using False ready(5) version_update_gt [OF assms(5)] by (auto simp: update_def split: if_splits)
  then obtain E where "strategy_holds env x E" "E \<subseteq> endpointsSet s"
    using ready(6) assms(6) by (auto simp: strategy_tracks_def)
  moreover have "refresh_strategy env st inp n r = (Ret (), r\<lparr>rtab := put_service n (update s) (rtab r)\<rparr>)"
    using assms(4) False by (simp add: refresh_strategy_def on_service_eq [OF ready(2)] Version_eq)
  ultimately show ?thesis using ready assms(3) v by (auto simp: strategy_tracks_def)
qed

lemma Selector_Select_ready:
  assumes "treemap_ok (env_treemap env)" and "sel_ready env n r s" and "since_update inp r"
    and "no_wrap s" and "0 < version (update s)"
    and "strategy_in_use bs r = Some x" and "strategy_wf x"
    and "range_order (in_ord inp) (eligible (Strategy_EndpointFilters x) (raw (rs r)) s)"
    and "\<forall>e \<in> endpointsSet s. checkable (raw (rs r)) s e"
  shows "\<exists>p r'. Selector_Select env bs (Some g) inp t r = (Ret p, r')
    \<and> safe_pick (endpointsSet s) p \<and> sel_ready env n r' (update s) \<and> raw (rs r') = raw (rs r)"
proof -
  let ?r = "set_rs (strat_update (\<lambda>_. Some x)) r"
  have ready: "svc (rs r) = Some n" "\<not> smu (rs r)" "svc_inv s"
    using assms(2) by (simp_all add: sel_ready_def)
  have "strategy_tracks env (rs ?r) s x"
    using assms(2,6,7) by (cases "strat (rs r)") (simp_all add: sel_ready_def strategy_tracks_def strategy_in_use_def)
  then have r1: "sel_ready env n ?r s" using assms(2) by (simp add: sel_ready_def)
  have since: "since_update inp ?r" using assms(3) by (simp add: since_update_def)
  obtain r2 x2 E where r2: "refresh_strategy env (Some g) inp n ?r = (Ret (), r2)" "strat (rs r2) = Some x2"
    "strategy_wf x2" "strategy_holds env x2 E" "E \<subseteq> endpointsSet s" "raw (rs r2) = raw (rs r)"
    "svc (rs r2) = Some n" "service_at n (rtab r2) = Some (update s)" "\<not> smu (rs r2)" "\<not> strategyMu (rs r2)"
    "lastVersion (rs r2) = version (update s)"
    using refresh_due [OF assms(1) r1 _ since assms(4,5), of x "Some g"] assms(8) by auto
  have "\<forall>e \<in> E. checkable (raw (rs r2)) (update s) e"
    using assms(9) r2(5,6) by (auto simp: checkable_def)
  then obtain p x3 where p: "pick_endpoint env (Some g) inp t n r2 = (Ret p, set_rs (strat_update (\<lambda>_. Some x3)) r2)"
    "safe_pick E p" "strategy_wf x3" "strategy_holds env x3 E"
    using pick_endpoint_safe [OF assms(1) r2(10,2,3,4,8)] by blast
  let ?r3 = "set_rs (strat_update (\<lambda>_. Some x3)) r2"
  have "Selector_Select env bs (Some g) inp t r = (Ret p, ?r3)"
    using r2(1) p(1) by (simp add: Selector_Select_def MustService_known [OF ready(1)]
        init_strategy_eq [OF ready(2) assms(6)])
  moreover have "safe_pick (endpointsSet s) p"
    using p(2) r2(5) by (auto simp: safe_pick_def split: prod.splits option.splits)
  moreover have "sel_ready env n ?r3 (update s)"
    using r2 p(3,4) ready(3) by (auto simp: sel_ready_def strategy_tracks_def svc_inv_update)
  ultimately show ?thesis using r2(6) by auto
qed

section \<open>Watch events between calls\<close>

text \<open>An event of the service keeps the selector ready: either the set stays or the version grows.\<close>

lemma svc_apply_endpoints:
  "version (svc_apply q s) = version s \<and> endpointsSet (svc_apply q s) = endpointsSet s
   \<or> version (svc_apply q s) = version s + 1"
  by (cases q) (auto simp: Version_eq update_def)

lemma sel_ready_event:
  assumes "sel_ready env n r s" and "op_possible q s" and "no_wrap s"
  shows "sel_ready env n (r\<lparr>rtab := put_service n (svc_apply q s) (rtab r)\<rparr>) (svc_apply q s)"
proof -
  have gt: "version s < version s + 1"
    using assms(3) unat_word_Suc [of "version s"] by (simp add: no_wrap_def word_less_nat_alt)
  have le: "lastVersion (rs r) \<le> version s" using assms(1) by (simp add: sel_ready_def)
  have "lastVersion (rs r) \<le> version (svc_apply q s)
    \<and> (lastVersion (rs r) = version (svc_apply q s) \<longrightarrow>
        lastVersion (rs r) = version s \<and> endpointsSet (svc_apply q s) = endpointsSet s)"
    using svc_apply_endpoints [of q s] gt le by auto
  then show ?thesis
    using assms(1) svc_apply_inv [OF _ assms(2)]
    by (auto simp: sel_ready_def strategy_tracks_def split: option.splits)
qed

section \<open>What a selection without error guarantees\<close>

text \<open>
  Whatever the state, strategy and service: an endpoint returned without an error was available
  and below the limit of the selector when it was checked.
\<close>

definition below_limit :: "selector \<Rightarrow> attribute \<Rightarrow> bool" where
  "below_limit q a \<longleftrightarrow>
     (\<forall>mx i x. MaxRequests q = Some mx \<longrightarrow> InSel a = Some i \<longrightarrow> RPS i = Some x \<longrightarrow> x < mx)"

lemma check_attribute_None:
  "check_attribute q at = Ret None \<Longrightarrow> \<exists>a. at = Some a \<and> Available a \<and> below_limit q a"
  by (auto simp: check_attribute_def below_limit_def attr_field_def not_le
      split: option.splits if_splits)

lemma pick_endpoint_checked:
  assumes "pick_endpoint env st inp t n r = (Ret (Some e, h, None), r')"
  shows "rtab r' = rtab r \<and> raw (rs r') = raw (rs r) \<and> svc (rs r') = svc (rs r)
    \<and> (\<exists>s a. service_at n (rtab r) = Some s \<and> GetAttribute e (Name (raw (rs r))) s = Some a
         \<and> Available a \<and> below_limit (raw (rs r)) a)
    \<and> (\<exists>hd. h = Some (merge_headers (baseHeaders (raw (rs r))) hd))"
  using assms
  by (auto simp: pick_endpoint_def Let_def out_bind_eq_Ret dest!: check_attribute_None
      split: if_splits option.splits prod.splits outcome.splits)

text \<open>The built-in strategies never return nothing without an error.\<close>

lemma Strategy_Select_some:
  assumes "Strategy_Select env st t d x = (Ret (e, h, None), x')"
  shows "e \<noteq> None"
  using assms
  by (cases x)
    (auto simp: Random_Select_def RoundRobin_Select_def WeightedRandom_Select_def
      WeightedRoundRobin_Select_def LeastRequest_Select_def LeastCost_Select_def HashRing_Select_def
      Direct_Select_def CustomLua_Select_def Let_def out_bind_eq_Ret
      split: if_splits option.splits sum.splits outcome.splits prod.splits)

lemma pick_endpoint_some:
  assumes "pick_endpoint env st inp t n r = (Ret (e, h, None), r')"
  shows "e \<noteq> None"
proof -
  obtain x where x: "strat (rs r) = Some x" "\<not> strategyMu (rs r)"
    using assms by (auto simp: pick_endpoint_def Let_def split: if_splits option.splits)
  obtain p x' where p: "Strategy_Select env (routes st) t (in_draws inp) x = (p, x')"
    by (cases "Strategy_Select env (routes st) t (in_draws inp) x")
  then obtain e0 h0 err0 where r: "p = Ret (e0, h0, err0)"
    using assms x by (cases p) (auto simp: pick_endpoint_def Let_def)
  show ?thesis
  proof (cases err0)
    case None
    then have "e0 \<noteq> None" using Strategy_Select_some p r by blast
    then show ?thesis using assms x p r None
      by (auto simp: pick_endpoint_def Let_def out_bind_eq_Ret split: option.splits)
  next
    case (Some y)
    then show ?thesis using assms x p r by (cases e0) (simp_all add: pick_endpoint_def Let_def)
  qed
qed

lemma on_service_keeps: "on_service n f r = (Ret a, r') \<Longrightarrow> rs r' = rs r"
  by (auto simp: on_service_def Let_def split: option.splits prod.splits)

lemma MustService_svc: "MustService st r = (Ret n, r') \<Longrightarrow> svc (rs r') = Some n \<and> raw (rs r') = raw (rs r)"
  by (auto simp: MustService_def lock_mu_def unlock_mu_def go_bind_eq_Ret
      split: option.splits if_splits prod.splits outcome.splits)

lemma init_strategy_svc:
  "init_strategy bs r = (Ret err, r') \<Longrightarrow> svc (rs r') = svc (rs r) \<and> raw (rs r') = raw (rs r)"
  by (auto simp: init_strategy_def lock_mu_def unlock_mu_def go_bind_eq_Ret Let_def
      split: option.splits if_splits prod.splits outcome.splits)

lemma EndpointsWithAttribute_keeps:
  assumes "svc (rs r) = Some n" and "EndpointsWithAttribute st fs r = (Ret m, r')"
  shows "rs r' = rs r"
  using assms(2) on_service_keeps
  by (fastforce simp: EndpointsWithAttribute_def MustService_known [OF assms(1)] go_bind_eq_Ret)

lemma update_strategy_svc:
  assumes "svc (rs r) = Some n" and "update_strategy env st inp r = (Ret (), r')"
  shows "svc (rs r') = svc (rs r) \<and> raw (rs r') = raw (rs r)"
proof -
  obtain x where x: "strat (rs r) = Some x" using assms(2) by (cases "strat (rs r)") (simp_all add: update_strategy_def)
  then obtain m r1 where m: "EndpointsWithAttribute st (Strategy_EndpointFilters x) r = (Ret m, r1)"
    "(case Strategy_Update env (in_ord inp) m x of
        Ret s' \<Rightarrow> (Ret (), set_rs (strat_update (\<lambda>_. Some s')) r1)
      | Panicked p \<Rightarrow> (Panicked p, r1) | Blocked \<Rightarrow> (Blocked, r1)) = (Ret (), r')"
    using assms(2) by (auto simp: update_strategy_def go_bind_eq_Ret)
  then have "rs r1 = rs r" using EndpointsWithAttribute_keeps [OF assms(1)] by blast
  then show ?thesis using m(2) by (cases "Strategy_Update env (in_ord inp) m x") auto
qed

lemma refresh_strategy_svc:
  assumes "svc (rs r) = Some n" and "refresh_strategy env st inp m r = (Ret (), r')"
  shows "svc (rs r') = svc (rs r) \<and> raw (rs r') = raw (rs r)"
proof (cases "since_update inp r")
  case True
  then obtain v r1 where v: "on_service m Version r = (Ret v, r1)" "rs r1 = rs r"
    using assms(2) on_service_keeps by (fastforce simp: refresh_strategy_def go_bind_eq_Ret)
  show ?thesis
  proof (cases "v > lastVersion (rs r1)")
    case later: True
    then obtain r2 r3 where "lock_smu r1 = (Ret (), r2)" "\<not> smu (rs r1)"
      using assms(2) True v(1)
      by (auto simp: refresh_strategy_def go_bind_eq_Ret lock_mu_def split: if_splits)
    then have r2: "r2 = set_rs (smu_update (\<lambda>_. True)) r1" by simp
    then obtain r4 r5 where u: "lock_strategyMu r2 = (Ret (), r4)" "update_strategy env st inp r4 = (Ret (), r5)"
      "r' = set_rs (smu_update (\<lambda>_. False)) (set_rs (lastUpdate_update (\<lambda>_. Some (now2 inp)) \<circ> lastVersion_update (\<lambda>_. v))
        (set_rs (strategyMu_update (\<lambda>_. False)) r5))"
      using assms(2) True v(1) later \<open>\<not> smu (rs r1)\<close>
      by (auto simp: refresh_strategy_def go_bind_eq_Ret unlock_mu_def split: if_splits)
    then have r4: "svc (rs r4) = Some n" "raw (rs r4) = raw (rs r)"
      using r2 v(2) assms(1) by (auto simp: lock_mu_def split: if_splits)
    show ?thesis using update_strategy_svc [OF r4(1) u(2)] r4 u(3) assms(1) by simp
  next
    case False
    then show ?thesis using assms(2) True v by (simp add: refresh_strategy_def)
  qed
next
  case False
  then show ?thesis using assms(2) by (simp add: refresh_strategy_def)
qed

lemma Selector_Select_checked:
  assumes "Selector_Select env bs st inp t r = (Ret (e, h, None), r')"
  shows "\<exists>x n s a hd. e = Some x \<and> svc (rs r') = Some n \<and> service_at n (rtab r') = Some s
    \<and> GetAttribute x (Name (raw (rs r'))) s = Some a \<and> Available a \<and> below_limit (raw (rs r')) a
    \<and> h = Some (merge_headers (baseHeaders (raw (rs r'))) hd) \<and> raw (rs r') = raw (rs r)"
proof -
  obtain n r1 r2 r3 err where c: "MustService st r = (Ret n, r1)" "init_strategy bs r1 = (Ret err, r2)"
    "err = None" "refresh_strategy env st inp n r2 = (Ret (), r3)"
    "pick_endpoint env st inp t n r3 = (Ret (e, h, None), r')"
    using assms by (auto simp: Selector_Select_def go_bind_eq_Ret split: option.splits)
  have r1: "svc (rs r1) = Some n" "raw (rs r1) = raw (rs r)" using MustService_svc [OF c(1)] by simp_all
  have r2: "svc (rs r2) = Some n" "raw (rs r2) = raw (rs r)" using init_strategy_svc [OF c(2)] r1 by simp_all
  have r3: "svc (rs r3) = Some n" "raw (rs r3) = raw (rs r)"
    using refresh_strategy_svc [OF r2(1) c(4)] r2 by simp_all
  obtain x where x: "e = Some x" using pick_endpoint_some [OF c(5)] by auto
  from pick_endpoint_checked [OF c(5) [unfolded x]] show ?thesis
    using x r3 by auto
qed

section \<open>Paths that leave the mutex locked, and panics\<close>

text \<open>An unknown strategy is reported once; after that every call on the selector blocks.\<close>

lemma Select_unknown_strategy:
  assumes "svc (rs r) = Some n" and "\<not> smu (rs r)" and "strat (rs r) = None"
    and "bs (Strategy (raw (rs r))) = None"
  shows "\<exists>r'. Selector_Select env bs st inp t r = (Ret (sel_error ErrUnknownStrategy), r')
    \<and> smu (rs r') \<and> strat (rs r') = None \<and> svc (rs r') = Some n \<and> raw (rs r') = raw (rs r)"
  using assms
  by (simp add: Selector_Select_def MustService_known init_strategy_def GetStrategy_unknown Let_def)

lemma Select_blocked:
  assumes "svc (rs r) = Some n" and "smu (rs r)" and "strat (rs r) = None"
  shows "Selector_Select env bs st inp t r = (Blocked, r)"
    and "Selector_NotifyRetry st' hv r = (Blocked, r)"
  using assms by (simp_all add: Selector_Select_def MustService_known init_strategy_def Selector_NotifyRetry_def)

text \<open>A service that is not in the table: the panic leaves the mutex of the selector locked.\<close>

lemma MustService_missing:
  assumes "svc (rs r) = None" and "\<not> smu (rs r)" and "\<not> serviceMu (rtab r)"
    and "services (rtab r) = Some m" and "m (Service (raw (rs r))) = None"
  shows "\<exists>r'. MustService st r = (Panicked (PanicVal (ErrCode ErrServiceNotFound)), r')
    \<and> smu (rs r') \<and> svc (rs r') = None \<and> MustService st' r' = (Blocked, r')"
proof -
  have "GetService st (Service (raw (rs r))) (rtab r) = (Ret (None, Some (ErrCode ErrServiceNotFound)), rtab r)"
    using assms(3-5) by (cases "rtab r") (simp add: GetService_def load_services_def service_at_def)
  then show ?thesis using assms(1,2) by (simp add: MustService_def)
qed

text \<open>An endpoint that has left the service since the last update is picked, and the check panics.\<close>

lemma pick_endpoint_gone:
  assumes "\<not> strategyMu (rs r)" and "strat (rs r) = Some x"
    and "Strategy_Select env (routes st) t (in_draws inp) x = (Ret (Some e, h, None), x')"
    and "service_at n (rtab r) = Some s" and "attrMap s e = None"
  shows "fst (pick_endpoint env st inp t n r) = Panicked NilDeref"
  using assms by (simp add: pick_endpoint_def check_attribute_def GetAttribute_def Let_def)

text \<open>
  With a limit on the requests, an available endpoint for which no attribute of this selector was
  ever reported makes the check panic as well.
\<close>

lemma pick_endpoint_unreported:
  assumes "\<not> strategyMu (rs r)" and "strat (rs r) = Some x"
    and "Strategy_Select env (routes st) t (in_draws inp) x = (Ret (Some e, h, None), x')"
    and "service_at n (rtab r) = Some s" and "attrMap s e = Some m" and "CommonAvailable m"
    and "MaxRequests (raw (rs r)) = Some mx" and "InSelector m (Name (raw (rs r))) = None"
  shows "fst (pick_endpoint env st inp t n r) = Panicked NilDeref"
  using assms by (simp add: pick_endpoint_def check_attribute_def GetAttribute_def attr_field_def Let_def)

end
