(* ===== verification/Router.thy ===== *)
theory Router
  imports CoreSelector
begin

text \<open>
  \<open>core/router.go\<close>: the tables of routers and selectors of a client, the matching of a request
  against the rules, and \<open>Route\<close>, which selects an endpoint by the first rule that matches and
  treats a failed selection as the rule's error handler says. Waiting is a list of the events that
  arrive while a request is blocked, and a change of the table of services between two tries.
\<close>

section \<open>The tables of a client\<close>

record ('m, 're) world =
  wRouters :: "string \<rightharpoonup> 're router"
  routerMu :: bool
  wSelectors :: "(string \<rightharpoonup> 'm coreSelector) option"
  selectorMu :: bool
  wTable :: serviceTable

definition init_world :: "('m, 're) world" where
  "init_world =
     \<lparr>wRouters = Map.empty, routerMu = False, wSelectors = None, selectorMu = False,
      wTable = \<lparr>services = None, serviceMu = False\<rparr>\<rparr>"

definition GetRouter :: "'re storeOps option \<Rightarrow> string \<Rightarrow>
    (('m, 're) world, go_error, string option \<times> go_error option) go" where
  "GetRouter st n = with_mu routerMu (\<lambda>b. routerMu_update (\<lambda>_. b)) (\<lambda>w.
     case wRouters w n of
       Some _ \<Rightarrow> (Ret (Some n, None), w)
     | None \<Rightarrow>
         (case MustStore st of
            Ret g \<Rightarrow>
              (case st_GetRouter g n of
                 Inl err \<Rightarrow> (Ret (None, Some err), w)
               | Inr rt \<Rightarrow> (Ret (Some n, None), w\<lparr>wRouters := (wRouters w)(n \<mapsto> rt)\<rparr>))
          | Panicked p \<Rightarrow> (Panicked p, w)
          | Blocked \<Rightarrow> (Blocked, w)))"

definition load_selectors :: "'re storeOps option \<Rightarrow> (('m, 're) world, go_error, go_error option) go" where
  "load_selectors st = (\<lambda>w.
     case wSelectors w of
       Some m \<Rightarrow> (Ret None, w)
     | None \<Rightarrow>
         (case MustStore st of
            Ret g \<Rightarrow>
              (case st_GetSelectors g of
                 Inl err \<Rightarrow> (Ret (Some err), w)
               | Inr m \<Rightarrow> (Ret None, w\<lparr>wSelectors := Some (\<lambda>n. map_option NewCoreSelector (m n))\<rparr>))
          | Panicked p \<Rightarrow> (Panicked p, w)
          | Blocked \<Rightarrow> (Blocked, w)))"

definition selector_at :: "string \<Rightarrow> ('m, 're) world \<Rightarrow> 'm coreSelector option" where
  "selector_at n w = (case wSelectors w of Some m \<Rightarrow> m n | None \<Rightarrow> None)"

definition GetSelector :: "'re storeOps option \<Rightarrow> string \<Rightarrow>
    (('m, 're) world, go_error, string option \<times> go_error option) go" where
  "GetSelector st n = with_mu selectorMu (\<lambda>b. selectorMu_update (\<lambda>_. b))
     (go_bind (load_selectors st) (\<lambda>err w.
        case err of
          Some e \<Rightarrow> (Ret (None, Some e), w)
        | None \<Rightarrow>
            (case selector_at n w of
               Some s \<Rightarrow> (Ret (Some n, None), w)
             | None \<Rightarrow> (Ret (None, Some (ErrCode ErrSelectorNotFound)), w))))"

text \<open>A method call on a pointer to a selector, and \<open>GetService\<close> on the table of a world.\<close>

definition on_selector :: "string option \<Rightarrow> ('m receiver, go_error, 'a) go \<Rightarrow> (('m, 're) world, go_error, 'a) go" where
  "on_selector p f = (\<lambda>w.
     case p of
       None \<Rightarrow> (Panicked NilDeref, w)
     | Some n \<Rightarrow>
         (case selector_at n w of
            None \<Rightarrow> (Panicked NilDeref, w)
          | Some c \<Rightarrow>
              (case f \<lparr>rs = c, rtab = wTable w\<rparr> of
                 (a, r) \<Rightarrow> (a, w\<lparr>wSelectors := map_option (\<lambda>m. m(n \<mapsto> rs r)) (wSelectors w), wTable := rtab r\<rparr>))))"

definition world_GetService :: "'re storeOps option \<Rightarrow> string \<Rightarrow>
    (('m, 're) world, go_error, string option \<times> go_error option) go" where
  "world_GetService st n = (\<lambda>w. case GetService st n (wTable w) of (a, t) \<Rightarrow> (a, w\<lparr>wTable := t\<rparr>))"

section \<open>Matching\<close>

fun headers_match :: "'re regexEngine \<Rightarrow> (string \<times> 're) list \<Rightarrow> (string \<rightharpoonup> string) \<Rightarrow> bool" where
  "headers_match eng [] hs = True"
| "headers_match eng ((k, re) # rhs) hs =
     (case hs k of
        None \<Rightarrow> False
      | Some v \<Rightarrow> if \<not> re_match eng re v then False else headers_match eng rhs hs)"

definition Match :: "'re regexEngine \<Rightarrow> matchTarget \<Rightarrow> ('re matcher, go_error, bool) go" where
  "Match eng t =
     go_bind (RegexURI eng) (\<lambda>uri m.
       if \<not> re_match eng uri (URI t) then (Ret False, m)
       else if MPort m \<noteq> 0 \<and> TPort t \<noteq> MPort m then (Ret False, m)
       else if MHeaders m \<noteq> None
       then go_bind (RegexHeaders eng) (\<lambda>rhs.
              go_ret (headers_match eng (case rhs of Some l \<Rightarrow> l | None \<Rightarrow> []) (Headers t))) m
       else (Ret True, m))"

fun match_any :: "'re regexEngine \<Rightarrow> matchTarget \<Rightarrow> 're matcher list \<Rightarrow> bool result \<times> 're matcher list" where
  "match_any eng t [] = (Ret False, [])"
| "match_any eng t (m # ms) =
     (case Match eng t m of
        (Ret b, m') \<Rightarrow>
          if b then (Ret True, m' # ms)
          else (case match_any eng t ms of (r, ms') \<Rightarrow> (r, m' # ms'))
      | (Panicked p, m') \<Rightarrow> (Panicked p, m' # ms)
      | (Blocked, m') \<Rightarrow> (Blocked, m' # ms))"

definition MatchRule :: "'re regexEngine \<Rightarrow> matchTarget \<Rightarrow> ('re rule, go_error, bool) go" where
  "MatchRule eng t = (\<lambda>r. case match_any eng t (Matchers r) of (b, ms) \<Rightarrow> (b, r\<lparr>Matchers := ms\<rparr>))"

section \<open>The text of a target\<close>

definition uint_error :: "string \<Rightarrow> go_error" where
  "uint_error s =
     ErrNum ''ParseUint'' s
       (if parse_digits s = None then ''invalid syntax'' else ''value out of range'')"

definition parseTarget :: "string \<Rightarrow> string \<times> u32 \<times> go_error option" where
  "parseTarget target =
     (let splits = Split target (CHR '':'') in
      if length splits > 2 then ([], 0, Some (ErrText ''error format routerName''))
      else if length splits = 1 then (target, 9090, None)
      else (case ParseUint (splits ! 1) 32 of
              None \<Rightarrow> ([], 0, Some (uint_error (splits ! 1)))
            | Some port \<Rightarrow> (splits ! 0, word_of_nat port, None)))"

section \<open>Route\<close>

type_synonym routeResult = "string \<times> endpoint option \<times> u32 \<times> headers option \<times> go_error option"

abbreviation route_error :: "go_error \<Rightarrow> routeResult" where
  "route_error e \<equiv> ([], None, 0, None, Some e)"

text \<open>
  What arrives at a blocked request: the end of its context, the time limit, or an event of the
  service, which wakes it when it makes a new notification channel.
\<close>

datatype blockEvent = BCancel | BTimeout | BService svc_op

record routeInput =
  ri_sel :: "nat \<Rightarrow> nat \<Rightarrow> selInput"
  ri_wait :: "nat \<Rightarrow> nat \<Rightarrow> serviceTable \<Rightarrow> serviceTable"
  ri_block :: "blockEvent list"

definition handler_for :: "(string \<times> errorHandler) list \<Rightarrow> go_error \<Rightarrow> errorHandler option" where
  "handler_for catch err =
     (if errors_Is err ErrNoEndpointAvailable \<or> errors_Is err ErrNoCustomRoute
      then map_of catch RuleErrorNoEndpoint
      else if errors_Is err ErrEndpointUnavailable then map_of catch RuleErrorEndpointUnavailable
      else if errors_Is err ErrEndpointRPSLimit then map_of catch RuleErrorEndpointRPSLimit
      else map_of catch RuleErrorDefault)"

text \<open>The error a handler throws or panics with.\<close>

definition handler_error :: "errorHandler \<Rightarrow> go_error \<Rightarrow> go_error" where
  "handler_error h err =
     (if HCode h \<noteq> None \<or> Message h \<noteq> None
      then ErrCode (New (case HCode h of Some c \<Rightarrow> uint c | None \<Rightarrow> 0)
                        (case Message h of Some m \<Rightarrow> m | None \<Rightarrow> []))
      else err)"

text \<open>The retries that are left, the number of the next one, and the last result.\<close>

fun retry_loop :: "(nat \<Rightarrow> (('m, 're) world, go_error, selectResult) go) \<Rightarrow> nat \<Rightarrow> nat \<Rightarrow> selectResult \<Rightarrow>
    (('m, 're) world, go_error, selectResult) go" where
  "retry_loop sel 0 i res = go_ret res"
| "retry_loop sel (Suc n) i res =
     go_bind (sel i) (\<lambda>res.
       if snd (snd res) = None then go_ret res else retry_loop sel n (Suc i) res)"

text \<open>
  A context that is nil at first is replaced by a channel nobody else holds, so its end never
  arrives. The time limit always arrives in the end; a list of events without one is a request
  that is still waiting.
\<close>

fun block_wait :: "bool \<Rightarrow> string \<Rightarrow> endpoint option \<Rightarrow> blockEvent list \<Rightarrow>
    (('m, 're) world, go_error, go_error option) go" where
  "block_wait ctx n e [] w = (Blocked, w)"
| "block_wait ctx n e (BCancel # evs) w =
     (if ctx then (Ret (Some (ErrCode ErrContextCanceled)), w) else block_wait ctx n e evs w)"
| "block_wait ctx n e (BTimeout # evs) w = (Ret (Some (ErrCode ErrBlockTimeout)), w)"
| "block_wait ctx n e (BService q # evs) w =
     (case service_at n (wTable w) of
        None \<Rightarrow> (Panicked NilDeref, w)
      | Some s \<Rightarrow>
          (let s1 = svc_apply q s; w1 = w\<lparr>wTable := put_service n s1 (wTable w)\<rparr> in
           if UpdateNTF s1 = UpdateNTF s then block_wait ctx n e evs w1
           else (case e of
               None \<Rightarrow> block_wait ctx n e evs w1
             | Some x \<Rightarrow>
                 (let (known, s2) = EndpointsSet s1; w2 = w\<lparr>wTable := put_service n s2 (wTable w)\<rparr> in
                  if x \<in> known then (Ret None, w2) else block_wait ctx n e evs w2))))"

text \<open>The end of the loop body; the fields of an endpoint that is nil cannot be read.\<close>

definition finish_route :: "string \<Rightarrow> selector \<Rightarrow> endpoint option \<Rightarrow> headers option \<Rightarrow> routeResult result" where
  "finish_route rn q e headers =
     (case e of
        None \<Rightarrow> Panicked NilDeref
      | Some x \<Rightarrow>
          (let h = map_option (\<lambda>m. m(''yapr-router'' \<mapsto> rn, ''yapr-endpoint'' \<mapsto> endpoint_String x)) headers;
               port = (if Port x \<noteq> 0 then Port x else SPort q)
           in Ret (Service q, Some x, port, h, None)))"

text \<open>What an error handler makes of a failed selection: go on to the next rule, return, or go on with a result.\<close>

datatype handled = NextRule | ReturnNow routeResult | Proceed selectResult

definition handle_error :: "'re storeOps option \<Rightarrow> routeInput \<Rightarrow> nat \<Rightarrow> matchTarget \<Rightarrow> string \<Rightarrow> selector \<Rightarrow>
    (nat \<Rightarrow> (('m, 're) world, go_error, selectResult) go) \<Rightarrow> errorHandler \<Rightarrow> go_error \<Rightarrow> selectResult \<Rightarrow>
    (('m, 're) world, go_error, handled) go" where
  "handle_error st inp i t sn q sel h err res =
     (if Solution h = SolutionPass then go_ret NextRule
      else if Solution h = SolutionThrow then go_ret (ReturnNow (route_error (handler_error h err)))
      else if Solution h = SolutionPanic then go_panic (PanicVal (handler_error h err))
      else if Solution h = SolutionRetry then
        go_bind (retry_loop sel (case Times h of Some n \<Rightarrow> unat n | None \<Rightarrow> 3) 0 res) (\<lambda>res. go_ret (Proceed res))
      else if Solution h = SolutionBlock then
        go_bind (world_GetService st (Service q)) (\<lambda>(svp, serr).
          case serr of
            Some _ \<Rightarrow> go_ret NextRule
          | None \<Rightarrow>
              go_bind (block_wait (Timeout t) (Service q) (fst res) (ri_block inp)) (\<lambda>berr.
                go_ret (case berr of Some e \<Rightarrow> ReturnNow (route_error e) | None \<Rightarrow> Proceed res)))
      else go_ret (Proceed res))"

definition select_by :: "'m env \<Rightarrow> 'm builders \<Rightarrow> 're storeOps option \<Rightarrow> matchTarget \<Rightarrow> string option \<Rightarrow> selInput \<Rightarrow>
    (('m, 're) world, go_error, selectResult) go" where
  "select_by env bs st t p si = on_selector p (Selector_Select env bs st si t)"

text \<open>One rule that matches; \<open>None\<close> is \<open>continue\<close>.\<close>

definition apply_rule :: "'m env \<Rightarrow> 'm builders \<Rightarrow> 're storeOps option \<Rightarrow> routeInput \<Rightarrow> matchTarget \<Rightarrow> string \<Rightarrow>
    nat \<Rightarrow> string \<Rightarrow> (string \<times> errorHandler) list \<Rightarrow> (('m, 're) world, go_error, routeResult option) go" where
  "apply_rule env bs st inp t rn i sn catch =
     go_bind (GetSelector st sn) (\<lambda>(p, gerr).
     go_bind (select_by env bs st t p (ri_sel inp i 0)) (\<lambda>res w.
       case selector_at sn w of
         None \<Rightarrow> (Panicked NilDeref, w)
       | Some c \<Rightarrow>
           (let q = raw c;
                sel = (\<lambda>k w. select_by env bs st t p (ri_sel inp i (Suc k))
                               (w\<lparr>wTable := ri_wait inp i k (wTable w)\<rparr>))
            in case snd (snd res) of
                 None \<Rightarrow> (out_bind (finish_route rn q (fst res) (fst (snd res))) (\<lambda>x. Ret (Some x)), w)
               | Some err \<Rightarrow>
                   (case handler_for catch err of
                      None \<Rightarrow> (Ret (Some (route_error err)), w)
                    | Some h \<Rightarrow>
                        go_bind (handle_error st inp i t sn q sel h err res) (\<lambda>hd w.
                          case hd of
                            NextRule \<Rightarrow> (Ret None, w)
                          | ReturnNow x \<Rightarrow> (Ret (Some x), w)
                          | Proceed (e, h, _) \<Rightarrow> (out_bind (finish_route rn q e h) (\<lambda>x. Ret (Some x)), w)) w))))"

text \<open>The loop over the rules; the memoised expressions of a rule are written back to the router.\<close>

fun route_rules :: "'m env \<Rightarrow> 'm builders \<Rightarrow> 're regexEngine \<Rightarrow> 're storeOps option \<Rightarrow> routeInput \<Rightarrow> matchTarget \<Rightarrow>
    string \<Rightarrow> nat \<Rightarrow> 're rule list \<Rightarrow> ('m, 're) world \<Rightarrow> routeResult result \<times> 're rule list \<times> ('m, 're) world" where
  "route_rules env bs eng st inp t rn i [] w = (Ret (route_error (ErrCode ErrNoRuleMatched)), [], w)"
| "route_rules env bs eng st inp t rn i (r # rls) w =
     (case MatchRule eng t r of
        (Ret False, r') \<Rightarrow>
          (case route_rules env bs eng st inp t rn (Suc i) rls w of (x, rls', w') \<Rightarrow> (x, r' # rls', w'))
      | (Ret True, r') \<Rightarrow>
          (case apply_rule env bs st inp t rn i (RSelector r) (Catch r) w of
             (Ret None, w') \<Rightarrow>
               (case route_rules env bs eng st inp t rn (Suc i) rls w' of (x, rls', w'') \<Rightarrow> (x, r' # rls', w''))
           | (Ret (Some x), w') \<Rightarrow> (Ret x, r' # rls, w')
           | (Panicked p, w') \<Rightarrow> (Panicked p, r' # rls, w')
           | (Blocked, w') \<Rightarrow> (Blocked, r' # rls, w'))
      | (Panicked p, r') \<Rightarrow> (Panicked p, r' # rls, w)
      | (Blocked, r') \<Rightarrow> (Blocked, r' # rls, w))"

definition Route :: "'m env \<Rightarrow> 'm builders \<Rightarrow> 're regexEngine \<Rightarrow> 're storeOps option \<Rightarrow> routeInput \<Rightarrow> matchTarget \<Rightarrow>
    string \<Rightarrow> (('m, 're) world, go_error, routeResult) go" where
  "Route env bs eng st inp t rn = (\<lambda>w.
     case wRouters w rn of
       None \<Rightarrow> (Panicked NilDeref, w)
     | Some rt \<Rightarrow>
         (case route_rules env bs eng st inp t (RouterName rt) 0 (Rules rt) w of
            (x, rls, w') \<Rightarrow> (x, w'\<lparr>wRouters := (wRouters w')(rn \<mapsto> rt\<lparr>Rules := rls\<rparr>)\<rparr>)))"

text \<open>\<open>Selectors\<close>: the selectors the rules name, each once, in the order \<open>ord\<close> of a loop over a map.\<close>

definition selector_names :: "'re router \<Rightarrow> string set" where
  "selector_names r = set (map RSelector (Rules r))"

fun get_selectors :: "'re storeOps option \<Rightarrow> string list \<Rightarrow> (('m, 're) world, go_error, string list) go" where
  "get_selectors st [] = go_ret []"
| "get_selectors st (n # ns) =
     go_bind (GetSelector st n) (\<lambda>(p, err).
       go_bind (get_selectors st ns) (\<lambda>ps.
         go_ret (case (p, err) of (Some x, None) \<Rightarrow> x # ps | _ \<Rightarrow> ps)))"

definition Router_Selectors :: "'re storeOps option \<Rightarrow> string list \<Rightarrow> (('m, 're) world, go_error, string list) go" where
  "Router_Selectors st ord = get_selectors st ord"

section \<open>What a matcher matches\<close>

definition headers_spec :: "'re regexEngine \<Rightarrow> (string \<times> string) list \<Rightarrow> (string \<rightharpoonup> string) \<Rightarrow> bool" where
  "headers_spec eng hs h \<longleftrightarrow>
     (\<forall>(k, pat) \<in> set hs. \<exists>re v. re_compile eng pat = Some re \<and> h k = Some v \<and> re_match eng re v)"

definition matcher_spec :: "'re regexEngine \<Rightarrow> matchTarget \<Rightarrow> 're matcher \<Rightarrow> bool" where
  "matcher_spec eng t m \<longleftrightarrow>
     (\<exists>re. re_compile eng (MURI m) = Some re \<and> re_match eng re (URI t))
     \<and> (MPort m = 0 \<or> TPort t = MPort m)
     \<and> (case MHeaders m of None \<Rightarrow> True | Some hs \<Rightarrow> headers_spec eng hs (Headers t))"

lemma headers_match_spec:
  "compile_all eng hs = Some rhs \<Longrightarrow> headers_match eng rhs h = headers_spec eng hs h"
proof (induction hs arbitrary: rhs)
  case (Cons kv hs)
  obtain k pat where kv: "kv = (k, pat)" by (cases kv)
  then obtain re rhs' where "re_compile eng pat = Some re" "compile_all eng hs = Some rhs'" "rhs = (k, re) # rhs'"
    using Cons.prems by (auto split: option.splits)
  then show ?case using Cons.IH kv
    by (cases "h k"; cases "re_match eng re (the (h k))") (simp_all add: headers_spec_def)
qed (simp add: headers_spec_def)

text \<open>The configured patterns of a matcher, without the memo fields.\<close>

definition patterns :: "'re matcher \<Rightarrow> string \<times> u32 \<times> (string \<times> string) list option" where
  "patterns m = (MURI m, MPort m, MHeaders m)"

lemma matcher_spec_patterns: "patterns m = patterns m' \<Longrightarrow> matcher_spec eng t m = matcher_spec eng t m'"
  by (simp add: patterns_def matcher_spec_def)

lemma Match_spec:
  assumes "wf_matcher eng m"
  shows "\<exists>m'. Match eng t m = (Ret (matcher_spec eng t m), m') \<and> wf_matcher eng m' \<and> patterns m' = patterns m"
proof -
  obtain re where re: "re_compile eng (MURI m) = Some re" "RegexURI eng m = (Ret re, m\<lparr>regexURI := Some re\<rparr>)"
    using RegexURI_wf [OF assms] by blast
  let ?m = "m\<lparr>regexURI := Some re\<rparr>"
  have wf: "wf_matcher eng ?m" by (rule wf_matcher_memo [OF assms re(1)])
  show ?thesis
  proof (cases "re_match eng re (URI t) \<and> (MPort m = 0 \<or> TPort t = MPort m) \<and> MHeaders m \<noteq> None")
    case True
    then obtain hs where hs: "MHeaders ?m = Some hs" by auto
    obtain rhs where rhs: "compile_all eng hs = Some rhs" "RegexHeaders eng ?m = (Ret (Some rhs), ?m\<lparr>regexHeaders := Some rhs\<rparr>)"
      using RegexHeaders_wf [OF wf hs] by blast
    then show ?thesis
      using True re hs wf_matcher_memo_headers [OF wf hs rhs(1)]
      by (auto simp: Match_def matcher_spec_def headers_match_spec [OF rhs(1)] patterns_def)
  next
    case False
    then show ?thesis using re wf
      by (auto simp: Match_def matcher_spec_def patterns_def split: option.split)
  qed
qed

definition rule_matches :: "'re regexEngine \<Rightarrow> matchTarget \<Rightarrow> 're rule \<Rightarrow> bool" where
  "rule_matches eng t r \<longleftrightarrow> (\<exists>m \<in> set (Matchers r). matcher_spec eng t m)"

definition wf_rule :: "'re regexEngine \<Rightarrow> 're rule \<Rightarrow> bool" where
  "wf_rule eng r \<longleftrightarrow> (\<forall>m \<in> set (Matchers r). wf_matcher eng m)"

lemma match_any_spec:
  "\<forall>m \<in> set ms. wf_matcher eng m \<Longrightarrow>
     \<exists>ms'. match_any eng t ms = (Ret (\<exists>m \<in> set ms. matcher_spec eng t m), ms')
       \<and> (\<forall>m \<in> set ms'. wf_matcher eng m) \<and> map patterns ms' = map patterns ms"
proof (induction ms)
  case (Cons m ms)
  then obtain m' where m': "Match eng t m = (Ret (matcher_spec eng t m), m')" "wf_matcher eng m'" "patterns m' = patterns m"
    using Match_spec by (metis list.set_intros(1))
  obtain ms' where "match_any eng t ms = (Ret (\<exists>m \<in> set ms. matcher_spec eng t m), ms')"
    "\<forall>m \<in> set ms'. wf_matcher eng m" "map patterns ms' = map patterns ms"
    using Cons by auto
  then show ?case using m' Cons.prems by simp
qed simp

text \<open>Rules that differ in their memo fields only.\<close>

definition same_rule :: "'re rule \<Rightarrow> 're rule \<Rightarrow> bool" where
  "same_rule r r' \<longleftrightarrow>
     map patterns (Matchers r') = map patterns (Matchers r) \<and> RSelector r' = RSelector r \<and> Catch r' = Catch r"

lemma same_rule_refl [simp]: "same_rule r r"
  by (simp add: same_rule_def)

lemma rule_matches_patterns:
  assumes "map patterns (Matchers r') = map patterns (Matchers r)"
  shows "rule_matches eng t r' = rule_matches eng t r"
proof -
  have "rule_matches eng t q \<longleftrightarrow>
      (\<exists>p \<in> set (map patterns (Matchers q)). \<exists>m. patterns m = p \<and> matcher_spec eng t m)" for q :: "'a rule"
    unfolding rule_matches_def using matcher_spec_patterns by fastforce
  then show ?thesis using assms by (simp only:)
qed

lemma same_rule_matches: "same_rule r r' \<Longrightarrow> rule_matches eng t r' = rule_matches eng t r"
  by (rule rule_matches_patterns) (simp add: same_rule_def)

lemma MatchRule_spec:
  assumes "wf_rule eng r"
  shows "\<exists>r'. MatchRule eng t r = (Ret (rule_matches eng t r), r') \<and> wf_rule eng r' \<and> same_rule r r'"
  using match_any_spec [of "Matchers r" eng t] assms
  by (auto simp: MatchRule_def wf_rule_def rule_matches_def same_rule_def)

section \<open>First match\<close>

text \<open>Rules before the first that matches are passed over; their memo fields may be filled.\<close>

definition same_rules :: "'re rule list \<Rightarrow> 're rule list \<Rightarrow> bool" where
  "same_rules = list_all2 same_rule"

lemma same_rules_refl [simp]: "same_rules rls rls"
  by (simp add: same_rules_def list_all2_refl)

lemma route_rules_skip:
  assumes "\<forall>r \<in> set us. wf_rule eng r \<and> \<not> rule_matches eng t r"
  shows "\<exists>us'. same_rules us us' \<and> route_rules env bs eng st inp t rn i (us @ vs) w =
    (case route_rules env bs eng st inp t rn (i + length us) vs w of (x, vs', w') \<Rightarrow> (x, us' @ vs', w'))"
  using assms
proof (induction us arbitrary: i)
  case Nil
  then show ?case by (simp add: same_rules_def split: prod.split)
next
  case (Cons u us)
  obtain u' where "MatchRule eng t u = (Ret False, u')" "same_rule u u'"
    using MatchRule_spec [of eng u t] Cons.prems by auto
  moreover obtain us' where "same_rules us us'" "route_rules env bs eng st inp t rn (Suc i) (us @ vs) w =
      (case route_rules env bs eng st inp t rn (Suc i + length us) vs w of (x, vs', w') \<Rightarrow> (x, us' @ vs', w'))"
    using Cons.IH [of "Suc i"] Cons.prems by auto
  ultimately show ?case
    by (intro exI [of _ "u' # us'"]) (auto simp: same_rules_def split: prod.split)
qed

lemma route_rules_none:
  assumes "\<forall>r \<in> set rls. wf_rule eng r \<and> \<not> rule_matches eng t r"
  shows "\<exists>rls'. route_rules env bs eng st inp t rn i rls w = (Ret (route_error (ErrCode ErrNoRuleMatched)), rls', w)"
  using route_rules_skip [OF assms, of env bs st inp rn i "[]" w] by auto

text \<open>The rule that decides, unless its handler passes the request on.\<close>

lemma route_rules_first:
  assumes "\<forall>r \<in> set us. wf_rule eng r \<and> \<not> rule_matches eng t r" and "wf_rule eng r" and "rule_matches eng t r"
    and "apply_rule env bs st inp t rn (i + length us) (RSelector r) (Catch r) w = (Ret (Some x), w')"
  shows "\<exists>rls'. route_rules env bs eng st inp t rn i (us @ r # vs) w = (Ret x, rls', w')"
proof -
  obtain r' where "MatchRule eng t r = (Ret True, r')" using MatchRule_spec [OF assms(2), of t] assms(3) by auto
  then have "route_rules env bs eng st inp t rn (i + length us) (r # vs) w = (Ret x, r' # vs, w')"
    using assms(4) by simp
  then show ?thesis
    using route_rules_skip [OF assms(1), of env bs st inp rn i "r # vs" w] by auto
qed

section \<open>The text of a target\<close>

lemma parseTarget_port:
  assumes "CHR '':'' \<notin> set n"
  shows "parseTarget (n @ '':'' @ show_nat (unat (p :: u32))) = (n, p, None)"
proof -
  have "CHR '':'' \<notin> set (show_nat (unat p))" by simp
  moreover have "unat p < 2 ^ 32" using unsigned_less [of p] by simp
  ultimately show ?thesis using assms by (simp add: parseTarget_def ParseUint_show_nat)
qed

lemma parseTarget_default: "CHR '':'' \<notin> set n \<Longrightarrow> parseTarget n = (n, 9090, None)"
  by (simp add: parseTarget_def)

section \<open>Tables\<close>

text \<open>A router or a selector is loaded once; then the store is not asked again.\<close>

lemma GetRouter_cached:
  assumes "\<not> routerMu w" and "GetRouter st n w = (Ret (Some m, None), w')"
  shows "m = n" and "\<not> routerMu w'" and "wRouters w' n \<noteq> None" and "GetRouter st' n w' = (Ret (Some n, None), w')"
proof -
  have r: "m = n \<and> \<not> routerMu w' \<and> wRouters w' n \<noteq> None"
    using assms by (cases w)
      (auto simp: GetRouter_def with_mu_def MustStore_def split: option.splits sum.splits)
  then show "m = n" "\<not> routerMu w'" "wRouters w' n \<noteq> None" by simp_all
  from r show "GetRouter st' n w' = (Ret (Some n, None), w')"
    by (cases w') (auto simp: GetRouter_def with_mu_def)
qed

lemma GetSelector_eq:
  assumes "\<not> selectorMu w" and "wSelectors w = Some m"
  shows "GetSelector st n w =
    (Ret (if m n = None then (None, Some (ErrCode ErrSelectorNotFound)) else (Some n, None)), w)"
  using assms by (cases w) (auto simp: GetSelector_def with_mu_def load_selectors_def selector_at_def split: option.split)

section \<open>What a failed selection becomes\<close>

text \<open>The category of a coded error.\<close>

lemma handler_for_code:
  "handler_for catch (ErrCode e) =
     (if Code e = 1006 \<or> Code e = 1009 then map_of catch RuleErrorNoEndpoint
      else if Code e = 1007 then map_of catch RuleErrorEndpointUnavailable
      else if Code e = 1024 then map_of catch RuleErrorEndpointRPSLimit
      else map_of catch RuleErrorDefault)"
proof -
  have "wf_ewc ErrNoEndpointAvailable" "wf_ewc ErrNoCustomRoute" "wf_ewc ErrEndpointUnavailable" "wf_ewc ErrEndpointRPSLimit"
    by (simp_all add: errcodes int64_range_def)
  then show ?thesis by (simp add: handler_for_def errors_Is_ErrCode errcodes del: errors_Is.simps)
qed

text \<open>The retries stop at the first success; when all fail the last failure is what is left.\<close>

fun tries :: "(nat \<Rightarrow> (('m, 're) world, go_error, selectResult) go) \<Rightarrow> nat \<Rightarrow> nat \<Rightarrow> ('m, 're) world \<Rightarrow> selectResult list" where
  "tries sel 0 i w = []"
| "tries sel (Suc n) i w =
     (case sel i w of
        (Ret r, w') \<Rightarrow> r # (if snd (snd r) = None then [] else tries sel n (Suc i) w')
      | _ \<Rightarrow> [])"

lemma tries_bound: "length (tries sel n i w) \<le> n"
  by (induction n arbitrary: i w) (auto split: prod.splits outcome.splits)

lemma retry_loop_tries:
  "retry_loop sel n i res w = (Ret res', w') \<Longrightarrow> res' = last (res # tries sel n i w)"
proof (induction n arbitrary: i res w)
  case (Suc n)
  then obtain r w1 where r: "sel i w = (Ret r, w1)" by (auto simp: go_bind_eq_Ret)
  show ?case
  proof (cases "snd (snd r) = None")
    case False
    then have "retry_loop sel n (Suc i) r w1 = (Ret res', w')" using Suc.prems r by (simp del: not_None_eq)
    then have "res' = last (r # tries sel n (Suc i) w1)" by (rule Suc.IH)
    then show ?thesis using r False by (simp del: not_None_eq)
  qed (use Suc.prems r in simp)
qed simp

text \<open>A blocked request whose endpoint is nil is never let through; it ends with an error or waits.\<close>

lemma block_wait_nil: "block_wait ctx n None evs w = (Ret r, w') \<Longrightarrow> r \<noteq> None"
proof (induction evs arbitrary: w)
  case (Cons ev evs)
  then show ?case
  proof (cases ev)
    case (BService q)
    then obtain w1 where "block_wait ctx n None evs w1 = (Ret r, w')"
      using Cons.prems by (auto simp: Let_def split: option.splits if_splits)
    then show ?thesis by (rule Cons.IH)
  qed (auto split: if_splits)
qed simp

text \<open>One that is let through has an endpoint the service knows at that moment.\<close>

lemma block_wait_known:
  "block_wait ctx n (Some e) evs w = (Ret None, w') \<Longrightarrow>
     \<exists>s. service_at n (wTable w') = Some s \<and> e \<in> endpointsSet s"
proof (induction ctx n "Some e" evs w rule: block_wait.induct)
  case (4 ctx n q evs w)
  then obtain s where s: "service_at n (wTable w) = Some s" by (auto split: option.splits)
  let ?s = "svc_apply q s"
  let ?t = "put_service n (update ?s) (put_service n ?s (wTable w))"
  have at: "service_at n (put_service n (update ?s) (wTable w)) = Some (update ?s)" using s by simp
  show ?case
  proof (cases "UpdateNTF ?s \<noteq> UpdateNTF s \<and> e \<in> endpointsSet ?s")
    case True
    then show ?thesis using "4.prems" s at by (auto simp: Let_def EndpointsSet_def)
  next
    case False
    then show ?thesis using "4.prems" "4.hyps" s by (auto simp: Let_def EndpointsSet_def split: if_splits)
  qed
qed (auto split: if_splits)

text \<open>The wait ends when the time limit is among the events, whatever else arrives.\<close>

lemma block_wait_ends:
  "BTimeout \<in> set evs \<Longrightarrow> service_at n (wTable w) \<noteq> None \<Longrightarrow> \<exists>r w'. block_wait ctx n e evs w = (Ret r, w')"
proof (induction ctx n e evs w rule: block_wait.induct)
  case (4 ctx n e q evs w)
  then obtain s where s: "service_at n (wTable w) = Some s" by auto
  then have at: "service_at n (put_service n s' (wTable w)) \<noteq> None" for s' by simp
  then show ?case using 4 s by (auto simp: Let_def EndpointsSet_def split: option.split)
qed auto

section \<open>One rule\<close>

text \<open>The world after a selection by the selector \<open>sn\<close>.\<close>

definition after_select :: "string \<Rightarrow> 'm receiver \<Rightarrow> ('m, 're) world \<Rightarrow> ('m, 're) world" where
  "after_select sn r w =
     w\<lparr>wSelectors := map_option (\<lambda>m. m(sn \<mapsto> rs r)) (wSelectors w), wTable := rtab r\<rparr>"

definition selects :: "'m env \<Rightarrow> 'm builders \<Rightarrow> 're storeOps option \<Rightarrow> routeInput \<Rightarrow> matchTarget \<Rightarrow> nat \<Rightarrow> string \<Rightarrow>
    ('m, 're) world \<Rightarrow> selectResult \<Rightarrow> 'm receiver \<Rightarrow> bool" where
  "selects env bs st inp t i sn w res r \<longleftrightarrow>
     \<not> selectorMu w
     \<and> (\<exists>c. selector_at sn w = Some c
          \<and> Selector_Select env bs st (ri_sel inp i 0) t \<lparr>rs = c, rtab = wTable w\<rparr> = (Ret res, r))"

lemma selector_at_table: "selector_at sn w = Some c \<Longrightarrow> \<exists>m. wSelectors w = Some m \<and> m sn = Some c"
  by (auto simp: selector_at_def split: option.splits)

lemma apply_rule_selects:
  assumes "selects env bs st inp t i sn w (e, h, err) r"
  defines "w1 \<equiv> after_select sn r w"
  shows "apply_rule env bs st inp t rn i sn catch w =
    (case err of
       None \<Rightarrow> (out_bind (finish_route rn (raw (rs r)) e h) (\<lambda>x. Ret (Some x)), w1)
     | Some er \<Rightarrow>
         (case handler_for catch er of
            None \<Rightarrow> (Ret (Some (route_error er)), w1)
          | Some eh \<Rightarrow>
              go_bind (handle_error st inp i t sn (raw (rs r))
                  (\<lambda>k w. select_by env bs st t (Some sn) (ri_sel inp i (Suc k)) (w\<lparr>wTable := ri_wait inp i k (wTable w)\<rparr>))
                  eh er (e, h, err))
                (\<lambda>eh w. case eh of
                   NextRule \<Rightarrow> (Ret None, w)
                 | ReturnNow x \<Rightarrow> (Ret (Some x), w)
                 | Proceed (e, h, _) \<Rightarrow> (out_bind (finish_route rn (raw (rs r)) e h) (\<lambda>x. Ret (Some x)), w)) w1))"
proof -
  obtain c m where c: "\<not> selectorMu w" "selector_at sn w = Some c" "wSelectors w = Some m" "m sn = Some c"
    "Selector_Select env bs st (ri_sel inp i 0) t \<lparr>rs = c, rtab = wTable w\<rparr> = (Ret (e, h, err), r)"
    using assms(1) selector_at_table by (fastforce simp: selects_def)
  have g: "GetSelector st sn w = (Ret (Some sn, None), w)" using GetSelector_eq [OF c(1,3)] c(4) by simp
  have s: "select_by env bs st t (Some sn) (ri_sel inp i 0) w = (Ret (e, h, err), w1)"
    using c by (simp add: select_by_def on_selector_def w1_def after_select_def)
  have "selector_at sn w1 = Some (rs r)" using c(3) by (simp add: w1_def after_select_def selector_at_def)
  then show ?thesis by (simp add: apply_rule_def g s Let_def split: option.split)
qed

text \<open>A rule whose selector is missing from the table: the nil pointer is used all the same.\<close>

lemma apply_rule_missing:
  assumes "\<not> selectorMu w" and "wSelectors w = Some m" and "m sn = None"
  shows "fst (apply_rule env bs st inp t rn i sn catch w) = Panicked NilDeref"
  using GetSelector_eq [OF assms(1,2), of st sn] assms(3)
  by (simp add: apply_rule_def select_by_def on_selector_def)

lemma apply_rule_success:
  assumes "selects env bs st inp t i sn w (e, h, None) r"
  shows "\<exists>x eh s a n. e = Some x
    \<and> apply_rule env bs st inp t rn i sn catch w =
        (Ret (Some (Service (raw (rs r)), Some x, if Port x \<noteq> 0 then Port x else SPort (raw (rs r)),
           Some ((merge_headers (baseHeaders (raw (rs r))) eh)
                   (''yapr-router'' \<mapsto> rn, ''yapr-endpoint'' \<mapsto> endpoint_String x)), None)),
         after_select sn r w)
    \<and> service_at n (rtab r) = Some s \<and> GetAttribute x (Name (raw (rs r))) s = Some a \<and> Available a
    \<and> below_limit (raw (rs r)) a"
proof -
  obtain c where "Selector_Select env bs st (ri_sel inp i 0) t \<lparr>rs = c, rtab = wTable w\<rparr> = (Ret (e, h, None), r)"
    using assms by (auto simp: selects_def)
  then obtain x n s a eh where x: "e = Some x" "service_at n (rtab r) = Some s"
    "GetAttribute x (Name (raw (rs r))) s = Some a" "Available a" "below_limit (raw (rs r)) a"
    "h = Some (merge_headers (baseHeaders (raw (rs r))) eh)"
    using Selector_Select_checked by blast
  then show ?thesis
    by (intro exI [of _ x] exI [of _ eh] exI [of _ s] exI [of _ a] exI [of _ n])
      (simp add: apply_rule_selects [OF assms] finish_route_def Let_def)
qed

text \<open>The solutions that do not select again.\<close>

lemma solutions_distinct [simp]:
  "SolutionThrow \<noteq> SolutionPass" "SolutionPanic \<noteq> SolutionPass" "SolutionPanic \<noteq> SolutionThrow"
  "SolutionRetry \<noteq> SolutionPass" "SolutionRetry \<noteq> SolutionThrow" "SolutionRetry \<noteq> SolutionPanic"
  "SolutionBlock \<noteq> SolutionPass" "SolutionBlock \<noteq> SolutionThrow" "SolutionBlock \<noteq> SolutionPanic"
  "SolutionBlock \<noteq> SolutionRetry"
  by (simp_all add: rule_consts)

lemma apply_rule_failed:
  assumes "selects env bs st inp t i sn w (e, h, Some er) r"
  defines "w1 \<equiv> after_select sn r w"
  shows "handler_for catch er = None \<Longrightarrow>
      apply_rule env bs st inp t rn i sn catch w = (Ret (Some (route_error er)), w1)"
    and "handler_for catch er = Some eh \<Longrightarrow> Solution eh = SolutionPass \<Longrightarrow>
      apply_rule env bs st inp t rn i sn catch w = (Ret None, w1)"
    and "handler_for catch er = Some eh \<Longrightarrow> Solution eh = SolutionThrow \<Longrightarrow>
      apply_rule env bs st inp t rn i sn catch w = (Ret (Some (route_error (handler_error eh er))), w1)"
    and "handler_for catch er = Some eh \<Longrightarrow> Solution eh = SolutionPanic \<Longrightarrow>
      apply_rule env bs st inp t rn i sn catch w = (Panicked (PanicVal (handler_error eh er)), w1)"
    and "handler_for catch er = Some eh \<Longrightarrow>
      Solution eh \<notin> {SolutionPass, SolutionThrow, SolutionPanic, SolutionRetry, SolutionBlock} \<Longrightarrow>
      apply_rule env bs st inp t rn i sn catch w =
        (out_bind (finish_route rn (raw (rs r)) e h) (\<lambda>x. Ret (Some x)), w1)"
  unfolding w1_def by (simp_all add: apply_rule_selects [OF assms(1)] handle_error_def)

text \<open>
  Retrying: what the last try returned goes to the end of the loop body, where its error is no
  longer looked at.
\<close>

lemma apply_rule_retry:
  assumes "selects env bs st inp t i sn w (e, h, Some er) r"
    and "handler_for catch er = Some eh" and "Solution eh = SolutionRetry"
  defines "sel \<equiv> \<lambda>k w. select_by env bs st t (Some sn) (ri_sel inp i (Suc k))
                     (w\<lparr>wTable := ri_wait inp i k (wTable w)\<rparr>)"
    and "n \<equiv> case Times eh of Some n \<Rightarrow> unat n | None \<Rightarrow> 3"
  assumes "retry_loop sel n 0 (e, h, Some er) (after_select sn r w) = (Ret (e', h', er'), w')"
  shows "apply_rule env bs st inp t rn i sn catch w =
    (out_bind (finish_route rn (raw (rs r)) e' h') (\<lambda>x. Ret (Some x)), w')"
  using assms(6) unfolding sel_def n_def
  by (simp add: apply_rule_selects [OF assms(1)] handle_error_def assms(2,3))

section \<open>Route\<close>

lemma Route_rules:
  assumes "wRouters w rn = Some rt"
    and "route_rules env bs eng st inp t (RouterName rt) 0 (Rules rt) w = (x, rls, w')"
  shows "fst (Route env bs eng st inp t rn w) = x"
  using assms by (simp add: Route_def)

lemma Route_first:
  assumes "wRouters w rn = Some rt" and "Rules rt = us @ r # vs"
    and "\<forall>u \<in> set us. wf_rule eng u \<and> \<not> rule_matches eng t u" and "wf_rule eng r" and "rule_matches eng t r"
    and "apply_rule env bs st inp t (RouterName rt) (length us) (RSelector r) (Catch r) w = (Ret (Some x), w')"
  shows "fst (Route env bs eng st inp t rn w) = Ret x"
  using route_rules_first [OF assms(3-5), of env bs st inp "RouterName rt" 0 w x w' vs] assms(1,2,6)
  by (auto simp: Route_def)

lemma Route_none:
  assumes "wRouters w rn = Some rt" and "\<forall>r \<in> set (Rules rt). wf_rule eng r \<and> \<not> rule_matches eng t r"
  shows "fst (Route env bs eng st inp t rn w) = Ret (route_error (ErrCode ErrNoRuleMatched))"
  using route_rules_none [OF assms(2), of env bs st inp "RouterName rt" 0 w] assms(1)
  by (auto simp: Route_def)

text \<open>A rule that passes hands the request to the rules after it.\<close>

lemma route_rules_pass:
  assumes "wf_rule eng r" and "rule_matches eng t r"
    and "apply_rule env bs st inp t rn i (RSelector r) (Catch r) w = (Ret None, w')"
  shows "fst (route_rules env bs eng st inp t rn i (r # vs) w) =
    fst (route_rules env bs eng st inp t rn (Suc i) vs w')"
  using MatchRule_spec [OF assms(1), of t] assms(2,3) by (auto split: prod.split)

end
