(* ===== verification/HashPoints.thy ===== *)
theory HashPoints
  imports HashRing
begin

text \<open>
  The checksum as a linear map: a step is injective and compatible with exclusive or, so that two
  texts of the same length that agree up to their last two characters can be told apart by one
  evaluation. Two endpoints that differ in the last digit of the port have no point in common.
\<close>

unbundle bit_operations_syntax

lemma odd_bit: "c AND 1 = 1 \<longleftrightarrow> bit (c :: u32) 0"
  by (simp add: and_one_eq bit_0 odd_iff_mod_2_eq_one)

lemma crc_shift_xor: "crc_shift (a XOR b) = crc_shift a XOR crc_shift b"
  by (cases "bit a 0"; cases "bit b 0")
    (simp_all add: crc_shift_def odd_bit bit_xor_iff drop_bit_xor xor.assoc xor.left_commute xor.commute)

lemma crc_shifts_xor: "(crc_shift ^^ n) (a XOR b) = (crc_shift ^^ n) a XOR (crc_shift ^^ n) b"
  by (induction n) (simp_all add: crc_shift_xor)

lemma crc_shift_zero: "crc_shift c = 0 \<Longrightarrow> c = 0"
proof (rule bit_eqI)
  fix n
  assume c: "crc_shift c = 0"
  have poly: "bit (0xEDB88320 :: u32) 31" by (simp add: bit_numeral_rec)
  have even: "\<not> bit c 0"
  proof
    assume "bit c 0"
    then have "bit (drop_bit 1 c XOR 0xEDB88320) 31 = bit (0 :: u32) 31"
      using c by (simp add: crc_shift_def odd_bit)
    moreover have "\<not> bit (drop_bit 1 c) 31" by (auto simp: bit_drop_bit_eq dest: bit_imp_le_length)
    ultimately show False using poly by (simp add: bit_xor_iff)
  qed
  then have "bit (drop_bit 1 c) (n - 1) = bit (0 :: u32) (n - 1)" using c by (simp add: crc_shift_def odd_bit)
  then show "bit c n \<longleftrightarrow> bit (0 :: u32) n"
    using even by (cases n) (simp_all add: bit_drop_bit_eq)
qed

lemma crc_shifts_zero: "(crc_shift ^^ n) c = 0 \<Longrightarrow> c = 0"
  by (induction n) (auto dest: crc_shift_zero)

lemma xor_swap: "p XOR x = q XOR y \<Longrightarrow> p XOR q = x XOR (y :: u32)"
  by (auto simp: bit_eq_iff bit_xor_iff)

lemma xor_common: "(c XOR a) XOR (c XOR b) = a XOR (b :: u32)"
  by (auto simp: bit_eq_iff bit_xor_iff)

lemma crc_shifts_eq: "(crc_shift ^^ n) a = (crc_shift ^^ n) b \<Longrightarrow> a = b"
  using crc_shifts_zero [of n "a XOR b"] xor_swap [of a b 0 0] by (simp add: crc_shifts_xor)

text \<open>A difference of two characters before the last one shows in the checksum.\<close>

lemma crc_byte_difference:
  assumes "crc_byte (crc_byte c a) x = crc_byte (crc_byte c b) y"
  shows "(crc_shift ^^ 8) (word_of_nat (of_char a) XOR word_of_nat (of_char b)) = word_of_nat (of_char x) XOR word_of_nat (of_char y)"
proof -
  have "crc_byte c a XOR word_of_nat (of_char x) = crc_byte c b XOR word_of_nat (of_char y)"
    using assms crc_shifts_eq unfolding crc_byte_def by blast
  from xor_swap [OF this] show ?thesis
    unfolding crc_byte_def crc_shifts_xor [symmetric] xor_common .
qed

lemma low_bits: "n < 256 \<Longrightarrow> \<not> bit (word_of_nat n :: u32) 8"
  by (simp add: bit_iff_odd div_word_less word_less_nat_alt unat_of_nat)

lemma eight_times: "(f ^^ 8) x = f (f (f (f (f (f (f (f x)))))))"
  by (simp add: eval_nat_numeral)

lemma crc_shift_3: "bit ((crc_shift ^^ 8) 3 :: u32) 8"
  by (simp add: eight_times crc_shift_def bit_numeral_rec)

lemma different_digit:
  assumes "x < 8" and "y < 8"
  shows "ChecksumIEEE (p @ ''1'' @ show_nat x) \<noteq> ChecksumIEEE (p @ ''2'' @ show_nat y)"
proof
  have one: "show_nat n = [digit_char n]" if "n < 8" for n using that by (simp add: show_nat.simps)
  assume "ChecksumIEEE (p @ ''1'' @ show_nat x) = ChecksumIEEE (p @ ''2'' @ show_nat y)"
  then obtain a b where "crc_byte (crc_byte c (CHR ''1'')) a = crc_byte (crc_byte c (CHR ''2'')) b" if "c = foldl crc_byte (NOT 0) p" for c
    by (auto simp: ChecksumIEEE_def one assms)
  then have "(crc_shift ^^ 8) 3 = (word_of_nat (of_char a) XOR word_of_nat (of_char b) :: u32)"
    using crc_byte_difference [of "foldl crc_byte (NOT 0) p" "CHR ''1''" a "CHR ''2''" b] by simp
  then show False using crc_shift_3 by (simp add: bit_xor_iff low_bits)
qed

end
