(* ===== verification/Fixtures.thy ===== *)
theory Fixtures
  imports Router HashPoints
begin

text \<open>
  Concrete values for closed runs of the definitions: two endpoints of two pods, their service, a
  selector and a router in front of it, a client's tables, a store that knows one custom route, and
  a regular expression engine that compares texts.
\<close>

definition ex_e1 :: endpoint where
  "ex_e1 = \<lparr>IP = ''10.0.0.1'', Pod = ''svr-1'', Port = 23333\<rparr>"

definition ex_e2 :: endpoint where
  "ex_e2 = \<lparr>IP = ''10.0.0.2'', Pod = ''svr-2'', Port = 23334\<rparr>"

text \<open>Two endpoints of one host whose ports differ in the last digit.\<close>

definition ex_p1 :: endpoint where
  "ex_p1 = \<lparr>IP = ''10.0.0.1'', Pod = ''svr-1'', Port = 23331\<rparr>"

definition ex_p2 :: endpoint where
  "ex_p2 = \<lparr>IP = ''10.0.0.1'', Pod = ''svr-1'', Port = 23332\<rparr>"

definition ex_attr :: "u32 \<Rightarrow> attribute" where
  "ex_attr w = \<lparr>Available = True, InSel = Some \<lparr>Weight = Some w, RPS = Some w, Deadline = None\<rparr>\<rparr>"

definition ex_map :: "endpoint \<rightharpoonup> attribute" where
  "ex_map = [ex_e1 \<mapsto> ex_attr 1, ex_e2 \<mapsto> ex_attr 2]"

definition ex_ring :: "endpoint \<rightharpoonup> attribute" where
  "ex_ring = [ex_p1 \<mapsto> ex_attr 1, ex_p2 \<mapsto> ex_attr 1]"

definition ex_selector :: "string \<Rightarrow> selector" where
  "ex_selector strategy =
     \<lparr>Name = ''echo'', Service = ''echosvr'', SPort = 9090, SHeaders = [], Strategy = strategy,
      MaxRequests = None, Key = ''x-uid'', CacheType = ''lru'', CacheSize = Some 2, Script = []\<rparr>"

definition ex_service :: service where
  "ex_service = RegisterPod ''svr-1'' [ex_e1] (NewService ''echosvr'')"

definition ex_lua :: luaEngine where
  "ex_lua = \<lparr>lua_DoFile = (\<lambda>_. None), lua_Call = (\<lambda>_ _ _. Inr 0)\<rparr>"

definition ex_env :: "entry_list env" where
  "ex_env = \<lparr>env_treemap = entry_treemap, env_lua = ex_lua\<rparr>"

definition ex_engine :: "string regexEngine" where
  "ex_engine = \<lparr>re_compile = Some, re_match = (=)\<rparr>"

definition ex_matcher :: "string \<Rightarrow> string matcher" where
  "ex_matcher uri = \<lparr>MURI = uri, MPort = 0, MHeaders = None, regexURI = None, regexHeaders = None\<rparr>"

definition ex_rule :: "string \<Rightarrow> (string \<times> errorHandler) list \<Rightarrow> string rule" where
  "ex_rule uri catch = \<lparr>Matchers = [ex_matcher uri], RSelector = ''echo'', Catch = catch\<rparr>"

definition ex_router :: "string router" where
  "ex_router = \<lparr>RouterName = ''front'', Rules = [ex_rule ''/Other'' [], ex_rule ''/Echo'' []], Direct = []\<rparr>"

definition ex_target :: matchTarget where
  "ex_target = \<lparr>URI = ''/Echo'', TPort = 9090, Headers = [''x-uid'' \<mapsto> ''7''], Timeout = False\<rparr>"

definition ex_store :: "endpoint \<Rightarrow> string storeOps" where
  "ex_store e =
     \<lparr>st_GetRouter = (\<lambda>_. Inr ex_router), st_GetSelectors = Inr [''echo'' \<mapsto> ex_selector ''random''],
      st_GetServices = Inr [''echosvr'' \<mapsto> ex_service], st_GetCustomRoute = (\<lambda>_ _. (Some e, None))\<rparr>"

definition ex_core :: "string \<Rightarrow> entry_list coreSelector" where
  "ex_core strategy = (NewCoreSelector (ex_selector strategy))\<lparr>svc := Some ''echosvr''\<rparr>"

text \<open>A selector that has its strategy and is not due for an update.\<close>

definition ex_warm :: "entry_list strategy \<Rightarrow> entry_list coreSelector" where
  "ex_warm x = (ex_core StrategyRandom)\<lparr>strat := Some x, lastVersion := 1, lastUpdate := Some 0\<rparr>"

definition ex_table :: serviceTable where
  "ex_table = \<lparr>services = Some [''echosvr'' \<mapsto> ex_service], serviceMu = False\<rparr>"

definition ex_world :: "entry_list coreSelector \<Rightarrow> (entry_list, string) world" where
  "ex_world c =
     \<lparr>wRouters = [''front'' \<mapsto> ex_router], routerMu = False,
      wSelectors = Some [''echo'' \<mapsto> c], selectorMu = False, wTable = ex_table\<rparr>"

definition ex_receiver :: "entry_list coreSelector \<Rightarrow> entry_list receiver" where
  "ex_receiver c = \<lparr>rs = c, rtab = ex_table\<rparr>"

definition ex_input :: selInput where
  "ex_input = \<lparr>now1 = 0, now2 = 0, in_ord = [ex_e1], in_draws = \<lparr>draw1 = 0, draw2 = 0\<rparr>\<rparr>"

definition ex_routeInput :: routeInput where
  "ex_routeInput = \<lparr>ri_sel = (\<lambda>_ _. ex_input), ri_wait = (\<lambda>_ _ t. t), ri_block = []\<rparr>"

lemmas ex_values =
  ex_e1_def ex_e2_def ex_attr_def ex_map_def ex_selector_def ex_service_def ex_lua_def ex_env_def
  ex_engine_def ex_matcher_def ex_rule_def ex_router_def ex_target_def ex_store_def ex_core_def ex_warm_def
  ex_table_def ex_world_def ex_receiver_def ex_input_def ex_routeInput_def

lemma ex_service_eq:
  "ex_service =
     \<lparr>svName = ''echosvr'', svEndpoints = [ex_e1], endpointsSet = {ex_e1}, endpointsByPod = [''svr-1'' \<mapsto> [ex_e1]],
      attrMap = [ex_e1 \<mapsto> NewAttributes], dirty = False, version = 1, UpdateNTF = 1\<rparr>"
  by (simp add: ex_service_def RegisterPod_def NewService_def setDirty_def update_def)

lemma ex_endpoints_differ [simp]: "ex_e1 \<noteq> ex_e2" "ex_e2 \<noteq> ex_e1"
  by (simp_all add: ex_e1_def ex_e2_def)

text \<open>A call on a warm selector is one call of its strategy and the check of the endpoint.\<close>

lemma Selector_Select_warm:
  assumes "svc (rs r) = Some n" and "strat (rs r) \<noteq> None" and "\<not> since_update inp r"
  shows "Selector_Select env bs st inp t r = pick_endpoint env st inp t n r"
  using assms by (auto simp: Selector_Select_def MustService_known init_strategy_def refresh_strategy_def)

lemma ex_warm_select:
  assumes "Strategy_Select ex_env (routes st) t (in_draws ex_input) x = (Ret (Some ex_e1, h, None), x')"
  shows "\<exists>h' r'. Selector_Select ex_env bs st ex_input t (ex_receiver (ex_warm x)) = (Ret (Some ex_e1, h', None), r')
    \<and> rs r' = ex_warm x' \<and> rtab r' = ex_table"
proof -
  have "Selector_Select ex_env bs st ex_input t (ex_receiver (ex_warm x)) =
      pick_endpoint ex_env st ex_input t ''echosvr'' (ex_receiver (ex_warm x))"
    by (rule Selector_Select_warm)
      (simp_all add: ex_receiver_def ex_warm_def ex_core_def NewCoreSelector_def since_update_def ex_input_def)
  then show ?thesis using assms
    by (simp add: pick_endpoint_def ex_receiver_def ex_warm_def ex_core_def NewCoreSelector_def ex_table_def service_at_def
        ex_service_eq GetAttribute_def NewAttributes_def check_attribute_def ex_selector_def set_rs_def)
qed

lemma ex_warm_selects:
  assumes "Strategy_Select ex_env (routes st) t (in_draws ex_input) x = (Ret (Some ex_e1, h, None), x')"
  shows "\<exists>h' r'. selects ex_env bs st ex_routeInput t i ''echo'' (ex_world (ex_warm x)) (Some ex_e1, h', None) r'"
  using ex_warm_select [OF assms, of bs]
  by (auto simp: selects_def ex_world_def selector_at_def ex_routeInput_def ex_receiver_def)

lemma ex_random: "Strategy_Select ex_env st t (in_draws ex_input) (SRandom \<lparr>rnd_endpoints = [ex_e1]\<rparr>) =
    (Ret (Some ex_e1, None, None), SRandom \<lparr>rnd_endpoints = [ex_e1]\<rparr>)"
  by (simp add: Random_Select_def read_only_def Intn_def)

lemma ex_warm_fail:
  assumes "Strategy_Select ex_env (routes st) t (in_draws ex_input) x = (Ret (e, h, Some er), x')"
  shows "\<exists>h' r'. Selector_Select ex_env bs st ex_input t (ex_receiver (ex_warm x)) = (Ret (e, Some h', Some er), r')
    \<and> rs r' = ex_warm x' \<and> rtab r' = ex_table"
proof -
  have "Selector_Select ex_env bs st ex_input t (ex_receiver (ex_warm x)) =
      pick_endpoint ex_env st ex_input t ''echosvr'' (ex_receiver (ex_warm x))"
    by (rule Selector_Select_warm)
      (simp_all add: ex_receiver_def ex_warm_def ex_core_def NewCoreSelector_def since_update_def ex_input_def)
  then show ?thesis using assms
    by (cases e) (simp_all add: pick_endpoint_def ex_receiver_def ex_warm_def ex_core_def NewCoreSelector_def ex_table_def
        set_rs_def)
qed

lemma ex_warm_fails:
  assumes "Strategy_Select ex_env (routes st) t (in_draws ex_input) x = (Ret (e, h, Some er), x)"
  shows "\<exists>h' r'. selects ex_env bs st ex_routeInput t i ''echo'' (ex_world (ex_warm x)) (e, Some h', Some er) r'
    \<and> rs r' = ex_warm x \<and> after_select ''echo'' r' (ex_world (ex_warm x)) = ex_world (ex_warm x)"
  using ex_warm_fail [OF assms, of bs]
  by (auto simp: selects_def ex_world_def selector_at_def ex_routeInput_def ex_receiver_def after_select_def)

text \<open>A direct strategy whose custom route leads to an endpoint that is gone.\<close>

definition ex_direct :: "entry_list strategy" where
  "ex_direct = SDirect \<lparr>ds_headerKey = ''x-uid'', ds_cache = CacheDefault \<lparr>dc_selectorName = ''echo''\<rparr>,
     ds_endpoints = [(ex_e2, ex_attr 1)]\<rparr>"

lemma ex_direct_stale: "Strategy_Select ex_env (routes (Some (ex_store ex_e1))) ex_target (in_draws ex_input) ex_direct =
    (Ret (Some ex_e1, Some (header_of ''7''), Some (ErrCode ErrEndpointUnavailable)), ex_direct)"
  by (simp add: ex_direct_def Direct_Select_def ex_target_def DefaultCache_Get_def ex_store_def)

lemma ex_env_ok [simp]: "treemap_ok (env_treemap ex_env)"
  by (simp add: ex_env_def entry_treemap_ok)

text \<open>A router whose only rule hands the error of an unavailable endpoint to a handler.\<close>

definition ex_handler :: "string \<Rightarrow> errorHandler" where
  "ex_handler solution =
     \<lparr>Solution = solution, Times = Some 2, Interval = None, HTimeout = None, Message = Some ''gone'', HCode = Some 503\<rparr>"

lemma ex_handler_sel [simp]: "Solution (ex_handler sol) = sol" "Times (ex_handler sol) = Some 2"
  "Message (ex_handler sol) = Some ''gone''" "HCode (ex_handler sol) = Some 503"
  by (simp_all add: ex_handler_def)

definition ex_catching :: "string \<Rightarrow> string rule" where
  "ex_catching solution = ex_rule ''/Echo'' [(RuleErrorEndpointUnavailable, ex_handler solution)]"

definition ex_caught :: "string \<Rightarrow> entry_list strategy \<Rightarrow> (entry_list, string) world" where
  "ex_caught solution x = (ex_world (ex_warm x))\<lparr>wRouters := [''front'' \<mapsto> ex_router\<lparr>Rules := [ex_catching solution]\<rparr>]\<rparr>"

lemma ex_caught_selects: "selects env bs st inp t i sn (ex_caught sol x) = selects env bs st inp t i sn (ex_world (ex_warm x))"
  by (simp add: selects_def selector_at_def ex_caught_def fun_eq_iff)

lemma ex_caught_after:
  "rs r' = ex_warm x \<Longrightarrow> rtab r' = ex_table \<Longrightarrow> after_select ''echo'' r' (ex_caught sol x) = ex_caught sol x"
  by (simp add: after_select_def ex_caught_def ex_world_def)

text \<open>Selecting by that router's selector fails every time, and leaves the client as it was.\<close>

lemma ex_caught_fails:
  "\<exists>h r'. selects ex_env bs (Some (ex_store ex_e1)) ex_routeInput ex_target i ''echo'' (ex_caught sol ex_direct)
      (Some ex_e1, Some h, Some (ErrCode ErrEndpointUnavailable)) r'
    \<and> rs r' = ex_warm ex_direct
    \<and> after_select ''echo'' r' (ex_caught sol ex_direct) = ex_caught sol ex_direct
    \<and> select_by ex_env bs (Some (ex_store ex_e1)) ex_target (Some ''echo'') ex_input (ex_caught sol ex_direct) =
        (Ret (Some ex_e1, Some h, Some (ErrCode ErrEndpointUnavailable)), ex_caught sol ex_direct)"
proof -
  obtain h r' where r': "Selector_Select ex_env bs (Some (ex_store ex_e1)) ex_input ex_target (ex_receiver (ex_warm ex_direct)) =
      (Ret (Some ex_e1, Some h, Some (ErrCode ErrEndpointUnavailable)), r')" "rs r' = ex_warm ex_direct" "rtab r' = ex_table"
    using ex_warm_fail [OF ex_direct_stale, of bs] by blast
  have "selector_at ''echo'' (ex_caught sol ex_direct) = Some (ex_warm ex_direct)" "wTable (ex_caught sol ex_direct) = ex_table"
    "\<not> selectorMu (ex_caught sol ex_direct)"
    by (simp_all add: ex_caught_def ex_world_def selector_at_def)
  then show ?thesis
    using r' ex_caught_after [OF r'(2,3), of sol]
    by (auto simp: selects_def select_by_def on_selector_def ex_routeInput_def ex_receiver_def after_select_def)
qed

lemma ex_caught_router: "wRouters (ex_caught sol x) ''front'' = Some (ex_router\<lparr>Rules := [ex_catching sol]\<rparr>)"
  by (simp add: ex_caught_def)

lemma ex_catching_sel [simp]: "RSelector (ex_catching sol) = ''echo''"
  "handler_for (Catch (ex_catching sol)) (ErrCode ErrEndpointUnavailable) = Some (ex_handler sol)"
  by (simp_all add: ex_catching_def ex_rule_def handler_for_code ErrEndpointUnavailable_def)

lemma ex_rule_wf [simp]: "wf_rule ex_engine (ex_rule u c)"
  by (simp add: wf_rule_def ex_rule_def ex_matcher_def wf_matcher_def ex_engine_def)

lemma ex_rule_matches [simp]: "rule_matches ex_engine ex_target (ex_rule u c) \<longleftrightarrow> u = ''/Echo''"
  by (auto simp: rule_matches_def ex_rule_def ex_matcher_def matcher_spec_def ex_engine_def ex_target_def)

lemma ex_catching_matches [simp]: "wf_rule ex_engine (ex_catching sol)" "rule_matches ex_engine ex_target (ex_catching sol)"
  by (simp_all add: ex_catching_def)

text \<open>The points of the two endpoints on the hash ring do not collide.\<close>

lemma ex_digits: "char_of (49 :: nat) = CHR ''1''" "char_of (50 :: nat) = CHR ''2''" "char_of (51 :: nat) = CHR ''3''"
  by code_simp+

lemma ex_ports_text: "endpoint_String ex_p1 = ''10.0.0.1#svr-1#2333'' @ ''1''"
  "endpoint_String ex_p2 = ''10.0.0.1#svr-1#2333'' @ ''2''"
  by (simp_all add: ex_p1_def ex_p2_def endpoint_String_def show_nat.simps digit_char_def ex_digits)

lemma ex_ports_differ [simp]: "ex_p1 \<noteq> ex_p2" "ex_p2 \<noteq> ex_p1"
  by (simp_all add: ex_p1_def ex_p2_def)

lemma ex_ring_differ: "i < 8 \<Longrightarrow> j < 8 \<Longrightarrow> point ex_p1 i \<noteq> point ex_p2 j"
  using different_digit [of i j "''10.0.0.1#svr-1#2333''"]
  by (simp add: point_def HashString_eq ex_ports_text Itoa_def word_eq_iff_unsigned [symmetric] del: append_Cons append_Nil)

lemma ex_ring_free: "collision_free ex_ring"
  by (auto simp: collision_free_def owns_def ex_ring_def ex_attr_def vnodes_def dest: ex_ring_differ ex_ring_differ [symmetric]
      split: if_splits)

lemma ex_ring_orders: "range_order [ex_p1, ex_p2] ex_ring" "range_order [ex_p2, ex_p1] ex_ring"
  "range_order [ex_p1] (ex_ring(ex_p2 := None))" "range_order [ex_p2] (ex_ring(ex_p1 := None))"
  by (auto simp: range_order_def ex_ring_def ex_p1_def ex_p2_def split: if_splits)

lemma ex_ring_present: "attrs_present ex_ring"
  by (simp add: attrs_present_def ex_ring_def ex_attr_def)

text \<open>The whole route of a client with that selector, from the world it leaves behind.\<close>

definition ex_picked :: "entry_list strategy" where
  "ex_picked = SRandom \<lparr>rnd_endpoints = [ex_e1]\<rparr>"

lemma ex_picked_selects:
  "\<exists>h c. selects ex_env builtin_builders (Some (ex_store ex_e1)) ex_routeInput ex_target i ''echo'' (ex_world (ex_warm ex_picked))
      (Some ex_e1, h, None) c \<and> rs c = ex_warm ex_picked \<and> rtab c = ex_table"
  using ex_warm_select [OF ex_random, of builtin_builders "Some (ex_store ex_e1)" ex_target]
  by (auto simp: selects_def ex_world_def selector_at_def ex_routeInput_def ex_receiver_def ex_picked_def)

lemma ex_route:
  "\<exists>hd w'. Route ex_env builtin_builders ex_engine (Some (ex_store ex_e1)) ex_routeInput ex_target ''front''
       (ex_world (ex_warm ex_picked)) = (Ret (''echosvr'', Some ex_e1, 23333, Some hd, None), w')
    \<and> \<not> selectorMu w' \<and> wSelectors w' = Some [''echo'' \<mapsto> ex_warm ex_picked]"
proof -
  let ?w = "ex_world (ex_warm ex_picked)"
  let ?r = "ex_rule ''/Echo'' []"
  obtain h c where c: "selects ex_env builtin_builders (Some (ex_store ex_e1)) ex_routeInput ex_target 1 ''echo'' ?w (Some ex_e1, h, None) c"
    "rs c = ex_warm ex_picked" "rtab c = ex_table"
    using ex_picked_selects by blast
  have svc: "Service (raw (rs c)) = ''echosvr''" "Port ex_e1 = 23333"
    by (simp_all add: c(2) ex_warm_def ex_core_def NewCoreSelector_def ex_selector_def ex_e1_def)
  obtain hd where a: "apply_rule ex_env builtin_builders (Some (ex_store ex_e1)) ex_routeInput ex_target ''front''
      (0 + length [ex_rule ''/Other'' []]) (RSelector ?r) (Catch ?r) ?w =
      (Ret (Some (''echosvr'', Some ex_e1, 23333, Some hd, None)), after_select ''echo'' c ?w)"
    using apply_rule_success [OF c(1), of "''front''" "[]"] svc by (auto simp: ex_rule_def)
  obtain rls where r: "route_rules ex_env builtin_builders ex_engine (Some (ex_store ex_e1)) ex_routeInput ex_target ''front'' 0
      ([ex_rule ''/Other'' []] @ ?r # []) ?w = (Ret (''echosvr'', Some ex_e1, 23333, Some hd, None), rls, after_select ''echo'' c ?w)"
    using route_rules_first [OF _ _ _ a, of ex_engine "[]"] by auto
  have "wRouters ?w ''front'' = Some ex_router" "Rules ex_router = [ex_rule ''/Other'' []] @ ?r # []" "RouterName ex_router = ''front''"
    by (simp_all add: ex_world_def ex_router_def)
  then have "Route ex_env builtin_builders ex_engine (Some (ex_store ex_e1)) ex_routeInput ex_target ''front'' ?w =
      (Ret (''echosvr'', Some ex_e1, 23333, Some hd, None),
        (after_select ''echo'' c ?w)\<lparr>wRouters := (wRouters (after_select ''echo'' c ?w))(''front'' \<mapsto> ex_router\<lparr>Rules := rls\<rparr>)\<rparr>)"
    using r by (simp add: Route_def)
  moreover have "\<not> selectorMu (after_select ''echo'' c ?w)" "wSelectors (after_select ''echo'' c ?w) = Some [''echo'' \<mapsto> ex_warm ex_picked]"
    by (simp_all add: after_select_def ex_world_def c(2))
  ultimately show ?thesis by (intro exI conjI) (assumption, simp_all)
qed

end
