(* ===== verification/SelectorRuns.thy ===== *)
theory SelectorRuns
  imports CoreSelector
begin

text \<open>
  Runs of a selector: events of its service and selections, in any order. An event is one the store
  can deliver; a selection is one that is due for an update, on a service that has been filled and
  whose version does not wrap around, with a well-formed strategy and a selector that is not asked
  to check an attribute nobody has reported.
\<close>

definition select_due :: "'m env \<Rightarrow> 'm builders \<Rightarrow> selInput \<Rightarrow> 'm receiver \<Rightarrow> service \<Rightarrow> bool" where
  "select_due env bs inp r s \<longleftrightarrow>
     since_update inp r \<and> no_wrap s \<and> 0 < version (update s)
     \<and> (\<exists>x. strategy_in_use bs r = Some x \<and> strategy_wf x
          \<and> range_order (in_ord inp) (eligible (Strategy_EndpointFilters x) (raw (rs r)) s))
     \<and> (\<forall>e \<in> endpointsSet s. checkable (raw (rs r)) s e)"

text \<open>The service, the receiver of the calls and, latest first, the result of each with the endpoints at that time.\<close>

inductive sel_run :: "'m env \<Rightarrow> 'm builders \<Rightarrow> 're storeOps \<Rightarrow> string \<Rightarrow> 'm receiver \<Rightarrow> service \<Rightarrow>
    'm receiver \<Rightarrow> service \<Rightarrow> (selectResult result \<times> endpoint set) list \<Rightarrow> bool"
  for env bs g n r0 s0 where
  run_start: "sel_run env bs g n r0 s0 r0 s0 []"
| run_event: "sel_run env bs g n r0 s0 r s out \<Longrightarrow> op_possible q s \<Longrightarrow> no_wrap s \<Longrightarrow>
    sel_run env bs g n r0 s0 (r\<lparr>rtab := put_service n (svc_apply q s) (rtab r)\<rparr>) (svc_apply q s) out"
| run_select: "sel_run env bs g n r0 s0 r s out \<Longrightarrow> select_due env bs inp r s \<Longrightarrow>
    Selector_Select env bs (Some g) inp t r = (res, r') \<Longrightarrow>
    sel_run env bs g n r0 s0 r' (update s) ((res, endpointsSet s) # out)"

lemma sel_run_ready:
  assumes "sel_run env bs g n r0 s0 r s out" and "treemap_ok (env_treemap env)" and "sel_ready env n r0 s0"
  shows "sel_ready env n r s \<and> raw (rs r) = raw (rs r0)
    \<and> (\<forall>(res, E) \<in> set out. \<exists>p. res = Ret p \<and> safe_pick E p)"
  using assms
proof (induction rule: sel_run.induct)
  case (run_event r s out q)
  then show ?case using sel_ready_event [of env n r s q] by auto
next
  case (run_select r s out inp t res r')
  from run_select.hyps(2) obtain x where due: "since_update inp r" "no_wrap s" "0 < version (update s)"
    "strategy_in_use bs r = Some x" "strategy_wf x"
    "range_order (in_ord inp) (eligible (Strategy_EndpointFilters x) (raw (rs r)) s)"
    "\<forall>e \<in> endpointsSet s. checkable (raw (rs r)) s e"
    by (auto simp: select_due_def)
  have "sel_ready env n r s" using run_select by simp
  from Selector_Select_ready [OF assms(2) this due, of g t]
  show ?case using run_select by auto
qed auto

section \<open>Selections that succeed\<close>

text \<open>An update changes what a strategy holds, not what it is.\<close>

lemma Strategy_Update_generous: "Strategy_Update env ord m x = Ret x' \<Longrightarrow> generous x' \<longleftrightarrow> generous x"
  by (cases x) (auto split: outcome.splits simp: out_bind_eq_Ret)

lemma check_attribute_passes:
  assumes "checkable q s e" and "attribute_of (Name q) s e = a" and "Available a" and "below_limit q a"
  shows "check_attribute q (GetAttribute e (Name q) s) = Ret None"
  using assms
  by (auto simp: check_attribute_def checkable_def attribute_of_def GetAttribute_def attr_field_def below_limit_def
      not_le [symmetric] split: option.splits)

text \<open>
  When the service has changed since the last update, an endpoint passes the filters, and none that
  passes is at the limit of the selector, a strategy that does not refuse gets its endpoint through.
\<close>

theorem Selector_Select_succeeds:
  assumes "treemap_ok (env_treemap env)" and "sel_ready env n r s" and "since_update inp r"
    and "lastVersion (rs r) < version (update s)"
    and "strategy_in_use bs r = Some x" and "generous x"
    and "range_order (in_ord inp) (eligible (Strategy_EndpointFilters x) (raw (rs r)) s)"
    and "\<forall>e \<in> endpointsSet s. checkable (raw (rs r)) s e"
    and "eligible (Strategy_EndpointFilters x) (raw (rs r)) s \<noteq> Map.empty" and "card (endpointsSet s) < 2 ^ 32"
    and "\<forall>e a. eligible (Strategy_EndpointFilters x) (raw (rs r)) s e = Some a \<longrightarrow> Available a \<and> below_limit (raw (rs r)) a"
  shows "\<exists>e h r'. Selector_Select env bs (Some g) inp t r = (Ret (Some e, Some h, None), r')
    \<and> e \<in> dom (eligible (Strategy_EndpointFilters x) (raw (rs r)) s) \<and> raw (rs r') = raw (rs r)"
proof -
  let ?r = "set_rs (strat_update (\<lambda>_. Some x)) r" and ?m = "eligible (Strategy_EndpointFilters x) (raw (rs r)) s"
  have ready: "svc (rs r) = Some n" "\<not> smu (rs r)" "svc_inv s"
    using assms(2) by (simp_all add: sel_ready_def)
  have sub: "dom ?m \<subseteq> endpointsSet s" using eligible_dom ready(3) unfolding svc_inv_def by blast
  have "finite (endpointsSet s)" using ready(3) unfolding svc_inv_def by (metis List.finite_set)
  then have card: "card (dom ?m) < 2 ^ 32" using card_mono [OF _ sub] assms(10) by linarith
  have "strategy_tracks env (rs ?r) s x"
    using assms(2,5) generous_wf [OF assms(6)]
    by (cases "strat (rs r)") (simp_all add: sel_ready_def strategy_tracks_def strategy_in_use_def)
  then have r1: "sel_ready env n ?r s" using assms(2) by (simp add: sel_ready_def)
  have "since_update inp ?r" "lastVersion (rs ?r) < version (update s)" using assms(3,4) by (simp_all add: since_update_def)
  then obtain r2 x2 where r2: "refresh_strategy env (Some g) inp n ?r = (Ret (), r2)" "strat (rs r2) = Some x2"
    "Strategy_Update env (in_ord inp) ?m x = Ret x2" "strategy_holds env x2 (dom ?m)" "raw (rs r2) = raw (rs r)"
    "service_at n (rtab r2) = Some (update s)" "\<not> strategyMu (rs r2)"
    using refresh_newer [OF assms(1) r1, of x inp "Some g"] assms(7) by auto
  have gen: "generous x2" using Strategy_Update_generous [OF r2(3)] assms(6) by simp
  obtain e h x3 where e: "Strategy_Select env (Some (st_GetCustomRoute g)) t (in_draws inp) x2 = (Ret (Some e, h, None), x3)"
      "e \<in> dom ?m"
    using generous_select [OF gen r2(4), of "Some (st_GetCustomRoute g)" t "in_draws inp"] assms(9) card
    by (auto simp: prod_eq_iff)
  obtain a where a: "?m e = Some a" using e(2) by blast
  have "attribute_of (Name (raw (rs r))) s e = a" using a by (simp add: eligible_def split: if_splits)
  then have "check_attribute (raw (rs r)) (GetAttribute e (Name (raw (rs r))) s) = Ret None"
    using a assms(8,11) e(2) sub by (intro check_attribute_passes) auto
  then have "check_attribute (raw (rs r2)) (GetAttribute e (Name (raw (rs r2))) (update s)) = Ret None"
    by (simp add: r2(5) GetAttribute_def check_attribute_def)
  then have "pick_endpoint env (Some g) inp t n r2 =
      (Ret (Some e, Some (merge_headers (baseHeaders (raw (rs r2))) h), None), set_rs (strat_update (\<lambda>_. Some x3)) r2)"
    using e(1) r2(2,6,7) by (simp add: pick_endpoint_def Let_def)
  then have "Selector_Select env bs (Some g) inp t r =
      (Ret (Some e, Some (merge_headers (baseHeaders (raw (rs r2))) h), None), set_rs (strat_update (\<lambda>_. Some x3)) r2)"
    using r2(1) by (simp add: Selector_Select_def MustService_known [OF ready(1)] init_strategy_eq [OF ready(2) assms(5)])
  then show ?thesis using e(2) r2(5) by auto
qed

text \<open>Without a limit of requests, what passes the filters of such a strategy is what is available.\<close>

lemma generous_eligible:
  assumes "generous x" and "MaxRequests q = None"
  shows "eligible (Strategy_EndpointFilters x) q s e = Some a \<longleftrightarrow>
    e \<in> set (svEndpoints s) \<and> a = attribute_of (Name q) s e \<and> Available a"
proof -
  obtain i where i: "InSel (attribute_of (Name q) s e) = Some i" using attribute_of_InSel by blast
  have "Strategy_EndpointFilters x = [GoodEndpointFilter, FuseEndpointFilter]"
    using assms(1) by (cases x) (simp_all add: Random_EndpointFilters_def RoundRobin_EndpointFilters_def
        LeastRequest_EndpointFilters_def LeastCost_EndpointFilters_def)
  then show ?thesis
    using assms(2) i
    by (cases "RPS i") (auto simp: eligible_def GoodEndpointFilter_def FuseEndpointFilter_def IsGood_def)
qed

end
