(* ===== verification/RoutingGuarantees.thy ===== *)
theory RoutingGuarantees
  imports Fixtures SelectorRuns
begin

text \<open>
  What the core of the router guarantees, selectors and routing, and where it fails: each statement
  with a run that meets its hypotheses.
\<close>

section \<open>Routing\<close>

text \<open>C1: when the first rule that matches selects without an error, \<open>Route\<close> returns that
  endpoint with the port of the endpoint or else of the selector, names the router and the endpoint
  in the headers, and the service reports the endpoint available and below the limit of requests.\<close>

theorem route_available:
  assumes "wRouters w rn = Some rt" and "Rules rt = us @ r # vs"
    and "\<forall>u \<in> set us. wf_rule eng u \<and> \<not> rule_matches eng t u" and "wf_rule eng r" and "rule_matches eng t r"
    and "selects env bs st inp t (length us) (RSelector r) w (e, h, None) c"
  shows "\<exists>x hd n s a. e = Some x
    \<and> fst (Route env bs eng st inp t rn w) =
        Ret (Service (raw (rs c)), Some x, if Port x \<noteq> 0 then Port x else SPort (raw (rs c)), Some hd, None)
    \<and> hd ''yapr-router'' = Some (RouterName rt) \<and> hd ''yapr-endpoint'' = Some (endpoint_String x)
    \<and> service_at n (rtab c) = Some s \<and> GetAttribute x (Name (raw (rs c))) s = Some a
    \<and> Available a \<and> below_limit (raw (rs c)) a"
proof -
  obtain x eh s a n where x: "e = Some x"
    "apply_rule env bs st inp t (RouterName rt) (length us) (RSelector r) (Catch r) w =
        (Ret (Some (Service (raw (rs c)), Some x, if Port x \<noteq> 0 then Port x else SPort (raw (rs c)),
           Some ((merge_headers (baseHeaders (raw (rs c))) eh)
                   (''yapr-router'' \<mapsto> RouterName rt, ''yapr-endpoint'' \<mapsto> endpoint_String x)), None)),
         after_select (RSelector r) c w)"
    "service_at n (rtab c) = Some s" "GetAttribute x (Name (raw (rs c))) s = Some a" "Available a"
    "below_limit (raw (rs c)) a"
    using apply_rule_success [OF assms(6), of "RouterName rt" "Catch r"] by auto
  then show ?thesis
    using Route_first [OF assms(1-5) x(2)] by auto
qed

theorem route_available_witness:
  "\<exists>hd. fst (Route ex_env builtin_builders ex_engine (Some (ex_store ex_e1)) ex_routeInput ex_target ''front''
       (ex_world (ex_warm (SRandom \<lparr>rnd_endpoints = [ex_e1]\<rparr>)))) = Ret (''echosvr'', Some ex_e1, 23333, Some hd, None)"
proof -
  let ?w = "ex_world (ex_warm (SRandom \<lparr>rnd_endpoints = [ex_e1]\<rparr>))"
  obtain h c where c: "selects ex_env builtin_builders (Some (ex_store ex_e1)) ex_routeInput ex_target 1 ''echo'' ?w (Some ex_e1, h, None) c"
    using ex_warm_selects [OF ex_random] by blast
  have svc: "Service (raw (rs c)) = ''echosvr''"
    using c by (auto simp: selects_def ex_world_def selector_at_def ex_warm_def ex_core_def NewCoreSelector_def ex_selector_def
        dest: Selector_Select_checked)
  have "selects ex_env builtin_builders (Some (ex_store ex_e1)) ex_routeInput ex_target
      (length [ex_rule ''/Other'' []]) (RSelector (ex_rule ''/Echo'' [])) ?w (Some ex_e1, h, None) c"
    using c by (simp add: ex_rule_def)
  from route_available [OF _ _ _ _ _ this, of "''front''" ex_router "[]" ex_engine]
  show ?thesis using svc by (auto simp: ex_world_def ex_router_def ex_e1_def)
qed


lemma ex_ready: "sel_ready env ''echosvr'' (ex_receiver (ex_core strategy)) ex_service"
  by (simp add: sel_ready_def ex_receiver_def ex_core_def NewCoreSelector_def ex_table_def service_at_def
      ex_service_eq svc_inv_def)

lemma ex_builder: "strategy_in_use builtin_builders (ex_receiver (ex_core StrategyRandom)) = Some (SRandom (Random_Build (ex_selector StrategyRandom)))"
  by (simp add: strategy_in_use_def ex_receiver_def ex_core_def NewCoreSelector_def GetStrategy_def builtin_builders_def
      RegisterStrategyBuilder_def built_def ex_selector_def strategy_consts)


lemma ex_due: "select_due ex_env builtin_builders ex_input (ex_receiver (ex_core StrategyRandom)) ex_service"
proof -
  have 1: "since_update ex_input (ex_receiver (ex_core StrategyRandom))"
    by (simp add: since_update_def ex_receiver_def ex_core_def NewCoreSelector_def)
  have 2: "no_wrap ex_service" "0 < version (update ex_service)"
    by (simp_all add: no_wrap_def ex_service_eq update_def)
  have 3: "range_order (in_ord ex_input) (eligible (Strategy_EndpointFilters (SRandom (Random_Build (ex_selector StrategyRandom) :: randomStrategy) :: entry_list strategy))
      (raw (rs (ex_receiver (ex_core StrategyRandom)))) ex_service)"
    by (auto simp: range_order_def ex_input_def ex_service_eq eligible_def Random_EndpointFilters_def GoodEndpointFilter_def
        FuseEndpointFilter_def attribute_of_def NewAttributes_def NewDefaultAttr_def IsGood_def ex_receiver_def ex_core_def
        NewCoreSelector_def ex_selector_def split: if_splits)
  have 4: "\<forall>e \<in> endpointsSet ex_service. checkable (raw (rs (ex_receiver (ex_core StrategyRandom)))) ex_service e"
    by (simp add: checkable_def ex_service_eq ex_receiver_def ex_core_def NewCoreSelector_def ex_selector_def)
  show ?thesis using 1 2 3 4 ex_builder by (simp add: select_due_def)
qed



section \<open>Matching\<close>

text \<open>C18: for a matcher whose patterns compile, \<open>Match\<close> returns whether the target has the path and
  the port, and has every header with a value, that the patterns ask for; it changes the memo fields
  only, in a way that leaves the matcher well-formed.\<close>

theorem match_spec:
  assumes "wf_matcher eng m"
  shows "\<exists>m'. Match eng t m = (Ret (matcher_spec eng t m), m') \<and> wf_matcher eng m' \<and> patterns m' = patterns m"
  using assms by (rule Match_spec)

theorem match_spec_witness:
  "\<exists>m'. Match ex_engine ex_target (ex_matcher ''/Echo'') = (Ret True, m') \<and> wf_matcher ex_engine m'"
  using match_spec [of ex_engine "ex_matcher ''/Echo''" ex_target]
  by (auto simp: ex_matcher_def wf_matcher_def ex_engine_def matcher_spec_def ex_target_def)

text \<open>A request that no rule of the router matches is refused with that error.\<close>

theorem route_none:
  assumes "wRouters w rn = Some rt" and "\<forall>r \<in> set (Rules rt). wf_rule eng r \<and> \<not> rule_matches eng t r"
  shows "fst (Route env bs eng st inp t rn w) = Ret ([], None, 0, None, Some (ErrCode ErrNoRuleMatched))"
  using assms by (rule Route_none)

theorem route_none_witness:
  "fst (Route ex_env builtin_builders ex_engine (Some (ex_store ex_e1)) ex_routeInput (ex_target\<lparr>URI := ''/Nothing''\<rparr>) ''front''
     (ex_world (ex_core StrategyRandom))) = Ret ([], None, 0, None, Some (ErrCode ErrNoRuleMatched))"
proof (rule route_none)
  show "wRouters (ex_world (ex_core StrategyRandom)) ''front'' = Some ex_router" by (simp add: ex_world_def)
  show "\<forall>r \<in> set (Rules ex_router). wf_rule ex_engine r \<and> \<not> rule_matches ex_engine (ex_target\<lparr>URI := ''/Nothing''\<rparr>) r"
    by (simp add: ex_router_def)
      (auto simp: rule_matches_def ex_rule_def ex_matcher_def matcher_spec_def ex_engine_def)
qed

text \<open>The address of a router with a port is read as its name and that port, and without one as
  its name and port 9090.\<close>

theorem target_roundtrip:
  assumes "CHR '':'' \<notin> set n"
  shows "parseTarget (n @ '':'' @ show_nat (unat (p :: u32))) = (n, p, None) \<and> parseTarget n = (n, 9090, None)"
  using parseTarget_port [OF assms] parseTarget_default [OF assms] by simp

theorem target_roundtrip_witness:
  "parseTarget (''echo'' @ '':'' @ show_nat (unat (8080 :: u32))) = (''echo'', 8080, None)
    \<and> parseTarget ''echo'' = (''echo'', 9090, None)"
  by (rule target_roundtrip) simp

section \<open>When a selection fails\<close>

text \<open>The first rule that matches, whatever it comes to.\<close>

lemma Route_at:
  assumes "wRouters w rn = Some rt" and "Rules rt = us @ r # vs"
    and "\<forall>u \<in> set us. wf_rule eng u \<and> \<not> rule_matches eng t u" and "wf_rule eng r" and "rule_matches eng t r"
  shows "fst (Route env bs eng st inp t rn w) =
    (case apply_rule env bs st inp t (RouterName rt) (length us) (RSelector r) (Catch r) w of
       (Ret None, w') \<Rightarrow> fst (route_rules env bs eng st inp t (RouterName rt) (Suc (length us)) vs w')
     | (Ret (Some x), w') \<Rightarrow> Ret x
     | (Panicked p, w') \<Rightarrow> Panicked p
     | (Blocked, w') \<Rightarrow> Blocked)"
proof -
  obtain us' where us': "route_rules env bs eng st inp t (RouterName rt) 0 (us @ r # vs) w =
      (case route_rules env bs eng st inp t (RouterName rt) (length us) (r # vs) w of (x, vs', w') \<Rightarrow> (x, us' @ vs', w'))"
    using route_rules_skip [OF assms(3), of env bs st inp "RouterName rt" 0 "r # vs" w] by auto
  obtain r' where "MatchRule eng t r = (Ret True, r')" using MatchRule_spec [OF assms(4), of t] assms(5) by auto
  then show ?thesis
    using us' assms(1,2) by (auto simp: Route_def split: prod.splits outcome.splits option.splits)
qed

text \<open>C19: when the selector of the first matching rule reports an error and the rule does not ask to
  retry or to block, the error is returned if the rule has no handler for it, replaced as the
  handler says if it throws or panics, dropped in favour of the rules that follow if it passes, and
  ignored if the solution has another name.\<close>

theorem error_handlers:
  assumes "wRouters w rn = Some rt" and "Rules rt = us @ r # vs"
    and "\<forall>u \<in> set us. wf_rule eng u \<and> \<not> rule_matches eng t u" and "wf_rule eng r" and "rule_matches eng t r"
    and "selects env bs st inp t (length us) (RSelector r) w (e, h, Some er) c"
    and "case handler_for (Catch r) er of None \<Rightarrow> True | Some eh \<Rightarrow> Solution eh \<notin> {SolutionRetry, SolutionBlock}"
  shows "fst (Route env bs eng st inp t rn w) =
    (case handler_for (Catch r) er of
       None \<Rightarrow> Ret ([], None, 0, None, Some er)
     | Some eh \<Rightarrow>
         if Solution eh = SolutionPass
         then fst (route_rules env bs eng st inp t (RouterName rt) (Suc (length us)) vs (after_select (RSelector r) c w))
         else if Solution eh = SolutionThrow then Ret ([], None, 0, None, Some (handler_error eh er))
         else if Solution eh = SolutionPanic then Panicked (PanicVal (handler_error eh er))
         else finish_route (RouterName rt) (raw (rs c)) e h)"
proof (cases "handler_for (Catch r) er")
  case None
  then show ?thesis by (simp add: Route_at [OF assms(1-5)] apply_rule_failed(1) [OF assms(6)])
next
  case (Some eh)
  consider "Solution eh = SolutionPass" | "Solution eh = SolutionThrow" | "Solution eh = SolutionPanic"
    | "Solution eh \<notin> {SolutionPass, SolutionThrow, SolutionPanic, SolutionRetry, SolutionBlock}"
    using assms(7) Some by auto
  then show ?thesis
  proof cases
    case 4
    then have "apply_rule env bs st inp t (RouterName rt) (length us) (RSelector r) (Catch r) w =
        (out_bind (finish_route (RouterName rt) (raw (rs c)) e h) (\<lambda>x. Ret (Some x)), after_select (RSelector r) c w)"
      by (rule apply_rule_failed(5) [OF assms(6) Some])
    then show ?thesis using 4 Some
      by (simp add: Route_at [OF assms(1-5)] finish_route_def split: option.split)
  qed (use Some in \<open>simp_all add: Route_at [OF assms(1-5)] apply_rule_failed(2-4) [OF assms(6) Some]\<close>)
qed

theorem error_handlers_witness:
  "fst (Route ex_env builtin_builders ex_engine (Some (ex_store ex_e1)) ex_routeInput ex_target ''front''
      (ex_caught SolutionThrow ex_direct)) = Ret ([], None, 0, None, Some (ErrCode (New 503 ''gone'')))"
proof -
  obtain h c where c: "selects ex_env builtin_builders (Some (ex_store ex_e1)) ex_routeInput ex_target (length ([] :: string rule list)) ''echo''
      (ex_caught SolutionThrow ex_direct) (Some ex_e1, Some h, Some (ErrCode ErrEndpointUnavailable)) c"
    using ex_caught_fails [of builtin_builders 0 SolutionThrow] by auto
  show ?thesis
    by (subst error_handlers [OF ex_caught_router, where us = "[]" and vs = "[]" and r = "ex_catching SolutionThrow"
          and e = "Some ex_e1" and h = "Some h" and er = "ErrCode ErrEndpointUnavailable" and c = c])
      (use c in \<open>simp_all add: handler_error_def solutions_distinct [symmetric]\<close>)
qed

text \<open>C20: under a handler that retries, what the last try left is returned without its error: an
  endpoint as if it had been selected, and when there is none the request panics. Fewer tries than
  the handler says are made only when one succeeds.\<close>

theorem retry_returns_last:
  assumes "wRouters w rn = Some rt" and "Rules rt = us @ r # vs"
    and "\<forall>u \<in> set us. wf_rule eng u \<and> \<not> rule_matches eng t u" and "wf_rule eng r" and "rule_matches eng t r"
    and "selects env bs st inp t (length us) (RSelector r) w (e, h, Some er) c"
    and "handler_for (Catch r) er = Some eh" and "Solution eh = SolutionRetry"
    and "sel = (\<lambda>k w. select_by env bs st t (Some (RSelector r)) (ri_sel inp (length us) (Suc k))
                       (w\<lparr>wTable := ri_wait inp (length us) k (wTable w)\<rparr>))"
    and "n = (case Times eh of Some n \<Rightarrow> unat n | None \<Rightarrow> 3)"
    and "retry_loop sel n 0 (e, h, Some er) (after_select (RSelector r) c w) = (Ret (e', h', er'), w')"
  shows "fst (Route env bs eng st inp t rn w) =
      (case e' of
         None \<Rightarrow> Panicked NilDeref
       | Some x \<Rightarrow> Ret (Service (raw (rs c)), Some x, if Port x \<noteq> 0 then Port x else SPort (raw (rs c)),
           map_option (\<lambda>m. m(''yapr-router'' \<mapsto> RouterName rt, ''yapr-endpoint'' \<mapsto> endpoint_String x)) h', None))
    \<and> (e', h', er') = last ((e, h, Some er) # tries sel n 0 (after_select (RSelector r) c w))"
proof -
  have "apply_rule env bs st inp t (RouterName rt) (length us) (RSelector r) (Catch r) w =
      (out_bind (finish_route (RouterName rt) (raw (rs c)) e' h') (\<lambda>x. Ret (Some x)), w')"
    by (rule apply_rule_retry [OF assms(6-8)]) (use assms(9-11) in simp)
  then show ?thesis
    using retry_loop_tries [OF assms(11)]
    by (simp add: Route_at [OF assms(1-5)] finish_route_def Let_def split: option.split)
qed

theorem retry_returns_last_witness:
  "\<exists>hd. fst (Route ex_env builtin_builders ex_engine (Some (ex_store ex_e1)) ex_routeInput ex_target ''front''
      (ex_caught SolutionRetry ex_direct)) = Ret (''echosvr'', Some ex_e1, 23333, Some hd, None)"
proof -
  let ?w = "ex_caught SolutionRetry ex_direct" and ?st = "Some (ex_store ex_e1)"
  let ?sel = "\<lambda>k w. select_by ex_env builtin_builders ?st ex_target (Some ''echo'') (ri_sel ex_routeInput 0 (Suc k))
    (w\<lparr>wTable := ri_wait ex_routeInput 0 k (wTable w)\<rparr>)"
  obtain h c where c: "selects ex_env builtin_builders ?st ex_routeInput ex_target (length ([] :: string rule list)) ''echo''
      ?w (Some ex_e1, Some h, Some (ErrCode ErrEndpointUnavailable)) c"
    "rs c = ex_warm ex_direct" "after_select ''echo'' c ?w = ?w"
    "select_by ex_env builtin_builders ?st ex_target (Some ''echo'') ex_input ?w =
       (Ret (Some ex_e1, Some h, Some (ErrCode ErrEndpointUnavailable)), ?w)"
    using ex_caught_fails [of builtin_builders 0 SolutionRetry] by auto
  have tr: "?sel k ?w = (Ret (Some ex_e1, Some h, Some (ErrCode ErrEndpointUnavailable)), ?w)" for k
    using c(4) by (simp add: ex_routeInput_def)
  have loop: "retry_loop ?sel 2 0 (Some ex_e1, Some h, Some (ErrCode ErrEndpointUnavailable)) ?w =
      (Ret (Some ex_e1, Some h, Some (ErrCode ErrEndpointUnavailable)), ?w)"
    by (simp add: tr numeral_2_eq_2)
  have raw: "raw (rs c) = ex_selector StrategyRandom"
    by (simp add: c(2) ex_warm_def ex_core_def NewCoreSelector_def)
  have "fst (Route ex_env builtin_builders ex_engine ?st ex_routeInput ex_target ''front'' ?w) =
      Ret (''echosvr'', Some ex_e1, 23333,
        Some (h(''yapr-router'' \<mapsto> ''front'', ''yapr-endpoint'' \<mapsto> endpoint_String ex_e1)), None)"
    by (subst conjunct1 [OF retry_returns_last [OF ex_caught_router, where us = "[]" and vs = "[]" and r = "ex_catching SolutionRetry"
          and e = "Some ex_e1" and h = "Some h" and er = "ErrCode ErrEndpointUnavailable" and c = c and sel = ?sel and n = 2
          and eh = "ex_handler SolutionRetry" and e' = "Some ex_e1" and h' = "Some h" and er' = "Some (ErrCode ErrEndpointUnavailable)" and w' = ?w]])
      (use c(1,3) loop in \<open>simp_all add: raw ex_selector_def ex_router_def ex_e1_def\<close>)
  then show ?thesis by blast
qed

text \<open>C36: a blocked request whose time limit is among the events that arrive returns, and it is let
  through only when its endpoint, which is then not nil, is one the service has.\<close>

theorem block_ends:
  assumes "BTimeout \<in> set evs" and "service_at n (wTable w) \<noteq> None"
  shows "\<exists>err w'. block_wait ctx n e evs w = (Ret err, w')
    \<and> (err = None \<longrightarrow> (\<exists>x s. e = Some x \<and> service_at n (wTable w') = Some s \<and> x \<in> endpointsSet s))"
proof -
  obtain err w' where b: "block_wait ctx n e evs w = (Ret err, w')" using block_wait_ends [OF assms] by blast
  have "\<exists>x s. e = Some x \<and> service_at n (wTable w') = Some s \<and> x \<in> endpointsSet s" if "err = None"
  proof (cases e)
    case None
    then show ?thesis using block_wait_nil b that by blast
  next
    case (Some x)
    then show ?thesis using block_wait_known b that by blast
  qed
  then show ?thesis using b by blast
qed

theorem block_ends_witness:
  "\<exists>err w'. block_wait True ''echosvr'' (Some ex_e2) [BService (OpRegister ''svr-2'' [ex_e2]), BTimeout]
      (ex_world (ex_core StrategyRandom)) = (Ret err, w')
    \<and> (err = None \<longrightarrow> (\<exists>x s. Some ex_e2 = Some x \<and> service_at ''echosvr'' (wTable w') = Some s \<and> x \<in> endpointsSet s))"
  by (rule block_ends) (simp_all add: ex_world_def ex_table_def service_at_def)

section \<open>An unknown strategy\<close>

text \<open>C35: the first selection by a selector whose strategy nobody has registered reports that, and
  leaves a lock behind: every later selection, and every request to refresh its cache, blocks.\<close>

theorem unknown_strategy_blocks:
  assumes "svc (rs r) = Some n" and "\<not> smu (rs r)" and "strat (rs r) = None"
    and "bs (Strategy (raw (rs r))) = None"
  shows "\<exists>r'. Selector_Select env bs st inp t r = (Ret (None, None, Some (ErrCode ErrUnknownStrategy)), r')
    \<and> Selector_Select env' bs' st' inp' t' r' = (Blocked, r') \<and> Selector_NotifyRetry st' hv r' = (Blocked, r')"
proof -
  obtain r' where r': "Selector_Select env bs st inp t r = (Ret (sel_error ErrUnknownStrategy), r')"
    "smu (rs r')" "strat (rs r') = None" "svc (rs r') = Some n"
    using Select_unknown_strategy [where bs = bs and r = r, OF assms] by blast
  then show ?thesis using Select_blocked [OF r'(4,2,3)] by blast
qed

theorem unknown_strategy_blocks_witness:
  "\<exists>r'. Selector_Select ex_env builtin_builders (Some (ex_store ex_e1)) ex_input ex_target (ex_receiver (ex_core []))
      = (Ret (None, None, Some (ErrCode ErrUnknownStrategy)), r')
    \<and> Selector_Select ex_env builtin_builders (Some (ex_store ex_e1)) ex_input ex_target r' = (Blocked, r')
    \<and> Selector_NotifyRetry (Some (ex_store ex_e1)) ''7'' r' = (Blocked, r')"
  by (rule unknown_strategy_blocks)
    (simp_all add: ex_receiver_def ex_core_def NewCoreSelector_def ex_selector_def builtin_builders_def
      RegisterStrategyBuilder_def strategy_consts)

end
