(* ===== verification/CacheRuns.thy ===== *)
theory CacheRuns
  imports Caches
begin

text \<open>
  Runs of the LRU cache beside runs of the list of answers it implements. The store may change
  between two operations, so that every operation carries the store it meets.
\<close>

datatype cacheOp = CGet string | CRefresh string | CClear

fun cache_op :: "routeStore \<Rightarrow> cacheOp \<Rightarrow> (lruCache, go_error, routeAnswer option) go" where
  "cache_op g (CGet hv) = go_bind (LRUCache_Get (Some g) hv) (\<lambda>a. go_ret (Some a))"
| "cache_op g (CRefresh hv) = go_bind (LRUCache_Refresh (Some g) hv) (\<lambda>_. go_ret None)"
| "cache_op g CClear = go_bind LRUCache_Clear (\<lambda>_. go_ret None)"

fun cache_run :: "(routeStore \<times> cacheOp) list \<Rightarrow> lruCache \<Rightarrow> routeAnswer option result list \<times> lruCache" where
  "cache_run [] l = ([], l)"
| "cache_run ((g, q) # qs) l =
     (let (a, l) = cache_op g q l; (as, l) = cache_run qs l in (a # as, l))"

fun abs_op :: "string \<Rightarrow> nat \<Rightarrow> routeStore \<Rightarrow> cacheOp \<Rightarrow> cached \<Rightarrow> routeAnswer option \<times> cached" where
  "abs_op n cap g (CGet hv) xs = (case abs_get (g n) cap hv xs of (a, xs) \<Rightarrow> (Some a, xs))"
| "abs_op n cap g (CRefresh hv) xs = (None, abs_refresh (g n) hv xs)"
| "abs_op n cap g CClear xs = (None, [])"

fun abs_run :: "string \<Rightarrow> nat \<Rightarrow> (routeStore \<times> cacheOp) list \<Rightarrow> cached \<Rightarrow> routeAnswer option list \<times> cached" where
  "abs_run n cap [] xs = ([], xs)"
| "abs_run n cap ((g, q) # qs) xs =
     (let (a, xs) = abs_op n cap g q xs; (as, xs) = abs_run n cap qs xs in (a # as, xs))"

lemma cache_op_refines:
  assumes "lru_rel l xs"
  shows "\<exists>l'. cache_op g q l = (Ret (fst (abs_op (selectorName l) (unat (capacity l)) g q xs)), l')
    \<and> lru_rel l' (snd (abs_op (selectorName l) (unat (capacity l)) g q xs))
    \<and> selectorName l' = selectorName l \<and> capacity l' = capacity l"
proof (cases q)
  case (CGet hv)
  then show ?thesis using LRUCache_Get_refines [OF assms, of g hv] by (auto split: prod.splits)
next
  case (CRefresh hv)
  then show ?thesis using LRUCache_Refresh_refines [OF assms, of g hv] by auto
next
  case CClear
  then show ?thesis using LRUCache_Clear_refines [OF assms] by auto
qed

lemma cache_run_refines:
  assumes "lru_rel l xs"
  shows "\<exists>l'. cache_run qs l = (map Ret (fst (abs_run (selectorName l) (unat (capacity l)) qs xs)), l')
    \<and> lru_rel l' (snd (abs_run (selectorName l) (unat (capacity l)) qs xs)) \<and> capacity l' = capacity l"
  using assms
proof (induction qs arbitrary: l xs)
  case (Cons gq qs)
  obtain g q where gq: "gq = (g, q)" by (cases gq)
  obtain a ys where a: "abs_op (selectorName l) (unat (capacity l)) g q xs = (a, ys)" by fastforce
  obtain l1 where l1: "cache_op g q l = (Ret a, l1)" "lru_rel l1 ys"
    "selectorName l1 = selectorName l" "capacity l1 = capacity l"
    using cache_op_refines [OF Cons.prems, of g q] a by auto
  show ?case using Cons.IH [OF l1(2)] l1 gq a by (auto split: prod.splits)
qed simp

text \<open>The map of the cache holds as many values as the list.\<close>

lemma lru_rel_buf: "lru_rel l xs \<Longrightarrow> length (buf l) = length xs \<and> length xs \<le> unat (capacity l)"
  by (auto simp: lru_rel_def rep_length)

end
