(* ===== verification/StrategyGuarantees.thy ===== *)
theory StrategyGuarantees
  imports Fixtures CacheRuns
begin

text \<open>
  What the strategies guarantee for runs of calls: whatever the strategy, what is selected was in
  the last update; the fairness of the cyclic strategies, the shares of the weighted one, the
  stability of the hash ring, the choice of the least loaded, the bounds of the Lua strategy; and
  the caches of the direct strategy.
\<close>

section \<open>Counting results\<close>

lemma count_list_map_inj: "inj f \<Longrightarrow> count_list (map f xs) (f x) = count_list xs x"
  by (induction xs) (auto simp: inj_eq)

lemma inj_result: "inj (\<lambda>e. Ret (sel_ok e) :: selectResult result)"
  by (simp add: inj_def)

lemma count_results: "count_list (map (\<lambda>e. Ret (sel_ok e) :: selectResult result) xs) (Ret (sel_ok e)) = count_list xs e"
  by (rule count_list_map_inj [OF inj_result])

lemma count_positions: "card {i. i < length xs \<and> xs ! i = x} = count_list xs x"
  by (simp add: count_list_eq_length_filter length_filter_conv_card eq_commute [of x])

section \<open>Concrete updates\<close>

lemma ex_range_order: "range_order [ex_e1, ex_e2] ex_map" "range_order [ex_e2, ex_e1] ex_map"
  "range_order [ex_e1] (ex_map(ex_e2 := None))"
  by (auto simp: range_order_def ex_map_def split: if_splits)

lemma ex_present: "attrs_present ex_map" "attrs_present (ex_map(ex_e2 := None))"
  by (auto simp: attrs_present_def ex_map_def ex_attr_def split: if_splits)

lemma ex_items: "range_items [ex_e1, ex_e2] ex_map = [(ex_e1, ex_attr 1), (ex_e2, ex_attr 2)]"
  by (simp add: ex_map_def)

lemma ex_weights [simp]: "weight_of (ex_attr 1) = 1" "weight_of (ex_attr 2) = 2"
  by (simp_all add: weight_of_def ex_attr_def)

section \<open>Every strategy\<close>



section \<open>The direct strategy's caches\<close>

text \<open>C34: a new LRU cache answers any run of reads, refreshes and clears, with any store at each of
  them, as a list of the values in the order of their last use does, and never holds more values
  than its capacity.\<close>

theorem lru_refines:
  assumes "NewLRUBuffer n cap = Ret l" and "unat cap + 1 < 2 ^ 32"
    and "abs_run n (unat cap) qs [] = (answers, xs)"
  shows "\<exists>l'. cache_run qs l = (map Ret answers, l') \<and> lru_rel l' xs
    \<and> length (buf l') = length xs \<and> length xs \<le> unat cap"
proof -
  have "0 < cap" using assms(1) by (auto simp: NewLRUBuffer_def word_gt_0 split: if_splits)
  then have l: "lru_rel l []" "selectorName l = n" "capacity l = cap"
    using lru_rel_New [of cap n] assms(1,2) by auto
  show ?thesis using cache_run_refines [OF l(1), of qs] assms(3) l lru_rel_buf by fastforce
qed

theorem lru_refines_witness:
  "\<exists>l l'. NewLRUBuffer ''echo'' 2 = Ret l
    \<and> cache_run [(\<lambda>_ hv. (Some (if hv = ''a'' then ex_e1 else ex_e2), None), CGet ''a''),
                 (\<lambda>_ _. (Some ex_e2, None), CGet ''a''), (\<lambda>_ _. (Some ex_e2, None), CRefresh ''a''),
                 (\<lambda>_ _. (None, Some (ErrCode ErrNoCustomRoute)), CGet ''a'')] l
        = (map Ret [Some (Some ex_e1, None), Some (Some ex_e1, None), None, Some (Some ex_e2, None)], l')
    \<and> lru_rel l' [(''a'', Some ex_e2)]"
proof -
  obtain l where l: "NewLRUBuffer ''echo'' 2 = Ret l" by (simp add: NewLRUBuffer_def)
  show ?thesis using lru_refines [OF l, of
      "[(\<lambda>_ hv. (Some (if hv = ''a'' then ex_e1 else ex_e2), None), CGet ''a''),
        (\<lambda>_ _. (Some ex_e2, None), CGet ''a''), (\<lambda>_ _. (Some ex_e2, None), CRefresh ''a''),
        (\<lambda>_ _. (None, Some (ErrCode ErrNoCustomRoute)), CGet ''a'')]"] l
    by (simp add: abs_get_def abs_refresh_def) blast
qed

text \<open>C12: reading any sequence of values through a cache that holds nothing the store would not
  say gives what the store gives, for as long as the store does not change.\<close>

theorem cache_transparent:
  assumes "cache_wf c" and "\<forall>k. cache_agrees g k c"
  shows "list_all2 (\<lambda>res hv. \<exists>a. res = Ret a \<and> same_answer a (g (cache_name c) hv))
    (any_cache.get_run g hvs c) hvs"
  using assms by (rule any_cache.get_run_transparent)

theorem cache_transparent_witness:
  "\<exists>l. NewLRUBuffer ''echo'' 2 = Ret l
    \<and> list_all2 (\<lambda>res hv. \<exists>a. res = Ret a \<and> same_answer a (Some ex_e1, None))
        (any_cache.get_run (\<lambda>_ _. (Some ex_e1, None)) [''a'', ''b'', ''c'', ''a''] (CacheLRU l)) [''a'', ''b'', ''c'', ''a'']"
proof -
  obtain l where l: "NewLRUBuffer ''echo'' 2 = Ret l" "lru_rel l []"
    using lru_rel_New [of 2 "''echo''"] by auto
  then have "cache_wf (CacheLRU l)" "\<forall>k. cache_agrees (\<lambda>_ _. (Some ex_e1, None)) k (CacheLRU l)"
    by (auto simp: lru_wf_def lru_agrees_rel abs_agrees_def)
  from cache_transparent [OF this, of "[''a'', ''b'', ''c'', ''a'']"] l(1) show ?thesis by simp
qed

section \<open>Fairness\<close>

text \<open>C13: after an update with weights that fit in 32 bits, one turn of the weighted round robin,
  as many selections as the weights sum up to, returns every endpoint as often as its weight says,
  wherever the index was, as long as the index does not overflow in the turn.\<close>

theorem weighted_round_robin_fair:
  assumes "treemap_ok tm" and "range_order ord m" and "attrs_present m"
    and "total_weight (range_items ord m) < 2 ^ 32"
    and "WeightedRoundRobin_Update tm ord m r = Ret r'"
    and "unat (wrr_lastIdx r) + total_weight (range_items ord m) < 2 ^ 32"
    and "length calls = total_weight (range_items ord m)" and "m e = Some a"
  shows "count_list (fst (select_run (WeightedRoundRobin_Select tm) calls r')) (Ret (sel_ok e)) = weight_of a"
proof -
  let ?L = "wheel (range_items ord m)"
  have w: "wrr_wheel tm r' ?L" "wrr_lastIdx r' = wrr_lastIdx r"
    using WeightedRoundRobin_Update_wheel [OF assms(1,3,4), of r] assms(5) by auto
  have d: "distinct (map fst (range_items ord m))"
    using assms(2) by (simp add: range_items_fst range_order_distinct)
  have e: "count_list ?L e = weight_of a"
    by (rule count_wheel [OF d]) (simp add: range_items_mem [OF assms(2)] assms(8))
  show ?thesis
  proof (cases "?L = []")
    case True
    then show ?thesis using e assms(7) by (metis count_list.simps(1) fst_conv length_0_conv length_wheel select_run.simps(1))
  next
    case False
    let ?P = "map (\<lambda>k. ?L ! ((unat (wrr_lastIdx r) + 1 + k) mod length ?L)) [0..<length ?L]"
    have "fst (select_run (WeightedRoundRobin_Select tm) calls r') = map (\<lambda>e. Ret (sel_ok e)) ?P"
      using weighted_round_robin_run [OF assms(1) w(1) False, of calls] w(2) assms(6,7) by (simp add: comp_def)
    moreover have "count_list ?P e = count_list ?L e"
      using mset_rotation [OF False, of "unat (wrr_lastIdx r) + 1"] by (metis count_mset)
    ultimately show ?thesis using e by (simp only: count_results)
  qed
qed

theorem weighted_round_robin_fair_witness:
  "\<exists>r'. WeightedRoundRobin_Update entry_treemap [ex_e1, ex_e2] ex_map \<lparr>wrr_stages = None, wrr_total = 0, wrr_lastIdx = 7\<rparr> = Ret r'
    \<and> count_list (fst (select_run (WeightedRoundRobin_Select entry_treemap) (replicate 3 (ex_target, \<lparr>draw1 = 0, draw2 = 0\<rparr>)) r'))
        (Ret (sel_ok ex_e2)) = 2"
proof -
  obtain r' where r': "WeightedRoundRobin_Update entry_treemap [ex_e1, ex_e2] ex_map \<lparr>wrr_stages = None, wrr_total = 0, wrr_lastIdx = 7\<rparr> = Ret r'"
    using wrr_update_holds [OF entry_treemap_ok ex_range_order(1) ex_present(1)] by blast
  show ?thesis
    using weighted_round_robin_fair [OF entry_treemap_ok ex_range_order(1) ex_present(1) _ r',
        of "replicate 3 (ex_target, \<lparr>draw1 = 0, draw2 = 0\<rparr>)" ex_e2 "ex_attr 2"] r'
    by (simp add: ex_items del: range_items_simps) (simp add: ex_map_def)
qed

text \<open>C14: after an update the weighted random strategy picks an endpoint for exactly its weight of
  the random numbers below the sum of the weights, so that its share is its part of the sum.\<close>

theorem weighted_random_share:
  assumes "treemap_ok tm" and "range_order ord m" and "attrs_present m"
    and "WeightedRandom_Update tm ord m r = Ret r'" and "m e = Some a"
  shows "card {k. k < total_weight (range_items ord m)
      \<and> fst (WeightedRandom_Select tm t \<lparr>draw1 = k, draw2 = j\<rparr> r') = Ret (sel_ok e)} = weight_of a"
proof -
  let ?L = "wheel (range_items ord m)"
  have w: "wr_wheel tm r' ?L"
    using WeightedRandom_Update_wheel [OF assms(1,3), of ord r] assms(4) by auto
  have d: "distinct (map fst (range_items ord m))"
    using assms(2) by (simp add: range_items_fst range_order_distinct)
  have "{k. k < total_weight (range_items ord m) \<and> fst (WeightedRandom_Select tm t \<lparr>draw1 = k, draw2 = j\<rparr> r') = Ret (sel_ok e)}
      = {k. k < length ?L \<and> ?L ! k = e}"
    by (auto simp: WeightedRandom_Select_eq [OF assms(1) w] length_wheel [symmetric] simp del: length_wheel split: if_splits)
  moreover have "count_list ?L e = weight_of a"
    by (rule count_wheel [OF d]) (simp add: range_items_mem [OF assms(2)] assms(5))
  ultimately show ?thesis using count_positions [of ?L e] by simp
qed

theorem weighted_random_share_witness:
  "\<exists>r'. WeightedRandom_Update entry_treemap [ex_e1, ex_e2] ex_map \<lparr>wr_total = 0, wr_stages = None\<rparr> = Ret r'
    \<and> card {k. k < 3 \<and> fst (WeightedRandom_Select entry_treemap ex_target \<lparr>draw1 = k, draw2 = 0\<rparr> r') = Ret (sel_ok ex_e2)} = 2"
proof -
  obtain r' where r': "WeightedRandom_Update entry_treemap [ex_e1, ex_e2] ex_map \<lparr>wr_total = 0, wr_stages = None\<rparr> = Ret r'"
    using wr_update_holds [OF entry_treemap_ok ex_range_order(1) ex_present(1)] by blast
  have e: "ex_map ex_e2 = Some (ex_attr 2)" by (simp add: ex_map_def)
  show ?thesis
    using weighted_random_share [OF entry_treemap_ok ex_range_order(1) ex_present(1) r' e, of ex_target 0] r'
    unfolding ex_items by (simp add: numeral_3_eq_3)
qed

text \<open>C15: after an update, as many round-robin selections in a row as there are endpoints return
  each of them exactly once, as long as the index does not overflow in between.\<close>

theorem round_robin_fair:
  assumes "range_order ord m" and "RoundRobin_Update ord m r = Ret r'"
    and "unat (rr_lastIdx r) + length ord < 2 ^ 32" and "length calls = length ord" and "m e \<noteq> None"
  shows "count_list (fst (select_run RoundRobin_Select calls r')) (Ret (sel_ok e)) = 1"
proof -
  have r': "rr_endpoints r' = ord" "rr_lastIdx r' = rr_lastIdx r"
    using assms(1,2) by (auto simp: RoundRobin_Update_def range_items_fst)
  have e: "e \<in> set ord" using assms(1,5) by (auto simp: range_order_def)
  then have ne: "rr_endpoints r' \<noteq> []" using r'(1) by auto
  have run: "fst (select_run RoundRobin_Select calls r') = map (\<lambda>e. Ret (sel_ok e)) (map (\<lambda>k. rr_nth k r') [0..<length ord])"
    using round_robin_run [OF ne, of calls] assms(3,4) r' by (simp add: comp_def)
  have "map (\<lambda>k. rr_nth k r') [0..<length ord] = map (\<lambda>k. ord ! ((unat (rr_lastIdx r') + 1 + k) mod length ord)) [0..<length ord]"
    by (simp add: r'(1) add_ac)
  then have "mset (map (\<lambda>k. rr_nth k r') [0..<length ord]) = mset ord"
    using mset_rotation [of ord "unat (rr_lastIdx r') + 1"] ne r'(1) by (simp del: mset_map)
  then have "count_list (map (\<lambda>k. rr_nth k r') [0..<length ord]) e = 1"
    using e count_list_distinct [of ord e] range_order_distinct [OF assms(1)] by (metis count_mset)
  then show ?thesis by (simp only: run count_results)
qed

theorem round_robin_fair_witness:
  "count_list (fst (select_run RoundRobin_Select (replicate 2 (ex_target, \<lparr>draw1 = 0, draw2 = 0\<rparr>))
      \<lparr>rr_endpoints = [ex_e1, ex_e2], rr_lastIdx = 5\<rparr>)) (Ret (sel_ok ex_e2)) = 1"
proof -
  have u: "RoundRobin_Update [ex_e1, ex_e2] ex_map \<lparr>rr_endpoints = [], rr_lastIdx = 5\<rparr> =
      Ret \<lparr>rr_endpoints = [ex_e1, ex_e2], rr_lastIdx = 5\<rparr>"
    by (simp add: RoundRobin_Update_def ex_items del: range_items_simps)
  show ?thesis
    by (rule round_robin_fair [OF ex_range_order(1) u]) (simp_all add: ex_map_def)
qed

section \<open>The hash ring\<close>

text \<open>C16: unless two points of the ring collide, taking an endpoint away moves only the values it
  owned: a request that the ring sent to another endpoint still goes there after the update.\<close>

theorem hash_ring_minimal:
  assumes "treemap_ok tm" and "attrs_present m" and "collision_free m"
    and "range_order ord m" and "HashRing_Update tm ord m r = Ret r1"
    and "range_order ord' (m(e := None))" and "HashRing_Update tm ord' (m(e := None)) r1 = Ret r2"
    and "HashRing_Select tm t d r1 = (Ret (sel_ok f), r1)" and "f \<noteq> e"
  shows "HashRing_Select tm t d r2 = (Ret (sel_ok f), r2)"
proof -
  have p: "attrs_present (m(e := None))" using assms(2) by (simp add: attrs_present_def)
  obtain c1 where r1: "r1 = r\<lparr>hr_ring := Some c1\<rparr>" "ring_of m (tm_content tm c1)"
    using HashRing_Update_ring [OF assms(1,4,2), of r] assms(5) by auto
  obtain c2 where r2: "r2 = r1\<lparr>hr_ring := Some c2\<rparr>" "ring_of (m(e := None)) (tm_content tm c2)"
    using HashRing_Update_ring [OF assms(1,6) p, of r1] assms(7) by auto
  obtain hv where hv: "Headers t (hr_headerKey r) = Some hv"
    using assms(8) by (auto simp: HashRing_Select_def r1 split: option.splits if_splits)
  have "tm_content tm c1 \<noteq> Map.empty"
    using assms(8) by (auto simp: HashRing_Select_def r1 treemap_okD(4) [OF assms(1)] split: if_splits)
  then obtain x where x: "is_owner (tm_content tm c1) (uint (HashString hv)) x"
    using is_owner_exists [OF treemap_okD(3) [OF assms(1)]] by blast
  moreover have "HashRing_Select tm t d r1 = (Ret (sel_ok x), r1)"
    by (rule HashRing_Select_owner [OF assms(1) _ _ x]) (simp_all add: r1 hv)
  ultimately have f: "is_owner (tm_content tm c1) (uint (HashString hv)) f" using assms(8) by simp
  have "is_owner (tm_content tm c2) (uint (HashString hv)) f"
    by (rule is_owner_restrict [OF f treemap_okD(3) [OF assms(1)] ring_of_delete [OF r1(2) r2(2) assms(3)] assms(9)])
  then show ?thesis
    by (intro HashRing_Select_owner [OF assms(1)]) (simp_all add: r1(1) r2(1) hv)
qed

text \<open>C17: unless two points collide, the order in which an update visits the endpoints does not
  matter: two clients with the same endpoints send a request to the same one.\<close>

theorem hash_ring_order_free:
  assumes "treemap_ok tm" and "attrs_present m" and "collision_free m"
    and "range_order ord m" and "HashRing_Update tm ord m r = Ret r1"
    and "range_order ord' m" and "HashRing_Update tm ord' m r = Ret r2"
  shows "fst (HashRing_Select tm t d r1) = fst (HashRing_Select tm t d r2)"
proof -
  obtain c1 where r1: "r1 = r\<lparr>hr_ring := Some c1\<rparr>" "ring_of m (tm_content tm c1)"
    using HashRing_Update_ring [OF assms(1,4,2), of r] assms(5) by auto
  obtain c2 where r2: "r2 = r\<lparr>hr_ring := Some c2\<rparr>" "ring_of m (tm_content tm c2)"
    using HashRing_Update_ring [OF assms(1,6,2), of r] assms(7) by auto
  have c: "tm_content tm c1 = tm_content tm c2" by (rule ring_of_unique [OF r1(2) r2(2) assms(3)])
  show ?thesis
  proof (cases "tm_content tm c1 = Map.empty \<or> Headers t (hr_headerKey r) = None")
    case True
    then show ?thesis using c
      by (auto simp: HashRing_Select_def r1(1) r2(1) treemap_okD(4) [OF assms(1)] split: option.split)
  next
    case False
    then obtain hv x where hv: "Headers t (hr_headerKey r) = Some hv"
      and x: "is_owner (tm_content tm c1) (uint (HashString hv)) x"
      using is_owner_exists [OF treemap_okD(3) [OF assms(1)]] by blast
    have "HashRing_Select tm t d r1 = (Ret (sel_ok x), r1)"
      by (rule HashRing_Select_owner [OF assms(1) _ _ x]) (simp_all add: r1 hv)
    moreover have "HashRing_Select tm t d r2 = (Ret (sel_ok x), r2)"
      by (rule HashRing_Select_owner [OF assms(1)]) (use x in \<open>simp_all add: r2 hv c\<close>)
    ultimately show ?thesis by simp
  qed
qed
lemma ex_ring_update:
  assumes "range_order ord m" and "attrs_present m"
  obtains c where "HashRing_Update entry_treemap ord m r = Ret (r\<lparr>hr_ring := Some c\<rparr>)"
    and "ring_of m (entries_content c)"
  using HashRing_Update_ring [OF entry_treemap_ok assms, of r] by (auto simp: entry_treemap_def)

theorem hash_ring_minimal_witness:
  "\<exists>r1 r2 e f ord. {e, f} = {ex_p1, ex_p2} \<and> e \<noteq> f
    \<and> HashRing_Update entry_treemap [ex_p1, ex_p2] ex_ring \<lparr>hr_headerKey = ''x-uid'', hr_ring = None\<rparr> = Ret r1
    \<and> HashRing_Update entry_treemap ord (ex_ring(e := None)) r1 = Ret r2
    \<and> HashRing_Select entry_treemap ex_target \<lparr>draw1 = 0, draw2 = 0\<rparr> r1 = (Ret (sel_ok f), r1)
    \<and> HashRing_Select entry_treemap ex_target \<lparr>draw1 = 0, draw2 = 0\<rparr> r2 = (Ret (sel_ok f), r2)"
proof -
  let ?r0 = "\<lparr>hr_headerKey = ''x-uid'', hr_ring = None\<rparr> :: entry_list hashRingStrategy"
  obtain c where c: "HashRing_Update entry_treemap [ex_p1, ex_p2] ex_ring ?r0 = Ret (?r0\<lparr>hr_ring := Some c\<rparr>)"
    "ring_of ex_ring (entries_content c)"
    using ex_ring_update [OF ex_ring_orders(1) ex_ring_present] by blast
  let ?r1 = "?r0\<lparr>hr_ring := Some c\<rparr>"
  have "owns ex_ring (point ex_p1 0) ex_p1" by (auto simp: owns_def ex_ring_def ex_attr_def vnodes_def intro!: exI [of _ 0])
  then have "entries_content c \<noteq> Map.empty" using ring_of_None [OF c(2)] by metis
  moreover have "entries_content c = tm_content entry_treemap c" by (simp add: entry_treemap_def)
  ultimately obtain f where f: "is_owner (tm_content entry_treemap c) (uint (HashString ''7'')) f"
    using is_owner_exists [OF treemap_okD(3) [OF entry_treemap_ok]] by metis
  then have "f \<in> {ex_p1, ex_p2}"
    using is_owner_ran [OF f] ring_of_ran [OF c(2)] by (auto simp: entry_treemap_def ex_ring_def split: if_splits)
  then obtain e ord where e: "{e, f} = {ex_p1, ex_p2}" "e \<noteq> f" "range_order ord (ex_ring(e := None))"
    using ex_ring_orders(3,4) ex_ports_differ by (metis insertE insert_commute singletonD)
  have p: "attrs_present (ex_ring(e := None))" using ex_ring_present by (simp add: attrs_present_def)
  obtain c2 where r2: "HashRing_Update entry_treemap ord (ex_ring(e := None)) ?r1 = Ret (?r1\<lparr>hr_ring := Some c2\<rparr>)"
    using ex_ring_update [OF e(3) p] by blast
  have s: "HashRing_Select entry_treemap ex_target \<lparr>draw1 = 0, draw2 = 0\<rparr> ?r1 = (Ret (sel_ok f), ?r1)"
    by (rule HashRing_Select_owner [OF entry_treemap_ok _ _ f]) (simp_all add: ex_target_def)
  show ?thesis
    using hash_ring_minimal [OF entry_treemap_ok ex_ring_present ex_ring_free ex_ring_orders(1) c(1) e(3) r2 s not_sym [OF e(2)]]
      c(1) r2 s e(1,2) by metis
qed

theorem hash_ring_order_free_witness:
  "\<exists>r1 r2. HashRing_Update entry_treemap [ex_p1, ex_p2] ex_ring \<lparr>hr_headerKey = ''x-uid'', hr_ring = None\<rparr> = Ret r1
    \<and> HashRing_Update entry_treemap [ex_p2, ex_p1] ex_ring \<lparr>hr_headerKey = ''x-uid'', hr_ring = None\<rparr> = Ret r2
    \<and> fst (HashRing_Select entry_treemap ex_target \<lparr>draw1 = 0, draw2 = 0\<rparr> r1)
      = fst (HashRing_Select entry_treemap ex_target \<lparr>draw1 = 0, draw2 = 0\<rparr> r2)"
  using hash_ring_order_free [OF entry_treemap_ok ex_ring_present ex_ring_free ex_ring_orders(1) _ ex_ring_orders(2)]
    HashRing_Update_ring [OF entry_treemap_ok ex_ring_orders(1) ex_ring_present]
    HashRing_Update_ring [OF entry_treemap_ok ex_ring_orders(2) ex_ring_present] by metis

section \<open>The least loaded, and a script's choice\<close>

text \<open>With at least one endpoint the least-request strategy returns one of the two it samples,
  and the other one has not reported fewer requests.\<close>

theorem least_request_better:
  assumes "range_order ord m" and "attrs_present m" and "ord \<noteq> []" and "LeastRequest_Update ord m r = Ret r'"
    and "{e, f} = {ord ! (draw1 d mod length ord), ord ! (draw2 d mod length ord)}"
    and "LeastRequest_Select t d r' = (Ret (sel_ok e), r'')"
  shows "rps_cost (the (m e)) \<le> rps_cost (the (m f))"
proof -
  obtain r1 where r1: "LeastRequest_Update ord m r = Ret r1" "lr_holds r1 (dom m)"
    using least_request.update_holds [OF TrueI assms(1,2), of r] by blast
  have "zip ord (map snd (range_items ord m)) = range_items ord m"
    by (metis assms(1) range_items_fst zip_map_fst_snd)
  then have r': "r' = r1" "lr_items r' = range_items ord m" "lr_endpoints r' = ord"
    using r1(1) assms(4) range_items_fst [OF assms(1)]
    by (auto simp: LeastRequest_Update_def lr_items_def)
  have at: "range_items ord m ! k = (ord ! k, the (m (ord ! k)))" if "k < length ord" for k
  proof -
    have "fst (range_items ord m ! k) = ord ! k"
      using that range_items_fst [OF assms(1)] by (metis length_map nth_map)
    moreover have "range_items ord m ! k \<in> set (range_items ord m)"
      using that by (simp add: range_items_length [OF assms(1)])
    ultimately show ?thesis by (cases "range_items ord m ! k") (auto simp: range_items_mem [OF assms(1)])
  qed
  let ?x = "ord ! (draw1 d mod length ord)" and ?y = "ord ! (draw2 d mod length ord)"
  have "e = better_of rps_cost (range_items ord m) d"
    using LeastRequest_Select_eq [OF r1(2), of t d] r' assms(3,6) by (auto split: if_splits)
  also have "\<dots> = (if rps_cost (the (m ?x)) < rps_cost (the (m ?y)) then ?x else ?y)"
    using assms(3) by (simp add: better_of_def Let_def range_items_length [OF assms(1)] at)
  finally show ?thesis using assms(5) by (auto simp: doubleton_eq_iff split: if_splits)
qed

theorem least_request_better_witness:
  "LeastRequest_Select ex_target \<lparr>draw1 = 0, draw2 = 1\<rparr> \<lparr>lr_endpoints = [ex_e1, ex_e2], lr_attributes = [ex_attr 1, ex_attr 2]\<rparr>
      = (Ret (sel_ok ex_e1), \<lparr>lr_endpoints = [ex_e1, ex_e2], lr_attributes = [ex_attr 1, ex_attr 2]\<rparr>)
    \<and> rps_cost (the (ex_map ex_e1)) \<le> rps_cost (the (ex_map ex_e2))"
proof -
  let ?r = "\<lparr>lr_endpoints = [ex_e1, ex_e2], lr_attributes = [ex_attr 1, ex_attr 2]\<rparr>"
  have u: "LeastRequest_Update [ex_e1, ex_e2] ex_map \<lparr>lr_endpoints = [], lr_attributes = []\<rparr> = Ret ?r"
    by (simp add: LeastRequest_Update_def ex_items del: range_items_simps)
  have s: "LeastRequest_Select ex_target \<lparr>draw1 = 0, draw2 = 1\<rparr> ?r = (Ret (sel_ok ex_e1), ?r)"
    by (simp add: LeastRequest_Select_def Let_def ex_attr_def attr_field_def nth_go_def Intn_def)
  show ?thesis
    using least_request_better [OF ex_range_order(1) ex_present(1) _ u _ s, of ex_e2] s by simp
qed

text \<open>Whatever number a script returns and whatever error it raises, a selection returns; it gives
  the endpoint the number stands for when there is one, and otherwise an error and no endpoint.\<close>

theorem custom_lua_in_range:
  shows "\<exists>e err. CustomLua_Select lua t d r = (Ret (e, None, err), r) \<and> (e = None \<longleftrightarrow> err \<noteq> None)
    \<and> (e \<noteq> None \<longleftrightarrow> lua_DoFile lua (lua_script r) = None
        \<and> (\<exists>k < length (lua_endpoints r). e = Some (lua_endpoints r ! k)
            \<and> lua_Call lua (lua_script r) (Headers t) (map endpoint_String (lua_endpoints r)) = Inr (int k)))"
proof (cases "lua_DoFile lua (lua_script r)")
  case None
  show ?thesis
  proof (cases "lua_Call lua (lua_script r) (Headers t) (map endpoint_String (lua_endpoints r))")
    case (Inr k)
    show ?thesis
    proof (cases "0 \<le> k \<and> k < int (length (lua_endpoints r))")
      case True
      then have k: "nat k < length (lua_endpoints r)" "int (nat k) = k" by auto
      show ?thesis using True None Inr k by (auto simp: CustomLua_Select_def intro!: exI [of _ "nat k"])
    next
      case False
      then show ?thesis using None Inr by (auto simp: CustomLua_Select_def)
    qed
  qed (use None in \<open>auto simp: CustomLua_Select_def\<close>)
qed (auto simp: CustomLua_Select_def)

end
