(* ===== verification/Codec.thy ===== *)
theory Codec
  imports Types
begin

text \<open>
  The JSON forms in which the values of \<open>core/types/types.go\<close> travel through etcd and Redis: a list
  of endpoints (\<open>svc/data/...\<close>), the attribute of an endpoint in a selector, and a selector. The
  encoders follow \<open>json.Marshal\<close> with the tags of the structs, the decoders \<open>json.Unmarshal\<close>:
  unknown fields are skipped, names match whatever their case, \<open>null\<close> leaves a plain field alone
  and clears a pointer.
\<close>

section \<open>Numbers\<close>

definition json_uint :: "u32 \<Rightarrow> json" where
  "json_uint w = JNum (Itoa (uint w))"

definition dec_uint :: "json \<Rightarrow> u32 option" where
  "dec_uint j = (case j of JNum l \<Rightarrow> map_option word_of_nat (ParseUint l 32) | _ \<Rightarrow> None)"

lemma Itoa_nat: "Itoa (int n) = show_nat n"
  by (simp add: Itoa_def)

lemma json_uint_ok [simp]: "json_ok (json_uint w)"
  by (simp add: json_uint_def)

lemma dec_json_uint [simp]: "dec_uint (json_uint w) = Some w"
proof -
  have "unat w < 2 ^ 32" using unsigned_less [of w] by simp
  moreover have "Itoa (uint w) = show_nat (unat w)" unfolding uint_nat by (rule Itoa_nat)
  ultimately show ?thesis by (simp add: json_uint_def dec_uint_def ParseUint_show_nat)
qed

section \<open>Endpoints\<close>

definition endpoint_json :: "endpoint \<Rightarrow> json" where
  "endpoint_json e = JObj [(''IP'', JStr (IP e)), (''Pod'', JStr (Pod e)), (''Port'', json_uint (Port e))]"

definition endpoints_json :: "endpoint list \<Rightarrow> string" where
  "endpoints_json es = json_text (JArr (map endpoint_json es))"

definition dec_endpoint_field :: "string \<times> json \<Rightarrow> endpoint \<Rightarrow> endpoint option" where
  "dec_endpoint_field m e =
     (case m of (k, v) \<Rightarrow>
        if v = JNull then Some e
        else if field_is k ''ip'' then (case v of JStr s \<Rightarrow> Some (e\<lparr>IP := s\<rparr>) | _ \<Rightarrow> None)
        else if field_is k ''pod'' then (case v of JStr s \<Rightarrow> Some (e\<lparr>Pod := s\<rparr>) | _ \<Rightarrow> None)
        else if field_is k ''port'' then map_option (\<lambda>w. e\<lparr>Port := w\<rparr>) (dec_uint v)
        else Some e)"

fun dec_members :: "(string \<times> json \<Rightarrow> 'a \<Rightarrow> 'a option) \<Rightarrow> (string \<times> json) list \<Rightarrow> 'a \<Rightarrow> 'a option" where
  "dec_members f [] x = Some x"
| "dec_members f (m # ms) x = (case f m x of None \<Rightarrow> None | Some y \<Rightarrow> dec_members f ms y)"

definition zero_endpoint :: endpoint where
  "zero_endpoint = \<lparr>IP = [], Pod = [], Port = 0\<rparr>"

text \<open>An element of a list of pointers: \<open>null\<close> is a nil pointer.\<close>

definition dec_endpoint :: "json \<Rightarrow> endpoint option option" where
  "dec_endpoint j =
     (case j of
        JNull \<Rightarrow> Some None
      | JObj ms \<Rightarrow> map_option Some (dec_members dec_endpoint_field ms zero_endpoint)
      | _ \<Rightarrow> None)"

definition dec_endpoints :: "string \<Rightarrow> endpoint option list option" where
  "dec_endpoints s =
     (case json_parse s of
        Some (JArr js) \<Rightarrow> those (map dec_endpoint js)
      | Some JNull \<Rightarrow> Some []
      | _ \<Rightarrow> None)"

lemma field_is_endpoint [simp]:
  "field_is ''IP'' ''ip''" "field_is ''Pod'' ''pod''" "field_is ''Port'' ''port''"
  "\<not> field_is ''Pod'' ''ip''" "\<not> field_is ''Port'' ''ip''" "\<not> field_is ''Port'' ''pod''"
  by code_simp+

lemma json_uint_not_null [simp]: "json_uint w \<noteq> JNull"
  by (simp add: json_uint_def)

lemma dec_endpoint_json [simp]: "dec_endpoint (endpoint_json e) = Some (Some e)"
  by (simp add: dec_endpoint_def endpoint_json_def dec_endpoint_field_def zero_endpoint_def)

lemma endpoint_json_ok [simp]: "json_ok (endpoint_json e)"
  by (simp add: endpoint_json_def)

lemma those_map_Some: "(\<And>x. f x = Some (g x)) \<Longrightarrow> those (map f xs) = Some (map g xs)"
  by (induction xs) auto

lemma dec_endpoints_json: "dec_endpoints (endpoints_json es) = Some (map Some es)"
proof -
  have "json_parse (endpoints_json es) = Some (JArr (map endpoint_json es))"
    unfolding endpoints_json_def by (rule json_parse_text) (simp add: list_all_iff)
  then show ?thesis by (simp add: dec_endpoints_def comp_def those_map_Some)
qed

section \<open>Attributes\<close>

definition zero_attr :: attributeInSelector where
  "zero_attr = \<lparr>Weight = None, RPS = None, Deadline = None\<rparr>"

definition opt_member :: "string \<Rightarrow> ('a \<Rightarrow> json) \<Rightarrow> 'a option \<Rightarrow> (string \<times> json) list" where
  "opt_member k f x = (case x of None \<Rightarrow> [] | Some v \<Rightarrow> [(k, f v)])"

definition attr_members :: "attributeInSelector \<Rightarrow> (string \<times> json) list" where
  "attr_members a =
     opt_member ''weight'' json_uint (Weight a) @ opt_member ''rps'' json_uint (RPS a)
     @ opt_member ''deadline'' (\<lambda>d. JNum (Itoa d)) (Deadline a)"

definition attr_json :: "attributeInSelector \<Rightarrow> string" where
  "attr_json a = json_text (JObj (attr_members a))"

text \<open>
  A value of the wrong type makes the call report an error but the decoder goes on with the other
  fields, and the pointer of that field is left pointing to zero. The flag is the error.
\<close>

definition dec_ptr :: "(json \<Rightarrow> 'a option) \<Rightarrow> 'a \<Rightarrow> json \<Rightarrow> 'a option \<times> bool" where
  "dec_ptr f zero v =
     (if v = JNull then (None, False) else (case f v of Some x \<Rightarrow> (Some x, False) | None \<Rightarrow> (Some zero, True)))"

definition dec_int :: "json \<Rightarrow> int option" where
  "dec_int j = (case j of JNum l \<Rightarrow> Atoi l | _ \<Rightarrow> None)"

definition dec_attr_field :: "string \<times> json \<Rightarrow> attributeInSelector \<times> bool \<Rightarrow> attributeInSelector \<times> bool" where
  "dec_attr_field m ab =
     (case (m, ab) of ((k, v), (a, b)) \<Rightarrow>
        if field_is k ''weight'' then (case dec_ptr dec_uint 0 v of (x, e) \<Rightarrow> (a\<lparr>Weight := x\<rparr>, b \<or> e))
        else if field_is k ''rps'' then (case dec_ptr dec_uint 0 v of (x, e) \<Rightarrow> (a\<lparr>RPS := x\<rparr>, b \<or> e))
        else if field_is k ''deadline'' then (case dec_ptr dec_int 0 v of (x, e) \<Rightarrow> (a\<lparr>Deadline := x\<rparr>, b \<or> e))
        else (a, b))"

definition dec_attr :: "string \<Rightarrow> attributeInSelector \<times> bool" where
  "dec_attr s =
     (case json_parse s of
        Some (JObj ms) \<Rightarrow> fold dec_attr_field ms (zero_attr, False)
      | Some JNull \<Rightarrow> (zero_attr, False)
      | _ \<Rightarrow> (zero_attr, True))"

lemma field_is_attr [simp]:
  "field_is ''weight'' ''weight''" "field_is ''rps'' ''rps''" "field_is ''deadline'' ''deadline''"
  "\<not> field_is ''rps'' ''weight''" "\<not> field_is ''deadline'' ''weight''" "\<not> field_is ''deadline'' ''rps''"
  by (simp_all add: field_is_def lower_char_def)

lemma dec_ptr_uint [simp]: "dec_ptr dec_uint z (json_uint w) = (Some w, False)"
  by (simp add: dec_ptr_def)

lemma dec_ptr_int [simp]: "int64_range d \<Longrightarrow> dec_ptr dec_int z (JNum (Itoa d)) = (Some d, False)"
  by (simp add: dec_ptr_def dec_int_def Atoi_Itoa)

definition wf_attr :: "attributeInSelector \<Rightarrow> bool" where
  "wf_attr a \<longleftrightarrow> (\<forall>d. Deadline a = Some d \<longrightarrow> int64_range d)"

lemma dec_attr_members: "wf_attr a \<Longrightarrow> fold dec_attr_field (attr_members a) (zero_attr, False) = (a, False)"
  by (cases "Weight a"; cases "RPS a"; cases "Deadline a")
    (simp_all add: attr_members_def opt_member_def dec_attr_field_def zero_attr_def wf_attr_def)

lemma attr_members_ok: "wf_attr a \<Longrightarrow> json_ok (JObj (attr_members a))"
  by (cases "Weight a"; cases "RPS a"; cases "Deadline a")
    (simp_all add: attr_members_def opt_member_def wf_attr_def Atoi_Itoa)

lemma dec_attr_json:
  assumes "wf_attr a"
  shows "dec_attr (attr_json a) = (a, False)"
  unfolding dec_attr_def attr_json_def json_parse_text [OF attr_members_ok [OF assms]]
  by (simp add: dec_attr_members [OF assms])

end
