(* ===== verification/StoreImpl.thy ===== *)
theory StoreImpl
  imports Codec Service
begin

text \<open>
  \<open>core/store/impl/impl.go\<close>: how the routing data lives in Redis and etcd. Custom routes are two
  Redis hashes per selector, written by a Lua script that compares and sets, with its text in the
  source; services are keys in etcd whose events a client turns into operations on its copies;
  migrations are messages on a channel. Redis, its \<open>cjson\<close> and etcd are not part of the repository:
  the hash commands are an argument with the laws of their documentation, the answers of single
  calls are inputs, and the requests a call makes are listed.
\<close>

section \<open>Redis hashes\<close>

record 'r redis =
  rd_HGet :: "'r \<Rightarrow> string \<Rightarrow> string \<Rightarrow> string option"
  rd_HSet :: "string \<Rightarrow> string \<Rightarrow> string \<Rightarrow> 'r \<Rightarrow> 'r"
  rd_HDel :: "string \<Rightarrow> string \<Rightarrow> 'r \<Rightarrow> 'r"

definition redis_ok :: "'r redis \<Rightarrow> bool" where
  "redis_ok rd \<longleftrightarrow>
     (\<forall>r t k v t' k'. rd_HGet rd (rd_HSet rd t k v r) t' k' =
        (if t' = t \<and> k' = k then Some v else rd_HGet rd r t' k'))
     \<and> (\<forall>r t k t' k'. rd_HGet rd (rd_HDel rd t k r) t' k' =
        (if t' = t \<and> k' = k then None else rd_HGet rd r t' k'))"

lemma redis_okD:
  assumes "redis_ok rd"
  shows "rd_HGet rd (rd_HSet rd t k v r) t' k' = (if t' = t \<and> k' = k then Some v else rd_HGet rd r t' k')"
    and "rd_HGet rd (rd_HDel rd t k r) t' k' = (if t' = t \<and> k' = k then None else rd_HGet rd r t' k')"
  using assms unfolding redis_ok_def by blast+

text \<open>Hashes as functions, for concrete runs.\<close>

definition map_redis :: "(string \<times> string \<Rightarrow> string option) redis" where
  "map_redis =
     \<lparr>rd_HGet = (\<lambda>r t k. r (t, k)), rd_HSet = (\<lambda>t k v r. r((t, k) \<mapsto> v)), rd_HDel = (\<lambda>t k r. r((t, k) := None))\<rparr>"

lemma map_redis_ok: "redis_ok map_redis"
  by (simp add: redis_ok_def map_redis_def)

section \<open>The state of the store\<close>

record impl =
  im_pod :: string
  im_mu :: bool
  setCustomRouteSha :: string
  setAttributeSha :: string
  serviceToLease :: "string \<rightharpoonup> int"

definition new_impl :: "string \<Rightarrow> impl" where
  "new_impl p =
     \<lparr>im_pod = p, im_mu = False, setCustomRouteSha = [], setAttributeSha = [], serviceToLease = Map.empty\<rparr>"

text \<open>
  The lazy loading of a script: \<open>load\<close> is the answer of \<open>ScriptLoad\<close>, whose error panics with the
  mutex locked.
\<close>

definition load_script :: "(impl \<Rightarrow> string) \<Rightarrow> (string \<Rightarrow> impl \<Rightarrow> impl) \<Rightarrow> go_error + string \<Rightarrow> (impl, go_error, unit) go" where
  "load_script sha set_sha load = (\<lambda>s.
     if sha s = []
     then go_bind (lock_mu im_mu (\<lambda>b. im_mu_update (\<lambda>_. b))) (\<lambda>_ s.
       if sha s = []
       then (case load of
               Inl err \<Rightarrow> (Panicked (PanicVal err), s)
             | Inr x \<Rightarrow> unlock_mu (\<lambda>b. im_mu_update (\<lambda>_. b)) (set_sha x s))
       else unlock_mu (\<lambda>b. im_mu_update (\<lambda>_. b)) s) s
     else (Ret (), s))"

section \<open>Custom routes\<close>

text \<open>
  The values of the script: \<open>HGET\<close> of an absent field gives \<open>false\<close>, which is not \<open>nil\<close>. Times and
  deadlines are kept in microseconds, a thousandth of the unit of the script, so that they are
  whole numbers; the deadline \<open>-1\<close> of a route without time limit is \<open>-1000\<close>, the default \<open>1\<close> is
  \<open>1000\<close>. \<open>now\<close> is the answer of \<open>TIME\<close>.
\<close>

datatype lua = LNil | LFalse | LStr string

definition endpoint_table :: "string \<Rightarrow> string" where
  "endpoint_table sel = ''_end_point_'' @ sel"

definition ddl_table :: "string \<Rightarrow> string" where
  "ddl_table sel = ''_ddl_'' @ sel"

definition set_route_script :: "'r redis \<Rightarrow> int \<Rightarrow> string \<Rightarrow> string \<Rightarrow> string \<Rightarrow> string \<Rightarrow> int \<Rightarrow> 'r \<Rightarrow> lua \<times> 'r" where
  "set_route_script rd now sel hv endpoint old timeout r =
     (let deadline = (if timeout = 0 then - 1000 else now + timeout * 1000);
          existing = (case rd_HGet rd r (endpoint_table sel) hv of Some s \<Rightarrow> LStr s | None \<Rightarrow> LFalse);
          existingDDL = (case rd_HGet rd r (ddl_table sel) hv of
                           Some s \<Rightarrow> (case Atoi s of Some d \<Rightarrow> d | None \<Rightarrow> 1000)
                         | None \<Rightarrow> 1000);
          existing = (if existing \<noteq> LNil \<and> existingDDL > 0 \<and> now \<ge> existingDDL then LNil else existing)
      in if existing \<noteq> LNil \<and> existing \<noteq> LStr old then (existing, r)
         else (LNil, rd_HSet rd (ddl_table sel) hv (Itoa deadline)
                       (rd_HSet rd (endpoint_table sel) hv endpoint r)))"

text \<open>
  \<open>SetCustomRoute\<close>: \<open>net\<close> is the error of the call when it does not get through. A reply \<open>nil\<close> or
  \<open>false\<close> of the script is the error \<open>redis.Nil\<close>, which the source takes for success.
\<close>

definition SetCustomRoute :: "'r redis \<Rightarrow> go_error + string \<Rightarrow> go_error option \<Rightarrow> int \<Rightarrow> string \<Rightarrow> string \<Rightarrow>
    endpoint \<Rightarrow> endpoint option \<Rightarrow> int \<Rightarrow> (impl \<times> 'r, go_error, endpoint option \<times> go_error option) go" where
  "SetCustomRoute rd load net now sel hv e old timeout = (\<lambda>(s, r).
     case load_script setCustomRouteSha (\<lambda>x. setCustomRouteSha_update (\<lambda>_. x)) load s of
       (Ret _, s) \<Rightarrow>
         (let oldStr = (case old of Some o' \<Rightarrow> endpoint_String o' | None \<Rightarrow> []) in
          case net of
            Some err \<Rightarrow> (Ret (None, Some err), (s, r))
          | None \<Rightarrow>
              (case set_route_script rd now sel hv (endpoint_String e) oldStr timeout r of
                 (LStr res, r) \<Rightarrow> (Ret (EndpointFromString res, None), (s, r))
               | (_, r) \<Rightarrow> (Ret (None, None), (s, r))))
     | (Panicked p, s) \<Rightarrow> (Panicked p, (s, r))
     | (Blocked, s) \<Rightarrow> (Blocked, (s, r)))"

definition GetCustomRoute :: "'r redis \<Rightarrow> go_error option \<Rightarrow> string \<Rightarrow> string \<Rightarrow> 'r \<Rightarrow> endpoint option \<times> go_error option" where
  "GetCustomRoute rd net sel hv r =
     (case net of
        Some err \<Rightarrow> (None, Some err)
      | None \<Rightarrow>
          (case rd_HGet rd r (endpoint_table sel) hv of
             None \<Rightarrow> (None, Some (ErrCode ErrNoCustomRoute))
           | Some s \<Rightarrow>
               if s = [] then (None, Some (ErrCode ErrNoCustomRoute))
               else (EndpointFromString s, None)))"

definition RemoveCustomRoute :: "'r redis \<Rightarrow> go_error option \<Rightarrow> string \<Rightarrow> string \<Rightarrow> 'r \<Rightarrow> go_error option \<times> 'r" where
  "RemoveCustomRoute rd net sel hv r =
     (case net of
        Some err \<Rightarrow> (Some err, r)
      | None \<Rightarrow> (None, rd_HDel rd (endpoint_table sel) hv r))"

section \<open>Attributes of endpoints\<close>

text \<open>The loop of the script that merges the members of a new attribute into the old one.\<close>

fun merge_attr :: "(string \<times> json) list \<Rightarrow> (string \<times> json) list \<Rightarrow> (string \<times> json) list" where
  "merge_attr [] old = old"
| "merge_attr ((k, v) # new) old = merge_attr new (AList.update k v old)"

text \<open>
  \<open>cjson\<close> of Redis: the members of an object, or a failure of the script; and a text for members.
\<close>

record cjson =
  cj_decode :: "string \<Rightarrow> (string \<times> json) list option"
  cj_encode :: "(string \<times> json) list \<Rightarrow> string"

record attributeChangeNTF =
  ntf_selector :: string
  ntf_endpoint :: string
  ntf_attribute :: string

definition set_attr_script :: "'r redis \<Rightarrow> cjson \<Rightarrow> string \<Rightarrow> string \<Rightarrow> string \<Rightarrow> 'r \<Rightarrow> (string \<times> attributeChangeNTF \<times> 'r) option" where
  "set_attr_script rd cj endpoint sel attr r =
     (let key = ''_attr_'' @ endpoint in
      case cj_decode cj attr of
        None \<Rightarrow> None
      | Some newAttr \<Rightarrow>
          (case (case rd_HGet rd r key sel of None \<Rightarrow> Some [] | Some s \<Rightarrow> cj_decode cj s) of
             None \<Rightarrow> None
           | Some existing \<Rightarrow>
               (let merged = cj_encode cj (merge_attr newAttr existing)
                in Some (merged,
                     \<lparr>ntf_selector = sel, ntf_endpoint = endpoint, ntf_attribute = merged\<rparr>,
                     rd_HSet rd key sel merged r))))"

text \<open>
  \<open>SetEndpointAttribute\<close>: \<open>net\<close> is the error of a call that does not get through; a failed script is
  an error, and a nil endpoint has no text.
\<close>

definition SetEndpointAttribute :: "'r redis \<Rightarrow> cjson \<Rightarrow> go_error + string \<Rightarrow> go_error option \<Rightarrow> endpoint option \<Rightarrow>
    string \<Rightarrow> attributeInSelector \<Rightarrow> (impl \<times> 'r, go_error, go_error option \<times> attributeChangeNTF option) go" where
  "SetEndpointAttribute rd cj load net endpoint sel attr = (\<lambda>(s, r).
     case load_script setAttributeSha (\<lambda>x. setAttributeSha_update (\<lambda>_. x)) load s of
       (Ret _, s) \<Rightarrow>
         (case endpoint of
            None \<Rightarrow> (Panicked NilDeref, (s, r))
          | Some e \<Rightarrow>
              (case net of
                 Some err \<Rightarrow> (Ret (Some err, None), (s, r))
               | None \<Rightarrow>
                   (case set_attr_script rd cj (endpoint_String e) sel (attr_json attr) r of
                      None \<Rightarrow> (Ret (Some (ErrText ''ERR user_script''), None), (s, r))
                    | Some (merged, ntf, r) \<Rightarrow> (Ret (None, Some ntf), (s, r)))))
     | (Panicked p, s) \<Rightarrow> (Panicked p, (s, r))
     | (Blocked, s) \<Rightarrow> (Blocked, (s, r)))"

text \<open>What a subscriber makes of a notification: nothing, a panic for an endpoint it cannot read, or an event.\<close>

definition on_attribute_change :: "attributeChangeNTF \<Rightarrow> (svc_op option) result" where
  "on_attribute_change ntf =
     (case dec_attr (ntf_attribute ntf) of
        (attr, True) \<Rightarrow> Ret None
      | (attr, False) \<Rightarrow>
          (case EndpointFromString (ntf_endpoint ntf) of
             None \<Rightarrow> Panicked NilDeref
           | Some e \<Rightarrow> Ret (Some (OpAttribute e (ntf_selector ntf) attr))))"

section \<open>Services in etcd\<close>

definition data_key :: "string \<Rightarrow> string \<Rightarrow> string" where
  "data_key service p = ''svc/data/'' @ service @ ''/'' @ p"

definition lease_key :: "string \<Rightarrow> string \<Rightarrow> string" where
  "lease_key service p = ''svc/lease/'' @ service @ ''/'' @ p"

datatype etcdReq =
    EGrant int
  | EKeepAlive int
  | EPut string string "int option"
  | EDelete string
  | ERevoke int

text \<open>The answers of the calls of \<open>RegisterService\<close>: a lease, and errors where a call fails.\<close>

record registerNet =
  rn_grant :: "go_error + int"
  rn_keepalive :: "go_error option"
  rn_put_lease :: "go_error option"
  rn_put_data :: "go_error option"

definition RegisterService :: "registerNet \<Rightarrow> string \<Rightarrow> endpoint list \<Rightarrow> impl \<Rightarrow> (bool \<times> go_error option) \<times> etcdReq list \<times> impl" where
  "RegisterService net service es s =
     (if serviceToLease s service \<noteq> None then ((False, Some (ErrCode ErrServiceAlreadyRegistered)), [], s)
      else case rn_grant net of
          Inl err \<Rightarrow> ((False, Some err), [EGrant 5], s)
        | Inr lease \<Rightarrow>
            (case rn_keepalive net of
               Some err \<Rightarrow> ((False, Some err), [EGrant 5, EKeepAlive lease], s)
             | None \<Rightarrow>
                 (let reqs = [EGrant 5, EKeepAlive lease, EPut (lease_key service (im_pod s)) ''1'' (Some lease)] in
                  case rn_put_lease net of
                    Some err \<Rightarrow>
                      ((False, Some err), reqs @ [ERevoke lease],
                       s\<lparr>serviceToLease := (serviceToLease s)(service := None)\<rparr>)
                  | None \<Rightarrow>
                      ((True, rn_put_data net), reqs @ [EPut (data_key service (im_pod s)) (endpoints_json es) None],
                       s\<lparr>serviceToLease := (serviceToLease s)(service \<mapsto> lease)\<rparr>))))"

text \<open>Errors of the calls of \<open>UnregisterService\<close> are only logged.\<close>

definition UnregisterService :: "string \<Rightarrow> impl \<Rightarrow> etcdReq list \<times> impl" where
  "UnregisterService service s =
     (case serviceToLease s service of
        None \<Rightarrow> ([], s)
      | Some lease \<Rightarrow>
          ([ERevoke lease, EDelete (lease_key service (im_pod s)), EDelete (data_key service (im_pod s))],
           s\<lparr>serviceToLease := (serviceToLease s)(service := None)\<rparr>))"

section \<open>Events of services\<close>

record etcdEvent =
  ev_delete :: bool
  ev_key :: string
  ev_value :: string

datatype serviceChange =
    ChangePut string "endpoint option list"
  | ChangeRemove string
  | ChangeTimeout string

text \<open>One event of the watch loop, as the call of the listener it causes.\<close>

definition service_event :: "etcdEvent \<Rightarrow> (string \<times> serviceChange) option" where
  "service_event ev =
     (let splits = Split (ev_key ev) (CHR ''/'') in
      if length splits \<noteq> 4 then None
      else (let isLease = (splits ! 1 = ''lease''); service = splits ! 2; i = splits ! 3 in
        if ev_delete ev
        then (if isLease then Some (service, ChangeTimeout i) else Some (service, ChangeRemove i))
        else if isLease then None
        else (case dec_endpoints (ev_value ev) of
                None \<Rightarrow> None
              | Some es \<Rightarrow> Some (service, ChangePut i es))))"

text \<open>
  The listener of \<open>GetServices\<close>: a service that was unknown when the services were loaded is
  ignored; \<open>ord\<close> is the order of the loop in \<open>RemovePod\<close>.
\<close>

definition change_op :: "endpoint list \<Rightarrow> serviceChange \<Rightarrow> svc_op result" where
  "change_op ord c =
     (case c of
        ChangePut p es \<Rightarrow> (case those es of None \<Rightarrow> Panicked NilDeref | Some es' \<Rightarrow> Ret (OpRegister p es'))
      | ChangeRemove p \<Rightarrow> Ret (OpRemove ord p)
      | ChangeTimeout p \<Rightarrow> Ret (OpHang p))"

definition on_service_change :: "endpoint list \<Rightarrow> string \<times> serviceChange \<Rightarrow> (string \<rightharpoonup> service) \<Rightarrow> (string \<rightharpoonup> service) result" where
  "on_service_change ord sc svcs =
     (case sc of (service, c) \<Rightarrow>
        (case svcs service of
           None \<Rightarrow> Ret svcs
         | Some s \<Rightarrow> out_bind (change_op ord c) (\<lambda>q. Ret (svcs(service \<mapsto> svc_apply q s)))))"

text \<open>The first load: the pairs under \<open>svc/data/\<close>, and per endpoint the hash of its attributes.\<close>

fun load_attrs :: "(string \<times> string) list \<Rightarrow> endpoint \<Rightarrow> service \<Rightarrow> service" where
  "load_attrs [] e s = s"
| "load_attrs ((sel, rawAttr) # res) e s = load_attrs res e (SetAttributeInSelector e sel (fst (dec_attr rawAttr)) s)"

fun load_endpoint_attrs :: "(string \<Rightarrow> go_error + (string \<times> string) list) \<Rightarrow> endpoint list \<Rightarrow> service \<Rightarrow> service" where
  "load_endpoint_attrs hgetall [] s = s"
| "load_endpoint_attrs hgetall (e # es) s =
     (case hgetall (''_attr_'' @ endpoint_String e) of
        Inl err \<Rightarrow> load_endpoint_attrs hgetall es s
      | Inr res \<Rightarrow> load_endpoint_attrs hgetall es (load_attrs res e s))"

fun load_kvs :: "(string \<Rightarrow> go_error + (string \<times> string) list) \<Rightarrow> (string \<times> string) list \<Rightarrow>
    (string \<rightharpoonup> service) \<Rightarrow> (string \<rightharpoonup> service) result" where
  "load_kvs hgetall [] svcs = Ret svcs"
| "load_kvs hgetall ((k, v) # kvs) svcs =
     (let splits = Split k (CHR ''/'') in
      if length splits \<noteq> 4 then load_kvs hgetall kvs svcs
      else (let n = splits ! 2; i = splits ! 3;
                s = (case svcs n of Some s \<Rightarrow> s | None \<Rightarrow> NewService n);
                svcs = svcs(n \<mapsto> s) in
        case dec_endpoints v of
          None \<Rightarrow> load_kvs hgetall kvs svcs
        | Some ps \<Rightarrow>
            (case those ps of
               None \<Rightarrow> Panicked NilDeref
             | Some es \<Rightarrow>
                 load_kvs hgetall kvs (svcs(n \<mapsto> load_endpoint_attrs hgetall es (RegisterPod i es s))))))"

definition GetServices :: "go_error + (string \<times> string) list \<Rightarrow> (string \<Rightarrow> go_error + (string \<times> string) list) \<Rightarrow>
    (go_error + (string \<rightharpoonup> service)) result" where
  "GetServices response hgetall =
     (case response of
        Inl err \<Rightarrow> Ret (Inl err)
      | Inr kvs \<Rightarrow> out_bind (load_kvs hgetall kvs Map.empty) (\<lambda>svcs. Ret (Inr svcs)))"

section \<open>Migrations\<close>

definition NotifyMigration :: "string \<Rightarrow> string \<Rightarrow> endpoint option \<Rightarrow> endpoint option \<Rightarrow> string result" where
  "NotifyMigration sel hv src dst =
     (case (src, dst) of
        (Some f, Some t) \<Rightarrow> Ret (sel @ '' '' @ hv @ '' '' @ endpoint_String f @ '' '' @ endpoint_String t)
      | _ \<Rightarrow> Panicked NilDeref)"

definition migration_message :: "string \<Rightarrow> (string \<times> string \<times> endpoint option \<times> endpoint option) option" where
  "migration_message payload =
     (let splits = Split payload (CHR '' '') in
      if length splits \<noteq> 4 then None
      else Some (splits ! 0, splits ! 1, EndpointFromString (splits ! 2), EndpointFromString (splits ! 3)))"

section \<open>Loading the configuration\<close>

text \<open>
  \<open>LoadConfig\<close> once it holds the lock: \<open>version\<close> is the answer of \<open>Get\<close>, the pairs are the names
  and the JSON texts of the selectors and routers, \<open>None\<close> where they cannot be marshalled, and
  \<open>fail\<close> says which \<open>Put\<close> fails. The result is the error and the requests.
\<close>

fun put_all :: "string \<Rightarrow> (string \<Rightarrow> go_error option) \<Rightarrow> (string \<times> string option) list \<Rightarrow> go_error option \<times> etcdReq list" where
  "put_all pre fail [] = (None, [])"
| "put_all pre fail ((n, None) # xs) = put_all pre fail xs"
| "put_all pre fail ((n, Some txt) # xs) =
     (case fail (pre @ n) of
        Some err \<Rightarrow> (Some err, [EPut (pre @ n) txt None])
      | None \<Rightarrow> (case put_all pre fail xs of (err, reqs) \<Rightarrow> (err, EPut (pre @ n) txt None # reqs)))"

definition LoadConfig :: "go_error + string option \<Rightarrow> (string \<Rightarrow> go_error option) \<Rightarrow> string \<Rightarrow>
    (string \<times> string option) list \<Rightarrow> (string \<times> string option) list \<Rightarrow> go_error option \<times> etcdReq list" where
  "LoadConfig response fail ver sels rtrs =
     (case response of
        Inl err \<Rightarrow> (Some err, [])
      | Inr found \<Rightarrow>
          if (case found of Some etcdVersion \<Rightarrow> etcdVersion \<ge> ver | None \<Rightarrow> False) then (None, [])
          else (case put_all ''slt/'' fail sels of
              (Some err, reqs) \<Rightarrow> (Some err, reqs)
            | (None, reqs1) \<Rightarrow>
                (case put_all ''rtr/'' fail rtrs of
                   (Some err, reqs2) \<Rightarrow> (Some err, reqs1 @ reqs2)
                 | (None, reqs2) \<Rightarrow> (fail ''version'', reqs1 @ reqs2 @ [EPut ''version'' ver None]))))"

section \<open>Setting a route is a compare and set\<close>

text \<open>
  The route of a value that has not expired, and the pairing of the two hashes: no deadline
  without an endpoint.
\<close>

definition route_deadline :: "'r redis \<Rightarrow> string \<Rightarrow> string \<Rightarrow> 'r \<Rightarrow> int" where
  "route_deadline rd sel hv r =
     (case rd_HGet rd r (ddl_table sel) hv of
        Some s \<Rightarrow> (case Atoi s of Some d \<Rightarrow> d | None \<Rightarrow> 1000)
      | None \<Rightarrow> 1000)"

definition live_route :: "'r redis \<Rightarrow> int \<Rightarrow> string \<Rightarrow> string \<Rightarrow> 'r \<Rightarrow> string option" where
  "live_route rd now sel hv r =
     (if 0 < route_deadline rd sel hv r \<and> route_deadline rd sel hv r \<le> now then None
      else rd_HGet rd r (endpoint_table sel) hv)"

definition paired :: "'r redis \<Rightarrow> string \<Rightarrow> string \<Rightarrow> 'r \<Rightarrow> bool" where
  "paired rd sel hv r \<longleftrightarrow>
     (rd_HGet rd r (endpoint_table sel) hv = None \<longrightarrow> rd_HGet rd r (ddl_table sel) hv = None)"

definition store_route :: "'r redis \<Rightarrow> int \<Rightarrow> string \<Rightarrow> string \<Rightarrow> string \<Rightarrow> int \<Rightarrow> 'r \<Rightarrow> 'r" where
  "store_route rd now sel hv e timeout r =
     rd_HSet rd (ddl_table sel) hv (Itoa (if timeout = 0 then - 1000 else now + timeout * 1000))
       (rd_HSet rd (endpoint_table sel) hv e r)"

lemma tables_differ [simp]: "endpoint_table s \<noteq> ddl_table s'" "ddl_table s' \<noteq> endpoint_table s"
  by (simp_all add: endpoint_table_def ddl_table_def)

lemma tables_inj [simp]: "endpoint_table s = endpoint_table s' \<longleftrightarrow> s = s'" "ddl_table s = ddl_table s' \<longleftrightarrow> s = s'"
  by (simp_all add: endpoint_table_def ddl_table_def)

lemma set_route_script_cas:
  assumes "paired rd sel hv r" and "1000 \<le> now"
  shows "set_route_script rd now sel hv e old timeout r =
    (case live_route rd now sel hv r of
       Some v \<Rightarrow> if v = old then (LNil, store_route rd now sel hv e timeout r) else (LStr v, r)
     | None \<Rightarrow> (LNil, store_route rd now sel hv e timeout r))"
proof (cases "rd_HGet rd r (endpoint_table sel) hv")
  case None
  then have "rd_HGet rd r (ddl_table sel) hv = None" using assms(1) by (simp add: paired_def)
  with None assms(2) show ?thesis
    by (simp add: set_route_script_def Let_def live_route_def route_deadline_def store_route_def)
next
  case (Some v)
  then show ?thesis
    by (simp add: set_route_script_def Let_def live_route_def route_deadline_def store_route_def)
qed

text \<open>Without the pairing \<open>false\<close> is taken for a route: nothing is written.\<close>

lemma set_route_script_unpaired:
  assumes "rd_HGet rd r (endpoint_table sel) hv = None" and "\<not> (0 < route_deadline rd sel hv r \<and> route_deadline rd sel hv r \<le> now)"
  shows "set_route_script rd now sel hv e old timeout r = (LFalse, r)"
  using assms by (simp add: set_route_script_def Let_def route_deadline_def)

lemma paired_store: "redis_ok rd \<Longrightarrow> paired rd sel hv r \<Longrightarrow> paired rd sel hv (store_route rd now sel' hv' e timeout r)"
  by (auto simp: paired_def store_route_def redis_okD)

lemma live_store:
  assumes "redis_ok rd" and "int64_range (now + timeout * 1000)"
  shows "live_route rd now' sel hv (store_route rd now sel hv e timeout r) =
    (if timeout \<noteq> 0 \<and> 0 < now + timeout * 1000 \<and> now + timeout * 1000 \<le> now' then None else Some e)"
proof -
  have "Atoi (Itoa (- 1000)) = Some (- 1000)" by (rule Atoi_Itoa) (simp add: int64_range_def)
  then show ?thesis
    by (simp add: live_route_def route_deadline_def store_route_def redis_okD [OF assms(1)] Atoi_Itoa assms(2))
qed

text \<open>The call with its script loaded.\<close>

lemma SetCustomRoute_loaded:
  assumes "setCustomRouteSha s \<noteq> []"
  shows "SetCustomRoute rd load None now sel hv e old timeout (s, r) =
    (let oldStr = (case old of Some o' \<Rightarrow> endpoint_String o' | None \<Rightarrow> []) in
     case set_route_script rd now sel hv (endpoint_String e) oldStr timeout r of
       (LStr res, r') \<Rightarrow> (Ret (EndpointFromString res, None), (s, r'))
     | (_, r') \<Rightarrow> (Ret (None, None), (s, r')))"
  using assms by (simp add: SetCustomRoute_def load_script_def Let_def split: prod.split lua.split)

lemma endpoint_String_not_Nil [simp]: "endpoint_String e \<noteq> []"
  by (simp add: endpoint_String_def)

lemma GetCustomRoute_stored:
  "redis_ok rd \<Longrightarrow> sep_free e \<Longrightarrow>
     GetCustomRoute rd None sel hv (store_route rd now sel hv (endpoint_String e) timeout r) = (Some e, None)"
  by (simp add: GetCustomRoute_def store_route_def redis_okD EndpointFromString_String)

section \<open>Registrations as events\<close>

lemma Split_key:
  assumes "CHR ''/'' \<notin> set service" and "CHR ''/'' \<notin> set p"
  shows "Split (data_key service p) (CHR ''/'') = [''svc'', ''data'', service, p]"
    and "Split (lease_key service p) (CHR ''/'') = [''svc'', ''lease'', service, p]"
proof -
  have k: "data_key service p = ''svc'' @ CHR ''/'' # ''data'' @ CHR ''/'' # service @ CHR ''/'' # p"
    "lease_key service p = ''svc'' @ CHR ''/'' # ''lease'' @ CHR ''/'' # service @ CHR ''/'' # p"
    by (simp_all add: data_key_def lease_key_def)
  have f: "CHR ''/'' \<notin> set ''svc''" "CHR ''/'' \<notin> set ''data''" "CHR ''/'' \<notin> set ''lease''" by simp_all
  show "Split (data_key service p) (CHR ''/'') = [''svc'', ''data'', service, p]"
    unfolding k Split_append [OF f(1)] Split_append [OF f(2)] Split_append [OF assms(1)]
    using assms(2) by simp
  show "Split (lease_key service p) (CHR ''/'') = [''svc'', ''lease'', service, p]"
    unfolding k Split_append [OF f(1)] Split_append [OF f(3)] Split_append [OF assms(1)]
    using assms(2) by simp
qed

lemma those_Some [simp]: "those (map Some xs) = Some xs"
  by (induction xs) auto

lemma service_event_data:
  assumes "CHR ''/'' \<notin> set service" and "CHR ''/'' \<notin> set p"
  shows "service_event \<lparr>ev_delete = False, ev_key = data_key service p, ev_value = endpoints_json es\<rparr>
      = Some (service, ChangePut p (map Some es))"
    and "service_event \<lparr>ev_delete = True, ev_key = data_key service p, ev_value = v\<rparr> = Some (service, ChangeRemove p)"
    and "service_event \<lparr>ev_delete = True, ev_key = lease_key service p, ev_value = v\<rparr> = Some (service, ChangeTimeout p)"
    and "service_event \<lparr>ev_delete = False, ev_key = lease_key service p, ev_value = v\<rparr> = None"
  using Split_key [OF assms] by (simp_all add: service_event_def Let_def dec_endpoints_json)

text \<open>What the watchers of a request see: a put, or the deletion of a key that was there.\<close>

fun req_event :: "etcdReq \<Rightarrow> etcdEvent option" where
  "req_event (EPut k v l) = Some \<lparr>ev_delete = False, ev_key = k, ev_value = v\<rparr>"
| "req_event (EDelete k) = Some \<lparr>ev_delete = True, ev_key = k, ev_value = []\<rparr>"
| "req_event _ = None"

definition changes_of :: "etcdReq list \<Rightarrow> (string \<times> serviceChange) list" where
  "changes_of reqs = List.map_filter service_event (List.map_filter req_event reqs)"

lemma RegisterService_changes:
  assumes "CHR ''/'' \<notin> set service" and "CHR ''/'' \<notin> set (im_pod s)"
    and "RegisterService net service es s = ((True, None), reqs, s')"
  shows "changes_of reqs = [(service, ChangePut (im_pod s) (map Some es))]"
    and "serviceToLease s' service \<noteq> None"
proof -
  have "reqs = [EGrant 5, EKeepAlive lease, EPut (lease_key service (im_pod s)) ''1'' (Some lease),
      EPut (data_key service (im_pod s)) (endpoints_json es) None] \<and> serviceToLease s' service \<noteq> None"
    if "rn_grant net = Inr lease" for lease
    using assms(3) that
    by (auto simp: RegisterService_def Let_def split: if_splits option.splits)
  moreover obtain lease where "rn_grant net = Inr lease"
    using assms(3) by (auto simp: RegisterService_def split: if_splits sum.splits)
  ultimately have r: "reqs = [EGrant 5, EKeepAlive lease, EPut (lease_key service (im_pod s)) ''1'' (Some lease),
      EPut (data_key service (im_pod s)) (endpoints_json es) None]" "serviceToLease s' service \<noteq> None"
    by blast+
  show "changes_of reqs = [(service, ChangePut (im_pod s) (map Some es))]"
    using service_event_data [OF assms(1,2)] by (simp add: r(1) changes_of_def List.map_filter_def)
  show "serviceToLease s' service \<noteq> None" by (rule r(2))
qed

lemma UnregisterService_changes:
  assumes "CHR ''/'' \<notin> set service" and "CHR ''/'' \<notin> set (im_pod s)" and "serviceToLease s service \<noteq> None"
  shows "changes_of (fst (UnregisterService service s)) =
      [(service, ChangeTimeout (im_pod s)), (service, ChangeRemove (im_pod s))]"
    and "serviceToLease (snd (UnregisterService service s)) service = None"
  using assms(3) service_event_data [OF assms(1,2)]
  by (auto simp: UnregisterService_def changes_of_def List.map_filter_def)

text \<open>A second registration is refused, also after the lease was lost.\<close>

lemma RegisterService_twice:
  "serviceToLease s service \<noteq> None \<Longrightarrow>
     RegisterService net service es s = ((False, Some (ErrCode ErrServiceAlreadyRegistered)), [], s)"
  by (simp add: RegisterService_def)

section \<open>The first load\<close>

lemma implements_load_attrs: "implements d s \<Longrightarrow> implements d (load_attrs res e s)"
  by (induction res arbitrary: s) (auto simp: implements_SetAttribute)

lemma implements_load_endpoint_attrs: "implements d s \<Longrightarrow> implements d (load_endpoint_attrs h es s)"
  by (induction es arbitrary: s) (auto simp: implements_load_attrs split: sum.split)

text \<open>The pairs of well-behaved servers: service, pod and the endpoints of the pod.\<close>

type_synonym registration = "string \<times> string \<times> endpoint list"

definition reg_kv :: "registration \<Rightarrow> string \<times> string" where
  "reg_kv x = (case x of (n, p, es) \<Rightarrow> (data_key n p, endpoints_json es))"

definition good_reg :: "registration \<Rightarrow> bool" where
  "good_reg x = (case x of (n, p, es) \<Rightarrow>
     CHR ''/'' \<notin> set n \<and> CHR ''/'' \<notin> set p \<and> distinct es \<and> (\<forall>e \<in> set es. Pod e = p))"

fun dirs_of :: "registration list \<Rightarrow> (string \<rightharpoonup> directory) \<Rightarrow> (string \<rightharpoonup> directory)" where
  "dirs_of [] d = d"
| "dirs_of ((n, p, es) # xs) d =
     dirs_of xs (d(n \<mapsto> (case d n of Some x \<Rightarrow> x | None \<Rightarrow> Map.empty)(p \<mapsto> (es, False))))"

definition implements_all :: "(string \<rightharpoonup> directory) \<Rightarrow> (string \<rightharpoonup> service) \<Rightarrow> bool" where
  "implements_all ds svcs \<longleftrightarrow>
     (\<forall>n. case (ds n, svcs n) of
        (Some d, Some s) \<Rightarrow> implements d s
      | (None, None) \<Rightarrow> True
      | _ \<Rightarrow> False)"

lemma load_kvs_implements:
  assumes "\<forall>x \<in> set xs. good_reg x" and "distinct (map (\<lambda>(n, p, es). (n, p)) xs)"
    and "implements_all ds svcs"
    and "\<forall>(n, p, es) \<in> set xs. case ds n of Some d \<Rightarrow> d p = None | None \<Rightarrow> True"
  shows "\<exists>svcs'. load_kvs h (map reg_kv xs) svcs = Ret svcs' \<and> implements_all (dirs_of xs ds) svcs'"
  using assms
proof (induction xs arbitrary: ds svcs)
  case (Cons x xs)
  obtain n p es where x: "x = (n, p, es)" by (cases x)
  have good: "CHR ''/'' \<notin> set n" "CHR ''/'' \<notin> set p" "distinct es" "\<forall>e \<in> set es. Pod e = p"
    using Cons.prems(1) x by (auto simp: good_reg_def)
  let ?d = "case ds n of Some d \<Rightarrow> d | None \<Rightarrow> Map.empty"
  let ?s = "case svcs n of Some s \<Rightarrow> s | None \<Rightarrow> NewService n"
  have imp: "implements ?d ?s"
    using Cons.prems(3) [unfolded implements_all_def, rule_format, of n] implements_New
    by (cases "ds n"; cases "svcs n") auto
  have dp: "?d p = None" using Cons.prems(4) x by (auto split: option.splits)
  have "implements (?d(p \<mapsto> (es, False))) (RegisterPod p es ?s)"
    using implements_Register [OF imp, of p es] dp good(3,4) by (simp add: disciplined_def)
  then have imp': "implements (?d(p \<mapsto> (es, False))) (load_endpoint_attrs h es (RegisterPod p es ?s))"
    by (rule implements_load_endpoint_attrs)
  let ?ds = "ds(n \<mapsto> ?d(p \<mapsto> (es, False)))"
  let ?svcs = "svcs(n \<mapsto> load_endpoint_attrs h es (RegisterPod p es ?s))"
  have all: "implements_all ?ds ?svcs"
    using imp' Cons.prems(3) by (auto simp: implements_all_def)
  have "\<forall>(m, q, fs) \<in> set xs. (m, q) \<noteq> (n, p)" using Cons.prems(2) x by (force simp: image_iff)
  then have fresh: "\<forall>(m, q, fs) \<in> set xs. case ?ds m of Some d \<Rightarrow> d q = None | None \<Rightarrow> True"
    using Cons.prems(4) by (fastforce split: option.splits)
  have step: "load_kvs h (map reg_kv (x # xs)) svcs = load_kvs h (map reg_kv xs) ?svcs"
    using Split_key(1) [OF good(1,2)] by (simp add: x reg_kv_def Let_def dec_endpoints_json)
  have dirs: "dirs_of (x # xs) ds = dirs_of xs ?ds" by (simp add: x)
  have "\<forall>x \<in> set xs. good_reg x" "distinct (map (\<lambda>(n, p, es). (n, p)) xs)"
    using Cons.prems(1,2) by simp_all
  then show ?case unfolding step dirs by (rule Cons.IH [OF _ _ all fresh])
qed simp

section \<open>Migration messages\<close>

lemma migration_roundtrip:
  assumes "CHR '' '' \<notin> set sel" and "CHR '' '' \<notin> set hv" and "sep_free f" and "sep_free t"
    and "CHR '' '' \<notin> set (endpoint_String f)" and "CHR '' '' \<notin> set (endpoint_String t)"
  shows "\<exists>m. NotifyMigration sel hv (Some f) (Some t) = Ret m \<and> migration_message m = Some (sel, hv, Some f, Some t)"
proof -
  let ?m = "sel @ CHR '' '' # hv @ CHR '' '' # endpoint_String f @ CHR '' '' # endpoint_String t"
  have "Split ?m (CHR '' '') = [sel, hv, endpoint_String f, endpoint_String t]"
    unfolding Split_append [OF assms(1)] Split_append [OF assms(2)] Split_append [OF assms(5)]
    using assms(6) by simp
  then show ?thesis
    using assms(3,4) by (simp add: NotifyMigration_def migration_message_def EndpointFromString_String)
qed

section \<open>Merged attributes\<close>

lemma merge_attr_map: "map_of (merge_attr new old) = map_of old ++ map_of new"
  if "distinct (map fst new)"
  using that
proof (induction new arbitrary: old)
  case (Cons kv new)
  obtain k v where kv: "kv = (k, v)" by (cases kv)
  then have "map_of new k = None" using Cons.prems by (simp add: map_of_eq_None_iff)
  then show ?case using Cons kv by (auto simp: update_conv' map_add_def fun_eq_iff split: option.split)
qed simp

section \<open>Loading the configuration\<close>

text \<open>When nothing fails everything is put, the version last.\<close>

definition puts :: "string \<Rightarrow> (string \<times> string option) list \<Rightarrow> etcdReq list" where
  "puts pre xs = List.map_filter (\<lambda>(n, t). map_option (\<lambda>txt. EPut (pre @ n) txt None) t) xs"

lemma put_all_ok: "(\<And>k. fail k = None) \<Longrightarrow> put_all pre fail xs = (None, puts pre xs)"
  by (induction pre fail xs rule: put_all.induct) (simp_all add: puts_def List.map_filter_def)

lemma put_all_keys: "r \<in> set (snd (put_all pre fail xs)) \<Longrightarrow> \<exists>n t. r = EPut (pre @ n) t None"
  by (induction pre fail xs rule: put_all.induct) (auto split: option.splits prod.splits)

lemma LoadConfig_ok:
  assumes "\<And>k. fail k = None" and "case found of Some v \<Rightarrow> v < ver | None \<Rightarrow> True"
  shows "LoadConfig (Inr found) fail ver sels rtrs =
    (None, puts ''slt/'' sels @ puts ''rtr/'' rtrs @ [EPut ''version'' ver None])"
  using assms(2) by (auto simp: LoadConfig_def put_all_ok [OF assms(1)] assms(1) split: option.split)

text \<open>The version is put only as the last request, after every selector and router was put.\<close>

lemma LoadConfig_version_last:
  assumes "LoadConfig response fail ver sels rtrs = (err, reqs)" and "EPut ''version'' ver None \<in> set reqs"
  shows "\<exists>reqs'. reqs = reqs' @ [EPut ''version'' ver None] \<and> err = fail ''version''
    \<and> fst (put_all ''slt/'' fail sels) = None \<and> fst (put_all ''rtr/'' fail rtrs) = None"
proof -
  have no: "EPut ''version'' ver None \<notin> set (snd (put_all ''slt/'' fail sels))"
    "EPut ''version'' ver None \<notin> set (snd (put_all ''rtr/'' fail rtrs))"
    using put_all_keys by fastforce+
  show ?thesis
    using assms no
    by (auto simp: LoadConfig_def split: sum.splits if_splits prod.splits option.splits)
qed

end
