(* ===== verification/ClusterView.thy ===== *)
theory ClusterView
  imports StoreImpl
begin

text \<open>
  Servers that register and deregister at the same time, and a client that watches. A call of a
  server is a sequence of requests to etcd, and the requests of several servers interleave: \<open>out p\<close>
  are the changes the requests of pod \<open>p\<close> will still cause, the log of etcd is the list of the changes
  it has caused, and a client sees a prefix of the log. A call is made once the requests of the call
  before it have been answered. Leases expire at any time.
\<close>

section \<open>The log of a cluster\<close>

type_synonym change = "string \<times> serviceChange"

inductive cluster_log :: "(string \<Rightarrow> impl) \<Rightarrow> (string \<Rightarrow> change list) \<Rightarrow> change list \<Rightarrow> bool" where
  log_start: "cluster_log new_impl (\<lambda>_. []) []"
| log_register: "cluster_log im out lg \<Longrightarrow> out p = [] \<Longrightarrow> CHR ''/'' \<notin> set n \<Longrightarrow> CHR ''/'' \<notin> set p \<Longrightarrow>
    distinct es \<Longrightarrow> \<forall>e \<in> set es. Pod e = p \<Longrightarrow> RegisterService net n es (im p) = ((ch, None), reqs, i) \<Longrightarrow>
    cluster_log (im(p := i)) (out(p := changes_of reqs)) lg"
| log_failed: "cluster_log im out lg \<Longrightarrow> out p = [] \<Longrightarrow>
    RegisterService net n es (im p) = ((ch, Some err), reqs, i) \<Longrightarrow>
    cluster_log (im(p := i)) out lg"
| log_unregister: "cluster_log im out lg \<Longrightarrow> out p = [] \<Longrightarrow> CHR ''/'' \<notin> set n \<Longrightarrow> CHR ''/'' \<notin> set p \<Longrightarrow>
    UnregisterService n (im p) = (reqs, i) \<Longrightarrow>
    cluster_log (im(p := i)) (out(p := changes_of reqs)) lg"
| log_expire: "cluster_log im out lg \<Longrightarrow> cluster_log im out (lg @ [(n, ChangeTimeout p)])"
| log_emit: "cluster_log im out lg \<Longrightarrow> out p = c # cs \<Longrightarrow> cluster_log im (out(p := cs)) (lg @ [c])"

section \<open>The directories of a log\<close>

fun change_dir :: "serviceChange \<Rightarrow> directory \<Rightarrow> directory" where
  "change_dir (ChangePut p es) d = d(p \<mapsto> (map the es, False))"
| "change_dir (ChangeRemove p) d = d(p := None)"
| "change_dir (ChangeTimeout p) d = d(p := map_option (\<lambda>(es, _). (es, True)) (d p))"

definition dirs_after :: "(string \<Rightarrow> directory) \<Rightarrow> change list \<Rightarrow> string \<Rightarrow> directory" where
  "dirs_after ds lg = fold (\<lambda>(n, c) ds. ds(n := change_dir c (ds n))) lg ds"

abbreviation dirs_of_log :: "change list \<Rightarrow> string \<Rightarrow> directory" where
  "dirs_of_log \<equiv> dirs_after (\<lambda>_. Map.empty)"

lemma dirs_after_simps [simp]:
  "dirs_after ds [] = ds"
  "dirs_after ds (lg @ [(m, c)]) n = (if n = m then change_dir c (dirs_after ds lg n) else dirs_after ds lg n)"
  by (simp_all add: dirs_after_def)

lemma dirs_after_append: "dirs_after ds (lg @ lg') = dirs_after (dirs_after ds lg) lg'"
  by (simp add: dirs_after_def)

text \<open>A change that keeps to the discipline of registrations.\<close>

definition good_change :: "change \<Rightarrow> (string \<Rightarrow> directory) \<Rightarrow> bool" where
  "good_change x ds = (case x of (n, c) \<Rightarrow>
     (case c of
        ChangePut p es \<Rightarrow> CHR ''/'' \<notin> set n \<and> CHR ''/'' \<notin> set p \<and> ds n p = None \<and> None \<notin> set es
          \<and> distinct es \<and> (\<forall>e \<in> set es. Pod (the e) = p)
      | _ \<Rightarrow> True))"

inductive good_after :: "(string \<Rightarrow> directory) \<Rightarrow> change list \<Rightarrow> bool" for ds where
  good_nil: "good_after ds []"
| good_snoc: "good_after ds lg \<Longrightarrow> good_change x (dirs_after ds lg) \<Longrightarrow> good_after ds (lg @ [x])"

abbreviation good_log :: "change list \<Rightarrow> bool" where
  "good_log \<equiv> good_after (\<lambda>_. Map.empty)"

section \<open>Servers keep to the discipline\<close>

text \<open>
  What the requests of a pod that are not answered yet are: none, its registration, or the rest of
  its deregistration.
\<close>

definition pod_inv :: "string \<Rightarrow> impl \<Rightarrow> change list \<Rightarrow> (string \<Rightarrow> directory) \<Rightarrow> bool" where
  "pod_inv p i out ds \<longleftrightarrow>
     im_pod i = p
     \<and> (\<forall>n. ds n p \<noteq> None \<longrightarrow> serviceToLease i n \<noteq> None \<or> (n, ChangeRemove p) \<in> set out)
     \<and> (out = []
        \<or> (\<exists>n es. out = [(n, ChangePut p (map Some es))] \<and> distinct es \<and> (\<forall>e \<in> set es. Pod e = p)
              \<and> ds n p = None \<and> serviceToLease i n \<noteq> None \<and> CHR ''/'' \<notin> set n \<and> CHR ''/'' \<notin> set p)
        \<or> (\<exists>n. out = [(n, ChangeTimeout p), (n, ChangeRemove p)] \<or> out = [(n, ChangeRemove p)]))"

definition cluster_inv :: "(string \<Rightarrow> impl) \<Rightarrow> (string \<Rightarrow> change list) \<Rightarrow> change list \<Rightarrow> bool" where
  "cluster_inv im out lg \<longleftrightarrow> good_log lg \<and> (\<forall>p. pod_inv p (im p) (out p) (dirs_of_log lg))"

lemma RegisterService_ok:
  assumes "RegisterService net n es s = ((ch, None), reqs, s')"
  shows "serviceToLease s n = None \<and> ch \<and> im_pod s' = im_pod s \<and> (\<exists>l. serviceToLease s' = (serviceToLease s)(n \<mapsto> l))"
  using assms by (auto simp: RegisterService_def Let_def split: if_splits sum.splits option.splits)

lemma RegisterService_error:
  assumes "RegisterService net n es s = ((ch, Some err), reqs, s')"
  shows "im_pod s' = im_pod s \<and> (\<forall>m. serviceToLease s m \<noteq> None \<longrightarrow> serviceToLease s' m \<noteq> None)"
  using assms by (auto simp: RegisterService_def Let_def split: if_splits sum.splits option.splits)

lemma UnregisterService_lease:
  assumes "UnregisterService n s = (reqs, s')"
  shows "im_pod s' = im_pod s \<and> (\<forall>m. m \<noteq> n \<longrightarrow> serviceToLease s' m = serviceToLease s m)
    \<and> (serviceToLease s n = None \<longrightarrow> reqs = [] \<and> s' = s)"
  using assms by (auto simp: UnregisterService_def split: option.splits)

lemma pod_inv_register:
  assumes "pod_inv p i [] ds" and "CHR ''/'' \<notin> set n" and "CHR ''/'' \<notin> set p"
    and "distinct es" and "\<forall>e \<in> set es. Pod e = p" and "RegisterService net n es i = ((ch, None), reqs, i')"
  shows "pod_inv p i' (changes_of reqs) ds"
proof -
  have i: "im_pod i = p" "\<forall>m. ds m p \<noteq> None \<longrightarrow> serviceToLease i m \<noteq> None"
    using assms(1) by (simp_all add: pod_inv_def)
  note ok = RegisterService_ok [OF assms(6)]
  then have "ds n p = None" using i(2) by blast
  moreover have "changes_of reqs = [(n, ChangePut p (map Some es))]" "serviceToLease i' n \<noteq> None"
    using RegisterService_changes [of n i net es reqs i'] assms(2,3,6) i(1) ok by auto
  ultimately show ?thesis using ok i assms(2-5) unfolding pod_inv_def by auto
qed

lemma pod_inv_unregister:
  assumes "pod_inv p i [] ds" and "CHR ''/'' \<notin> set n" and "CHR ''/'' \<notin> set p"
    and "UnregisterService n i = (reqs, i')"
  shows "pod_inv p i' (changes_of reqs) ds"
proof (cases "serviceToLease i n")
  case None
  then show ?thesis using UnregisterService_lease [OF assms(4)] assms(1) by (simp add: changes_of_def List.map_filter_def)
next
  case (Some l)
  have i: "im_pod i = p" "\<forall>m. ds m p \<noteq> None \<longrightarrow> serviceToLease i m \<noteq> None"
    using assms(1) by (simp_all add: pod_inv_def)
  have "changes_of reqs = [(n, ChangeTimeout p), (n, ChangeRemove p)]"
    using UnregisterService_changes(1) [of n i] assms(2-4) i(1) Some by simp
  then show ?thesis using UnregisterService_lease [OF assms(4)] i
    by (auto simp: pod_inv_def)
qed

text \<open>Changes of other pods do not matter.\<close>

lemma pod_inv_cong: "(\<And>n. ds' n p = ds n p) \<Longrightarrow> pod_inv p i out ds' = pod_inv p i out ds"
  by (simp add: pod_inv_def)

lemma pod_inv_expire:
  "pod_inv p i out ds \<Longrightarrow> pod_inv p i out (\<lambda>m. if m = n then change_dir (ChangeTimeout q) (ds m) else ds m)"
  by (fastforce simp: pod_inv_def split: if_splits)

lemma pod_inv_emit:
  assumes "pod_inv p i ((n, c) # cs) ds"
  shows "good_change (n, c) ds"
    and "pod_inv p i cs (\<lambda>m. if m = n then change_dir c (ds m) else ds m)"
    and "c = ChangeRemove p \<or> c = ChangeTimeout p \<or> (\<exists>es. c = ChangePut p es)"
proof -
  consider es where "c = ChangePut p (map Some es)" "cs = []" "distinct es" "\<forall>e \<in> set es. Pod e = p" "ds n p = None"
      "serviceToLease i n \<noteq> None" "CHR ''/'' \<notin> set n" "CHR ''/'' \<notin> set p"
    | "c = ChangeTimeout p" "cs = [(n, ChangeRemove p)]" | "c = ChangeRemove p" "cs = []"
    using assms by (auto simp: pod_inv_def)
  then show "good_change (n, c) ds" "pod_inv p i cs (\<lambda>m. if m = n then change_dir c (ds m) else ds m)"
    "c = ChangeRemove p \<or> c = ChangeTimeout p \<or> (\<exists>es. c = ChangePut p es)"
    using assms by (cases; auto simp: pod_inv_def good_change_def distinct_map)+
qed

lemma cluster_log_inv: "cluster_log im out lg \<Longrightarrow> cluster_inv im out lg"
proof (induction rule: cluster_log.induct)
  case log_start
  show ?case by (simp add: cluster_inv_def good_nil pod_inv_def new_impl_def)
next
  case (log_register im out lg p n es net ch reqs i)
  have inv: "pod_inv p (im p) [] (dirs_of_log lg)"
    using log_register.IH log_register.hyps(2) unfolding cluster_inv_def by metis
  show ?case using pod_inv_register [OF inv log_register.hyps(3-7)] log_register.IH
    by (simp add: cluster_inv_def)
next
  case (log_failed im out lg p net n es ch err reqs i)
  have "pod_inv p (im p) [] (dirs_of_log lg)" using log_failed unfolding cluster_inv_def by metis
  then have "pod_inv p i [] (dirs_of_log lg)"
    using RegisterService_error [OF log_failed.hyps(3)] by (simp add: pod_inv_def)
  then show ?case using log_failed by (simp add: cluster_inv_def)
next
  case (log_unregister im out lg p n reqs i)
  have inv: "pod_inv p (im p) [] (dirs_of_log lg)"
    using log_unregister unfolding cluster_inv_def by metis
  show ?case using pod_inv_unregister [OF inv log_unregister.hyps(3-5)] log_unregister.IH
    by (simp add: cluster_inv_def)
next
  case (log_expire im out lg n p)
  have d: "dirs_of_log (lg @ [(n, ChangeTimeout p)]) = (\<lambda>m. if m = n then change_dir (ChangeTimeout p) (dirs_of_log lg m) else dirs_of_log lg m)"
    by (rule ext) simp
  have "good_log (lg @ [(n, ChangeTimeout p)])"
    using log_expire.IH by (auto simp: cluster_inv_def good_change_def intro: good_snoc)
  moreover have "pod_inv q (im q) (out q) (dirs_of_log (lg @ [(n, ChangeTimeout p)]))" for q
    unfolding d using log_expire.IH by (intro pod_inv_expire) (simp add: cluster_inv_def)
  ultimately show ?case by (simp add: cluster_inv_def)
next
  case (log_emit im out lg p c cs)
  obtain n x where c: "c = (n, x)" by (cases c)
  have inv: "pod_inv p (im p) ((n, x) # cs) (dirs_of_log lg)"
    using log_emit.IH log_emit.hyps(2) c unfolding cluster_inv_def by metis
  have d: "dirs_of_log (lg @ [c]) = (\<lambda>m. if m = n then change_dir x (dirs_of_log lg m) else dirs_of_log lg m)"
    by (rule ext) (simp add: c)
  note emit = pod_inv_emit [OF inv]
  have "pod_inv q (im q) (out q) (dirs_of_log (lg @ [c]))" if "q \<noteq> p" for q
  proof -
    have "pod_inv q (im q) (out q) (dirs_of_log lg)" using log_emit.IH by (simp add: cluster_inv_def)
    moreover have "dirs_of_log (lg @ [c]) m q = dirs_of_log lg m q" for m
      unfolding d using emit(3) that by (elim disjE exE) simp_all
    ultimately show ?thesis using pod_inv_cong [of "dirs_of_log (lg @ [c])" q "dirs_of_log lg"] by blast
  qed
  moreover have "pod_inv p (im p) cs (dirs_of_log (lg @ [c]))" unfolding d by (rule emit(2))
  moreover have "good_log (lg @ [c])"
    using log_emit.IH good_snoc [where x = c and lg = lg] emit(1) c by (simp add: cluster_inv_def)
  ultimately show ?case by (simp add: cluster_inv_def)
qed

section \<open>What a client makes of the log\<close>

text \<open>
  The copies of a client that started with \<open>svcs0\<close> and has read some changes. The order in which a
  removal goes through the endpoints is any. A client that watches from the start knows its
  services, \<open>K\<close>, when no pod is registered.
\<close>

inductive client_reads :: "(string \<rightharpoonup> service) \<Rightarrow> change list \<Rightarrow> (string \<rightharpoonup> service) \<Rightarrow> bool" for svcs0 where
  reads_nil: "client_reads svcs0 [] svcs0"
| reads_snoc: "client_reads svcs0 lg svcs \<Longrightarrow>
    (\<And>p s. c = ChangeRemove p \<Longrightarrow> svcs n = Some s \<Longrightarrow> set_order ord (remaining_endpoints p s)) \<Longrightarrow>
    on_service_change ord (n, c) svcs = Ret svcs' \<Longrightarrow> client_reads svcs0 (lg @ [(n, c)]) svcs'"

definition new_services :: "string set \<Rightarrow> string \<rightharpoonup> service" where
  "new_services K = (\<lambda>n. if n \<in> K then Some (NewService n) else None)"

abbreviation has_seen :: "string set \<Rightarrow> change list \<Rightarrow> (string \<rightharpoonup> service) \<Rightarrow> bool" where
  "has_seen K \<equiv> client_reads (new_services K)"

lemma good_after_snocD: "good_after ds (lg @ [x]) \<Longrightarrow> good_after ds lg \<and> good_change x (dirs_after ds lg)"
  by (erule good_after.cases) auto

lemma those_the: "None \<notin> set es \<Longrightarrow> those es = Some (map the es)"
proof (induction es)
  case (Cons a es)
  then show ?case by (cases a) auto
qed simp

lemma distinct_the: "None \<notin> set es \<Longrightarrow> distinct es \<Longrightarrow> distinct (map the es)"
  by (auto simp: distinct_map inj_on_def) (metis option.expand)

lemma on_service_change_implements:
  assumes "implements (ds n) s" and "svcs n = Some s" and "good_change (n, c) ds"
    and "\<And>p. c = ChangeRemove p \<Longrightarrow> set_order ord (remaining_endpoints p s)"
  shows "\<exists>s'. on_service_change ord (n, c) svcs = Ret (svcs(n \<mapsto> s')) \<and> implements (change_dir c (ds n)) s'"
proof (cases c)
  case (ChangePut p es)
  then have g: "ds n p = None" "None \<notin> set es" "distinct es" "\<forall>e \<in> set es. Pod (the e) = p"
    using assms(3) by (simp_all add: good_change_def)
  have "distinct (map the es)" by (rule distinct_the [OF g(2,3)])
  then have "disciplined (OpRegister p (map the es)) (ds n)" using g by (auto simp: disciplined_def)
  then have "implements ((ds n)(p \<mapsto> (map the es, False))) (RegisterPod p (map the es) s)"
    using implements_Register [OF assms(1)] by fastforce
  moreover have "on_service_change ord (n, c) svcs = Ret (svcs(n \<mapsto> RegisterPod p (map the es) s))"
    using assms(2) ChangePut those_the [OF g(2)] by (simp add: on_service_change_def change_op_def)
  ultimately show ?thesis using ChangePut by auto
next
  case (ChangeRemove p)
  then show ?thesis using implements_Remove [OF assms(1) assms(4)] assms(2)
    by (auto simp: on_service_change_def change_op_def)
next
  case (ChangeTimeout p)
  then show ?thesis using implements_Hang [OF assms(1), of p] assms(2)
    by (auto simp: on_service_change_def change_op_def)
qed

text \<open>What the copies of a client have to do with the directories, before and after it reads.\<close>

definition copies_of :: "(string \<Rightarrow> directory) \<Rightarrow> (string \<rightharpoonup> service) \<Rightarrow> bool" where
  "copies_of ds svcs \<longleftrightarrow> (\<forall>n s. svcs n = Some s \<longrightarrow> implements (ds n) s)"

lemma copies_of_new: "copies_of (\<lambda>_. Map.empty) (new_services K)"
  by (auto simp: copies_of_def new_services_def implements_New split: if_splits)

lemma client_reads_copies:
  assumes "client_reads svcs0 lg svcs" and "copies_of ds svcs0" and "good_after ds lg"
  shows "dom svcs = dom svcs0 \<and> copies_of (dirs_after ds lg) svcs"
  using assms(1,3)
proof (induction rule: client_reads.induct)
  case reads_nil
  show ?case using assms(2) by simp
next
  case (reads_snoc lg svcs c n ord svcs')
  note good = good_after_snocD [OF reads_snoc.prems]
  have IH: "dom svcs = dom svcs0" "copies_of (dirs_after ds lg) svcs" using reads_snoc.IH good by blast+
  show ?case
  proof (cases "svcs n")
    case None
    then have "svcs' = svcs" using reads_snoc.hyps(3) by (simp add: on_service_change_def)
    then show ?thesis using IH None by (auto simp: copies_of_def)
  next
    case (Some s)
    then have imp: "implements (dirs_after ds lg n) s" using IH(2) by (simp add: copies_of_def)
    obtain s' where s': "on_service_change ord (n, c) svcs = Ret (svcs(n \<mapsto> s'))" "implements (change_dir c (dirs_after ds lg n)) s'"
      using on_service_change_implements [where ds = "dirs_after ds lg" and n = n and s = s and svcs = svcs and c = c and ord = ord]
        imp Some good reads_snoc.hyps(2) by blast
    then have eq: "svcs' = svcs(n \<mapsto> s')" using reads_snoc.hyps(3) by simp
    have "dom svcs' = dom svcs0" unfolding eq using IH(1) Some by auto
    moreover have "copies_of (dirs_after ds (lg @ [(n, c)])) svcs'"
      unfolding eq using IH(2) s'(2) by (auto simp: copies_of_def)
    ultimately show ?thesis by blast
  qed
qed

text \<open>A client can always read on.\<close>

lemma client_reads_total:
  assumes "good_after ds lg" and "copies_of ds svcs0"
  shows "\<exists>svcs. client_reads svcs0 lg svcs"
  using assms(1)
proof induction
  case good_nil
  show ?case using reads_nil by blast
next
  case (good_snoc lg x)
  obtain n c where x: "x = (n, c)" by (cases x)
  obtain svcs where svcs: "client_reads svcs0 lg svcs" using good_snoc.IH by blast
  note imp = client_reads_copies [OF svcs assms(2) good_snoc.hyps(1)]
  show ?case
  proof (cases "svcs n")
    case None
    then have "on_service_change [] (n, c) svcs = Ret svcs" by (simp add: on_service_change_def)
    then have "client_reads svcs0 (lg @ [(n, c)]) svcs"
      using reads_snoc [where ord = "[]" and c = c and n = n and svcs' = svcs, OF svcs] None by simp
    then show ?thesis using x by blast
  next
    case (Some s)
    then have s: "implements (dirs_after ds lg n) s" using imp by (simp add: copies_of_def)
    then have fin: "finite (remaining_endpoints p s)" for p
      by (metis List.finite_set finite_Diff implements_def remaining_endpoints_def)
    obtain ord where ord: "\<And>p. c = ChangeRemove p \<Longrightarrow> set_order ord (remaining_endpoints p s)"
    proof (cases c)
      case (ChangeRemove p)
      obtain ord where "set ord = remaining_endpoints p s" "distinct ord"
        using finite_distinct_list [OF fin] by blast
      then show thesis using that [of ord] ChangeRemove by (simp add: set_order_def)
    qed (use that in blast)+
    obtain s' where "on_service_change ord (n, c) svcs = Ret (svcs(n \<mapsto> s'))"
      using on_service_change_implements [of "dirs_after ds lg" n s svcs c ord] s Some good_snoc.hyps(2) x ord by blast
    then have "client_reads svcs0 (lg @ [(n, c)]) (svcs(n \<mapsto> s'))"
      using reads_snoc [where ord = ord and c = c and n = n and svcs' = "svcs(n \<mapsto> s')", OF svcs] Some ord
      by (metis option.inject)
    then show ?thesis using x by blast
  qed
qed

text \<open>What was said of a log holds of everything read of it, and of the rest of it.\<close>

lemma good_after_prefix: "good_after ds (lg @ rest) \<Longrightarrow> good_after ds lg"
proof (induction rest rule: rev_induct)
  case (snoc x rest)
  then show ?case using good_after_snocD [of ds "lg @ rest" x] by simp
qed simp

lemma good_after_rest: "good_after ds (lg @ rest) \<Longrightarrow> good_after (dirs_after ds lg) rest"
proof (induction rest rule: rev_induct)
  case Nil
  show ?case by (rule good_nil)
next
  case (snoc x rest)
  then have "good_after (dirs_after ds lg) rest" "good_change x (dirs_after ds (lg @ rest))"
    using good_after_snocD [of ds "lg @ rest" x] by simp_all
  then show ?case using good_snoc by (metis dirs_after_append)
qed

lemma cluster_log_good: "cluster_log im out lg \<Longrightarrow> good_log lg"
  using cluster_log_inv by (simp add: cluster_inv_def)

lemma cluster_log_lease:
  "cluster_log im out lg \<Longrightarrow> out p = [] \<Longrightarrow> dirs_of_log lg n p \<noteq> None \<Longrightarrow> serviceToLease (im p) n \<noteq> None"
proof -
  assume "cluster_log im out lg" and p: "out p = []" "dirs_of_log lg n p \<noteq> None"
  then have "pod_inv p (im p) (out p) (dirs_of_log lg)" using cluster_log_inv cluster_inv_def by blast
  then have "serviceToLease (im p) n \<noteq> None \<or> (n, ChangeRemove p) \<in> set (out p)"
    using p(2) unfolding pod_inv_def by blast
  then show ?thesis using p(1) by simp
qed

end
