(* ===== verification/LateClients.thy ===== *)
theory LateClients
  imports ClusterView
begin

text \<open>
  A client that starts late: it reads the keys of the services that etcd holds at that moment and
  then the changes that follow (\<open>GetServices\<close> of \<open>core/store/impl/impl.go\<close>). The keys say which pods are
  registered, not which leases have expired.
\<close>

section \<open>What a load makes of the keys\<close>

lemma dirs_of_None: "dirs_of xs ds n = None \<longleftrightarrow> ds n = None \<and> n \<notin> fst ` set xs"
proof (induction xs ds rule: dirs_of.induct)
  case (2 m p es xs d)
  then show ?case unfolding dirs_of.simps 2 by auto
qed simp

lemma dirs_of_Some:
  assumes "distinct (map (\<lambda>(n, p, es). (n, p)) xs)"
    and "\<forall>(m, q, fs) \<in> set xs. case ds m of Some d \<Rightarrow> d q = None | None \<Rightarrow> True"
    and "dirs_of xs ds n = Some d"
  shows "d p = Some v \<longleftrightarrow> (\<exists>es. (n, p, es) \<in> set xs \<and> v = (es, False)) \<or> (\<exists>d0. ds n = Some d0 \<and> d0 p = Some v)"
  using assms
proof (induction xs arbitrary: ds)
  case (Cons x xs)
  obtain m q fs where x: "x = (m, q, fs)" by (cases x)
  let ?ds = "ds(m \<mapsto> (case ds m of Some x \<Rightarrow> x | None \<Rightarrow> Map.empty)(q \<mapsto> (fs, False)))"
  have new: "\<forall>(k, r, gs) \<in> set xs. (k, r) \<noteq> (m, q)" using Cons.prems(1) x by (force simp: image_iff)
  have fresh: "case ds m of Some d \<Rightarrow> d q = None | None \<Rightarrow> True" using Cons.prems(2) x by simp
  have "\<forall>(k, r, gs) \<in> set xs. case ?ds k of Some d \<Rightarrow> d r = None | None \<Rightarrow> True"
    using Cons.prems(2) new by (fastforce split: option.splits)
  moreover have "dirs_of xs ?ds n = Some d" "distinct (map (\<lambda>(n, p, es). (n, p)) xs)"
    using Cons.prems(1,3) x by simp_all
  ultimately have "d p = Some v \<longleftrightarrow>
      (\<exists>es. (n, p, es) \<in> set xs \<and> v = (es, False)) \<or> (\<exists>d0. ?ds n = Some d0 \<and> d0 p = Some v)"
    using Cons.IH [of ?ds] by blast
  moreover have "(\<exists>d0. ?ds n = Some d0 \<and> d0 p = Some v) \<longleftrightarrow>
      (n, p) = (m, q) \<and> v = (fs, False) \<or> (\<exists>d0. ds n = Some d0 \<and> d0 p = Some v)"
    using fresh by (auto split: option.splits)
  ultimately show ?case unfolding x by auto
qed simp

lemma implements_all_empty: "implements_all Map.empty Map.empty"
  by (simp add: implements_all_def)

section \<open>The keys a log has left in etcd\<close>

definition stored_regs :: "(string \<Rightarrow> directory) \<Rightarrow> registration list \<Rightarrow> bool" where
  "stored_regs ds xs \<longleftrightarrow>
     distinct (map (\<lambda>(n, p, es). (n, p)) xs) \<and> (\<forall>n p es. (n, p, es) \<in> set xs \<longleftrightarrow> (\<exists>h. ds n p = Some (es, h)))"

text \<open>The directories with every lease alive.\<close>

definition revived :: "(string \<Rightarrow> directory) \<Rightarrow> string \<Rightarrow> directory" where
  "revived ds n p = map_option (\<lambda>(es, _). (es, False)) (ds n p)"

definition good_dirs :: "(string \<Rightarrow> directory) \<Rightarrow> bool" where
  "good_dirs ds \<longleftrightarrow> (\<forall>n p es h. ds n p = Some (es, h) \<longrightarrow> good_reg (n, p, es))"

lemma good_dirs_change:
  assumes "good_dirs ds" and "good_change (n, c) ds"
  shows "good_dirs (\<lambda>m. if m = n then change_dir c (ds m) else ds m)"
proof (cases c)
  case (ChangePut p es)
  then have "distinct (map the es)" "\<forall>e \<in> set (map the es). Pod e = p"
    using assms(2) distinct_the [of es] by (auto simp: good_change_def)
  then show ?thesis using assms ChangePut by (auto simp: good_dirs_def good_change_def good_reg_def split: if_splits)
next
  case (ChangeRemove p)
  then show ?thesis using assms(1) by (auto simp: good_dirs_def split: if_splits)
next
  case (ChangeTimeout p)
  then show ?thesis using assms(1) by (auto simp: good_dirs_def split: if_splits)
qed

lemma dirs_after_snoc: "dirs_after ds (lg @ [(n, c)]) = (\<lambda>m. if m = n then change_dir c (dirs_after ds lg m) else dirs_after ds lg m)"
  by (rule ext) simp

lemma good_log_dirs: "good_log lg \<Longrightarrow> good_dirs (dirs_of_log lg)"
proof (induction rule: good_after.induct)
  case good_nil
  show ?case by (simp add: good_dirs_def)
next
  case (good_snoc lg x)
  obtain n c where x: "x = (n, c)" by (cases x)
  show ?case
    using good_dirs_change [OF good_snoc.IH] good_snoc.hyps(2) unfolding x dirs_after_snoc by blast
qed

text \<open>Loading those keys gives copies of the revived directories.\<close>

lemma load_copies:
  assumes "good_dirs ds" and "stored_regs ds xs" and "GetServices (Inr (map reg_kv xs)) hgetall = Ret (Inr svcs)"
  shows "copies_of (revived ds) svcs" and "dom svcs = {n. ds n \<noteq> Map.empty}"
proof -
  have xs: "distinct (map (\<lambda>(n, p, es). (n, p)) xs)" "\<And>n p es. (n, p, es) \<in> set xs \<longleftrightarrow> (\<exists>h. ds n p = Some (es, h))"
    using assms(2) by (auto simp: stored_regs_def)
  have "\<forall>x \<in> set xs. good_reg x" using assms(1) xs(2) by (auto simp: good_dirs_def)
  then obtain svcs' where "load_kvs hgetall (map reg_kv xs) Map.empty = Ret svcs'"
      "implements_all (dirs_of xs Map.empty) svcs'"
    using load_kvs_implements [OF _ xs(1) implements_all_empty] by auto
  then have all: "implements_all (dirs_of xs Map.empty) svcs" using assms(3) by (simp add: GetServices_def)
  show "copies_of (revived ds) svcs"
    unfolding copies_of_def
  proof (intro allI impI)
    fix n s
    assume s: "svcs n = Some s"
    then obtain d where d: "dirs_of xs Map.empty n = Some d" "implements d s"
      using all [unfolded implements_all_def, rule_format, of n] by (auto split: option.splits)
    have "d p = Some v \<longleftrightarrow> revived ds n p = Some v" for p v
      using dirs_of_Some [OF xs(1) _ d(1), of p v] xs(2) by (auto simp: revived_def)
    then have "d = revived ds n" by (intro ext) (metis option.exhaust)
    then show "implements (revived ds n) s" using d(2) by simp
  qed
  have "svcs n = None \<longleftrightarrow> n \<notin> fst ` set xs" for n
    using all [unfolded implements_all_def, rule_format, of n] dirs_of_None [of xs Map.empty n]
    by (auto split: option.splits)
  moreover have "n \<in> fst ` set xs \<longleftrightarrow> ds n \<noteq> Map.empty" for n
    using xs(2) [of n] by (force simp: image_iff fun_eq_iff)
  ultimately show "dom svcs = {n. ds n \<noteq> Map.empty}" by (auto simp: dom_def simp del: not_None_eq)
qed

section \<open>Reading on after a load\<close>

text \<open>Two families of directories with the same registrations, whatever the leases.\<close>

definition same_regs :: "(string \<Rightarrow> directory) \<Rightarrow> (string \<Rightarrow> directory) \<Rightarrow> bool" where
  "same_regs ds ds' \<longleftrightarrow> (\<forall>n p. map_option fst (ds n p) = map_option fst (ds' n p))"

text \<open>The second family has a pod unavailable only when the first has.\<close>

definition hopeful :: "(string \<Rightarrow> directory) \<Rightarrow> (string \<Rightarrow> directory) \<Rightarrow> bool" where
  "hopeful ds ds' \<longleftrightarrow> (\<forall>n p es. ds n p = Some (es, False) \<longrightarrow> ds' n p = Some (es, False))"

lemma same_regs_revived: "same_regs ds (revived ds)"
  by (auto simp: same_regs_def revived_def option.map_comp comp_def split_beta)

lemma hopeful_revived: "hopeful ds (revived ds)"
  by (simp add: hopeful_def revived_def)

lemma same_regs_None: "same_regs ds ds' \<Longrightarrow> ds n p = None \<longleftrightarrow> ds' n p = None"
  unfolding same_regs_def by (metis option.map_disc_iff)

lemma same_regs_change:
  "same_regs ds ds' \<Longrightarrow>
     same_regs (\<lambda>m. if m = n then change_dir c (ds m) else ds m) (\<lambda>m. if m = n then change_dir c (ds' m) else ds' m)"
  by (cases c) (auto simp: same_regs_def option.map_comp comp_def split_beta)

lemma hopeful_change:
  "hopeful ds ds' \<Longrightarrow>
     hopeful (\<lambda>m. if m = n then change_dir c (ds m) else ds m) (\<lambda>m. if m = n then change_dir c (ds' m) else ds' m)"
  by (cases c) (auto simp: hopeful_def split: if_splits)

lemma same_regs_after: "same_regs ds ds' \<Longrightarrow> same_regs (dirs_after ds lg) (dirs_after ds' lg)"
proof (induction lg rule: rev_induct)
  case (snoc x lg)
  obtain n c where x: "x = (n, c)" by (cases x)
  show ?case unfolding x dirs_after_snoc by (rule same_regs_change) (rule snoc.IH [OF snoc.prems])
qed simp

lemma hopeful_after: "hopeful ds ds' \<Longrightarrow> hopeful (dirs_after ds lg) (dirs_after ds' lg)"
proof (induction lg rule: rev_induct)
  case (snoc x lg)
  obtain n c where x: "x = (n, c)" by (cases x)
  show ?case unfolding x dirs_after_snoc by (rule hopeful_change) (rule snoc.IH [OF snoc.prems])
qed simp

lemma good_change_same: "same_regs ds ds' \<Longrightarrow> good_change x ds \<Longrightarrow> good_change x ds'"
  using same_regs_None [of ds ds' "fst x"] by (auto simp: good_change_def simp del: not_None_eq split: serviceChange.splits)

lemma good_after_same: "good_after ds lg \<Longrightarrow> same_regs ds ds' \<Longrightarrow> good_after ds' lg"
proof (induction rule: good_after.induct)
  case good_nil
  show ?case by (rule good_after.good_nil)
next
  case (good_snoc lg x)
  then show ?case
    using good_change_same [OF same_regs_after] by (blast intro: good_after.good_snoc)
qed

lemma dir_endpoints_same: "same_regs ds ds' \<Longrightarrow> dir_endpoints (ds n) = dir_endpoints (ds' n)"
  unfolding same_regs_def dir_endpoints_def by (auto simp: map_option_case split: option.splits) blast+

lemma dir_available_hopeful: "hopeful ds ds' \<Longrightarrow> dir_available (ds n) \<subseteq> dir_available (ds' n)"
  by (fastforce simp: hopeful_def dir_available_def)

end
