(* ===== verification/StoreGuarantees.thy ===== *)
theory StoreGuarantees
  imports Fixtures LateClients
begin

text \<open>
  What the store and the copies of services a client keeps guarantee: services as directories of
  pods, registrations as events, custom routes as a compare and set, and the messages and keys the
  processes of a cluster exchange.
\<close>

section \<open>Services\<close>

lemma implements_available:
  assumes "implements d s"
  shows "map_option Available (GetAttribute e sel s) = (if e \<in> dir_endpoints d then Some (e \<in> dir_available d) else None)"
  using assms by (cases "attrMap s e") (auto simp: implements_def GetAttribute_def)

lemma implements_listing:
  assumes "implements d s"
  shows "distinct (svEndpoints s) \<and> set (svEndpoints s) = dir_endpoints d
    \<and> (\<forall>e sel. map_option Available (GetAttribute e sel s) =
         (if e \<in> dir_endpoints d then Some (e \<in> dir_available d) else None))"
  using implements_available [OF assms] assms by (simp add: implements_def)

text \<open>C7: after any run of events in which a pod registers only while it is absent, a service lists
  the endpoints of the registered pods, each once, and reports an endpoint available exactly when
  the lease of its pod has not expired; it is a directory of pods.\<close>

theorem service_directory:
  assumes "good_run qs Map.empty (NewService n)"
  shows "distinct (svEndpoints (fold svc_apply qs (NewService n)))
    \<and> set (svEndpoints (fold svc_apply qs (NewService n))) = dir_endpoints (fold dir_apply qs Map.empty)
    \<and> map_option Available (GetAttribute e sel (fold svc_apply qs (NewService n))) =
        (if e \<in> dir_endpoints (fold dir_apply qs Map.empty)
         then Some (e \<in> dir_available (fold dir_apply qs Map.empty)) else None)"
proof -
  have "implements (fold dir_apply qs Map.empty) (fold svc_apply qs (NewService n))"
    by (rule implements_run [OF implements_New assms])
  then show ?thesis using implements_available by (simp add: implements_def)
qed

definition ex_events :: "svc_op list" where
  "ex_events = [OpRegister ''svr-1'' [ex_e1], OpRegister ''svr-2'' [ex_e2], OpHang ''svr-2'', OpRemove [ex_e2] ''svr-1'']"

theorem service_directory_witness:
  "set (svEndpoints (fold svc_apply ex_events (NewService ''echosvr''))) = {ex_e2}
   \<and> map_option Available (GetAttribute ex_e2 ''echo'' (fold svc_apply ex_events (NewService ''echosvr''))) = Some False"
proof -
  have pods: "Pod ex_e1 = ''svr-1''" "Pod ex_e2 = ''svr-2''" by (simp_all add: ex_e1_def ex_e2_def)
  have run: "good_run ex_events Map.empty (NewService ''echosvr'')"
    by (auto simp: ex_events_def op_possible_def disciplined_def pods set_order_def remaining_endpoints_def
        pod_endpoints_def NewService_def)
  have d: "fold dir_apply ex_events Map.empty = [''svr-2'' \<mapsto> ([ex_e2], True)]"
    by (simp add: ex_events_def fun_eq_iff)
  have m: "dir_endpoints [''svr-2'' \<mapsto> ([ex_e2], True)] = {ex_e2}" "dir_available [''svr-2'' \<mapsto> ([ex_e2], True)] = {}"
    by (auto simp: dir_endpoints_def dir_available_def pods split: if_splits)
  show ?thesis using service_directory [OF run, of ex_e2 "''echo''"] unfolding d m by simp
qed

text \<open>C38: in every state a service can reach, whatever the events, the list and the set hold the
  same endpoints, only they have attributes, and the attributes handed to a selector are aligned
  with the list and never nil in the part of the selector.\<close>

theorem service_wf:
  assumes "svc_reachable n s"
  shows "set (svEndpoints s) = endpointsSet s \<and> dom (attrMap s) \<subseteq> endpointsSet s
    \<and> fst (fst (Attributes sel s)) = svEndpoints s
    \<and> length (snd (fst (Attributes sel s))) = length (svEndpoints s)
    \<and> (\<forall>a \<in> set (snd (fst (Attributes sel s))). InSel a \<noteq> None)"
proof -
  have "svc_inv s" using assms by (rule svc_reachable_inv)
  then show ?thesis using attribute_of_InSel [of sel s] by (auto simp: svc_inv_def Attributes_eq)
qed

theorem service_wf_witness:
  "set (svEndpoints ex_service) = endpointsSet ex_service \<and> length (snd (fst (Attributes ''echo'' ex_service))) = 1"
proof -
  have "svc_reachable ''echosvr'' (svc_apply (OpRegister ''svr-1'' [ex_e1]) (NewService ''echosvr''))"
    by (intro svc_next [OF svc_start] svc_step) (simp add: op_possible_def)
  then have "svc_reachable ''echosvr'' ex_service" by (simp add: ex_service_def)
  from service_wf [OF this, of "''echo''"] show ?thesis by (simp add: ex_service_eq)
qed

section \<open>Loading and registering services\<close>

text \<open>Loading the keys that well-behaved servers have written gives exactly their services, and
  each lists the endpoints its pods have written, each once and all of them available.\<close>

theorem services_loaded:
  assumes "\<forall>x \<in> set xs. good_reg x" and "distinct (map (\<lambda>(n, p, es). (n, p)) xs)"
  shows "\<exists>svcs. GetServices (Inr (map reg_kv xs)) hgetall = Ret (Inr svcs) \<and> dom svcs = fst ` set xs
    \<and> (\<forall>n s. svcs n = Some s \<longrightarrow>
         distinct (svEndpoints s) \<and> set (svEndpoints s) = {e. \<exists>p es. (n, p, es) \<in> set xs \<and> e \<in> set es}
         \<and> (\<forall>e \<in> set (svEndpoints s). \<forall>sel. map_option Available (GetAttribute e sel s) = Some True))"
proof -
  obtain svcs where svcs: "load_kvs hgetall (map reg_kv xs) Map.empty = Ret svcs"
    "implements_all (dirs_of xs Map.empty) svcs"
    using load_kvs_implements [OF assms implements_all_empty] by auto
  have dom: "svcs n = None \<longleftrightarrow> n \<notin> fst ` set xs" for n
    using svcs(2) [unfolded implements_all_def, rule_format, of n] dirs_of_None [of xs Map.empty n]
    by (auto split: option.splits)
  have each: "distinct (svEndpoints s) \<and> set (svEndpoints s) = {e. \<exists>p es. (n, p, es) \<in> set xs \<and> e \<in> set es}
      \<and> (\<forall>e \<in> set (svEndpoints s). \<forall>sel. map_option Available (GetAttribute e sel s) = Some True)"
    if s: "svcs n = Some s" for n s
  proof -
    obtain d where d: "dirs_of xs Map.empty n = Some d" "implements d s"
      using svcs(2) [unfolded implements_all_def, rule_format, of n] s by (auto split: option.splits)
    have dp: "d p = Some v \<longleftrightarrow> (\<exists>es. (n, p, es) \<in> set xs \<and> v = (es, False))" for p v
      using dirs_of_Some [OF assms(2) _ d(1), of p v] by simp
    have pods: "(n, p, es) \<in> set xs \<Longrightarrow> e \<in> set es \<Longrightarrow> Pod e = p" for p es e
      using assms(1) by (auto simp: good_reg_def)
    have dirs: "dir_endpoints d = {e. \<exists>p es. (n, p, es) \<in> set xs \<and> e \<in> set es}" "dir_available d = dir_endpoints d"
      using pods unfolding dir_endpoints_def dir_available_def dp by blast+
    then have "map_option Available (GetAttribute e sel s) = Some True" if "e \<in> set (svEndpoints s)" for e sel
      using implements_available [OF d(2), of e sel] d(2) that by (simp add: implements_def)
    then show ?thesis using d(2) dirs(1) by (simp add: implements_def)
  qed
  have "dom svcs = fst ` set xs" by (simp add: dom_def dom del: not_None_eq)
  moreover have "GetServices (Inr (map reg_kv xs)) hgetall = Ret (Inr svcs)" by (simp add: GetServices_def svcs(1))
  ultimately show ?thesis using each by blast
qed

theorem services_loaded_witness:
  "\<exists>svcs s. GetServices (Inr (map reg_kv [(''echosvr'', ''svr-1'', [ex_e1]), (''echosvr'', ''svr-2'', [ex_e2])])) (\<lambda>_. Inr []) = Ret (Inr svcs)
     \<and> svcs ''echosvr'' = Some s \<and> set (svEndpoints s) = {ex_e1, ex_e2}"
proof -
  let ?xs = "[(''echosvr'', ''svr-1'', [ex_e1]), (''echosvr'', ''svr-2'', [ex_e2])]"
  have g: "\<forall>x \<in> set ?xs. good_reg x" by (simp add: good_reg_def ex_e1_def ex_e2_def)
  have k: "distinct (map (\<lambda>(n, p, es). (n, p)) ?xs)" by simp
  obtain svcs where s: "GetServices (Inr (map reg_kv ?xs)) (\<lambda>_. Inr []) = Ret (Inr svcs) \<and> dom svcs = fst ` set ?xs
    \<and> (\<forall>n s. svcs n = Some s \<longrightarrow> distinct (svEndpoints s) \<and> set (svEndpoints s) = {e. \<exists>p es. (n, p, es) \<in> set ?xs \<and> e \<in> set es}
         \<and> (\<forall>e \<in> set (svEndpoints s). \<forall>sel. map_option Available (GetAttribute e sel s) = Some True))"
    using services_loaded [OF g k, of "\<lambda>_. Inr []"] by (rule exE)
  have "dom svcs = fst ` set ?xs" using s by (rule conjunct1 [OF conjunct2])
  then have "''echosvr'' \<in> dom svcs" by simp
  then obtain x where x: "svcs ''echosvr'' = Some x" by blast
  have "set (svEndpoints x) = {e. \<exists>p es. (''echosvr'', p, es) \<in> set ?xs \<and> e \<in> set es}"
    using conjunct2 [OF conjunct2 [OF s]] x by blast
  also have "\<dots> = {ex_e1, ex_e2}"
    by (auto simp: ex_disj_distrib conj_disj_distribR)
  finally have "set (svEndpoints x) = {ex_e1, ex_e2}" .
  with conjunct1 [OF s] x show ?thesis by blast
qed

text \<open>A client that knows a service sees a successful registration of a pod as that pod's
  registration with the same endpoints, and its deregistration as the expiry of its lease followed
  by its removal; the keys and texts in between lose nothing.\<close>

theorem register_event_roundtrip:
  assumes "CHR ''/'' \<notin> set service" and "CHR ''/'' \<notin> set (im_pod s)"
    and "RegisterService net service es s = ((True, None), reqs, s')" and "svcs service = Some x"
  shows "(\<exists>c. changes_of reqs = [c] \<and> on_service_change ord c svcs = Ret (svcs(service \<mapsto> RegisterPod (im_pod s) es x)))
    \<and> (\<exists>c1 c2. changes_of (fst (UnregisterService service s')) = [c1, c2]
         \<and> on_service_change ord c1 svcs = Ret (svcs(service \<mapsto> HangPod (im_pod s) x))
         \<and> on_service_change ord c2 svcs = Ret (svcs(service \<mapsto> RemovePod ord (im_pod s) x)))"
proof -
  note reg = RegisterService_changes [OF assms(1-3)]
  have "im_pod s' = im_pod s"
    using assms(3) by (auto simp: RegisterService_def Let_def split: if_splits sum.splits option.splits)
  then have "changes_of (fst (UnregisterService service s')) =
      [(service, ChangeTimeout (im_pod s)), (service, ChangeRemove (im_pod s))]"
    using UnregisterService_changes(1) [of service s'] assms(1,2) reg(2) by simp
  then show ?thesis using reg(1) assms(4) by (simp add: on_service_change_def change_op_def)
qed

theorem register_event_roundtrip_witness:
  "\<exists>reqs s' c. RegisterService \<lparr>rn_grant = Inr 7, rn_keepalive = None, rn_put_lease = None, rn_put_data = None\<rparr>
        ''echosvr'' [ex_e2] (new_impl ''svr-2'') = ((True, None), reqs, s')
     \<and> changes_of reqs = [c]
     \<and> on_service_change [] c [''echosvr'' \<mapsto> ex_service] = Ret [''echosvr'' \<mapsto> RegisterPod ''svr-2'' [ex_e2] ex_service]"
proof -
  let ?net = "\<lparr>rn_grant = Inr 7, rn_keepalive = None, rn_put_lease = None, rn_put_data = None\<rparr>"
  obtain reqs s' where r: "RegisterService ?net ''echosvr'' [ex_e2] (new_impl ''svr-2'') = ((True, None), reqs, s')"
    by (simp add: RegisterService_def new_impl_def Let_def)
  have "CHR ''/'' \<notin> set ''echosvr''" "CHR ''/'' \<notin> set (im_pod (new_impl ''svr-2''))" by (simp_all add: new_impl_def)
  from register_event_roundtrip [OF this r, of "[''echosvr'' \<mapsto> ex_service]" ex_service "[]"] r
  show ?thesis by (auto simp: new_impl_def)
qed

section \<open>Servers that register at the same time\<close>

text \<open>C8: whatever the interleaving of the registrations, deregistrations and expiries of any
  number of servers, a client that has read any part of the changes lists, for each service it
  knows, the endpoints of the pods registered so far, each once, and has an endpoint available
  exactly when the lease of its pod has not expired; it can always read on to the end, and a pod
  with no call under way that is still registered holds its lease.\<close>

theorem cluster_view:
  assumes "cluster_log im out (seen @ rest)" and "has_seen K seen svcs" and "svcs n = Some s"
  shows "distinct (svEndpoints s) \<and> set (svEndpoints s) = dir_endpoints (dirs_of_log seen n)
    \<and> (\<forall>e sel. map_option Available (GetAttribute e sel s) =
         (if e \<in> dir_endpoints (dirs_of_log seen n) then Some (e \<in> dir_available (dirs_of_log seen n)) else None))
    \<and> (\<exists>svcs'. has_seen K (seen @ rest) svcs')
    \<and> (\<forall>p. out p = [] \<and> dirs_of_log (seen @ rest) n p \<noteq> None \<longrightarrow> serviceToLease (im p) n \<noteq> None)"
proof -
  note good = cluster_log_good [OF assms(1)]
  have "implements (dirs_of_log seen n) s"
    using client_reads_copies [OF assms(2) copies_of_new good_after_prefix [OF good]] assms(3)
    by (simp add: copies_of_def)
  then show ?thesis
    using implements_available client_reads_total [OF good copies_of_new] cluster_log_lease [OF assms(1)]
    unfolding implements_def by blast
qed

definition ex_log :: "change list" where
  "ex_log = [(''echosvr'', ChangePut ''svr-1'' [Some ex_e1]), (''echosvr'', ChangeTimeout ''svr-1'')]"

lemma ex_log_run: "\<exists>im. cluster_log im (\<lambda>_. []) ex_log"
proof -
  let ?net = "\<lparr>rn_grant = Inr 7, rn_keepalive = None, rn_put_lease = None, rn_put_data = None\<rparr>"
  let ?s = "''svr-1''" and ?n = "''echosvr''"
  obtain reqs i where r: "RegisterService ?net ?n [ex_e1] (new_impl ?s) = ((True, None), reqs, i)"
    by (simp add: RegisterService_def new_impl_def Let_def)
  have names: "CHR ''/'' \<notin> set ?n" "CHR ''/'' \<notin> set ?s" "CHR ''/'' \<notin> set (im_pod (new_impl ?s))"
    by (simp_all add: new_impl_def)
  have "changes_of reqs = [(?n, ChangePut ?s [Some ex_e1])]"
    using RegisterService_changes(1) [OF names(1,3) r] by (simp add: new_impl_def)
  then have "cluster_log (new_impl(?s := i)) ((\<lambda>_. [])(?s := [(?n, ChangePut ?s [Some ex_e1])])) []"
    using log_register [OF log_start _ names(1,2) _ _ r] by (simp add: ex_e1_def)
  then have "cluster_log (new_impl(?s := i)) ((\<lambda>_. [])(?s := [])) [(?n, ChangePut ?s [Some ex_e1])]"
    using log_emit [of "new_impl(?s := i)" "(\<lambda>_. [])(?s := [(?n, ChangePut ?s [Some ex_e1])])" "[]" ?s] by simp
  from log_expire [OF this] have "cluster_log (new_impl(?s := i)) ((\<lambda>_. [])(?s := [])) ex_log"
    by (simp add: ex_log_def)
  moreover have "(\<lambda>_. [])(?s := []) = (\<lambda>_. [] :: change list)" by (rule ext) simp
  ultimately show ?thesis by metis
qed

theorem cluster_view_witness:
  "\<exists>svcs s. has_seen {''echosvr''} ex_log svcs \<and> svcs ''echosvr'' = Some s \<and> svEndpoints s = [ex_e1]
     \<and> map_option Available (GetAttribute ex_e1 ''echo'' s) = Some False"
proof -
  obtain im where log: "cluster_log im (\<lambda>_. []) (ex_log @ [])" using ex_log_run by auto
  then have good: "good_log ex_log" using cluster_log_good by simp
  obtain svcs where seen: "has_seen {''echosvr''} ex_log svcs" using client_reads_total [OF good copies_of_new] by blast
  have "dom (new_services {''echosvr''}) = {''echosvr''}" by (auto simp: new_services_def split: if_splits)
  then have "dom svcs = {''echosvr''}" using client_reads_copies [OF seen copies_of_new good] by simp
  then obtain s where s: "svcs ''echosvr'' = Some s" by blast
  have d: "dirs_of_log ex_log ''echosvr'' = [''svr-1'' \<mapsto> ([ex_e1], True)]"
    by (simp add: ex_log_def dirs_after_def)
  have e: "dir_endpoints [''svr-1'' \<mapsto> ([ex_e1], True)] = {ex_e1}" "dir_available [''svr-1'' \<mapsto> ([ex_e1], True)] = {}"
    by (auto simp: dir_endpoints_def dir_available_def ex_e1_def split: if_splits)
  have "distinct (svEndpoints s) \<and> set (svEndpoints s) = {ex_e1}
      \<and> (\<forall>e sel. map_option Available (GetAttribute e sel s) = (if e \<in> {ex_e1} then Some (e \<in> {}) else None))"
    using cluster_view [OF log seen s] unfolding d e by blast
  then have v: "distinct (svEndpoints s)" "set (svEndpoints s) = {ex_e1}"
    "map_option Available (GetAttribute ex_e1 ''echo'' s) = Some False"
    by simp_all
  then have "svEndpoints s = [ex_e1]"
    by (cases "svEndpoints s"; cases "tl (svEndpoints s)") auto
  then show ?thesis using seen s v(3) by blast
qed

text \<open>C9: a client that starts late, loads the keys etcd holds and reads every change after that, knows
  the services that had a pod when it loaded, and for each it lists exactly the endpoints now
  registered, each once; every endpoint whose lease is alive is available to it, and one whose lease
  has expired since it loaded is not. What expired before it loaded it takes for alive.\<close>

theorem late_client:
  assumes "cluster_log im out (seen @ later)" and "stored_regs (dirs_of_log seen) xs"
    and "GetServices (Inr (map reg_kv xs)) hgetall = Ret (Inr svcs0)" and "client_reads svcs0 later svcs"
  shows "(svcs n \<noteq> None \<longleftrightarrow> dirs_of_log seen n \<noteq> Map.empty)
    \<and> (\<forall>s. svcs n = Some s \<longrightarrow>
        distinct (svEndpoints s) \<and> set (svEndpoints s) = dir_endpoints (dirs_of_log (seen @ later) n)
        \<and> (\<forall>e sel. map_option Available (GetAttribute e sel s) =
             (if e \<in> dir_endpoints (dirs_of_log (seen @ later) n)
              then Some (e \<in> dir_available (dirs_after (revived (dirs_of_log seen)) later n)) else None)))
    \<and> dir_available (dirs_of_log (seen @ later) n) \<subseteq> dir_available (dirs_after (revived (dirs_of_log seen)) later n)"
proof -
  have good: "good_log (seen @ later)" by (rule cluster_log_good [OF assms(1)])
  note load = load_copies [OF good_log_dirs [OF good_after_prefix [OF good]] assms(2,3)]
  have "good_after (revived (dirs_of_log seen)) later"
    by (rule good_after_same [OF good_after_rest [OF good] same_regs_revived])
  note read = client_reads_copies [OF assms(4) load(1) this]
  have same: "dir_endpoints (dirs_after (revived (dirs_of_log seen)) later n) = dir_endpoints (dirs_of_log (seen @ later) n)"
    unfolding dirs_after_append by (rule dir_endpoints_same [OF same_regs_after [OF same_regs_revived], symmetric])
  have known: "svcs n \<noteq> None \<longleftrightarrow> dirs_of_log seen n \<noteq> Map.empty"
    using read load(2) by (auto simp: dom_def set_eq_iff)
  have "distinct (svEndpoints s) \<and> set (svEndpoints s) = dir_endpoints (dirs_of_log (seen @ later) n)
      \<and> (\<forall>e sel. map_option Available (GetAttribute e sel s) =
           (if e \<in> dir_endpoints (dirs_of_log (seen @ later) n)
            then Some (e \<in> dir_available (dirs_after (revived (dirs_of_log seen)) later n)) else None))"
    if s: "svcs n = Some s" for s
  proof -
    have "implements (dirs_after (revived (dirs_of_log seen)) later n) s" using read s by (simp add: copies_of_def)
    from implements_listing [OF this] show ?thesis unfolding same .
  qed
  then show ?thesis
    using known dir_available_hopeful [OF hopeful_after [OF hopeful_revived]] unfolding dirs_after_append by blast
qed

lemma ex_log_dirs: "dirs_of_log ex_log ''echosvr'' = [''svr-1'' \<mapsto> ([ex_e1], True)]"
  by (simp add: ex_log_def dirs_after_def)

lemma ex_pod1_dir:
  "dir_endpoints [''svr-1'' \<mapsto> ([ex_e1], h)] = {ex_e1}"
  "dir_available [''svr-1'' \<mapsto> ([ex_e1], h)] = (if h then {} else {ex_e1})"
  by (auto simp: dir_endpoints_def dir_available_def ex_e1_def split: if_splits)

text \<open>The run: the lease of the only pod expires, then the client loads; the endpoint is available to it.\<close>

theorem late_client_witness:
  "\<exists>im svcs s. cluster_log im (\<lambda>_. []) ex_log
     \<and> GetServices (Inr (map reg_kv [(''echosvr'', ''svr-1'', [ex_e1])])) (\<lambda>_. Inr []) = Ret (Inr svcs)
     \<and> svcs ''echosvr'' = Some s \<and> set (svEndpoints s) = {ex_e1}
     \<and> map_option Available (GetAttribute ex_e1 ''echo'' s) = Some True \<and> dir_available (dirs_of_log ex_log ''echosvr'') = {}"
proof -
  let ?n = "''echosvr''" and ?xs = "[(''echosvr'', ''svr-1'', [ex_e1])]"
  obtain im where log: "cluster_log im (\<lambda>_. []) (ex_log @ [])" using ex_log_run by auto
  have other: "m \<noteq> ?n \<Longrightarrow> dirs_of_log ex_log m = Map.empty" for m by (simp add: ex_log_def dirs_after_def)
  have regs: "(m, p, es) \<in> set ?xs \<longleftrightarrow> (\<exists>h. dirs_of_log ex_log m p = Some (es, h))" for m p es
    using ex_log_dirs other [of m] by (cases "m = ?n") (auto split: if_splits)
  then have stored: "stored_regs (dirs_of_log ex_log) ?xs" unfolding stored_regs_def by simp
  have g: "\<forall>x \<in> set ?xs. good_reg x" "distinct (map (\<lambda>(n, p, es). (n, p)) ?xs)"
    by (simp_all add: good_reg_def ex_e1_def)
  obtain svcs where svcs: "GetServices (Inr (map reg_kv ?xs)) (\<lambda>_. Inr []) = Ret (Inr svcs)"
    using load_kvs_implements [OF g implements_all_empty, of "\<lambda>_. Inr []"] by (auto simp: GetServices_def)
  note c = late_client [OF log stored svcs reads_nil, of ?n]
  have av: "dir_available (dirs_after (revived (dirs_of_log ex_log)) [] ?n) = {ex_e1}"
    using ex_pod1_dir(2) [of False] by (simp add: revived_def [abs_def] ex_log_dirs if_distrib fun_upd_def cong: if_cong)
  have "svcs ?n \<noteq> None" using c ex_log_dirs by simp
  then obtain s where s: "svcs ?n = Some s" by blast
  then have "set (svEndpoints s) = {ex_e1}" "map_option Available (GetAttribute ex_e1 ''echo'' s) = Some True"
    using c unfolding append_Nil2 ex_log_dirs ex_pod1_dir av by auto
  then show ?thesis using log svcs s ex_log_dirs ex_pod1_dir(2) [of True] by auto
qed

text \<open>
  What changes between the load and the start of the watch is never read: with the registration
  removed in between, the client goes on offering the endpoint.
\<close>

lemma change_missed:
  assumes "GetServices (Inr (map reg_kv [(n, p, es)])) hgetall = Ret (Inr svcs)" and "good_reg (n, p, es)"
    and "dirs_of_log seen n = [p \<mapsto> (es, False)]" and "svcs n = Some s"
  shows "set (svEndpoints s) = set es \<and> dir_endpoints (dirs_of_log (seen @ [(n, ChangeTimeout p), (n, ChangeRemove p)]) n) = {}"
proof -
  have "load_kvs hgetall (map reg_kv [(n, p, es)]) Map.empty = Ret svcs"
    using assms(1) by (auto simp: GetServices_def out_bind_eq_Ret)
  then have "implements_all (dirs_of [(n, p, es)] Map.empty) svcs"
    using load_kvs_implements [of "[(n, p, es)]", OF _ _ implements_all_empty, of hgetall] assms(2) by auto
  then have "implements [p \<mapsto> (es, False)] s"
    using assms(4) unfolding implements_all_def by (auto dest!: spec [of _ n])
  moreover have "dir_endpoints [p \<mapsto> (es, False)] = set es"
    using assms(2) by (auto simp: dir_endpoints_def good_reg_def split: if_splits)
  moreover have "dirs_of_log (seen @ [(n, ChangeTimeout p), (n, ChangeRemove p)]) n = Map.empty"
    using assms(3) by (auto simp: dirs_after_append) (auto simp: dirs_after_def)
  ultimately show ?thesis by (simp add: implements_def dir_endpoints_def)
qed

section \<open>Custom routes\<close>

text \<open>C21: \<open>SetCustomRoute\<close> is a compare and set against the route that has not expired: when there is
  none, or it is the old endpoint of the call, the new endpoint is stored, the other routes stay,
  and a later \<open>GetCustomRoute\<close> finds it; otherwise nothing changes and the route found is returned.\<close>

theorem custom_route_cas:
  assumes "redis_ok rd" and "setCustomRouteSha s \<noteq> []" and "paired rd sel hv r" and "1000 \<le> now"
    and "live_route rd now sel hv r = map_option endpoint_String cur"
    and "\<forall>x. cur = Some x \<longrightarrow> sep_free x" and "\<forall>x. old = Some x \<longrightarrow> sep_free x" and "sep_free e"
  shows "if cur = None \<or> cur = old
    then \<exists>r'. SetCustomRoute rd load None now sel hv e old timeout (s, r) = (Ret (None, None), (s, r'))
      \<and> GetCustomRoute rd None sel hv r' = (Some e, None) \<and> paired rd sel hv r'
      \<and> (\<forall>sel' hv'. (sel', hv') \<noteq> (sel, hv) \<longrightarrow> GetCustomRoute rd None sel' hv' r' = GetCustomRoute rd None sel' hv' r)
    else SetCustomRoute rd load None now sel hv e old timeout (s, r) = (Ret (cur, None), (s, r))"
proof (cases "cur = None \<or> cur = old")
  case True
  let ?r = "store_route rd now sel hv (endpoint_String e) timeout r"
  have "SetCustomRoute rd load None now sel hv e old timeout (s, r) = (Ret (None, None), (s, ?r))"
    using assms(5) True
    by (auto simp: SetCustomRoute_loaded [OF assms(2)] set_route_script_cas [OF assms(3,4)] Let_def split: option.splits)
  moreover have "(sel', hv') \<noteq> (sel, hv) \<Longrightarrow> GetCustomRoute rd None sel' hv' ?r = GetCustomRoute rd None sel' hv' r" for sel' hv'
    by (auto simp: GetCustomRoute_def store_route_def redis_okD [OF assms(1)])
  ultimately show ?thesis
    using True GetCustomRoute_stored [OF assms(1,8)] paired_store [OF assms(1,3)] by auto
next
  case False
  then obtain x where x: "cur = Some x" "sep_free x" using assms(6) by auto
  then have "endpoint_String x \<noteq> (case old of Some o' \<Rightarrow> endpoint_String o' | None \<Rightarrow> [])"
    using False assms(7) endpoint_String_inj by (cases old) auto
  then have "SetCustomRoute rd load None now sel hv e old timeout (s, r) = (Ret (cur, None), (s, r))"
    using assms(5) x
    by (simp add: SetCustomRoute_loaded [OF assms(2)] set_route_script_cas [OF assms(3,4)] Let_def EndpointFromString_String)
  then show ?thesis using False x(1) by simp
qed

definition ex_impl :: impl where
  "ex_impl = (new_impl ''svr-1'')\<lparr>setCustomRouteSha := ''c0ffee''\<rparr>"

lemma ex_impl_sha [simp]: "setCustomRouteSha ex_impl \<noteq> []"
  by (simp add: ex_impl_def)

lemma ex_sep_free [simp]: "sep_free ex_e1" "sep_free ex_e2"
  by (simp_all add: sep_free_def ex_e1_def ex_e2_def)

definition ex_redis :: "string \<times> string \<Rightarrow> string option" where
  "ex_redis = store_route map_redis 5000 ''echo'' ''7'' (endpoint_String ex_e1) 0 Map.empty"

lemma ex_redis_paired: "paired map_redis ''echo'' ''7'' ex_redis"
  unfolding ex_redis_def by (rule paired_store [OF map_redis_ok]) (simp add: paired_def map_redis_def)

lemma ex_redis_live: "live_route map_redis now ''echo'' ''7'' ex_redis = Some (endpoint_String ex_e1)"
  unfolding ex_redis_def by (subst live_store [OF map_redis_ok]) (simp_all add: int64_range_def)

theorem custom_route_cas_witness:
  "SetCustomRoute map_redis (Inr []) None 6000 ''echo'' ''7'' ex_e2 None 0 (ex_impl, ex_redis) =
      (Ret (Some ex_e1, None), (ex_impl, ex_redis))
   \<and> (\<exists>r'. SetCustomRoute map_redis (Inr []) None 6000 ''echo'' ''7'' ex_e2 (Some ex_e1) 0 (ex_impl, ex_redis) =
      (Ret (None, None), (ex_impl, r')) \<and> GetCustomRoute map_redis None ''echo'' ''7'' r' = (Some ex_e2, None))"
proof -
  have l: "live_route map_redis 6000 ''echo'' ''7'' ex_redis = map_option endpoint_String (Some ex_e1)"
    by (simp add: ex_redis_live)
  show ?thesis
    using custom_route_cas [OF map_redis_ok ex_impl_sha ex_redis_paired _ l, of None ex_e2 "Inr []" 0]
      custom_route_cas [OF map_redis_ok ex_impl_sha ex_redis_paired _ l, of "Some ex_e1" ex_e2 "Inr []" 0] by auto
qed

section \<open>Messages and keys\<close>

text \<open>The message about a migration is read back as the selector, the header value and the two
  endpoints, when none of them contains a space and the names of the endpoints no separator.\<close>

theorem migration_message_roundtrip:
  assumes "CHR '' '' \<notin> set sel" and "CHR '' '' \<notin> set hv" and "sep_free f" and "sep_free t"
    and "CHR '' '' \<notin> set (endpoint_String f)" and "CHR '' '' \<notin> set (endpoint_String t)"
  shows "\<exists>m. NotifyMigration sel hv (Some f) (Some t) = Ret m \<and> migration_message m = Some (sel, hv, Some f, Some t)"
  using assms by (rule migration_roundtrip)

theorem migration_message_roundtrip_witness:
  "\<exists>m. NotifyMigration ''echo'' ''7'' (Some ex_p1) (Some ex_p2) = Ret m
     \<and> migration_message m = Some (''echo'', ''7'', Some ex_p1, Some ex_p2)"
  by (rule migration_message_roundtrip) (simp_all add: sep_free_def ex_ports_text, simp_all add: ex_p1_def ex_p2_def)

lemma puts_simps [simp]: "puts pre [] = []" "puts pre ((n, None) # xs) = puts pre xs"
  "puts pre ((n, Some txt) # xs) = EPut (pre @ n) txt None # puts pre xs"
  by (simp_all add: puts_def List.map_filter_def)

lemma put_all_None: "put_all pre fail xs = (None, reqs) \<Longrightarrow> reqs = puts pre xs"
  by (induction pre fail xs arbitrary: reqs rule: put_all.induct)
    (auto split: option.splits prod.splits)

text \<open>\<open>LoadConfig\<close> puts the version only when the one found is older, as its last request, and
  after every selector and every router that has a text.\<close>

theorem config_version_last:
  assumes "LoadConfig (Inr found) fail ver sels rtrs = (err, reqs)" and "EPut ''version'' ver None \<in> set reqs"
  shows "reqs = puts ''slt/'' sels @ puts ''rtr/'' rtrs @ [EPut ''version'' ver None]
    \<and> err = fail ''version'' \<and> (\<forall>v. found = Some v \<longrightarrow> v < ver)"
proof -
  obtain reqs' where r: "fst (put_all ''slt/'' fail sels) = None" "fst (put_all ''rtr/'' fail rtrs) = None"
    "reqs = reqs' @ [EPut ''version'' ver None]" "err = fail ''version''"
    using LoadConfig_version_last [OF assms] by blast
  obtain a where a: "put_all ''slt/'' fail sels = (None, a)" using r(1) by (cases "put_all ''slt/'' fail sels") auto
  obtain b where b: "put_all ''rtr/'' fail rtrs = (None, b)" using r(2) by (cases "put_all ''rtr/'' fail rtrs") auto
  show ?thesis using assms r a b put_all_None [OF a] put_all_None [OF b]
    by (auto simp: LoadConfig_def split: if_splits option.splits)
qed

theorem config_version_last_witness:
  "snd (LoadConfig (Inr (Some ''v1'')) (\<lambda>_. None) ''v2'' [(''echo'', Some ''{}'')] []) =
     [EPut ''slt/echo'' ''{}'' None, EPut ''version'' ''v2'' None]"
proof -
  have l: "LoadConfig (Inr (Some ''v1'')) (\<lambda>_. None) ''v2'' [(''echo'', Some ''{}'')] [] =
      (None, puts ''slt/'' [(''echo'', Some ''{}'')] @ puts ''rtr/'' [] @ [EPut ''version'' ''v2'' None])"
    by (rule LoadConfig_ok) (simp_all add: less_char_def)
  have m: "EPut ''version'' ''v2'' None \<in> set (puts ''slt/'' [(''echo'', Some ''{}'')] @ puts ''rtr/'' [] @ [EPut ''version'' ''v2'' None])"
    by simp
  from config_version_last [OF l m] show ?thesis unfolding l by simp
qed

end
