(* ===== verification/SdkServer.thy ===== *)
theory SdkServer
  imports Router StoreImpl
begin

text \<open>
  \<open>core/sdk/server\<close>: the table of custom routes of a server, the check of a request against it, the
  reaction to migrations, the registration of the server's endpoints, and the counters of requests
  in flight with the goroutines that report them at most once a second. A goroutine is an entry of
  \<open>waiting\<close> (its timer runs) and then of \<open>woken\<close> (it has removed its mark); what the goroutines have
  reported is the list \<open>reported\<close>, the latest first, and the calls of the migration listener are
  the list \<open>heard\<close>.
\<close>

section \<open>The table of routes\<close>

type_synonym routingTable = "string \<rightharpoonup> (string \<rightharpoonup> endpoint option)"

definition AddRoute :: "string \<Rightarrow> string \<Rightarrow> endpoint option \<Rightarrow> routingTable \<Rightarrow> routingTable" where
  "AddRoute sel hv e t = t(sel \<mapsto> (case t sel of None \<Rightarrow> Map.empty | Some m \<Rightarrow> m)(hv \<mapsto> e))"

definition GetRoute :: "string \<Rightarrow> string \<Rightarrow> routingTable \<Rightarrow> endpoint option" where
  "GetRoute sel hv t =
     (case t sel of
        None \<Rightarrow> None
      | Some m \<Rightarrow> (case m hv of None \<Rightarrow> None | Some e \<Rightarrow> e))"

definition DeleteRoute :: "string \<Rightarrow> string \<Rightarrow> routingTable \<Rightarrow> routingTable" where
  "DeleteRoute sel hv t =
     (case t sel of
        None \<Rightarrow> t
      | Some m \<Rightarrow> t(sel \<mapsto> m(hv := None)))"

definition Refresh :: "'re storeOps option \<Rightarrow> string \<Rightarrow> string \<Rightarrow> (routingTable, go_error, endpoint option) go" where
  "Refresh st sel hv = (\<lambda>t.
     case MustStore st of
       Ret g \<Rightarrow>
         (case st_GetCustomRoute g sel hv of
            (e, Some err) \<Rightarrow> (Ret None, t)
          | (e, None) \<Rightarrow> (Ret e, AddRoute sel hv e t))
     | Panicked p \<Rightarrow> (Panicked p, t)
     | Blocked \<Rightarrow> (Blocked, t))"

text \<open>The contract of a table of routes, and what a run of writes leaves in it.\<close>

datatype routeWrite = WAdd string string "endpoint option" | WDelete string string

fun last_write :: "routeWrite list \<Rightarrow> string \<Rightarrow> string \<Rightarrow> endpoint option \<Rightarrow> endpoint option" where
  "last_write [] sel hv e = e"
| "last_write (WAdd s h x # ws) sel hv e = last_write ws sel hv (if s = sel \<and> h = hv then x else e)"
| "last_write (WDelete s h # ws) sel hv e = last_write ws sel hv (if s = sel \<and> h = hv then None else e)"

locale route_table =
  fixes add :: "string \<Rightarrow> string \<Rightarrow> endpoint option \<Rightarrow> 't \<Rightarrow> 't"
    and get :: "string \<Rightarrow> string \<Rightarrow> 't \<Rightarrow> endpoint option"
    and del :: "string \<Rightarrow> string \<Rightarrow> 't \<Rightarrow> 't"
  assumes get_add: "get s' h' (add s h e t) = (if s' = s \<and> h' = h then e else get s' h' t)"
    and get_del: "get s' h' (del s h t) = (if s' = s \<and> h' = h then None else get s' h' t)"
begin

fun written :: "routeWrite list \<Rightarrow> 't \<Rightarrow> 't" where
  "written [] t = t"
| "written (WAdd s h e # ws) t = written ws (add s h e t)"
| "written (WDelete s h # ws) t = written ws (del s h t)"

lemma get_written: "get s h (written ws t) = last_write ws s h (get s h t)"
  by (induction ws t rule: written.induct) (auto simp: get_add get_del)

lemma get_moved: "get s h (add s h e (del s h t)) = e"
  by (simp add: get_add)

end

interpretation routes_of_server: route_table AddRoute GetRoute DeleteRoute
  by unfold_locales (auto simp: AddRoute_def GetRoute_def DeleteRoute_def split: option.splits)

section \<open>The state of a server\<close>

record report =
  rp_key :: string
  rp_endpoint :: "endpoint option"
  rp_selector :: string

record sdkServer =
  sv_pod :: string
  sv_endpoints :: "endpoint set"
  endpointsByService :: "string \<rightharpoonup> endpoint list"
  routingTable :: routingTable
  requestCounter :: "string \<rightharpoonup> u32"
  reportMark :: "string set"
  waiting :: "report list"
  woken :: "report list"
  reported :: "(report \<times> u32) list"
  migrationListener :: bool
  heard :: "(string \<times> string \<times> endpoint option \<times> endpoint option) list"

definition new_sdkServer :: "string \<Rightarrow> sdkServer" where
  "new_sdkServer p =
     \<lparr>sv_pod = p, sv_endpoints = {}, endpointsByService = Map.empty, routingTable = Map.empty,
      requestCounter = Map.empty, reportMark = {}, waiting = [], woken = [], reported = [],
      migrationListener = False, heard = []\<rparr>"

definition NewEndpoint :: "string \<Rightarrow> sdkServer \<Rightarrow> endpoint" where
  "NewEndpoint ip y = \<lparr>IP = ip, Pod = sv_pod y, Port = 0\<rparr>"

definition NewEndpointWithPort :: "string \<Rightarrow> u32 \<Rightarrow> sdkServer \<Rightarrow> endpoint" where
  "NewEndpointWithPort ip port y = \<lparr>IP = ip, Pod = sv_pod y, Port = port\<rparr>"

definition SetMigrationListener :: "bool \<Rightarrow> sdkServer \<Rightarrow> sdkServer" where
  "SetMigrationListener l y = y\<lparr>migrationListener := l\<rparr>"

section \<open>Migrations\<close>

definition leave_route :: "string \<Rightarrow> string \<Rightarrow> endpoint option \<Rightarrow> sdkServer \<Rightarrow> bool \<times> sdkServer" where
  "leave_route sel hv src y =
     (case src of
        None \<Rightarrow> (False, y)
      | Some f \<Rightarrow>
          if f \<in> sv_endpoints y then (True, y\<lparr>routingTable := DeleteRoute sel hv (routingTable y)\<rparr>)
          else (False, y))"

definition enter_route :: "string \<Rightarrow> string \<Rightarrow> endpoint option \<Rightarrow> sdkServer \<Rightarrow> bool \<times> sdkServer" where
  "enter_route sel hv dst y =
     (case dst of
        None \<Rightarrow> (False, y)
      | Some t \<Rightarrow>
          if t \<in> sv_endpoints y \<and> \<not> EqualEndpoints dst (GetRoute sel hv (routingTable y))
          then (True, y\<lparr>routingTable := AddRoute sel hv dst (routingTable y)\<rparr>)
          else (False, y))"

definition onMigration :: "string \<Rightarrow> string \<Rightarrow> endpoint option \<Rightarrow> endpoint option \<Rightarrow> sdkServer \<Rightarrow> sdkServer" where
  "onMigration sel hv src dst y =
     (if EqualEndpoints src dst then y
      else (let (left, y1) = leave_route sel hv src y; (entered, y2) = enter_route sel hv dst y1 in
            if (left \<or> entered) \<and> migrationListener y2 then y2\<lparr>heard := (sel, hv, src, dst) # heard y2\<rparr>
            else y2))"

section \<open>Counters and reports\<close>

definition add_requests :: "u32 \<Rightarrow> string \<Rightarrow> sdkServer \<Rightarrow> sdkServer" where
  "add_requests d key y =
     y\<lparr>requestCounter := (requestCounter y)
        (key \<mapsto> (case requestCounter y key of Some c \<Rightarrow> c | None \<Rightarrow> 0) + d)\<rparr>"

definition checkUpdate :: "report \<Rightarrow> sdkServer \<Rightarrow> sdkServer" where
  "checkUpdate rp y =
     (if rp_key rp \<in> reportMark y then y
      else y\<lparr>reportMark := insert (rp_key rp) (reportMark y), waiting := rp # waiting y\<rparr>)"

definition onResponseSent :: "report \<Rightarrow> sdkServer \<Rightarrow> sdkServer" where
  "onResponseSent rp y = checkUpdate rp (add_requests (- 1) (rp_key rp) y)"

definition count_request :: "report \<Rightarrow> sdkServer \<Rightarrow> sdkServer" where
  "count_request rp y = checkUpdate rp (add_requests 1 (rp_key rp) y)"

text \<open>The two halves of the goroutine: the mark is removed, then the counter is read and reported.\<close>

definition wake :: "report \<Rightarrow> sdkServer \<Rightarrow> sdkServer" where
  "wake rp y =
     y\<lparr>reportMark := reportMark y - {rp_key rp}, waiting := remove1 rp (waiting y), woken := rp # woken y\<rparr>"

definition send_report :: "report \<Rightarrow> sdkServer \<Rightarrow> sdkServer" where
  "send_report rp y =
     y\<lparr>woken := remove1 rp (woken y),
       reported := (rp, case requestCounter y (rp_key rp) of Some c \<Rightarrow> c | None \<Rightarrow> 0) # reported y\<rparr>"

text \<open>The calls of the store the reports are made of.\<close>

definition reportRPS :: "'r redis \<Rightarrow> cjson \<Rightarrow> go_error + string \<Rightarrow> go_error option \<Rightarrow> endpoint option \<Rightarrow> string \<Rightarrow> u32 \<Rightarrow>
    (impl \<times> 'r, go_error, go_error option \<times> attributeChangeNTF option) go" where
  "reportRPS rd cj load net endpoint sel rps =
     SetEndpointAttribute rd cj load net endpoint sel \<lparr>Weight = None, RPS = Some rps, Deadline = None\<rparr>"

definition ReportWeight :: "'r redis \<Rightarrow> cjson \<Rightarrow> go_error + string \<Rightarrow> go_error option \<Rightarrow> endpoint option \<Rightarrow> string \<Rightarrow> u32 \<Rightarrow>
    (impl \<times> 'r, go_error, go_error option \<times> attributeChangeNTF option) go" where
  "ReportWeight rd cj load net endpoint sel cost =
     SetEndpointAttribute rd cj load net endpoint sel \<lparr>Weight = Some cost, RPS = None, Deadline = None\<rparr>"

section \<open>Requests\<close>

definition hget :: "headers \<Rightarrow> string \<Rightarrow> string" where
  "hget hs k = (case hs k of None \<Rightarrow> [] | Some v \<Rightarrow> v)"

text \<open>The case of the direct strategy: is the request for the endpoint the route leads to?\<close>

definition check_direct :: "'re storeOps option \<Rightarrow> string \<Rightarrow> headers \<Rightarrow> endpoint option \<Rightarrow> (routingTable, go_error, bool) go" where
  "check_direct st sel hs endpoint = (\<lambda>t.
     let hv = hget hs ''yapr-header-value'';
         lastEndpoint = hget hs ''yapr-last-endpoint'';
         expect = GetRoute sel hv t
     in go_bind
          (if expect = None \<or> EqualEndpoints (EndpointFromString lastEndpoint) endpoint
           then Refresh st sel hv else go_ret expect)
          (\<lambda>expect. go_ret (EqualEndpoints endpoint expect)) t)"

definition wrong_endpoint :: "(int \<Rightarrow> string \<Rightarrow> string) \<Rightarrow> string \<Rightarrow> string \<Rightarrow> string \<Rightarrow> go_error" where
  "wrong_endpoint status_text sel hv rawEndpoint =
     ToGRPCError status_text (WithData ErrWrongEndpoint
       [(''selectorName'', sel), (''headerValue'', hv), (''endpoint'', rawEndpoint)])"

text \<open>
  The request as it is counted: \<open>None\<close> is the function \<open>onResponseSent\<close> that is nil, a report the
  one that counts the request out.
\<close>

definition OnRequestReceived :: "(int \<Rightarrow> string \<Rightarrow> string) \<Rightarrow> 're storeOps option \<Rightarrow> headers \<Rightarrow>
    (('m, 're) world \<times> sdkServer, go_error, report option \<times> go_error option) go" where
  "OnRequestReceived status_text st hs = (\<lambda>(w, y).
     case hs ''yapr-strategy'' of
       None \<Rightarrow> (Ret (None, Some (ErrCode ErrInvalidMetadata)), (w, y))
     | Some strategy \<Rightarrow>
         (let selectorName = hget hs ''yapr-selector'';
              rawEndpoint = hget hs ''yapr-endpoint'';
              endpoint = EndpointFromString rawEndpoint;
              rp = \<lparr>rp_key = selectorName @ ''_'' @ rawEndpoint, rp_endpoint = endpoint, rp_selector = selectorName\<rparr>
          in case GetSelector st selectorName w of
            (Panicked p, w) \<Rightarrow> (Panicked p, (w, y))
          | (Blocked, w) \<Rightarrow> (Blocked, (w, y))
          | (Ret (p, err), w) \<Rightarrow>
              if err \<noteq> None then (Ret (None, Some (ErrCode ErrSelectorNotFound)), (w, y))
              else (case selector_at selectorName w of
                  None \<Rightarrow> (Panicked NilDeref, (w, y))
                | Some c \<Rightarrow>
                    (let count = (\<lambda>should y. if should
                                   then (Ret (Some rp, None), (w, count_request rp y))
                                   else (Ret (None, None), (w, y)))
                     in if strategy = StrategyDirect
                        then (case check_direct st selectorName hs endpoint (routingTable y) of
                                (Panicked p, t) \<Rightarrow> (Panicked p, (w, y\<lparr>routingTable := t\<rparr>))
                              | (Blocked, t) \<Rightarrow> (Blocked, (w, y\<lparr>routingTable := t\<rparr>))
                              | (Ret good, t) \<Rightarrow>
                                  (let y = y\<lparr>routingTable := t\<rparr> in
                                   if good then count (MaxRequests (raw c) \<noteq> None) y
                                   else (Ret (None, Some (wrong_endpoint status_text selectorName
                                           (hget hs ''yapr-header-value'') rawEndpoint)), (w, y))))
                        else count (MaxRequests (raw c) \<noteq> None \<or> strategy = StrategyLeastRequest) y))))"

text \<open>
  The interceptor: the metadata of the context with at least one value per key, the handler, and
  the deferred \<open>onResponseSent\<close>, which runs when the handler panics, too.
\<close>

fun first_values :: "(string \<times> string list) list \<Rightarrow> headers \<Rightarrow> headers result" where
  "first_values [] hs = Ret hs"
| "first_values ((k, v) # md) hs = out_bind (nth_go v 0) (\<lambda>x. first_values md (hs(k \<mapsto> x)))"

definition GRPCServerInterceptor :: "(int \<Rightarrow> string \<Rightarrow> string) \<Rightarrow> 're storeOps option \<Rightarrow> (string \<times> string list) list option \<Rightarrow>
    (('m, 're) world \<times> sdkServer, go_error, 'a + go_error) go \<Rightarrow>
    (('m, 're) world \<times> sdkServer, go_error, 'a + go_error) go" where
  "GRPCServerInterceptor status_text st md handler = (\<lambda>s.
     case md of
       None \<Rightarrow> (Ret (Inr (ErrCode ErrMetadataNotFound)), s)
     | Some m \<Rightarrow>
         (case first_values m Map.empty of
            Ret hs \<Rightarrow>
              go_bind (OnRequestReceived status_text st hs) (\<lambda>(sent, err).
                case err of
                  Some e \<Rightarrow> go_ret (Inr e)
                | None \<Rightarrow>
                    (case sent of
                       None \<Rightarrow> handler
                     | Some rp \<Rightarrow> (\<lambda>s.
                         case handler s of
                           (Blocked, s') \<Rightarrow> (Blocked, s')
                         | (r, (w, y)) \<Rightarrow> (r, (w, onResponseSent rp y))))) s
          | Panicked p \<Rightarrow> (Panicked p, s)
          | Blocked \<Rightarrow> (Blocked, s)))"

section \<open>Registration\<close>

definition sdk_RegisterService :: "registerNet \<Rightarrow> string \<Rightarrow> endpoint list \<Rightarrow> impl \<times> sdkServer \<Rightarrow>
    go_error option \<times> etcdReq list \<times> impl \<times> sdkServer" where
  "sdk_RegisterService net n es = (\<lambda>(s, y).
     case RegisterService net n es s of
       ((ch, Some err), reqs, s) \<Rightarrow> (Some err, reqs, s, y)
     | ((ch, None), reqs, s) \<Rightarrow>
         (None, reqs, s,
          y\<lparr>sv_endpoints := sv_endpoints y \<union> set es, endpointsByService := (endpointsByService y)(n \<mapsto> es)\<rparr>))"

definition sdk_UnregisterService :: "string \<Rightarrow> impl \<times> sdkServer \<Rightarrow> etcdReq list \<times> impl \<times> sdkServer" where
  "sdk_UnregisterService n = (\<lambda>(s, y).
     case UnregisterService n s of
       (reqs, s) \<Rightarrow>
         (reqs, s,
          y\<lparr>sv_endpoints := sv_endpoints y - set (case endpointsByService y n of Some es \<Rightarrow> es | None \<Rightarrow> []),
            endpointsByService := (endpointsByService y)(n := None)\<rparr>))"

section \<open>Custom routes set by a server\<close>

text \<open>The result with what was published, which the publication's own error does not change.\<close>

definition sdk_SetCustomRoute :: "'r redis \<Rightarrow> go_error + string \<Rightarrow> go_error option \<Rightarrow> int \<Rightarrow> string \<Rightarrow> string \<Rightarrow>
    endpoint \<Rightarrow> endpoint option \<Rightarrow> int \<Rightarrow>
    ((impl \<times> 'r) \<times> sdkServer, go_error, (endpoint option \<times> go_error option) \<times> string option) go" where
  "sdk_SetCustomRoute rd load net now sel hv e old timeout = (\<lambda>(s, y).
     case SetCustomRoute rd load net now sel hv e old timeout s of
       (Panicked p, s) \<Rightarrow> (Panicked p, (s, y))
     | (Blocked, s) \<Rightarrow> (Blocked, (s, y))
     | (Ret (realOld, err), s) \<Rightarrow>
         (if err \<noteq> None then (Ret ((None, err), None), (s, y))
          else if old \<noteq> None \<and> realOld = None
          then (let y = onMigration sel hv old (Some e) y in
                (out_bind (NotifyMigration sel hv old (Some e)) (\<lambda>m. Ret ((realOld, None), Some m)), (s, y)))
          else (Ret ((realOld, None), None), (s, y))))"

definition sdk_GetEndpoints :: "'re storeOps option \<Rightarrow> string \<Rightarrow>
    (('m, 're) world, go_error, (endpoint \<rightharpoonup> attribute) option) go" where
  "sdk_GetEndpoints st n =
     go_bind (GetSelector st n) (\<lambda>(p, err).
       if err \<noteq> None then go_ret None
       else go_bind (on_selector p (EndpointsWithAttribute st [])) (\<lambda>m. go_ret (Some m)))"

section \<open>The table after a migration\<close>

lemma leave_route_eq:
  "leave_route sel hv (Some f) y =
     (f \<in> sv_endpoints y, if f \<in> sv_endpoints y then y\<lparr>routingTable := DeleteRoute sel hv (routingTable y)\<rparr> else y)"
  by (simp add: leave_route_def)

text \<open>
  A server whose endpoint a route moves to holds the route, one it moves away from holds none;
  the routes of the other header values stay.
\<close>

lemma onMigration_route:
  assumes "\<not> EqualEndpoints (Some f) (Some t)"
  shows "GetRoute s h (routingTable (onMigration sel hv (Some f) (Some t) y)) =
    (if s \<noteq> sel \<or> h \<noteq> hv then GetRoute s h (routingTable y)
     else if t \<in> sv_endpoints y
     then (if f \<notin> sv_endpoints y \<and> EqualEndpoints (Some t) (GetRoute s h (routingTable y))
           then GetRoute s h (routingTable y) else Some t)
     else if f \<in> sv_endpoints y then None else GetRoute s h (routingTable y))"
  using assms
  by (simp add: onMigration_def leave_route_def enter_route_def Let_def
      routes_of_server.get_add routes_of_server.get_del)

lemma onMigration_frame:
  "sv_endpoints (onMigration sel hv src dst y) = sv_endpoints y"
  "endpointsByService (onMigration sel hv src dst y) = endpointsByService y"
  "requestCounter (onMigration sel hv src dst y) = requestCounter y"
  "sv_pod (onMigration sel hv src dst y) = sv_pod y"
  by (simp_all add: onMigration_def leave_route_def enter_route_def Let_def split: option.split)

text \<open>The listener hears of a migration exactly when one of the endpoints concerned is local.\<close>

lemma onMigration_heard:
  assumes "\<not> EqualEndpoints (Some f) (Some t)" and "migrationListener y"
  shows "heard (onMigration sel hv (Some f) (Some t) y) =
    (if f \<in> sv_endpoints y \<or> (t \<in> sv_endpoints y \<and> \<not> EqualEndpoints (Some t) (GetRoute sel hv (routingTable y)))
     then (sel, hv, Some f, Some t) # heard y else heard y)"
  using assms
  by (auto simp: onMigration_def leave_route_def enter_route_def Let_def routes_of_server.get_del)

section \<open>The check of a request\<close>

text \<open>What the store knows of a route, an error being no route.\<close>

definition stored_route :: "'re storeOps \<Rightarrow> string \<Rightarrow> string \<Rightarrow> endpoint option" where
  "stored_route g sel hv = (case st_GetCustomRoute g sel hv of (e, None) \<Rightarrow> e | (e, Some _) \<Rightarrow> None)"

definition must_ask :: "string \<Rightarrow> headers \<Rightarrow> endpoint option \<Rightarrow> routingTable \<Rightarrow> bool" where
  "must_ask sel hs e t \<longleftrightarrow>
     GetRoute sel (hget hs ''yapr-header-value'') t = None
     \<or> EqualEndpoints (EndpointFromString (hget hs ''yapr-last-endpoint'')) e"

lemma Refresh_eq:
  "\<exists>t'. Refresh (Some g) sel hv t = (Ret (stored_route g sel hv), t')
     \<and> (\<forall>s h. GetRoute s h t' =
          (if s = sel \<and> h = hv \<and> snd (st_GetCustomRoute g sel hv) = None then stored_route g sel hv else GetRoute s h t))"
  by (auto simp: Refresh_def stored_route_def routes_of_server.get_add split: prod.split option.split)

lemma check_direct_eq:
  fixes hs :: headers and sel :: string
  defines "hv \<equiv> hget hs ''yapr-header-value''"
  shows "\<exists>t'. check_direct (Some g) sel hs e t =
      (Ret (EqualEndpoints e (if must_ask sel hs e t then stored_route g sel hv else GetRoute sel hv t)), t')
    \<and> (\<forall>s h. (s, h) \<noteq> (sel, hv) \<longrightarrow> GetRoute s h t' = GetRoute s h t)"
proof (cases "must_ask sel hs e t")
  case True
  obtain t' where t': "Refresh (Some g) sel hv t = (Ret (stored_route g sel hv), t')"
    "\<forall>s h. (s, h) \<noteq> (sel, hv) \<longrightarrow> GetRoute s h t' = GetRoute s h t"
    using Refresh_eq [of g sel hv t] by auto
  then show ?thesis using True unfolding must_ask_def hv_def
    by (intro exI [of _ t']) (auto simp: check_direct_def Let_def)
qed (auto simp: check_direct_def Let_def must_ask_def hv_def)

text \<open>A selector of the server is found, and the check decides.\<close>

definition request_report :: "headers \<Rightarrow> report" where
  "request_report hs =
     \<lparr>rp_key = hget hs ''yapr-selector'' @ ''_'' @ hget hs ''yapr-endpoint'',
      rp_endpoint = EndpointFromString (hget hs ''yapr-endpoint''), rp_selector = hget hs ''yapr-selector''\<rparr>"

lemma OnRequestReceived_direct:
  assumes "hs ''yapr-strategy'' = Some StrategyDirect"
    and "GetSelector st (hget hs ''yapr-selector'') w = (Ret (p, None), w')"
    and "selector_at (hget hs ''yapr-selector'') w' = Some c"
    and "check_direct st (hget hs ''yapr-selector'') hs (EndpointFromString (hget hs ''yapr-endpoint'')) (routingTable y)
      = (Ret good, t)"
  shows "OnRequestReceived status_text st hs (w, y) =
    (if \<not> good
     then (Ret (None, Some (wrong_endpoint status_text (hget hs ''yapr-selector'')
             (hget hs ''yapr-header-value'') (hget hs ''yapr-endpoint''))), (w', y\<lparr>routingTable := t\<rparr>))
     else if MaxRequests (raw c) \<noteq> None
     then (Ret (Some (request_report hs), None), (w', count_request (request_report hs) (y\<lparr>routingTable := t\<rparr>)))
     else (Ret (None, None), (w', y\<lparr>routingTable := t\<rparr>)))"
  using assms by (simp add: OnRequestReceived_def Let_def request_report_def)

lemma OnRequestReceived_other:
  assumes "hs ''yapr-strategy'' = Some strategy" and "strategy \<noteq> StrategyDirect"
    and "GetSelector st (hget hs ''yapr-selector'') w = (Ret (p, None), w')"
    and "selector_at (hget hs ''yapr-selector'') w' = Some c"
  shows "OnRequestReceived status_text st hs (w, y) =
    (if MaxRequests (raw c) \<noteq> None \<or> strategy = StrategyLeastRequest
     then (Ret (Some (request_report hs), None), (w', count_request (request_report hs) y))
     else (Ret (None, None), (w', y)))"
  using assms by (simp add: OnRequestReceived_def Let_def request_report_def)

lemma OnRequestReceived_errors:
  "hs ''yapr-strategy'' = None \<Longrightarrow>
     OnRequestReceived status_text st hs (w, y) = (Ret (None, Some (ErrCode ErrInvalidMetadata)), (w, y))"
  "hs ''yapr-strategy'' = Some x \<Longrightarrow> GetSelector st (hget hs ''yapr-selector'') w = (Ret (p, Some err), w') \<Longrightarrow>
     OnRequestReceived status_text st hs (w, y) = (Ret (None, Some (ErrCode ErrSelectorNotFound)), (w', y))"
  by (simp_all add: OnRequestReceived_def Let_def)

end
