(* ===== verification/SdkCluster.thy ===== *)
theory SdkCluster
  imports SdkServer
begin

text \<open>
  Servers together: what a server has registered, the route a server moves from one endpoint to
  another through the store, the message about it, and what the servers concerned then make of
  requests for either endpoint.
\<close>

section \<open>Registered endpoints\<close>

text \<open>
  The endpoints a server takes for its own are those of its services, and a service it has
  endpoints of has a lease.
\<close>

definition offers :: "sdkServer \<Rightarrow> string \<Rightarrow> endpoint \<Rightarrow> bool" where
  "offers y n e \<longleftrightarrow> (case endpointsByService y n of None \<Rightarrow> False | Some es \<Rightarrow> e \<in> set es)"

definition registry_inv :: "impl \<times> sdkServer \<Rightarrow> bool" where
  "registry_inv x = (case x of (s, y) \<Rightarrow>
     (\<forall>e. e \<in> sv_endpoints y \<longleftrightarrow> (\<exists>n. offers y n e))
     \<and> (\<forall>n. endpointsByService y n \<noteq> None \<longrightarrow> serviceToLease s n \<noteq> None))"

definition services_apart :: "sdkServer \<Rightarrow> bool" where
  "services_apart y \<longleftrightarrow> (\<forall>m n e. offers y m e \<longrightarrow> offers y n e \<longrightarrow> m = n)"

lemma registry_inv_new [simp]: "registry_inv (s, new_sdkServer p)"
  by (simp add: registry_inv_def offers_def new_sdkServer_def)

lemma RegisterService_lease:
  "RegisterService net n es s = ((ch, None), reqs, s') \<Longrightarrow>
     serviceToLease s n = None \<and> (\<exists>l. serviceToLease s' = (serviceToLease s)(n \<mapsto> l)) \<and> ch"
  by (auto simp: RegisterService_def Let_def split: if_splits sum.splits option.splits)

lemma RegisterService_keeps:
  "RegisterService net n es s = ((ch, Some err), reqs, s') \<Longrightarrow> m \<noteq> n \<or> serviceToLease s n \<noteq> None \<Longrightarrow>
     serviceToLease s' m = serviceToLease s m"
  by (auto simp: RegisterService_def Let_def split: if_splits sum.splits option.splits)

lemma sdk_RegisterService_inv:
  assumes "registry_inv (s, y)" and "sdk_RegisterService net n es (s, y) = (err, reqs, s', y')"
  shows "registry_inv (s', y')"
proof -
  obtain ch e rq t where fields: "RegisterService net n es s = ((ch, e), rq, t)"
    by (metis surj_pair)
  show ?thesis
  proof (cases e)
    case None
    with fields have lease: "serviceToLease s n = None" "\<exists>l. serviceToLease t = (serviceToLease s)(n \<mapsto> l)"
      using RegisterService_lease by blast+
    then have no: "endpointsByService y n = None" using assms(1) by (auto simp: registry_inv_def)
    have y': "s' = t" "y' = y\<lparr>sv_endpoints := sv_endpoints y \<union> set es, endpointsByService := (endpointsByService y)(n \<mapsto> es)\<rparr>"
      using assms(2) fields None by (simp_all add: sdk_RegisterService_def)
    have "offers y' m x \<longleftrightarrow> (if m = n then x \<in> set es else offers y m x)" for m x
      by (simp add: y' offers_def)
    moreover have "\<not> offers y n x" for x using no by (simp add: offers_def)
    ultimately have "(\<exists>m. offers y' m x) \<longleftrightarrow> x \<in> set es \<or> (\<exists>m. offers y m x)" for x
      by metis
    then have "x \<in> sv_endpoints y' \<longleftrightarrow> (\<exists>m. offers y' m x)" for x
      using assms(1) by (auto simp: y'(2) registry_inv_def)
    then show ?thesis using assms(1) lease by (auto simp: y' registry_inv_def)
  next
    case (Some x)
    have "serviceToLease t m = serviceToLease s m" if "serviceToLease s m \<noteq> None" for m
      using RegisterService_keeps fields Some that by (cases "m = n") blast+
    then show ?thesis using assms fields Some
      by (auto simp: sdk_RegisterService_def registry_inv_def)
  qed
qed

lemma sdk_UnregisterService_inv:
  assumes "registry_inv (s, y)" and "services_apart y" and "sdk_UnregisterService n (s, y) = (reqs, s', y')"
  shows "registry_inv (s', y')"
proof -
  obtain rq t where t: "UnregisterService n s = (rq, t)" by fastforce
  then have l: "serviceToLease t m = serviceToLease s m" if "m \<noteq> n" for m
    using that by (auto simp: UnregisterService_def split: option.splits)
  have y': "y' = y\<lparr>sv_endpoints := sv_endpoints y - set (case endpointsByService y n of Some es \<Rightarrow> es | None \<Rightarrow> []),
      endpointsByService := (endpointsByService y)(n := None)\<rparr>" "s' = t"
    using assms(3) t by (simp_all add: sdk_UnregisterService_def)
  have o: "offers y' m e \<longleftrightarrow> m \<noteq> n \<and> offers y m e" for m e
    by (simp add: y' offers_def)
  have "e \<in> sv_endpoints y' \<longleftrightarrow> e \<in> sv_endpoints y \<and> \<not> offers y n e" for e
    by (simp add: y' offers_def split: option.split)
  then have "e \<in> sv_endpoints y' \<longleftrightarrow> (\<exists>m. offers y' m e)" for e
    using assms(1,2) unfolding o registry_inv_def services_apart_def by fastforce
  moreover have "endpointsByService y' m \<noteq> None \<longrightarrow> serviceToLease s' m \<noteq> None" for m
    using assms(1) l [of m] by (simp add: y' registry_inv_def)
  ultimately show ?thesis by (simp add: registry_inv_def)
qed

text \<open>An endpoint that two services share is forgotten with the first of them.\<close>

lemma shared_endpoint_forgotten:
  assumes "endpointsByService y m = Some es" and "endpointsByService y n = Some fs" and "m \<noteq> n"
    and "e \<in> set es" and "e \<in> set fs" and "sdk_UnregisterService n (s, y) = (reqs, s', y')"
  shows "e \<notin> sv_endpoints y' \<and> endpointsByService y' m = Some es"
  using assms by (auto simp: sdk_UnregisterService_def split: prod.splits)

section \<open>A route that moves\<close>

lemma sdk_SetCustomRoute_moves:
  assumes "setCustomRouteSha s \<noteq> []" and "paired rd sel hv r" and "1000 \<le> now"
    and "live_route rd now sel hv r \<in> {None, Some (endpoint_String f)}"
  shows "sdk_SetCustomRoute rd load None now sel hv e (Some f) timeout ((s, r), y) =
    (out_bind (NotifyMigration sel hv (Some f) (Some e)) (\<lambda>m. Ret ((None, None), Some m)),
     ((s, store_route rd now sel hv (endpoint_String e) timeout r), onMigration sel hv (Some f) (Some e) y))"
proof -
  have "set_route_script rd now sel hv (endpoint_String e) (endpoint_String f) timeout r
      = (LNil, store_route rd now sel hv (endpoint_String e) timeout r)"
    using assms(4) by (auto simp: set_route_script_cas [OF assms(2,3)])
  then show ?thesis
    by (simp add: sdk_SetCustomRoute_def SetCustomRoute_loaded [OF assms(1)] Let_def)
qed

lemma sdk_SetCustomRoute_refused:
  assumes "setCustomRouteSha s \<noteq> []" and "paired rd sel hv r" and "1000 \<le> now"
    and "live_route rd now sel hv r = Some (endpoint_String x)" and "sep_free x"
    and "case old of Some f \<Rightarrow> endpoint_String f \<noteq> endpoint_String x | None \<Rightarrow> True"
  shows "sdk_SetCustomRoute rd load None now sel hv e old timeout ((s, r), y) =
    (Ret ((Some x, None), None), ((s, r), y))"
proof -
  have "set_route_script rd now sel hv (endpoint_String e) (case old of Some f \<Rightarrow> endpoint_String f | None \<Rightarrow> []) timeout r
      = (LStr (endpoint_String x), r)"
    using assms(4,6) by (auto simp: set_route_script_cas [OF assms(2,3)] split: option.splits)
  then show ?thesis
    by (simp add: sdk_SetCustomRoute_def SetCustomRoute_loaded [OF assms(1)] Let_def EndpointFromString_String [OF assms(5)])
qed

text \<open>
  Where a removed route has left its deadline, the store writes nothing, and yet the server takes
  the route for moved and tells the others.
\<close>

lemma sdk_SetCustomRoute_ghost:
  assumes "setCustomRouteSha s \<noteq> []"
    and "rd_HGet rd r (endpoint_table sel) hv = None"
    and "\<not> (0 < route_deadline rd sel hv r \<and> route_deadline rd sel hv r \<le> now)"
  shows "sdk_SetCustomRoute rd load None now sel hv e (Some f) timeout ((s, r), y) =
    (out_bind (NotifyMigration sel hv (Some f) (Some e)) (\<lambda>m. Ret ((None, None), Some m)),
     ((s, r), onMigration sel hv (Some f) (Some e) y))"
  using set_route_script_unpaired [OF assms(2,3), of "endpoint_String e"]
  by (simp add: sdk_SetCustomRoute_def SetCustomRoute_loaded [OF assms(1)] Let_def)

text \<open>
  The hand-over: once the servers have seen the message, the one the route moved to accepts
  requests for its endpoint, the one it moved from refuses them for the old endpoint.
\<close>

lemma handover_new:
  assumes "\<not> EqualEndpoints (Some f) (Some e)" and "stored_route g sel (hget hs ''yapr-header-value'') = Some e"
    and "e \<in> sv_endpoints y"
  shows "\<exists>t. check_direct (Some g) sel hs (Some e)
      (routingTable (onMigration sel (hget hs ''yapr-header-value'') (Some f) (Some e) y)) = (Ret True, t)"
proof -
  let ?t = "routingTable (onMigration sel (hget hs ''yapr-header-value'') (Some f) (Some e) y)"
  have "EqualEndpoints (Some e) (GetRoute sel (hget hs ''yapr-header-value'') ?t)"
    using assms(3) by (simp add: onMigration_route [OF assms(1)])
  then show ?thesis using check_direct_eq [of g sel hs "Some e" ?t] assms(2) by auto
qed

lemma handover_old:
  assumes "\<not> EqualEndpoints (Some f) (Some e)" and "stored_route g sel (hget hs ''yapr-header-value'') = Some e"
    and "f \<in> sv_endpoints y" and "e \<notin> sv_endpoints y"
  shows "\<exists>t. check_direct (Some g) sel hs (Some f)
      (routingTable (onMigration sel (hget hs ''yapr-header-value'') (Some f) (Some e) y)) = (Ret False, t)"
proof -
  let ?t = "routingTable (onMigration sel (hget hs ''yapr-header-value'') (Some f) (Some e) y)"
  have "must_ask sel hs (Some f) ?t"
    using assms(3,4) by (simp add: must_ask_def onMigration_route [OF assms(1)])
  then show ?thesis using check_direct_eq [of g sel hs "Some f" ?t] assms(1,2) by auto
qed

text \<open>What the store says after the move is what the servers ask for.\<close>

lemma stored_route_GetCustomRoute:
  assumes "st_GetCustomRoute g = (\<lambda>s h. GetCustomRoute rd None s h r)" and "redis_ok rd" and "sep_free e"
    and "r = store_route rd now sel hv (endpoint_String e) timeout r0"
  shows "stored_route g sel hv = Some e"
  using GetCustomRoute_stored [OF assms(2,3)] assms(1,4) by (simp add: stored_route_def)

text \<open>A request that came back once carries the endpoint it failed at: the store then decides.\<close>

lemma returned_request:
  assumes "EndpointFromString (hget hs ''yapr-last-endpoint'') = e"
  shows "\<exists>t. check_direct (Some g) sel hs e t0 =
    (Ret (EqualEndpoints e (stored_route g sel (hget hs ''yapr-header-value''))), t)"
proof -
  have "must_ask sel hs e t0" by (simp add: must_ask_def assms)
  then show ?thesis using check_direct_eq [of g sel hs e t0] by auto
qed

end
