(* ===== verification/SdkReports.thy ===== *)
theory SdkReports
  imports SdkServer
begin

text \<open>
  The reports of a server as a transition system. Requests run concurrently, so the two steps of a
  request on its counter, adding to it and asking for a report, are separate steps of the system,
  as are the two steps of a goroutine; \<open>checking\<close> are the requests between theirs. The invariant is
  that no count is lost: the counter of a key has been reported as it is, or a report of the key is
  on its way. The sequential operations are runs of these steps.
\<close>

type_synonym sdkState = "sdkServer \<times> report list"

inductive sdk_step :: "sdkState \<Rightarrow> sdkState \<Rightarrow> bool" where
  step_add: "sdk_step (y, ch) (add_requests d (rp_key rp) y, rp # ch)"
| step_check: "rp \<in> set ch \<Longrightarrow> sdk_step (y, ch) (checkUpdate rp y, remove1 rp ch)"
| step_wake: "rp \<in> set (waiting y) \<Longrightarrow> sdk_step (y, ch) (wake rp y, ch)"
| step_report: "rp \<in> set (woken y) \<Longrightarrow> sdk_step (y, ch) (send_report rp y, ch)"

inductive_cases sdk_stepE: "sdk_step s s'"

inductive sdk_reach :: "string \<Rightarrow> sdkState \<Rightarrow> bool" for p where
  reach_init: "sdk_reach p (new_sdkServer p, [])"
| reach_step: "sdk_reach p s \<Longrightarrow> sdk_step s s' \<Longrightarrow> sdk_reach p s'"

definition keys_of :: "report list \<Rightarrow> string set" where
  "keys_of rps = rp_key ` set rps"

lemma keys_of_simps [simp]: "keys_of [] = {}" "keys_of (rp # rps) = insert (rp_key rp) (keys_of rps)"
  by (simp_all add: keys_of_def)

lemma keys_of_mem [intro]: "rp \<in> set rps \<Longrightarrow> rp_key rp \<in> keys_of rps"
  by (simp add: keys_of_def)

lemma keys_of_remove1: "keys_of rps \<subseteq> insert (rp_key rp) (keys_of (remove1 rp rps))"
  by (induction rps) auto

lemma keys_of_remove1_sub: "keys_of (remove1 rp rps) \<subseteq> keys_of rps"
  unfolding keys_of_def by (rule image_mono) (rule set_remove1_subset)

lemma keys_of_remove1_distinct:
  "distinct (map rp_key rps) \<Longrightarrow> rp \<in> set rps \<Longrightarrow> keys_of (remove1 rp rps) = keys_of rps - {rp_key rp}"
  by (induction rps) (auto simp: keys_of_def)

lemma distinct_remove1_keys: "distinct (map rp_key rps) \<Longrightarrow> distinct (map rp_key (remove1 rp rps))"
  by (metis distinct_map distinct_remove1 inj_on_subset set_remove1_subset)

text \<open>The latest report of a key.\<close>

fun last_report :: "(report \<times> u32) list \<Rightarrow> string \<Rightarrow> u32 option" where
  "last_report [] k = None"
| "last_report ((rp, c) # rps) k = (if rp_key rp = k then Some c else last_report rps k)"

definition marks_inv :: "sdkServer \<Rightarrow> bool" where
  "marks_inv y \<longleftrightarrow> distinct (map rp_key (waiting y)) \<and> keys_of (waiting y) = reportMark y"

definition known_inv :: "sdkState \<Rightarrow> bool" where
  "known_inv s = (case s of (y, ch) \<Rightarrow>
     keys_of ch \<union> keys_of (waiting y) \<union> keys_of (woken y) \<subseteq> dom (requestCounter y)
     \<and> (\<forall>k. last_report (reported y) k \<noteq> None \<longrightarrow> requestCounter y k \<noteq> None))"

definition no_lost_count :: "sdkState \<Rightarrow> bool" where
  "no_lost_count s = (case s of (y, ch) \<Rightarrow>
     \<forall>k c. requestCounter y k = Some c \<longrightarrow>
       last_report (reported y) k = Some c \<or> k \<in> keys_of ch \<union> keys_of (waiting y) \<union> keys_of (woken y))"

lemmas report_defs = add_requests_def checkUpdate_def wake_def send_report_def

lemma marks_inv_step:
  assumes "sdk_step s s'" and "marks_inv (fst s)"
  shows "marks_inv (fst s')"
  using assms
proof cases
  case (step_wake rp y ch)
  then show ?thesis using assms(2)
    by (simp add: marks_inv_def report_defs keys_of_remove1_distinct distinct_remove1_keys)
qed (auto simp: marks_inv_def report_defs keys_of_def)

lemma known_inv_step:
  assumes "sdk_step s s'" and "known_inv s"
  shows "known_inv s'"
  using assms
proof cases
  case (step_add y ch d rp)
  then show ?thesis using assms(2) by (auto simp: known_inv_def report_defs)
next
  case (step_check rp ch y)
  then show ?thesis using assms(2) keys_of_remove1_sub [of rp ch] keys_of_mem [of rp ch]
    by (simp add: known_inv_def report_defs) blast
next
  case (step_wake rp y ch)
  then show ?thesis using assms(2) keys_of_remove1_sub [of rp "waiting y"] keys_of_mem [of rp "waiting y"]
    by (simp add: known_inv_def report_defs) blast
next
  case (step_report rp y ch)
  then show ?thesis using assms(2) keys_of_remove1_sub [of rp "woken y"] keys_of_mem [of rp "woken y"]
    by (simp add: known_inv_def report_defs) blast
qed

lemma no_lost_countD:
  "no_lost_count (y, ch) \<Longrightarrow> requestCounter y k = Some c \<Longrightarrow>
     last_report (reported y) k = Some c \<or> k \<in> keys_of ch \<or> k \<in> keys_of (waiting y) \<or> k \<in> keys_of (woken y)"
  by (simp add: no_lost_count_def)

lemma no_lost_countI:
  "(\<And>k c. requestCounter y k = Some c \<Longrightarrow>
     last_report (reported y) k = Some c \<or> k \<in> keys_of ch \<or> k \<in> keys_of (waiting y) \<or> k \<in> keys_of (woken y)) \<Longrightarrow>
   no_lost_count (y, ch)"
  by (simp add: no_lost_count_def)

lemma remove1_key: "k \<in> keys_of rps \<Longrightarrow> k = rp_key rp \<or> k \<in> keys_of (remove1 rp rps)"
  using keys_of_remove1 [of rps rp] by blast

lemma no_lost_count_step:
  assumes "sdk_step s s'" and "marks_inv (fst s)" and "no_lost_count s"
  shows "no_lost_count s'"
  using assms
proof cases
  case (step_add y ch d rp)
  then show ?thesis using assms(3)
    by (auto simp: report_defs intro!: no_lost_countI dest: no_lost_countD split: if_splits)
next
  case (step_check rp ch y)
  have w: "rp_key rp \<in> keys_of (waiting (checkUpdate rp y))"
    using assms(2) step_check by (simp add: checkUpdate_def marks_inv_def)
  have f: "requestCounter (checkUpdate rp y) = requestCounter y" "reported (checkUpdate rp y) = reported y"
    "woken (checkUpdate rp y) = woken y" "keys_of (waiting y) \<subseteq> keys_of (waiting (checkUpdate rp y))"
    by (auto simp: checkUpdate_def)
  have "no_lost_count (checkUpdate rp y, remove1 rp ch)"
  proof (rule no_lost_countI)
    fix k c assume "requestCounter (checkUpdate rp y) k = Some c"
    with assms(3) step_check(1) f(1) have
      "last_report (reported y) k = Some c \<or> k \<in> keys_of ch \<or> k \<in> keys_of (waiting y) \<or> k \<in> keys_of (woken y)"
      by (metis no_lost_countD)
    then show "last_report (reported (checkUpdate rp y)) k = Some c \<or> k \<in> keys_of (remove1 rp ch)
        \<or> k \<in> keys_of (waiting (checkUpdate rp y)) \<or> k \<in> keys_of (woken (checkUpdate rp y))"
      using w f remove1_key [of k ch rp] by auto
  qed
  then show ?thesis using step_check by simp
next
  case (step_wake rp y ch)
  have "no_lost_count (wake rp y, ch)"
  proof (rule no_lost_countI)
    fix k c assume "requestCounter (wake rp y) k = Some c"
    then have "last_report (reported y) k = Some c \<or> k \<in> keys_of ch \<or> k \<in> keys_of (waiting y) \<or> k \<in> keys_of (woken y)"
      using assms(3) step_wake(1) by (simp add: wake_def no_lost_countD)
    then show "last_report (reported (wake rp y)) k = Some c \<or> k \<in> keys_of ch
        \<or> k \<in> keys_of (waiting (wake rp y)) \<or> k \<in> keys_of (woken (wake rp y))"
      using remove1_key [of k "waiting y" rp] by (auto simp: wake_def)
  qed
  then show ?thesis using step_wake by simp
next
  case (step_report rp y ch)
  have "no_lost_count (send_report rp y, ch)"
  proof (rule no_lost_countI)
    fix k c assume c: "requestCounter (send_report rp y) k = Some c"
    then have "last_report (reported y) k = Some c \<or> k \<in> keys_of ch \<or> k \<in> keys_of (waiting y) \<or> k \<in> keys_of (woken y)"
      using assms(3) step_report(1) by (simp add: send_report_def no_lost_countD)
    then show "last_report (reported (send_report rp y)) k = Some c \<or> k \<in> keys_of ch
        \<or> k \<in> keys_of (waiting (send_report rp y)) \<or> k \<in> keys_of (woken (send_report rp y))"
      using c remove1_key [of k "woken y" rp] by (auto simp: send_report_def)
  qed
  then show ?thesis using step_report by simp
qed

lemma sdk_reach_invs:
  "sdk_reach p s \<Longrightarrow> marks_inv (fst s) \<and> known_inv s \<and> no_lost_count s"
proof (induction rule: sdk_reach.induct)
  case reach_init
  show ?case by (simp add: marks_inv_def known_inv_def no_lost_count_def new_sdkServer_def)
next
  case (reach_step s s')
  then show ?case using marks_inv_step known_inv_step no_lost_count_step by blast
qed

text \<open>The operations of a request are runs of the system.\<close>

lemma reach_add_check:
  assumes "sdk_reach p (y, ch)"
  shows "sdk_reach p (checkUpdate rp (add_requests d (rp_key rp) y), ch)"
proof -
  have "sdk_reach p (add_requests d (rp_key rp) y, rp # ch)"
    using assms by (rule reach_step) (rule step_add)
  then have "sdk_reach p (checkUpdate rp (add_requests d (rp_key rp) y), remove1 rp (rp # ch))"
    by (rule reach_step) (rule step_check, simp)
  then show ?thesis by simp
qed

lemma reach_count_request: "sdk_reach p (y, ch) \<Longrightarrow> sdk_reach p (count_request rp y, ch)"
  unfolding count_request_def by (rule reach_add_check)

lemma reach_onResponseSent: "sdk_reach p (y, ch) \<Longrightarrow> sdk_reach p (onResponseSent rp y, ch)"
  unfolding onResponseSent_def by (rule reach_add_check)

text \<open>When nothing is on its way, every counter has been reported as it is.\<close>

lemma quiescent_reports:
  assumes "sdk_reach p (y, [])" and "waiting y = []" and "woken y = []"
  shows "last_report (reported y) k = requestCounter y k"
proof (cases "requestCounter y k")
  case None
  have "\<forall>k. last_report (reported y) k \<noteq> None \<longrightarrow> requestCounter y k \<noteq> None"
    using sdk_reach_invs [OF assms(1)] by (simp add: known_inv_def del: not_None_eq)
  with None show ?thesis by (cases "last_report (reported y) k") auto
next
  case (Some c)
  then show ?thesis using sdk_reach_invs [OF assms(1)] assms(2,3) by (simp add: no_lost_count_def)
qed

section \<open>The counters\<close>

text \<open>The requests and responses of a run, with the goroutines between them.\<close>

datatype sdkOp = Received report | Sent report | Woke report | Reported report

primrec sdk_op :: "sdkOp \<Rightarrow> sdkServer \<Rightarrow> sdkServer" where
  "sdk_op (Received rp) y = count_request rp y"
| "sdk_op (Sent rp) y = onResponseSent rp y"
| "sdk_op (Woke rp) y = (if rp \<in> set (waiting y) then wake rp y else y)"
| "sdk_op (Reported rp) y = (if rp \<in> set (woken y) then send_report rp y else y)"

primrec in_flight_of :: "sdkOp \<Rightarrow> string \<Rightarrow> int" where
  "in_flight_of (Received rp) k = (if rp_key rp = k then 1 else 0)"
| "in_flight_of (Sent rp) k = (if rp_key rp = k then - 1 else 0)"
| "in_flight_of (Woke rp) k = 0"
| "in_flight_of (Reported rp) k = 0"

definition in_flight :: "sdkOp list \<Rightarrow> string \<Rightarrow> int" where
  "in_flight ops k = (\<Sum>q\<leftarrow>ops. in_flight_of q k)"

definition counter_value :: "sdkServer \<Rightarrow> string \<Rightarrow> u32" where
  "counter_value y k = (case requestCounter y k of Some c \<Rightarrow> c | None \<Rightarrow> 0)"

lemma counter_checkUpdate [simp]: "counter_value (checkUpdate rp y) k = counter_value y k"
  by (simp add: counter_value_def checkUpdate_def)

lemma counter_sdk_op: "counter_value (sdk_op q y) k = counter_value y k + word_of_int (in_flight_of q k)"
  by (cases q) (simp_all add: count_request_def onResponseSent_def counter_value_def report_defs)

lemma counter_in_flight:
  "counter_value (fold sdk_op ops y) k = counter_value y k + word_of_int (in_flight ops k)"
  by (induction ops arbitrary: y) (simp_all add: in_flight_def counter_sdk_op)

lemma reach_sdk_op: "sdk_reach p (y, ch) \<Longrightarrow> sdk_reach p (sdk_op q y, ch)"
  by (cases q) (auto simp: reach_count_request reach_onResponseSent step_wake step_report elim: reach_step)

lemma reach_sdk_ops: "sdk_reach p (y, ch) \<Longrightarrow> sdk_reach p (fold sdk_op ops y, ch)"
  by (induction ops arbitrary: y) (simp_all add: reach_sdk_op)

text \<open>After the last goroutine a key that was used is reported with the requests in flight.\<close>

lemma final_report:
  assumes "fold sdk_op ops (new_sdkServer p) = y" and "waiting y = []" and "woken y = []"
    and "requestCounter y k \<noteq> None"
  shows "last_report (reported y) k = Some (word_of_int (in_flight ops k))"
proof -
  have "sdk_reach p (y, [])" using reach_sdk_ops [OF reach_init] assms(1) by blast
  then have "last_report (reported y) k = requestCounter y k" using assms(2,3) by (rule quiescent_reports)
  moreover have "counter_value y k = word_of_int (in_flight ops k)"
    using counter_in_flight [of ops "new_sdkServer p" k] assms(1)
    by (simp add: counter_value_def new_sdkServer_def)
  ultimately show ?thesis using assms(4) by (auto simp: counter_value_def)
qed

end
