(* ===== verification/SdkClient.thy ===== *)
theory SdkClient
  imports SdkServer
begin

text \<open>
  \<open>core/sdk/client\<close>: a call with retries after a \<open>wrong endpoint\<close> error, for gRPC, where every try
  is routed anew, and for other transports, where the route is found once. What carries out one try
  is an argument, a call on the tables of the client and on a state of its own. The map of headers
  of a call has at most a few keys and is an association list.
\<close>

section \<open>Retries\<close>

type_synonym ('m, 're, 'x) client = "('m, 're) world \<times> 'x"

definition on_world :: "(('m, 're) world, go_error, 'a) go \<Rightarrow> (('m, 're, 'x) client, go_error, 'a) go" where
  "on_world f = (\<lambda>(w, x). case f w of (r, w') \<Rightarrow> (r, (w', x)))"

definition data_field :: "errWithCode \<Rightarrow> string \<Rightarrow> string" where
  "data_field e k = (case map_of (Data e) k of None \<Rightarrow> [] | Some v \<Rightarrow> v)"

type_synonym sent_headers = "(string \<times> string) list"
type_synonym ('m, 're, 'x) try_call = "sent_headers \<Rightarrow> (('m, 're, 'x) client, go_error, go_error option) go"

text \<open>The body of the loop after a failed try: the error to return, or the headers of the next try.\<close>

definition after_failure :: "(go_error \<Rightarrow> string option) \<Rightarrow> 're storeOps option \<Rightarrow> go_error \<Rightarrow> sent_headers \<Rightarrow>
    (('m, 're, 'x) client, go_error, go_error + sent_headers) go" where
  "after_failure from_error st err hs =
     (case FromGRPCError from_error err of
        None \<Rightarrow> go_ret (Inl err)
      | Some e \<Rightarrow>
          if Code e \<noteq> Code ErrWrongEndpoint then go_ret (Inl err)
          else go_bind (on_world (GetSelector st (data_field e ''selectorName''))) (\<lambda>(p, gerr).
                 case gerr of
                   Some g \<Rightarrow> go_ret (Inl g)
                 | None \<Rightarrow>
                     go_bind (on_world (on_selector p (Selector_NotifyRetry st (data_field e ''headerValue'')))) (\<lambda>_.
                       go_ret (Inr (AList.update ''yapr-last-endpoint'' (data_field e ''endpoint'') hs)))))"

fun invoke_loop :: "(go_error \<Rightarrow> string option) \<Rightarrow> 're storeOps option \<Rightarrow> ('m, 're, 'x) try_call \<Rightarrow> nat \<Rightarrow>
    ('m, 're, 'x) try_call" where
  "invoke_loop fe st invoker 0 hs = go_ret (Some (ErrCode ErrMaxRetries))"
| "invoke_loop fe st invoker (Suc n) hs =
     go_bind (invoker hs) (\<lambda>r.
       case r of
         None \<Rightarrow> go_ret None
       | Some err \<Rightarrow>
           go_bind (after_failure fe st err hs) (\<lambda>x.
             case x of
               Inl e \<Rightarrow> go_ret (Some e)
             | Inr hs' \<Rightarrow> invoke_loop fe st invoker n hs'))"

definition invoke :: "(go_error \<Rightarrow> string option) \<Rightarrow> 're storeOps option \<Rightarrow> ('m, 're, 'x) try_call \<Rightarrow>
    (('m, 're, 'x) client, go_error, go_error option) go" where
  "invoke fe st invoker = invoke_loop fe st invoker 3 []"

section \<open>Calls over gRPC\<close>

text \<open>
  Outgoing metadata; the variable \<open>ctx\<close> of the closure lives on between the tries, so that it is
  part of the state.
\<close>

type_synonym metadata = "string \<rightharpoonup> string list"

fun append_headers :: "sent_headers \<Rightarrow> metadata \<Rightarrow> metadata" where
  "append_headers [] md = md"
| "append_headers ((k, v) # hs) md =
     append_headers hs (md(k \<mapsto> (case md k of None \<Rightarrow> [] | Some l \<Rightarrow> l) @ [v]))"

definition next_metadata :: "sent_headers \<Rightarrow> metadata option \<Rightarrow> metadata option" where
  "next_metadata hs md =
     (if hs = [] then md
      else (case md of
              Some m \<Rightarrow> Some (append_headers hs m)
            | None \<Rightarrow> Some (map_option (\<lambda>v. [v]) \<circ> map_of hs)))"

definition GRPCClientInterceptor :: "(go_error \<Rightarrow> string option) \<Rightarrow> 're storeOps option \<Rightarrow>
    (metadata option \<Rightarrow> (('m, 're, metadata option \<times> 'x) client, go_error, go_error option) go) \<Rightarrow>
    (('m, 're, metadata option \<times> 'x) client, go_error, go_error option) go" where
  "GRPCClientInterceptor fe st invoker =
     invoke fe st (\<lambda>hs (w, (md, x)). let md = next_metadata hs md in invoker md (w, (md, x)))"

section \<open>Calls over other transports\<close>

definition client_route :: "'m env \<Rightarrow> 'm builders \<Rightarrow> 're regexEngine \<Rightarrow> 're storeOps option \<Rightarrow> routeInput \<Rightarrow> matchTarget \<Rightarrow>
    string \<Rightarrow> (('m, 're) world, go_error, routeResult) go" where
  "client_route env bs eng st inp t rn =
     go_bind (GetRouter st rn) (\<lambda>(p, err).
       case err of
         Some e \<Rightarrow> go_ret (route_error e)
       | None \<Rightarrow> Route env bs eng st inp t rn)"

text \<open>Writing to a map that is nil panics.\<close>

definition put_headers :: "sent_headers \<Rightarrow> headers option \<Rightarrow> headers option result" where
  "put_headers h hs =
     (if h = [] then Ret hs
      else (case hs of
              None \<Rightarrow> Panicked (PanicMsg ''assignment to entry in nil map'')
            | Some m \<Rightarrow> Ret (Some (m ++ map_of h))))"

type_synonym ('m, 're, 'x) requestSender =
  "string \<Rightarrow> endpoint option \<Rightarrow> u32 \<Rightarrow> headers option \<Rightarrow> (('m, 're, 'x) client, go_error, go_error option) go"

text \<open>The map of headers is shared by the tries, so what one try adds the next one finds.\<close>

definition Invoke :: "'m env \<Rightarrow> 'm builders \<Rightarrow> 're regexEngine \<Rightarrow> (go_error \<Rightarrow> string option) \<Rightarrow> 're storeOps option \<Rightarrow>
    routeInput \<Rightarrow> matchTarget \<Rightarrow> string \<Rightarrow> ('m, 're, headers option \<times> 'x) requestSender \<Rightarrow>
    (('m, 're, headers option \<times> 'x) client, go_error, go_error option) go" where
  "Invoke env bs eng fe st inp t rn requestSender =
     go_bind (on_world (client_route env bs eng st inp t rn)) (\<lambda>(n, e, port, hs, err) (w, (_, x)).
       case err of
         Some er \<Rightarrow> (Ret (Some er), (w, (hs, x)))
       | None \<Rightarrow>
           invoke fe st (\<lambda>h (w, (hs, x)).
             case put_headers h hs of
               Ret hs' \<Rightarrow> requestSender n e port hs' (w, (hs', x))
             | Panicked p \<Rightarrow> (Panicked p, (w, (hs, x)))
             | Blocked \<Rightarrow> (Blocked, (w, (hs, x)))) (w, (hs, x)))"

section \<open>Other operations\<close>

definition client_SetCustomRoute :: "'r redis \<Rightarrow> go_error + string \<Rightarrow> go_error option \<Rightarrow> int \<Rightarrow> string \<Rightarrow> string \<Rightarrow>
    endpoint \<Rightarrow> endpoint option \<Rightarrow> int \<Rightarrow>
    (impl \<times> 'r, go_error, (endpoint option \<times> go_error option) \<times> string option) go" where
  "client_SetCustomRoute rd load net now sel hv e old timeout = (\<lambda>s.
     case SetCustomRoute rd load net now sel hv e old timeout s of
       (Panicked p, s) \<Rightarrow> (Panicked p, s)
     | (Blocked, s) \<Rightarrow> (Blocked, s)
     | (Ret (realOld, err), s) \<Rightarrow>
         (if err \<noteq> None then (Ret ((None, err), None), s)
          else if old \<noteq> None \<and> realOld = None
          then (out_bind (NotifyMigration sel hv old (Some e)) (\<lambda>m. Ret ((realOld, None), Some m)), s)
          else (Ret ((realOld, None), None), s)))"

definition client_GetEndpoints :: "'re storeOps option \<Rightarrow> string \<Rightarrow> (('m, 're) world, go_error, endpoint list) go" where
  "client_GetEndpoints st n =
     go_bind (world_GetService st n) (\<lambda>(p, err) w.
       if err \<noteq> None then (Ret [], w)
       else (case p of
           None \<Rightarrow> (Panicked NilDeref, w)
         | Some m \<Rightarrow>
             (case service_at m (wTable w) of
                None \<Rightarrow> (Panicked NilDeref, w)
              | Some s \<Rightarrow> (let (es, s') = Endpoints s in (Ret es, w\<lparr>wTable := put_service m s' (wTable w)\<rparr>)))))"

definition client_GetEndpointsWithAttribute :: "'re storeOps option \<Rightarrow> string \<Rightarrow>
    (('m, 're) world, go_error, (endpoint \<rightharpoonup> attribute) option) go" where
  "client_GetEndpointsWithAttribute st n =
     go_bind (GetSelector st n) (\<lambda>(p, err).
       if err \<noteq> None then go_ret None
       else go_bind (on_selector p (EndpointsWithAttribute st [])) (\<lambda>m. go_ret (Some m)))"

definition RegisterRoutingStrategy :: "string \<Rightarrow> (selector \<Rightarrow> ('m strategy option \<times> go_error option) result) \<Rightarrow>
    'm builders \<Rightarrow> 'm builders" where
  "RegisterRoutingStrategy n b bs = RegisterStrategyBuilder n b bs"

section \<open>One failed try\<close>

text \<open>A selector that can be told to forget a cached route, and stays so.\<close>

definition notifiable :: "('m, 're) world \<Rightarrow> string \<Rightarrow> bool" where
  "notifiable w n \<longleftrightarrow>
     \<not> selectorMu w \<and> (\<exists>c. selector_at n w = Some c \<and> \<not> smu c \<and> (\<forall>x. strat c = Some x \<longrightarrow> strategy_wf x))"

lemma Strategy_NotifyRetry_wf:
  assumes "strategy_wf x"
  shows "\<exists>x'. Strategy_NotifyRetry (Some g) hv x = (Ret (), x') \<and> strategy_wf x'"
proof (cases x)
  case (SDirect s)
  then obtain c where "DirectCache_Refresh (Some g) hv (ds_cache s) = (Ret (), c)" "cache_wf c"
    using any_cache.refresh_agrees assms by fastforce
  then show ?thesis using SDirect assms by (auto simp: Direct_NotifyRetry_def)
qed (simp_all add: assms)

lemma Selector_NotifyRetry_eq:
  assumes "\<not> smu (rs r)" and "\<forall>x. strat (rs r) = Some x \<longrightarrow> strategy_wf x"
  shows "\<exists>r'. Selector_NotifyRetry (Some g) hv r = (Ret (), r') \<and> rtab r' = rtab r \<and> \<not> smu (rs r')
    \<and> (\<forall>x. strat (rs r') = Some x \<longrightarrow> strategy_wf x)
    \<and> strat (rs r') = map_option (\<lambda>x. snd (Strategy_NotifyRetry (map_option st_GetCustomRoute (Some g)) hv x)) (strat (rs r))"
proof (cases "strat (rs r)")
  case None
  then show ?thesis using assms by (simp add: Selector_NotifyRetry_def with_mu_def)
next
  case (Some x)
  then obtain x' where "Strategy_NotifyRetry (Some (st_GetCustomRoute g)) hv x = (Ret (), x')" "strategy_wf x'"
    using Strategy_NotifyRetry_wf assms(2) by blast
  then show ?thesis using Some assms(1) by (simp add: Selector_NotifyRetry_def with_mu_def)
qed

lemma GetSelector_known:
  assumes "\<not> selectorMu w" and "selector_at n w = Some c"
  shows "GetSelector st n w = (Ret (Some n, None), w)"
proof -
  obtain m where "wSelectors w = Some m" "m n = Some c"
    using assms(2) by (auto simp: selector_at_def split: option.splits)
  then show ?thesis using assms(1) GetSelector_eq by fastforce
qed

lemma on_selector_notify:
  assumes "notifiable w n"
  shows "\<exists>w'. on_selector (Some n) (Selector_NotifyRetry (Some g) hv) w = (Ret (), w') \<and> notifiable w' n
    \<and> wTable w' = wTable w \<and> wRouters w' = wRouters w"
proof -
  obtain c where c: "\<not> selectorMu w" "selector_at n w = Some c" "\<not> smu c" "\<forall>x. strat c = Some x \<longrightarrow> strategy_wf x"
    using assms by (auto simp: notifiable_def)
  then obtain m where m: "wSelectors w = Some m" "m n = Some c"
    by (auto simp: selector_at_def split: option.splits)
  obtain r' where "Selector_NotifyRetry (Some g) hv \<lparr>rs = c, rtab = wTable w\<rparr> = (Ret (), r')"
    "rtab r' = wTable w" "\<not> smu (rs r')" "\<forall>x. strat (rs r') = Some x \<longrightarrow> strategy_wf x"
    using Selector_NotifyRetry_eq [of "\<lparr>rs = c, rtab = wTable w\<rparr>" g hv] c(3,4) by auto
  then show ?thesis using c m
    by (auto simp: on_selector_def notifiable_def selector_at_def)
qed

definition wrong_endpoint_error :: "(go_error \<Rightarrow> string option) \<Rightarrow> go_error \<Rightarrow> errWithCode \<Rightarrow> bool" where
  "wrong_endpoint_error fe err e \<longleftrightarrow> FromGRPCError fe err = Some e \<and> Code e = Code ErrWrongEndpoint"

lemma after_failure_wrong:
  assumes "wrong_endpoint_error fe err e" and "notifiable w (data_field e ''selectorName'')"
  shows "\<exists>w'. after_failure fe (Some g) err hs (w, x) =
      (Ret (Inr (AList.update ''yapr-last-endpoint'' (data_field e ''endpoint'') hs)), (w', x))
    \<and> notifiable w' (data_field e ''selectorName'') \<and> wTable w' = wTable w \<and> wRouters w' = wRouters w"
proof -
  let ?n = "data_field e ''selectorName''"
  obtain c where "\<not> selectorMu w" "selector_at ?n w = Some c" using assms(2) by (auto simp: notifiable_def)
  then have g: "GetSelector (Some g) ?n w = (Ret (Some ?n, None), w)" by (rule GetSelector_known)
  obtain w' where "on_selector (Some ?n) (Selector_NotifyRetry (Some g) (data_field e ''headerValue'')) w = (Ret (), w')"
    "notifiable w' ?n" "wTable w' = wTable w" "wRouters w' = wRouters w"
    using on_selector_notify [OF assms(2)] by blast
  then show ?thesis using assms(1) g
    by (simp add: after_failure_def wrong_endpoint_error_def on_world_def)
qed

text \<open>Any other error ends the call.\<close>

lemma after_failure_other:
  "(\<forall>e. \<not> wrong_endpoint_error fe err e) \<Longrightarrow> after_failure fe st err hs s = (Ret (Inl err), s)"
  by (auto simp: after_failure_def wrong_endpoint_error_def split: option.split)

lemma on_world_frame: "on_world f (w, x) = (r, (w', x')) \<Longrightarrow> x' = x"
  by (auto simp: on_world_def split: prod.splits)

lemma after_failure_frame:
  assumes "after_failure fe st err hs (w, x) = (r, (w', x'))"
  shows "x' = x"
  using assms
  by (auto simp: after_failure_def on_world_def go_bind_def split: option.splits if_splits prod.splits outcome.splits)

section \<open>The tries of a call\<close>

lemma invoke_loop_done: "invoker hs s = (Ret None, s1) \<Longrightarrow> invoke_loop fe st invoker (Suc n) hs s = (Ret None, s1)"
  by simp

lemma invoke_loop_retry:
  "invoker hs s = (Ret (Some err), s1) \<Longrightarrow> after_failure fe st err hs s1 = (Ret (Inr hs'), s2) \<Longrightarrow>
     invoke_loop fe st invoker (Suc n) hs s = invoke_loop fe st invoker n hs' s2"
  by simp

lemma invoke_loop_stop:
  "invoker hs s = (Ret (Some err), s1) \<Longrightarrow> after_failure fe st err hs s1 = (Ret (Inl e), s2) \<Longrightarrow>
     invoke_loop fe st invoker (Suc n) hs s = (Ret (Some e), s2)"
  by simp

text \<open>A state of the caller that every try leaves with one more entry of its record.\<close>

definition records :: "('x \<Rightarrow> 'a list) \<Rightarrow> ('a \<Rightarrow> bool) \<Rightarrow> ('m, 're, 'x) try_call \<Rightarrow> bool" where
  "records lg P invoker \<longleftrightarrow>
     (\<forall>hs w x r w' x'. invoker hs (w, x) = (r, (w', x')) \<longrightarrow>
        lg x' = lg x \<or> (\<exists>a. lg x' = a # lg x \<and> P a))"

lemma invoke_loop_records:
  assumes "records lg P invoker" and "invoke_loop fe st invoker n hs (w, x) = (r, (w', x'))"
  shows "\<exists>l. lg x' = l @ lg x \<and> length l \<le> n \<and> (\<forall>a \<in> set l. P a)"
  using assms(2)
proof (induction n arbitrary: hs w x)
  case (Suc n)
  obtain a w1 x1 where a: "invoker hs (w, x) = (a, (w1, x1))" by (metis prod.exhaust)
  obtain l where l: "lg x1 = l @ lg x" "length l \<le> 1" "\<forall>b \<in> set l. P b"
    using assms(1) a unfolding records_def by (metis append_Cons append_Nil length_Cons list.set_cases
        list.size(3) order_refl set_ConsD set_empty2 zero_le empty_iff list.set(1) One_nat_def)
  show ?case
  proof (cases "\<exists>err. a = Ret (Some err)")
    case True
    then obtain err where err: "a = Ret (Some err)" by blast
    obtain b w2 x2 where b: "after_failure fe st err hs (w1, x1) = (b, (w2, x2))" by (metis prod.exhaust)
    then have x2: "x2 = x1" by (rule after_failure_frame)
    show ?thesis
    proof (cases "\<exists>hs'. b = Ret (Inr hs')")
      case True
      then obtain hs' where "b = Ret (Inr hs')" by blast
      then have "invoke_loop fe st invoker n hs' (w2, x1) = (r, (w', x'))"
        using Suc.prems a b err x2 by simp
      then obtain l' where "lg x' = l' @ lg x1" "length l' \<le> n" "\<forall>a \<in> set l'. P a"
        using Suc.IH by blast
      then show ?thesis using l by (intro exI [of _ "l' @ l"]) auto
    next
      case False
      then have "x' = x1" using Suc.prems a b err x2
        by (cases b) (auto split: sum.splits)
      then show ?thesis using l by (intro exI [of _ l]) auto
    qed
  next
    case False
    then have "x' = x1" using Suc.prems a by (cases a) (auto split: option.splits)
    then show ?thesis using l by (intro exI [of _ l]) auto
  qed
qed simp

text \<open>
  A sender that keeps a record of what it was asked to send, the latest first, and answers by what
  it has sent before.
\<close>

type_synonym sent = "string \<times> endpoint option \<times> u32 \<times> headers option"

definition recording :: "(sent list \<Rightarrow> go_error option result) \<Rightarrow> ('m, 're, headers option \<times> sent list) requestSender" where
  "recording answer n e port hs = (\<lambda>(w, (h, lg)). (answer lg, (w, (h, (n, e, port, hs) # lg))))"

lemma Invoke_routed:
  assumes "client_route env bs eng st inp t rn w = (Ret (n, e, port, hs, None), w')"
  shows "Invoke env bs eng fe st inp t rn sender (w, (h0, x)) =
    invoke fe st (\<lambda>h (w, (hs, x)).
      case put_headers h hs of
        Ret hs' \<Rightarrow> sender n e port hs' (w, (hs', x))
      | Panicked p \<Rightarrow> (Panicked p, (w, (hs, x)))
      | Blocked \<Rightarrow> (Blocked, (w, (hs, x)))) (w', (hs, x))"
  using assms by (simp add: Invoke_def on_world_def)

lemma Invoke_not_routed:
  assumes "client_route env bs eng st inp t rn w = (Ret (n, e, port, hs, Some err), w')"
  shows "Invoke env bs eng fe st inp t rn sender (w, (h0, x)) = (Ret (Some err), (w', (hs, x)))"
  using assms by (simp add: Invoke_def on_world_def)

text \<open>However the server answers, the request is sent at most three times, and always to the endpoint found at first.\<close>

lemma Invoke_same_endpoint:
  assumes "client_route env bs eng st inp t rn w = (Ret (n, e, port, hs, None), w')"
    and "Invoke env bs eng fe st inp t rn (recording answer) (w, (h0, [])) = (r, (w'', (h, lg)))"
  shows "length lg \<le> 3 \<and> (\<forall>(n', e', port', hs') \<in> set lg. n' = n \<and> e' = e \<and> port' = port)"
proof -
  let ?inv = "\<lambda>h (w, (hs, x)).
      case put_headers h hs of
        Ret hs' \<Rightarrow> recording answer n e port hs' (w, (hs', x))
      | Panicked p \<Rightarrow> (Panicked p, (w, (hs, x)))
      | Blocked \<Rightarrow> (Blocked, (w, (hs, x)))"
  have "records snd (\<lambda>(n', e', port', hs'). n' = n \<and> e' = e \<and> port' = port) ?inv"
    by (auto simp: records_def recording_def split: outcome.splits)
  moreover have "invoke_loop fe st ?inv 3 [] (w', (hs, [])) = (r, (w'', (h, lg)))"
    using assms(2) unfolding Invoke_routed [OF assms(1)] invoke_def .
  ultimately have "\<exists>l. snd (h, lg) = l @ snd (hs, []) \<and> length l \<le> 3
      \<and> (\<forall>a \<in> set l. case a of (n', e', port', hs') \<Rightarrow> n' = n \<and> e' = e \<and> port' = port)"
    by (rule invoke_loop_records)
  then show ?thesis by simp
qed

text \<open>Where the endpoint is the wrong one, all three tries fail, the cache being none the wiser.\<close>

lemma Invoke_exhausted:
  fixes w w' :: "('m, 're) world" and g :: "'re storeOps"
  assumes "client_route env bs eng (Some g) inp t rn w = (Ret (n, e, port, Some hs, None), w')"
    and "wrong_endpoint_error fe err ec" and "notifiable w' (data_field ec ''selectorName'')"
  shows "\<exists>w'' h lg. Invoke env bs eng fe (Some g) inp t rn (recording (\<lambda>_. Ret (Some err))) (w, (h0, [])) =
      (Ret (Some (ErrCode ErrMaxRetries)), (w'', (h, lg)))
    \<and> map (\<lambda>c. fst (snd c)) lg = [e, e, e]"
proof -
  let ?last = "AList.update ''yapr-last-endpoint'' (data_field ec ''endpoint'')"
  obtain inv where inv: "inv = (\<lambda>h (w :: ('m, 're) world, (hs, x)).
      case put_headers h hs of
        Ret hs' \<Rightarrow> recording (\<lambda>_. Ret (Some err)) n e port hs' (w, (hs', x))
      | Panicked p \<Rightarrow> (Panicked p, (w, (hs, x)))
      | Blocked \<Rightarrow> (Blocked, (w, (hs, x))))" by blast
  have attempt: "\<exists>hs2. inv h (w1, (Some hs1, lg)) = (Ret (Some err), (w1, (Some hs2, (n, e, port, Some hs2) # lg)))" for h w1 hs1 lg
    by (simp add: inv put_headers_def recording_def)
  have loop: "\<exists>w2 h2 l. invoke_loop fe (Some g) inv k h (w1, (Some hs1, lg)) =
        (Ret (Some (ErrCode ErrMaxRetries)), (w2, (h2, l @ lg))) \<and> map (\<lambda>c. fst (snd c)) l = replicate k e"
    if "notifiable w1 (data_field ec ''selectorName'')" for k h w1 hs1 lg
    using that
  proof (induction k arbitrary: h w1 hs1 lg)
    case (Suc k)
    obtain hs2 where 1: "inv h (w1, (Some hs1, lg)) = (Ret (Some err), (w1, (Some hs2, (n, e, port, Some hs2) # lg)))"
      using attempt by blast
    obtain w2 where 2: "after_failure fe (Some g) err h (w1, (Some hs2, (n, e, port, Some hs2) # lg))
        = (Ret (Inr (?last h)), (w2, (Some hs2, (n, e, port, Some hs2) # lg)))"
      "notifiable w2 (data_field ec ''selectorName'')"
      using after_failure_wrong [OF assms(2) Suc.prems, of g h "(Some hs2, (n, e, port, Some hs2) # lg)"] by auto
    obtain w3 h3 l where 3: "invoke_loop fe (Some g) inv k (?last h) (w2, (Some hs2, (n, e, port, Some hs2) # lg)) =
        (Ret (Some (ErrCode ErrMaxRetries)), (w3, (h3, l @ (n, e, port, Some hs2) # lg)))"
      "map (\<lambda>c. fst (snd c)) l = replicate k e"
      using Suc.IH [OF 2(2)] by blast
    show ?case unfolding invoke_loop_retry [where invoker = inv, OF 1 2(1)] using 3
      by (intro exI [of _ w3] exI [of _ h3] exI [of _ "l @ [(n, e, port, Some hs2)]"]) (simp add: replicate_append_same)
  qed simp
  show ?thesis
    using loop [OF assms(3), of 3 "[]" hs "[]"]
    unfolding Invoke_routed [OF assms(1)] invoke_def inv by (simp add: numeral_3_eq_3)
qed

section \<open>The header of a returned request over gRPC\<close>

lemma append_last_endpoint:
  "append_headers [(k, v)] md k = Some ((case md k of None \<Rightarrow> [] | Some l \<Rightarrow> l) @ [v])"
  by simp

text \<open>A gRPC call that keeps a record of the metadata it was given.\<close>

definition recording_md :: "(nat \<Rightarrow> go_error option) \<Rightarrow> metadata option \<Rightarrow>
    (('m, 're, metadata option \<times> metadata option list) client, go_error, go_error option) go" where
  "recording_md answer md = (\<lambda>(w, (m, lg)). (Ret (answer (length lg)), (w, (m, md # lg))))"

text \<open>
  After two failures the third try carries both endpoints, the older one first; a server reads the
  first value only.
\<close>

lemma GRPC_headers_pile_up:
  fixes w :: "('m, 're) world" and g :: "'re storeOps"
  assumes "\<And>i. i < 2 \<Longrightarrow> wrong_endpoint_error fe (err i) (ec i)"
    and "\<And>i. i < 2 \<Longrightarrow> data_field (ec i) ''selectorName'' = n" and "notifiable w n"
    and "md ''yapr-last-endpoint'' = None"
  shows "\<exists>w' md' m1 m2 m3. GRPCClientInterceptor fe (Some g)
        (recording_md (\<lambda>i. if i < 2 then Some (err i) else None)) (w, (Some md, [])) = (Ret None, (w', (md', [m3, m2, m1])))
    \<and> m1 = Some md
    \<and> (\<exists>m. m3 = Some m \<and> m ''yapr-last-endpoint'' = Some [data_field (ec 0) ''endpoint'', data_field (ec 1) ''endpoint''])"
proof -
  let ?k = "''yapr-last-endpoint''"
  let ?e = "\<lambda>i. data_field (ec i) ''endpoint''"
  obtain inv where inv: "inv = (\<lambda>hs (w :: ('m, 're) world, (md, x)). let md = next_metadata hs md in
      recording_md (\<lambda>i. if i < 2 then Some (err i) else None) md (w, (md, x)))" by blast
  let ?md1 = "append_headers [(?k, ?e 0)] md"
  let ?md2 = "append_headers [(?k, ?e 1)] ?md1"
  obtain w1 where 1: "after_failure fe (Some g) (err 0) [] (w, (Some md, [Some md])) = (Ret (Inr [(?k, ?e 0)]), (w1, (Some md, [Some md])))"
    "notifiable w1 n"
    using after_failure_wrong [OF assms(1), of 0 w g "[]" "(Some md, [Some md])"] assms(2,3) by auto
  obtain w2 where 2: "after_failure fe (Some g) (err 1) [(?k, ?e 0)] (w1, (Some ?md1, [Some ?md1, Some md])) =
      (Ret (Inr [(?k, ?e 1)]), (w2, (Some ?md1, [Some ?md1, Some md])))"
    using after_failure_wrong [OF assms(1), of 1 w1 g "[(?k, ?e 0)]" "(Some ?md1, [Some ?md1, Some md])"] assms(2) 1(2) by auto
  have i0: "inv [] (w, (Some md, [])) = (Ret (Some (err 0)), (w, (Some md, [Some md])))"
    by (simp add: inv next_metadata_def recording_md_def Let_def)
  have i1: "inv [(?k, ?e 0)] (w1, (Some md, [Some md])) = (Ret (Some (err 1)), (w1, (Some ?md1, [Some ?md1, Some md])))"
    by (simp add: inv next_metadata_def recording_md_def Let_def)
  have i2: "inv [(?k, ?e 1)] (w2, (Some ?md1, [Some ?md1, Some md])) = (Ret None, (w2, (Some ?md2, [Some ?md2, Some ?md1, Some md])))"
    by (simp add: inv next_metadata_def recording_md_def Let_def)
  have "GRPCClientInterceptor fe (Some g) (recording_md (\<lambda>i. if i < 2 then Some (err i) else None)) (w, (Some md, [])) =
      (Ret None, (w2, (Some ?md2, [Some ?md2, Some ?md1, Some md])))"
    unfolding GRPCClientInterceptor_def invoke_def numeral_3_eq_3 inv [symmetric]
      invoke_loop_retry [where invoker = inv, OF i0 1(1)] invoke_loop_retry [where invoker = inv, OF i1 2] by (rule invoke_loop_done [where invoker = inv, OF i2])
  moreover have "?md2 ?k = Some [?e 0, ?e 1]" using assms(4) by simp
  ultimately show ?thesis by blast
qed

end
