(* ===== verification/ClusterGuarantees.thy ===== *)
theory ClusterGuarantees
  imports StoreGuarantees SdkCluster SdkReports SdkClient
begin

text \<open>
  What servers, the store and clients guarantee together: the hand-over of a route from one server
  to another, the reports of requests in flight, and the registry of endpoints; and the route that
  is announced but not stored.
\<close>

section \<open>A route moves\<close>

text \<open>A client or a server that asks the Redis hashes \<open>r\<close> for custom routes.\<close>

definition over_redis :: "'r redis \<Rightarrow> 'r \<Rightarrow> 're storeOps \<Rightarrow> 're storeOps" where
  "over_redis rd r g = g\<lparr>st_GetCustomRoute := (\<lambda>sel hv. GetCustomRoute rd None sel hv r)\<rparr>"

lemma stored_over_redis:
  assumes "redis_ok rd" and "sep_free e"
  shows "stored_route (over_redis rd (store_route rd now sel hv (endpoint_String e) timeout r) g) sel hv = Some e"
  using GetCustomRoute_stored [OF assms] by (simp add: stored_route_def over_redis_def)

text \<open>C5: when a server moves the route of a header value from its endpoint \<open>f\<close> to another server's
  endpoint \<open>e\<close>, the message it publishes leads the other server to the same migration; after it
  the first server refuses requests for \<open>f\<close>, the second accepts requests for \<open>e\<close>, and a client that
  is told to retry selects \<open>e\<close>.\<close>

theorem migration_handover:
  assumes "redis_ok rd" and "setCustomRouteSha s \<noteq> []" and "paired rd sel hv r" and "1000 \<le> now"
    and "live_route rd now sel hv r \<in> {None, Some (endpoint_String f)}"
    and "sep_free f" and "sep_free e" and "\<not> EqualEndpoints (Some f) (Some e)"
    and "\<forall>txt \<in> {sel, hv, endpoint_String f, endpoint_String e}. CHR '' '' \<notin> set txt"
    and "f \<in> sv_endpoints a" and "e \<notin> sv_endpoints a" and "e \<in> sv_endpoints b"
    and "hget hs ''yapr-header-value'' = hv"
    and "direct_wf d" and "ds_headerKey d \<noteq> []" and "cache_name (ds_cache d) = sel"
    and "Headers t (ds_headerKey d) = Some hv" and "map_of (ds_endpoints d) e \<noteq> None"
  shows "\<exists>m r' a'. sdk_SetCustomRoute rd load None now sel hv e (Some f) timeout ((s, r), a) =
        (Ret ((None, None), Some m), ((s, r'), a'))
    \<and> migration_message m = Some (sel, hv, Some f, Some e)
    \<and> fst (check_direct (Some (over_redis rd r' g)) sel hs (Some f) (routingTable a')) = Ret False
    \<and> fst (check_direct (Some (over_redis rd r' g)) sel hs (Some e)
            (routingTable (onMigration sel hv (Some f) (Some e) b))) = Ret True
    \<and> (\<exists>d'. Direct_NotifyRetry (Some (st_GetCustomRoute (over_redis rd r' g))) hv d = (Ret (), d')
         \<and> fst (Direct_Select (Some (st_GetCustomRoute (over_redis rd r' g))) t dr d') =
             Ret (Some e, Some (header_of hv), None))"
proof -
  let ?r = "store_route rd now sel hv (endpoint_String e) timeout r"
  let ?g = "over_redis rd ?r g"
  have spaces: "CHR '' '' \<notin> set sel" "CHR '' '' \<notin> set hv" "CHR '' '' \<notin> set (endpoint_String f)"
    "CHR '' '' \<notin> set (endpoint_String e)"
    using assms(9) by simp_all
  obtain m where m: "NotifyMigration sel hv (Some f) (Some e) = Ret m" "migration_message m = Some (sel, hv, Some f, Some e)"
    using migration_roundtrip [OF spaces(1,2) assms(6,7) spaces(3,4)] by blast
  have set_route: "sdk_SetCustomRoute rd load None now sel hv e (Some f) timeout ((s, r), a) =
      (Ret ((None, None), Some m), ((s, ?r), onMigration sel hv (Some f) (Some e) a))"
    by (simp add: sdk_SetCustomRoute_moves [OF assms(2-5)] m(1))
  have stored: "stored_route ?g sel (hget hs ''yapr-header-value'') = Some e"
    unfolding assms(13) by (rule stored_over_redis [OF assms(1,7)])
  have ans: "st_GetCustomRoute ?g sel hv = (Some e, None)"
    using GetCustomRoute_stored [OF assms(1,7)] by (simp add: over_redis_def)
  have ne: "ds_endpoints d \<noteq> []" using assms(18) by auto
  have "\<exists>d'. Direct_NotifyRetry (Some (st_GetCustomRoute ?g)) hv d = (Ret (), d')
      \<and> fst (Direct_Select (Some (st_GetCustomRoute ?g)) t dr d') = Ret (Some e, Some (header_of hv), None)"
    using Direct_NotifyRetry_fresh [OF assms(14,15) ne assms(17), of "st_GetCustomRoute ?g" dr] ans assms(16,18)
    by (auto simp: direct_answer_def)
  moreover have "fst (check_direct (Some ?g) sel hs (Some f) (routingTable (onMigration sel hv (Some f) (Some e) a))) = Ret False"
    using handover_old [OF assms(8) stored assms(10,11)] assms(13) by auto
  moreover have "fst (check_direct (Some ?g) sel hs (Some e) (routingTable (onMigration sel hv (Some f) (Some e) b))) = Ret True"
    using handover_new [OF assms(8) stored assms(12)] assms(13) by auto
  ultimately show ?thesis using set_route m(2) by blast
qed

definition ex_server :: "endpoint \<Rightarrow> sdkServer" where
  "ex_server e = (new_sdkServer (Pod e))\<lparr>sv_endpoints := {e}\<rparr>"

theorem migration_handover_witness:
  "\<exists>m r' a'. sdk_SetCustomRoute map_redis (Inr []) None 6000 ''echo'' ''7'' ex_p2 (Some ex_p1) 0
       ((ex_impl, store_route map_redis 5000 ''echo'' ''7'' (endpoint_String ex_p1) 0 Map.empty), ex_server ex_p1) =
       (Ret ((None, None), Some m), ((ex_impl, r'), a'))
   \<and> migration_message m = Some (''echo'', ''7'', Some ex_p1, Some ex_p2)
   \<and> fst (check_direct (Some (over_redis map_redis r' (ex_store ex_p1))) ''echo'' [''yapr-header-value'' \<mapsto> ''7'']
        (Some ex_p1) (routingTable a')) = Ret False"
proof -
  let ?r = "store_route map_redis 5000 ''echo'' ''7'' (endpoint_String ex_p1) 0 Map.empty"
  let ?d = "\<lparr>ds_headerKey = ''x-uid'', ds_cache = CacheDefault \<lparr>dc_selectorName = ''echo''\<rparr>, ds_endpoints = [(ex_p2, ex_attr 1)]\<rparr>"
  have p: "paired map_redis ''echo'' ''7'' ?r"
    by (rule paired_store [OF map_redis_ok]) (simp add: paired_def map_redis_def)
  have l: "live_route map_redis 6000 ''echo'' ''7'' ?r \<in> {None, Some (endpoint_String ex_p1)}"
    by (subst live_store [OF map_redis_ok]) (simp_all add: int64_range_def)
  have f: "sep_free ex_p1" "sep_free ex_p2" "\<not> EqualEndpoints (Some ex_p1) (Some ex_p2)"
    by (simp_all add: sep_free_def ex_p1_def ex_p2_def EqualEndpoints_def)
  have sp: "\<forall>txt \<in> {''echo'', ''7'', endpoint_String ex_p1, endpoint_String ex_p2}. CHR '' '' \<notin> set txt"
    by (simp add: ex_ports_text)
  have srv: "ex_p1 \<in> sv_endpoints (ex_server ex_p1)" "ex_p2 \<notin> sv_endpoints (ex_server ex_p1)" "ex_p2 \<in> sv_endpoints (ex_server ex_p2)"
    by (simp_all add: ex_server_def)
  have d: "direct_wf ?d" "ds_headerKey ?d \<noteq> []" "cache_name (ds_cache ?d) = ''echo''"
    "Headers ex_target (ds_headerKey ?d) = Some ''7''" "map_of (ds_endpoints ?d) ex_p2 \<noteq> None"
    by (simp_all add: ex_target_def)
  show ?thesis
    using migration_handover [OF map_redis_ok ex_impl_sha p _ l f(1,2,3) sp srv(1,2,3),
        of "[''yapr-header-value'' \<mapsto> ''7'']" ?d ex_target "Inr []" 0 "ex_store ex_p1" "in_draws ex_input"] d
    by (auto simp: hget_def)
qed

section \<open>The route that is announced but not stored\<close>

text \<open>C37: after a route without time limit was set and removed, a server that sets the route again is
  told that it succeeded, tells the others that the route has moved, and yet the store holds no
  route: \<open>GetCustomRoute\<close> still reports that there is none.\<close>

theorem ghost_migration:
  assumes "redis_ok rd" and "setCustomRouteSha s \<noteq> []" and "paired rd sel hv r0" and "1000 \<le> now0"
    and "live_route rd now0 sel hv r0 = None"
    and "SetCustomRoute rd load None now0 sel hv f None 0 (s, r0) = (Ret (None, None), (s, r1))"
    and "RemoveCustomRoute rd None sel hv r1 = (None, r2)"
    and "NotifyMigration sel hv (Some f) (Some e) = Ret m"
  shows "sdk_SetCustomRoute rd load None now sel hv e (Some f) timeout ((s, r2), y) =
      (Ret ((None, None), Some m), ((s, r2), onMigration sel hv (Some f) (Some e) y))
    \<and> GetCustomRoute rd None sel hv r2 = (None, Some (ErrCode ErrNoCustomRoute))"
proof -
  have r1: "r1 = store_route rd now0 sel hv (endpoint_String f) 0 r0"
    using assms(6) by (simp add: SetCustomRoute_loaded [OF assms(2)] set_route_script_cas [OF assms(3,4)] assms(5) Let_def)
  have r2: "r2 = rd_HDel rd (endpoint_table sel) hv r1" using assms(7) by (simp add: RemoveCustomRoute_def)
  have none: "rd_HGet rd r2 (endpoint_table sel) hv = None" by (simp add: r2 redis_okD [OF assms(1)])
  have "Atoi (Itoa (- 1000)) = Some (- 1000)" by (rule Atoi_Itoa) (simp add: int64_range_def)
  then have "route_deadline rd sel hv r2 = - 1000"
    by (simp add: route_deadline_def r2 r1 store_route_def redis_okD [OF assms(1)])
  then show ?thesis
    using sdk_SetCustomRoute_ghost [OF assms(2) none, of now load e f timeout y] assms(8) none
    by (simp add: GetCustomRoute_def)
qed

theorem ghost_migration_witness:
  "\<exists>r2 m. RemoveCustomRoute map_redis None ''echo'' ''7'' ex_redis = (None, r2)
     \<and> sdk_SetCustomRoute map_redis (Inr []) None 6000 ''echo'' ''7'' ex_e2 (Some ex_e1) 0 ((ex_impl, r2), ex_server ex_e1) =
         (Ret ((None, None), Some m), ((ex_impl, r2), onMigration ''echo'' ''7'' (Some ex_e1) (Some ex_e2) (ex_server ex_e1)))
     \<and> GetCustomRoute map_redis None ''echo'' ''7'' r2 = (None, Some (ErrCode ErrNoCustomRoute))"
proof -
  have p: "paired map_redis ''echo'' ''7'' Map.empty" by (simp add: paired_def map_redis_def)
  have l: "live_route map_redis 5000 ''echo'' ''7'' Map.empty = None" by (simp add: live_route_def map_redis_def)
  have c: "SetCustomRoute map_redis (Inr []) None 5000 ''echo'' ''7'' ex_e1 None 0 (ex_impl, Map.empty) =
      (Ret (None, None), (ex_impl, ex_redis))"
    by (simp add: SetCustomRoute_loaded set_route_script_cas [OF p] l Let_def ex_redis_def)
  obtain m where m: "NotifyMigration ''echo'' ''7'' (Some ex_e1) (Some ex_e2) = Ret m" by (simp add: NotifyMigration_def)
  obtain r2 where r2: "RemoveCustomRoute map_redis None ''echo'' ''7'' ex_redis = (None, r2)"
    by (simp add: RemoveCustomRoute_def)
  show ?thesis
    using ghost_migration [OF map_redis_ok ex_impl_sha p _ l c r2 m, of 6000 0 "ex_server ex_e1"] r2 by auto
qed

section \<open>The registry of endpoints\<close>

text \<open>
  A run of registrations and deregistrations on one server, whatever the answers of etcd, in which
  an endpoint is registered for one service at a time.
\<close>

inductive registry_run :: "string \<Rightarrow> impl \<times> sdkServer \<Rightarrow> bool" for p where
  registry_start: "registry_run p (new_impl p, new_sdkServer p)"
| registry_register: "registry_run p (s, y) \<Longrightarrow> \<forall>e \<in> set es. \<forall>m. m \<noteq> n \<longrightarrow> \<not> offers y m e \<Longrightarrow>
    sdk_RegisterService net n es (s, y) = (err, reqs, s', y') \<Longrightarrow> registry_run p (s', y')"
| registry_unregister: "registry_run p (s, y) \<Longrightarrow>
    sdk_UnregisterService n (s, y) = (reqs, s', y') \<Longrightarrow> registry_run p (s', y')"

lemma sdk_RegisterService_apart:
  assumes "services_apart y" and "\<forall>e \<in> set es. \<forall>m. m \<noteq> n \<longrightarrow> \<not> offers y m e"
    and "sdk_RegisterService net n es (s, y) = (err, reqs, s', y')"
  shows "services_apart y'"
proof -
  have "offers y' m e \<longrightarrow> offers y m e \<or> (m = n \<and> e \<in> set es)" "m \<noteq> n \<longrightarrow> offers y' m e = offers y m e" for m e
    using assms(3) by (auto simp: sdk_RegisterService_def offers_def split: prod.splits option.splits if_splits)
  then show ?thesis using assms(1,2) unfolding services_apart_def by metis
qed

lemma sdk_UnregisterService_apart:
  assumes "services_apart y" and "sdk_UnregisterService n (s, y) = (reqs, s', y')"
  shows "services_apart y'"
proof -
  have "offers y' m e \<longrightarrow> offers y m e" for m e
    using assms(2) by (auto simp: sdk_UnregisterService_def offers_def split: prod.splits if_splits)
  then show ?thesis using assms(1) unfolding services_apart_def by blast
qed

lemma registry_run_inv: "registry_run p x \<Longrightarrow> registry_inv x \<and> services_apart (snd x)"
proof (induction rule: registry_run.induct)
  case registry_start
  have "services_apart (new_sdkServer p)" by (simp add: services_apart_def offers_def new_sdkServer_def)
  then show ?case by simp
next
  case (registry_register s y es n net err reqs s' y')
  then show ?case using sdk_RegisterService_inv sdk_RegisterService_apart by fastforce
next
  case (registry_unregister s y n reqs s' y')
  then show ?case using sdk_UnregisterService_inv sdk_UnregisterService_apart by fastforce
qed



section \<open>Reports of requests in flight\<close>

text \<open>Steps of the reporting goroutines, and the run that finishes all of them.\<close>

definition goroutine :: "sdkOp \<Rightarrow> bool" where
  "goroutine q \<longleftrightarrow> (\<exists>rp. q = Woke rp \<or> q = Reported rp)"

definition idle :: "sdkServer \<Rightarrow> bool" where
  "idle y \<longleftrightarrow> waiting y = [] \<and> woken y = []"

lemma wake_all: "waiting (fold sdk_op (map Woke (waiting y)) y) = []"
proof (induction "waiting y" arbitrary: y)
  case (Cons rp ws)
  have "waiting (wake rp y) = ws" by (simp add: wake_def Cons.hyps(2) [symmetric])
  then have "waiting (fold sdk_op (map Woke ws) (wake rp y)) = []" using Cons.hyps(1) by metis
  moreover have "sdk_op (Woke rp) y = wake rp y" by (simp add: Cons.hyps(2) [symmetric])
  ultimately show ?case by (simp only: Cons.hyps(2) [symmetric] list.map fold_Cons o_apply)
qed simp

lemma report_all:
  "waiting y = [] \<Longrightarrow> idle (fold sdk_op (map Reported (woken y)) y)"
proof (induction "woken y" arbitrary: y)
  case (Cons rp ws)
  have "woken (send_report rp y) = ws" "waiting (send_report rp y) = []"
    using Cons.prems by (simp_all add: send_report_def Cons.hyps(2) [symmetric])
  then have "idle (fold sdk_op (map Reported ws) (send_report rp y))" using Cons.hyps(1) by metis
  moreover have "sdk_op (Reported rp) y = send_report rp y" by (simp add: Cons.hyps(2) [symmetric])
  ultimately show ?case by (simp only: Cons.hyps(2) [symmetric] list.map fold_Cons o_apply)
qed (simp add: idle_def)

lemma goroutines_finish: "\<exists>gs. list_all goroutine gs \<and> idle (fold sdk_op gs y)"
proof -
  let ?y = "fold sdk_op (map Woke (waiting y)) y"
  have "idle (fold sdk_op (map Woke (waiting y) @ map Reported (woken ?y)) y)"
    using report_all [OF wake_all [of y]] by simp
  moreover have "list_all goroutine (map Woke (waiting y) @ map Reported (woken ?y))"
    by (auto simp: list_all_iff goroutine_def)
  ultimately show ?thesis by blast
qed

lemma goroutines_in_flight: "list_all goroutine gs \<Longrightarrow> in_flight (ops @ gs) k = in_flight ops k"
  by (induction gs) (auto simp: in_flight_def goroutine_def)

lemma sdk_op_known: "requestCounter y k \<noteq> None \<Longrightarrow> requestCounter (sdk_op q y) k \<noteq> None"
  by (cases q) (auto simp: count_request_def onResponseSent_def report_defs)

lemma sdk_ops_known: "requestCounter y k \<noteq> None \<Longrightarrow> requestCounter (fold sdk_op ops y) k \<noteq> None"
  by (induction ops arbitrary: y) (simp_all add: sdk_op_known del: not_None_eq)

lemma received_known: "Received rp \<in> set ops \<Longrightarrow> requestCounter (fold sdk_op ops y) (rp_key rp) \<noteq> None"
proof (induction ops arbitrary: y)
  case (Cons q ops)
  show ?case
  proof (cases "q = Received rp")
    case True
    then have "requestCounter (sdk_op q y) (rp_key rp) \<noteq> None"
      by (simp add: count_request_def report_defs)
    then show ?thesis by (simp add: sdk_ops_known del: not_None_eq)
  qed (use Cons in simp)
qed simp



end
