(* ===== verification/Grpc.thy ===== *)
theory Grpc
  imports SdkClient
begin

text \<open>
  \<open>core/grpc\<close>: the resolver, which publishes the addresses of the endpoints a router can lead to;
  the balancer, which keeps a connection per address; the picker, which routes a call and finds the
  connection. gRPC itself is outside the repository: connections are numbers that \<open>NewSubConn\<close>
  hands out, its evaluator of connectivity states is an argument, and the calls the balancer makes
  into gRPC are listed in the order it makes them.
\<close>

section \<open>The resolver\<close>

definition address :: "string \<Rightarrow> u32 \<Rightarrow> string" where
  "address ip port = ip @ '':'' @ show_nat (unat port)"

definition port_of :: "u32 \<Rightarrow> endpoint \<Rightarrow> u32" where
  "port_of selPort e = (if Port e \<noteq> 0 then Port e else selPort)"

text \<open>The loop over the endpoints of one service, with the set of addresses visited so far.\<close>

fun new_addresses :: "u32 \<Rightarrow> endpoint list \<Rightarrow> string set \<Rightarrow> string list \<times> string set" where
  "new_addresses p [] visited = ([], visited)"
| "new_addresses p (e # es) visited =
     (let addr = address (IP e) (port_of p e) in
      if addr \<in> visited then new_addresses p es visited
      else (case new_addresses p es (insert addr visited) of (addrs, v) \<Rightarrow> (addr # addrs, v)))"

fun endpoint_groups :: "'re storeOps option \<Rightarrow> string list \<Rightarrow> string set \<Rightarrow>
    (('m, 're) world, go_error, (string list \<times> string) list) go" where
  "endpoint_groups st [] visited = go_ret []"
| "endpoint_groups st (n # ns) visited = (\<lambda>w.
     case selector_at n w of
       None \<Rightarrow> (Panicked NilDeref, w)
     | Some c \<Rightarrow>
         go_bind (world_GetService st (Service (raw c))) (\<lambda>(p, err) w.
           case p of
             None \<Rightarrow> endpoint_groups st ns visited w
           | Some m \<Rightarrow>
               (case service_at m (wTable w) of
                  None \<Rightarrow> (Panicked NilDeref, w)
                | Some s \<Rightarrow>
                    (let (es, s') = Endpoints s;
                         (addrs, visited') = new_addresses (SPort (raw c)) es visited
                     in go_bind (endpoint_groups st ns visited') (\<lambda>gs. go_ret ((addrs, m) # gs))
                          (w\<lparr>wTable := put_service m s' (wTable w)\<rparr>)))) w)"

definition resolver_Endpoints :: "'re storeOps option \<Rightarrow> string list \<Rightarrow>
    (('m, 're) world, go_error, (string list \<times> string) list) go" where
  "resolver_Endpoints st ord = go_bind (Router_Selectors st ord) (\<lambda>ns. endpoint_groups st ns {})"

text \<open>The resolver of one target and the loop of its goroutine.\<close>

record yaprResolver =
  yr_routerName :: string
  yr_port :: u32
  yr_closed :: bool
  yr_rn :: bool

definition ResolveNow :: "yaprResolver \<Rightarrow> yaprResolver" where
  "ResolveNow y = y\<lparr>yr_rn := True\<rparr>"

definition resolver_Close :: "yaprResolver \<Rightarrow> yaprResolver" where
  "resolver_Close y = y\<lparr>yr_closed := True\<rparr>"

definition resolver_Build :: "string \<Rightarrow> yaprResolver option \<times> go_error option" where
  "resolver_Build target =
     (case parseTarget target of
        (host, port, Some err) \<Rightarrow> (None, Some err)
      | (host, port, None) \<Rightarrow>
          (Some (ResolveNow \<lparr>yr_routerName = host, yr_port = port, yr_closed = False, yr_rn = False\<rparr>), None))"

datatype wakeup = WDone | WNow | WTick

record resolverState =
  rsv_endpoints :: "(string list \<times> string) list"
  rsv_router :: string
  rsv_port :: u32

text \<open>One round of the loop: whether it goes on, and the state it publishes.\<close>

definition watcher_round :: "'re storeOps option \<Rightarrow> string list \<Rightarrow> wakeup \<Rightarrow> yaprResolver \<Rightarrow>
    (('m, 're) world, go_error, bool \<times> resolverState option \<times> yaprResolver) go" where
  "watcher_round st ord wk y =
     (if wk = WDone then go_ret (False, None, y)
      else (let y = (if wk = WNow then y\<lparr>yr_rn := False\<rparr> else y) in
        go_bind (GetRouter st (yr_routerName y)) (\<lambda>(p, err).
          if err = None \<and> p \<noteq> None
          then go_bind (resolver_Endpoints st ord) (\<lambda>gs.
                 go_ret (True, Some \<lparr>rsv_endpoints = gs, rsv_router = yr_routerName y, rsv_port = yr_port y\<rparr>, y))
          else go_ret (True, None, y))))"

section \<open>The picker\<close>

text \<open>
  The \<open>Metadata\<close> of the result is what gRPC makes of a map of headers. The text is that of
  \<open>balancer.ErrNoSubConnAvailable\<close>.
\<close>

record picker =
  pk_subConns :: "string \<rightharpoonup> nat"
  pk_router :: string
  pk_port :: u32

definition ErrNoSubConnAvailable :: go_error where
  "ErrNoSubConnAvailable = ErrText ''no SubConn is available''"

definition NewPicker :: "(string \<rightharpoonup> nat) \<Rightarrow> string \<Rightarrow> u32 \<Rightarrow> picker" where
  "NewPicker sc r p = \<lparr>pk_subConns = sc, pk_router = r, pk_port = p\<rparr>"

record pickInfo =
  pi_method :: string
  pi_metadata :: "(string \<times> string list) list option"
  pi_done :: bool

definition pick_target :: "pickInfo \<Rightarrow> picker \<Rightarrow> matchTarget result" where
  "pick_target info y =
     out_bind (case pi_metadata info of None \<Rightarrow> Ret Map.empty | Some md \<Rightarrow> first_values md Map.empty) (\<lambda>headers.
       Ret \<lparr>URI = pi_method info, TPort = pk_port y, Headers = headers, Timeout = pi_done info\<rparr>)"

definition Pick :: "'m env \<Rightarrow> 'm builders \<Rightarrow> 're regexEngine \<Rightarrow> 're storeOps option \<Rightarrow> (headers option \<Rightarrow> 'md) \<Rightarrow>
    routeInput \<Rightarrow> pickInfo \<Rightarrow> picker \<Rightarrow> (('m, 're) world, go_error, go_error + nat \<times> 'md) go" where
  "Pick env bs eng st metadata_New inp info y = (\<lambda>w.
     case pick_target info y of
       Panicked p \<Rightarrow> (Panicked p, w)
     | Blocked \<Rightarrow> (Blocked, w)
     | Ret mt \<Rightarrow>
         go_bind (Route env bs eng st inp mt (pk_router y)) (\<lambda>(n, endpoint, port, meta, err) w.
           case err of
             Some e \<Rightarrow> (Ret (Inl e), w)
           | None \<Rightarrow>
               (case endpoint of
                  None \<Rightarrow> (Panicked NilDeref, w)
                | Some e \<Rightarrow>
                    (case pk_subConns y (address (IP e) port) of
                       None \<Rightarrow> (Ret (Inl ErrNoSubConnAvailable), w)
                     | Some sc \<Rightarrow> (Ret (Inr (sc, metadata_New meta)), w)))) w)"

section \<open>The balancer\<close>

datatype connState = Idle | Connecting | Ready | TransientFailure | Shutdown

datatype pickerOf = ErrPicker go_error | RoutePicker picker

text \<open>The calls into gRPC.\<close>

datatype ccCall =
    CNewSubConn string
  | CConnect nat
  | CShutdown nat
  | CUpdateState connState pickerOf

record 'v balancer =
  subConns :: "string \<rightharpoonup> nat"
  scStates :: "nat \<rightharpoonup> connState"
  csEvltr :: 'v
  bstate :: connState
  bpicker :: pickerOf
  brouter :: string
  bport :: u32
  resolverErr :: "go_error option"
  connErr :: "go_error option"
  ccCalls :: "ccCall list"

definition balancer_Build :: "'v \<Rightarrow> 'v balancer" where
  "balancer_Build ev =
     \<lparr>subConns = Map.empty, scStates = Map.empty, csEvltr = ev, bstate = Connecting,
      bpicker = ErrPicker ErrNoSubConnAvailable, brouter = [], bport = 0, resolverErr = None, connErr = None,
      ccCalls = []\<rparr>"

definition cc :: "ccCall \<Rightarrow> 'v balancer \<Rightarrow> 'v balancer" where
  "cc c y = y\<lparr>ccCalls := ccCalls y @ [c]\<rparr>"

definition nil_text :: "go_error option \<Rightarrow> string" where
  "nil_text e = (case e of None \<Rightarrow> ''<nil>'' | Some x \<Rightarrow> error_text x)"

definition mergeErrors :: "'v balancer \<Rightarrow> go_error" where
  "mergeErrors y =
     (if connErr y = None then ErrText (''last resolver error: '' @ nil_text (resolverErr y))
      else if resolverErr y = None then ErrText (''last connection error: '' @ nil_text (connErr y))
      else ErrText (''last connection error: '' @ nil_text (connErr y) @ ''; last resolver error: '' @ nil_text (resolverErr y)))"

definition regeneratePicker :: "'v balancer \<Rightarrow> 'v balancer" where
  "regeneratePicker y =
     (if bstate y = TransientFailure then y\<lparr>bpicker := ErrPicker (mergeErrors y)\<rparr>
      else y\<lparr>bpicker := RoutePicker (NewPicker (subConns y) (brouter y) (bport y))\<rparr>)"

definition update_state :: "'v balancer \<Rightarrow> 'v balancer" where
  "update_state y = cc (CUpdateState (bstate y) (bpicker y)) y"

text \<open>\<open>none\<close> is whether the map of connections is empty.\<close>

definition ResolverError :: "go_error \<Rightarrow> bool \<Rightarrow> 'v balancer \<Rightarrow> 'v balancer" where
  "ResolverError err none y =
     (let y = y\<lparr>resolverErr := Some err\<rparr>;
          y = (if none then y\<lparr>bstate := TransientFailure\<rparr> else y)
      in if bstate y \<noteq> TransientFailure then y else update_state (regeneratePicker y))"

text \<open>
  What gRPC answers and how the loops run: \<open>bi_new\<close> the answer to \<open>NewSubConn\<close> for an address, \<open>bi_keys\<close>
  the keys of the map of connections, in the order of the loop that shuts connections down.
\<close>

record 'v balInput =
  bi_record :: "connState \<Rightarrow> connState \<Rightarrow> 'v \<Rightarrow> connState \<times> 'v"
  bi_new :: "string \<Rightarrow> go_error + nat"
  bi_keys :: "string list"

fun connect_all :: "'v balInput \<Rightarrow> string list \<Rightarrow> (string \<rightharpoonup> nat) \<Rightarrow> 'v balancer \<Rightarrow> (string \<rightharpoonup> nat) \<times> 'v balancer" where
  "connect_all bi [] new y = (new, y)"
| "connect_all bi (key # addrs) new y =
     (case subConns y key of
        Some sc \<Rightarrow> connect_all bi addrs (new(key \<mapsto> sc)) y
      | None \<Rightarrow>
          (let y = cc (CNewSubConn key) y in
           case bi_new bi key of
             Inl err \<Rightarrow> connect_all bi addrs new (ResolverError err (bi_keys bi = []) y)
           | Inr sc \<Rightarrow>
               connect_all bi addrs (new(key \<mapsto> sc))
                 (cc (CConnect sc)
                    (y\<lparr>scStates := (scStates y)(sc \<mapsto> Idle), csEvltr := snd (bi_record bi Shutdown Idle (csEvltr y))\<rparr>))))"

fun shutdown_gone :: "string list \<Rightarrow> (string \<rightharpoonup> nat) \<Rightarrow> 'v balancer \<Rightarrow> 'v balancer" where
  "shutdown_gone [] new y = y"
| "shutdown_gone (key # keys) new y =
     (case (subConns y key, new key) of
        (Some sc, None) \<Rightarrow> shutdown_gone keys new (cc (CShutdown sc) y)
      | _ \<Rightarrow> shutdown_gone keys new y)"

definition ErrBadResolverState :: go_error where
  "ErrBadResolverState = ErrText ''bad resolver state''"

text \<open>\<open>rs = None\<close> is a resolver state without attributes.\<close>

definition UpdateClientConnState :: "'v balInput \<Rightarrow> resolverState option \<Rightarrow> 'v balancer \<Rightarrow> go_error option \<times> 'v balancer" where
  "UpdateClientConnState bi s y =
     (let y = y\<lparr>resolverErr := None\<rparr> in
      case s of
        None \<Rightarrow> (Some ErrBadResolverState, ResolverError (ErrText ''attributes is nil'') (bi_keys bi = []) y)
      | Some x \<Rightarrow>
          (let y = y\<lparr>brouter := rsv_router x, bport := rsv_port x\<rparr> in
           if rsv_endpoints x = []
           then (Some ErrBadResolverState, ResolverError (ErrText ''no endpoints'') (bi_keys bi = []) y)
           else (let (new, y) = connect_all bi (concat (map fst (rsv_endpoints x))) Map.empty y;
                     y = shutdown_gone (bi_keys bi) new y;
                     y = y\<lparr>subConns := new\<rparr>
                 in if (\<forall>key \<in> set (concat (map fst (rsv_endpoints x))). new key = None)
                    then (Some ErrBadResolverState, ResolverError (ErrCode ErrNoEndpointAvailable) True y)
                    else (None, update_state (regeneratePicker y)))))"

definition updateSubConnState :: "'v balInput \<Rightarrow> nat \<Rightarrow> connState \<Rightarrow> go_error option \<Rightarrow> 'v balancer \<Rightarrow> 'v balancer" where
  "updateSubConnState bi sc s err y =
     (case scStates y sc of
        None \<Rightarrow> y
      | Some oldS \<Rightarrow>
          if oldS = TransientFailure \<and> (s = Connecting \<or> s = Idle)
          then (if s = Idle then cc (CConnect sc) y else y)
          else (let y = y\<lparr>scStates := (scStates y)(sc \<mapsto> s)\<rparr>;
                    y = (case s of
                           Idle \<Rightarrow> cc (CConnect sc) y
                         | Shutdown \<Rightarrow> y\<lparr>scStates := (scStates y)(sc := None)\<rparr>
                         | TransientFailure \<Rightarrow> y\<lparr>connErr := err\<rparr>
                         | _ \<Rightarrow> y);
                    (st, ev) = bi_record bi oldS s (csEvltr y);
                    y = y\<lparr>bstate := st, csEvltr := ev\<rparr>;
                    y = (if (s = Ready) \<noteq> (oldS = Ready) \<or> bstate y = TransientFailure
                         then regeneratePicker y else y)
                in update_state y))"

section \<open>The builder of servers\<close>

record serverBuilder =
  sb_service :: string
  sb_ip :: string

record grpcServer =
  gs_server :: "nat option"
  gs_service :: string
  gs_ip :: string

definition NewServer :: serverBuilder where
  "NewServer = \<lparr>sb_service = [], sb_ip = []\<rparr>"

definition WithService :: "string \<Rightarrow> serverBuilder \<Rightarrow> serverBuilder" where
  "WithService n b = b\<lparr>sb_service := n\<rparr>"

definition WithIP :: "string \<Rightarrow> serverBuilder \<Rightarrow> serverBuilder" where
  "WithIP ip b = b\<lparr>sb_ip := ip\<rparr>"

text \<open>The embedded gRPC server is nil.\<close>

definition server_Build :: "serverBuilder \<Rightarrow> grpcServer" where
  "server_Build b = \<lparr>gs_server = None, gs_service = sb_service b, gs_ip = sb_ip b\<rparr>"

section \<open>What the resolver publishes\<close>

lemma new_addresses_spec:
  "new_addresses p es visited = (addrs, v) \<Longrightarrow>
     distinct addrs \<and> set addrs = (\<lambda>e. address (IP e) (port_of p e)) ` set es - visited
     \<and> v = visited \<union> (\<lambda>e. address (IP e) (port_of p e)) ` set es"
proof (induction p es visited arbitrary: addrs v rule: new_addresses.induct)
  case (2 p e es visited)
  let ?a = "address (IP e) (port_of p e)"
  show ?case
  proof (cases "?a \<in> visited")
    case True
    then show ?thesis using 2 by auto
  next
    case False
    then obtain as where as: "new_addresses p es (insert ?a visited) = (as, v)" "addrs = ?a # as"
      using 2(3) by (auto simp: Let_def split: prod.splits)
    then show ?thesis using 2(2) [OF refl False as(1)] False by auto
  qed
qed simp

text \<open>The addresses of the endpoints the services of some selectors have.\<close>

definition offered :: "('m, 're) world \<Rightarrow> string \<Rightarrow> string set" where
  "offered w n =
     (case selector_at n w of
        None \<Rightarrow> {}
      | Some c \<Rightarrow>
          (case map_option svEndpoints (service_at (Service (raw c)) (wTable w)) of
             None \<Rightarrow> {}
           | Some es \<Rightarrow> (\<lambda>e. address (IP e) (port_of (SPort (raw c)) e)) ` set es))"

definition published :: "('m, 're) world \<Rightarrow> string list \<Rightarrow> string set" where
  "published w ns = (\<Union>n \<in> set ns. offered w n)"

text \<open>Worlds that differ in the version of services only.\<close>

definition same_directory :: "('m, 're) world \<Rightarrow> ('m, 're) world \<Rightarrow> bool" where
  "same_directory w w' \<longleftrightarrow>
     wSelectors w' = wSelectors w \<and> serviceMu (wTable w') = serviceMu (wTable w)
     \<and> (services (wTable w') = None \<longleftrightarrow> services (wTable w) = None)
     \<and> (\<forall>n. map_option svEndpoints (service_at n (wTable w')) = map_option svEndpoints (service_at n (wTable w)))"

lemma same_directory_refl [simp]: "same_directory w w"
  by (simp add: same_directory_def)

lemma same_directory_trans: "same_directory w w' \<Longrightarrow> same_directory w' w'' \<Longrightarrow> same_directory w w''"
  by (simp add: same_directory_def)

lemma same_directory_offered:
  assumes "same_directory w w'"
  shows "offered w' n = offered w n"
proof -
  have "selector_at n w' = selector_at n w"
    "map_option svEndpoints (service_at k (wTable w')) = map_option svEndpoints (service_at k (wTable w))" for k
    using assms by (simp_all add: selector_at_def same_directory_def)
  then show ?thesis by (cases "selector_at n w") (simp_all add: offered_def)
qed

lemma published_same: "same_directory w w' \<Longrightarrow> published w' ns = published w ns"
  by (simp add: published_def same_directory_offered)

lemma GetService_loaded:
  assumes "\<not> serviceMu t" and "services t = Some m"
  shows "GetService st n t = (Ret (if m n = None then (None, Some (ErrCode ErrServiceNotFound)) else (Some n, None)), t)"
  using assms by (cases t) (auto simp: GetService_def with_mu_def load_services_def service_at_def split: option.split)

lemma world_GetService_eq:
  assumes "\<not> serviceMu (wTable w)" and "services (wTable w) = Some m"
  shows "world_GetService st n w =
    (Ret (if m n = None then (None, Some (ErrCode ErrServiceNotFound)) else (Some n, None)), w)"
  by (simp add: world_GetService_def GetService_loaded [OF assms])

lemma same_directory_put:
  assumes "service_at n (wTable w) = Some s" and "svEndpoints s' = svEndpoints s"
  shows "same_directory w (w\<lparr>wTable := put_service n s' (wTable w)\<rparr>)"
  using assms by (auto simp: same_directory_def put_service_def service_at_def split: option.splits)

lemma published_simps [simp]: "published w [] = {}" "published w (n # ns) = offered w n \<union> published w ns"
  by (simp_all add: published_def)

lemma endpoint_groups_spec:
  assumes "\<forall>n \<in> set ns. selector_at n w \<noteq> None" and "\<not> serviceMu (wTable w)" and "services (wTable w) \<noteq> None"
  shows "\<exists>gs w'. endpoint_groups st ns visited w = (Ret gs, w') \<and> same_directory w w'
    \<and> distinct (concat (map fst gs)) \<and> set (concat (map fst gs)) = published w ns - visited"
  using assms
proof (induction ns arbitrary: visited w)
  case Nil
  then show ?case by simp
next
  case (Cons n ns)
  obtain c where c: "selector_at n w = Some c" using Cons.prems(1) by auto
  obtain m where m: "services (wTable w) = Some m" using Cons.prems(3) by auto
  show ?case
  proof (cases "m (Service (raw c))")
    case None
    then have p: "offered w n = {}" using c m by (simp add: offered_def service_at_def)
    obtain gs w' where "endpoint_groups st ns visited w = (Ret gs, w') \<and> same_directory w w'
        \<and> distinct (concat (map fst gs)) \<and> set (concat (map fst gs)) = published w ns - visited"
      using Cons.IH [of w visited] Cons.prems by auto
    then show ?thesis using c None p by (simp add: world_GetService_eq [OF Cons.prems(2) m])
  next
    case (Some s)
    let ?f = "\<lambda>e. address (IP e) (port_of (SPort (raw c)) e)"
    have sv: "service_at (Service (raw c)) (wTable w) = Some s" using Some m by (simp add: service_at_def)
    obtain s' where s': "Endpoints s = (svEndpoints s, s')" "svEndpoints s' = svEndpoints s"
      by (auto simp: Endpoints_def Let_def)
    let ?w = "w\<lparr>wTable := put_service (Service (raw c)) s' (wTable w)\<rparr>"
    have d: "same_directory w ?w" by (rule same_directory_put [OF sv s'(2)])
    obtain addrs v where a: "new_addresses (SPort (raw c)) (svEndpoints s) visited = (addrs, v)" by fastforce
    note a' = new_addresses_spec [OF a]
    have "\<forall>n \<in> set ns. selector_at n ?w \<noteq> None" "\<not> serviceMu (wTable ?w)" "services (wTable ?w) \<noteq> None"
      using Cons.prems by (simp_all add: selector_at_def put_service_def)
    then obtain gs w' where g: "endpoint_groups st ns v ?w = (Ret gs, w')" "same_directory ?w w'"
        "distinct (concat (map fst gs))" "set (concat (map fst gs)) = published ?w ns - v"
      using Cons.IH [of ?w v] by blast
    have "endpoint_groups st (n # ns) visited w = (Ret ((addrs, Service (raw c)) # gs), w')"
      using c Some sv s'(1) a g(1) by (simp add: world_GetService_eq [OF Cons.prems(2) m])
    moreover have "same_directory w w'" using d g(2) by (rule same_directory_trans)
    moreover have "distinct (addrs @ concat (map fst gs))" using a' g(3,4) by auto
    moreover have "offered w n = ?f ` set (svEndpoints s)" using c sv by (simp add: offered_def)
    then have "set (addrs @ concat (map fst gs)) = published w (n # ns) - visited"
      using a' g(4) published_same [OF d, of ns] by auto
    ultimately show ?thesis by (intro exI [of _ "(addrs, Service (raw c)) # gs"] exI [of _ w']) simp
  qed
qed

section \<open>What the balancer keeps\<close>

lemma cc_sel [simp]:
  "subConns (cc c y) = subConns y" "scStates (cc c y) = scStates y" "csEvltr (cc c y) = csEvltr y"
  "bstate (cc c y) = bstate y" "brouter (cc c y) = brouter y" "bport (cc c y) = bport y"
  "bpicker (cc c y) = bpicker y" "ccCalls (cc c y) = ccCalls y @ [c]"
  by (simp_all add: cc_def)

lemma regeneratePicker_sel [simp]:
  "subConns (regeneratePicker y) = subConns y" "scStates (regeneratePicker y) = scStates y"
  "csEvltr (regeneratePicker y) = csEvltr y" "bstate (regeneratePicker y) = bstate y"
  "brouter (regeneratePicker y) = brouter y" "bport (regeneratePicker y) = bport y"
  "ccCalls (regeneratePicker y) = ccCalls y"
  by (simp_all add: regeneratePicker_def)

lemma ResolverError_sel [simp]:
  "subConns (ResolverError err none y) = subConns y" "scStates (ResolverError err none y) = scStates y"
  "csEvltr (ResolverError err none y) = csEvltr y" "brouter (ResolverError err none y) = brouter y"
  "bport (ResolverError err none y) = bport y"
  by (simp_all add: ResolverError_def Let_def update_state_def)

text \<open>The connections asked to shut down by a list of calls.\<close>

definition shut :: "ccCall list \<Rightarrow> nat set" where
  "shut cs = {sc. CShutdown sc \<in> set cs}"

lemma shut_simps [simp]:
  "shut [] = {}" "shut (xs @ ys) = shut xs \<union> shut ys" "shut (CShutdown sc # cs) = insert sc (shut cs)"
  "shut (CConnect sc # cs) = shut cs" "shut (CNewSubConn k # cs) = shut cs" "shut (CUpdateState st pk # cs) = shut cs"
  by (auto simp: shut_def)

lemma ResolverError_shut [simp]: "shut (ccCalls (ResolverError err none y)) = shut (ccCalls y)"
  by (simp add: ResolverError_def Let_def update_state_def)

text \<open>The connection an address ends up with.\<close>

definition connection :: "'v balInput \<Rightarrow> (string \<rightharpoonup> nat) \<Rightarrow> string \<Rightarrow> nat option" where
  "connection bi old k = (case old k of Some sc \<Rightarrow> Some sc | None \<Rightarrow> (case bi_new bi k of Inl _ \<Rightarrow> None | Inr sc \<Rightarrow> Some sc))"

lemma connect_all_spec:
  assumes "distinct addrs" and "connect_all bi addrs new y = (new', y')" and "\<forall>k \<in> set addrs. new k = None"
  shows "new' = (\<lambda>k. if k \<in> set addrs then connection bi (subConns y) k else new k)
    \<and> subConns y' = subConns y \<and> shut (ccCalls y') = shut (ccCalls y)
    \<and> brouter y' = brouter y \<and> bport y' = bport y
    \<and> (\<forall>sc. scStates y' sc =
          (if \<exists>k \<in> set addrs. subConns y k = None \<and> bi_new bi k = Inr sc then Some Idle else scStates y sc))"
  using assms
proof (induction bi addrs new y arbitrary: new' y' rule: connect_all.induct)
  case (2 bi key addrs new y)
  have d: "distinct addrs" "key \<notin> set addrs" "\<forall>k \<in> set addrs. (new(key \<mapsto> sc)) k = None" "\<forall>k \<in> set addrs. new k = None" for sc
    using 2(4,6) by auto
  show ?case
  proof (cases "subConns y key")
    case (Some sc)
    then have run: "connect_all bi addrs (new(key \<mapsto> sc)) y = (new', y')" using 2(5) by simp
    show ?thesis using 2(3) [OF Some d(1) run d(3)] d(2) Some
      by (auto simp: connection_def fun_eq_iff)
  next
    case None
    note y = refl [of "cc (CNewSubConn key) y"]
    show ?thesis
    proof (cases "bi_new bi key")
      case (Inl err)
      then have run: "connect_all bi addrs new (ResolverError err (bi_keys bi = []) (cc (CNewSubConn key) y)) = (new', y')"
        using 2(5) None by simp
      show ?thesis using 2(1) [OF None y Inl d(1) run d(4)] 2(6) d(2) None Inl
        by (auto simp: connection_def fun_eq_iff)
    next
      case (Inr sc)
      then have run: "connect_all bi addrs (new(key \<mapsto> sc)) (cc (CConnect sc) ((cc (CNewSubConn key) y)
          \<lparr>scStates := (scStates (cc (CNewSubConn key) y))(sc \<mapsto> Idle),
            csEvltr := snd (bi_record bi Shutdown Idle (csEvltr (cc (CNewSubConn key) y)))\<rparr>)) = (new', y')"
        using 2(5) None by (simp add: Let_def)
      show ?thesis using 2(2) [OF None y Inr d(1) run d(3)] d(2) None Inr
        by (auto simp: connection_def fun_eq_iff)
    qed
  qed
qed (simp add: fun_eq_iff)

lemma shutdown_gone_spec:
  "subConns (shutdown_gone keys new y) = subConns y \<and> scStates (shutdown_gone keys new y) = scStates y
   \<and> csEvltr (shutdown_gone keys new y) = csEvltr y
   \<and> bstate (shutdown_gone keys new y) = bstate y \<and> brouter (shutdown_gone keys new y) = brouter y
   \<and> bport (shutdown_gone keys new y) = bport y
   \<and> shut (ccCalls (shutdown_gone keys new y)) =
       shut (ccCalls y) \<union> {sc. \<exists>k \<in> set keys. subConns y k = Some sc \<and> new k = None}"
  by (induction keys new y rule: shutdown_gone.induct) (auto split: option.splits)

text \<open>One update of the addresses, all of them new or known.\<close>

lemma UpdateClientConnState_eq:
  assumes "distinct (concat (map fst (rsv_endpoints x)))" and "rsv_endpoints x \<noteq> []"
    and "range_order (bi_keys bi) (subConns y)"
    and "UpdateClientConnState bi (Some x) y = (err, y')"
  shows "subConns y' = (\<lambda>k. if k \<in> set (concat (map fst (rsv_endpoints x))) then connection bi (subConns y) k else None)"
    and "shut (ccCalls y') = shut (ccCalls y) \<union> {sc. \<exists>k. subConns y k = Some sc \<and> k \<notin> set (concat (map fst (rsv_endpoints x)))}"
    and "scStates y' sc = (if \<exists>k \<in> set (concat (map fst (rsv_endpoints x))). subConns y k = None \<and> bi_new bi k = Inr sc
          then Some Idle else scStates y sc)"
    and "err = None \<longleftrightarrow> (\<exists>k. subConns y' k \<noteq> None)"
    and "brouter y' = rsv_router x" "bport y' = rsv_port x"
proof -
  obtain as where as: "concat (map fst (rsv_endpoints x)) = as" by blast
  obtain y0 where y0: "y0 = y\<lparr>resolverErr := None, brouter := rsv_router x, bport := rsv_port x\<rparr>" by blast
  obtain new y1 where c: "connect_all bi as Map.empty y0 = (new, y1)" by fastforce
  have s0: "subConns y0 = subConns y" "scStates y0 = scStates y" "ccCalls y0 = ccCalls y"
    "brouter y0 = rsv_router x" "bport y0 = rsv_port x" by (simp_all add: y0)
  note s = connect_all_spec [OF assms(1) [unfolded as] c, unfolded s0, simplified]
  obtain y2 where y2: "shutdown_gone (bi_keys bi) new y1 = y2" by blast
  note g = shutdown_gone_spec [of "bi_keys bi" new y1, unfolded y2]
  obtain y3 where y3: "y3 = y2\<lparr>subConns := new\<rparr>" by blast
  have y3': "subConns y3 = new" "scStates y3 = scStates y2" "ccCalls y3 = ccCalls y2" "brouter y3 = brouter y2" "bport y3 = bport y2"
    by (simp_all add: y3)
  have run: "(err, y') = (if \<forall>key \<in> set as. new key = None
      then (Some ErrBadResolverState, ResolverError (ErrCode ErrNoEndpointAvailable) True y3)
      else (None, update_state (regeneratePicker y3)))"
    using assms(2,4) c unfolding UpdateClientConnState_def as [symmetric] y3 y2 [symmetric] y0 by (simp add: Let_def)
  have new: "new = (\<lambda>k. if k \<in> set as then connection bi (subConns y) k else None)" using s by (simp cong: if_cong)
  have keep: "subConns y' = new" "scStates y' = scStates y2" "shut (ccCalls y') = shut (ccCalls y2)"
    "brouter y' = brouter y2" "bport y' = bport y2"
    using run y3' by (simp_all add: update_state_def split: if_splits)
  have keys: "set (bi_keys bi) = dom (subConns y)" using assms(3) by (rule range_order_set)
  have gone: "new k = None \<longleftrightarrow> k \<notin> set as" if "subConns y k = Some sc" for k sc
    using that by (simp add: new connection_def)
  show "subConns y' = (\<lambda>k. if k \<in> set (concat (map fst (rsv_endpoints x))) then connection bi (subConns y) k else None)"
    unfolding as keep(1) by (rule new)
  have "shut (ccCalls y2) = shut (ccCalls y) \<union> {sc. \<exists>k \<in> set (bi_keys bi). subConns y k = Some sc \<and> new k = None}"
    using g s by simp
  also have "{sc. \<exists>k \<in> set (bi_keys bi). subConns y k = Some sc \<and> new k = None} = {sc. \<exists>k. subConns y k = Some sc \<and> k \<notin> set as}"
    using keys gone by blast
  finally show "shut (ccCalls y') = shut (ccCalls y) \<union> {sc. \<exists>k. subConns y k = Some sc \<and> k \<notin> set (concat (map fst (rsv_endpoints x)))}"
    unfolding as keep(3) .
  show "scStates y' sc = (if \<exists>k \<in> set (concat (map fst (rsv_endpoints x))). subConns y k = None \<and> bi_new bi k = Inr sc
      then Some Idle else scStates y sc)"
    unfolding as keep(2) using g s by simp
  show "brouter y' = rsv_router x" "bport y' = rsv_port x"
    unfolding keep using g s by simp_all
  have "(\<exists>k. new k \<noteq> None) \<longleftrightarrow> (\<exists>k \<in> set as. new k \<noteq> None)" by (auto simp: new split: if_splits)
  then show "err = None \<longleftrightarrow> (\<exists>k. subConns y' k \<noteq> None)"
    using run unfolding keep(1) by (auto split: if_splits)
qed

end
