(* ===== verification/GrpcBalance.thy ===== *)
theory GrpcBalance
  imports Grpc
begin

text \<open>
  The balancer over time and together with the resolver and the picker: the evaluator of gRPC counts
  the states the balancer has recorded, so that the state it reports is the aggregate of them; and an
  endpoint the resolver has published is one the picker finds a connection for.
\<close>

section \<open>Counting connections\<close>

definition count_state :: "(nat \<rightharpoonup> connState) \<Rightarrow> connState \<Rightarrow> int" where
  "count_state m s = int (card {sc. m sc = Some s})"

lemma count_state_drop:
  assumes "finite (dom m)"
  shows "count_state (m(sc := None)) t = count_state m t - (if m sc = Some t then 1 else 0)"
proof (cases "m sc = Some t")
  case True
  have fin: "finite {x. m x = Some t}" by (rule finite_subset [OF _ assms]) auto
  have "{x. (m(sc := None)) x = Some t} = {x. m x = Some t} - {sc}" by auto
  then have "card {x. m x = Some t} = Suc (card {x. (m(sc := None)) x = Some t})"
    using card.remove [OF fin, of sc] True by simp
  then show ?thesis using True by (simp only: count_state_def) simp
next
  case False
  then have "{x. (m(sc := None)) x = Some t} = {x. m x = Some t}" by auto
  then show ?thesis using False by (simp only: count_state_def) simp
qed

lemma count_state_new:
  assumes "finite (dom m)" and "m sc = None"
  shows "count_state (m(sc \<mapsto> s)) t = count_state m t + (if s = t then 1 else 0)"
proof (cases "s = t")
  case True
  have fin: "finite {x. m x = Some t}" by (rule finite_subset [OF _ assms(1)]) auto
  have "{x. (m(sc \<mapsto> s)) x = Some t} = insert sc {x. m x = Some t}" using True by auto
  moreover have "sc \<notin> {x. m x = Some t}" using assms(2) by simp
  ultimately show ?thesis using True fin by (simp only: count_state_def) simp
next
  case False
  then have "{x. (m(sc \<mapsto> s)) x = Some t} = {x. m x = Some t}" using assms(2) by auto
  then show ?thesis using False by (simp only: count_state_def) simp
qed

lemma count_state_put:
  assumes "finite (dom m)"
  shows "count_state (m(sc \<mapsto> s)) t =
    count_state m t - (if m sc = Some t then 1 else 0) + (if s = t then 1 else 0)"
proof -
  have "finite (dom (m(sc := None)))" using assms by simp
  then have "count_state ((m(sc := None))(sc \<mapsto> s)) t = count_state (m(sc := None)) t + (if s = t then 1 else 0)"
    by (rule count_state_new) simp
  then show ?thesis by (simp add: count_state_drop [OF assms])
qed

text \<open>
  The evaluator as gRPC documents it: it counts the connections in each state, and aggregates to
  ready if one is ready, else connecting, else idle, else to a failure.
\<close>

definition aggregate :: "(connState \<Rightarrow> int) \<Rightarrow> connState" where
  "aggregate c =
     (if c Ready > 0 then Ready else if c Connecting > 0 then Connecting
      else if c Idle > 0 then Idle else TransientFailure)"

definition evaluator_ok :: "(connState \<Rightarrow> connState \<Rightarrow> 'v \<Rightarrow> connState \<times> 'v) \<Rightarrow> ('v \<Rightarrow> connState \<Rightarrow> int) \<Rightarrow> bool" where
  "evaluator_ok rec cnt \<longleftrightarrow>
     (\<forall>old new v.
        fst (rec old new v) = aggregate (cnt (snd (rec old new v)))
        \<and> (\<forall>s. s \<noteq> Shutdown \<longrightarrow>
             cnt (snd (rec old new v)) s = cnt v s - (if old = s then 1 else 0) + (if new = s then 1 else 0)))"

text \<open>A concrete evaluator: the counts themselves.\<close>

definition count_evaluator :: "connState \<Rightarrow> connState \<Rightarrow> (connState \<Rightarrow> int) \<Rightarrow> connState \<times> (connState \<Rightarrow> int)" where
  "count_evaluator old new v =
     (let v' = (\<lambda>s. v s - (if old = s then 1 else 0) + (if new = s then 1 else 0)) in (aggregate v', v'))"

lemma count_evaluator_ok: "evaluator_ok count_evaluator (\<lambda>v. v)"
  by (simp add: evaluator_ok_def count_evaluator_def Let_def)

lemma evaluator_okD:
  assumes "evaluator_ok rec cnt"
  shows "fst (rec old new v) = aggregate (cnt (snd (rec old new v)))"
    and "s \<noteq> Shutdown \<Longrightarrow> cnt (snd (rec old new v)) s = cnt v s - (if old = s then 1 else 0) + (if new = s then 1 else 0)"
  using assms unfolding evaluator_ok_def by blast+

definition states_counted :: "('v \<Rightarrow> connState \<Rightarrow> int) \<Rightarrow> 'v balancer \<Rightarrow> bool" where
  "states_counted cnt y \<longleftrightarrow>
     finite (dom (scStates y)) \<and> (\<forall>sc. scStates y sc \<noteq> Some Shutdown)
     \<and> (\<forall>s. s \<noteq> Shutdown \<longrightarrow> cnt (csEvltr y) s = count_state (scStates y) s)"

lemma states_counted_cong:
  "scStates y' = scStates y \<Longrightarrow> csEvltr y' = csEvltr y \<Longrightarrow> states_counted cnt y \<Longrightarrow> states_counted cnt y'"
  by (simp add: states_counted_def)

lemma states_counted_Build:
  "(\<forall>s. cnt ev s = 0) \<Longrightarrow> states_counted cnt (balancer_Build ev)"
  by (simp add: states_counted_def balancer_Build_def count_state_def)

lemma connect_one_counted:
  assumes "evaluator_ok (bi_record bi) cnt" and "states_counted cnt y" and "scStates y sc = None"
  shows "states_counted cnt (y\<lparr>scStates := (scStates y)(sc \<mapsto> Idle), csEvltr := snd (bi_record bi Shutdown Idle (csEvltr y))\<rparr>)"
  using assms(2,3)
  by (simp add: states_counted_def evaluator_okD(2) [OF assms(1)] count_state_put)

lemma connect_all_counted:
  assumes "evaluator_ok (bi_record bi) cnt" and "distinct addrs" and "states_counted cnt y"
    and "\<forall>k \<in> set addrs. \<forall>sc. bi_new bi k = Inr sc \<longrightarrow> scStates y sc = None"
    and "inj_on (bi_new bi) {k \<in> set addrs. \<exists>sc. bi_new bi k = Inr sc}"
  shows "states_counted cnt (snd (connect_all bi addrs new y))"
  using assms
proof (induction bi addrs new y rule: connect_all.induct)
  case (2 bi key addrs new y)
  have inj: "inj_on (bi_new bi) {k \<in> set addrs. \<exists>sc. bi_new bi k = Inr sc}"
    using 2(8) by (rule inj_on_subset) auto
  show ?case
  proof (cases "subConns y key")
    case (Some sc)
    have "states_counted cnt (snd (connect_all bi addrs (new(key \<mapsto> sc)) y))"
      by (rule 2(3) [OF Some 2(4) _ 2(6) _ inj]) (use 2(5,7) in simp_all)
    then show ?thesis using Some by simp
  next
    case None
    note y = refl [of "cc (CNewSubConn key) y"]
    show ?thesis
    proof (cases "bi_new bi key")
      case (Inl err)
      have "states_counted cnt (ResolverError err (bi_keys bi = []) (cc (CNewSubConn key) y))"
        by (rule states_counted_cong [OF _ _ 2(6)]) simp_all
      then show ?thesis using 2(1) [OF None y Inl 2(4) _ _ _ inj] 2(5,7) None Inl by simp
    next
      case (Inr sc)
      let ?y = "cc (CNewSubConn key) y"
      let ?y' = "cc (CConnect sc) (?y\<lparr>scStates := (scStates ?y)(sc \<mapsto> Idle),
          csEvltr := snd (bi_record bi Shutdown Idle (csEvltr ?y))\<rparr>)"
      have "states_counted cnt ?y" by (rule states_counted_cong [OF _ _ 2(6)]) simp_all
      then have "states_counted cnt (?y\<lparr>scStates := (scStates ?y)(sc \<mapsto> Idle), csEvltr := snd (bi_record bi Shutdown Idle (csEvltr ?y))\<rparr>)"
        by (rule connect_one_counted [OF 2(4)]) (use 2(7) Inr in simp)
      then have c: "states_counted cnt ?y'" by (rule states_counted_cong [rotated 2]) simp_all
      have "\<forall>k \<in> set addrs. \<forall>c. bi_new bi k = Inr c \<longrightarrow> scStates ?y' c = None"
      proof (intro ballI allI impI)
        fix k c assume k: "k \<in> set addrs" "bi_new bi k = Inr c"
        have "c \<noteq> sc"
        proof
          assume "c = sc"
          then have "bi_new bi k = bi_new bi key" using k(2) Inr by simp
          then have "k = key" using inj_onD [OF 2(8)] k Inr by auto
          then show False using 2(5) k(1) by simp
        qed
        then show "scStates ?y' c = None" using 2(7) k by simp
      qed
      then have "states_counted cnt (snd (connect_all bi addrs (new(key \<mapsto> sc)) ?y'))"
        by (intro 2(2) [OF None y Inr 2(4) _ c _ inj]) (use 2(5) in simp_all)
      then show ?thesis using None Inr by (simp add: Let_def)
    qed
  qed
qed simp

section \<open>The state the balancer reports\<close>

text \<open>gRPC hands out a connection of its own for every address.\<close>

definition fresh_conns :: "'v balInput \<Rightarrow> string list \<Rightarrow> 'v balancer \<Rightarrow> bool" where
  "fresh_conns bi addrs y \<longleftrightarrow>
     (\<forall>k \<in> set addrs. \<forall>sc. bi_new bi k = Inr sc \<longrightarrow> scStates y sc = None)
     \<and> inj_on (bi_new bi) {k \<in> set addrs. \<exists>sc. bi_new bi k = Inr sc}"

lemma UpdateClientConnState_counted:
  assumes "evaluator_ok (bi_record bi) cnt" and "states_counted cnt y"
    and "\<forall>x. s = Some x \<longrightarrow> distinct (concat (map fst (rsv_endpoints x))) \<and> fresh_conns bi (concat (map fst (rsv_endpoints x))) y"
  shows "states_counted cnt (snd (UpdateClientConnState bi s y))"
proof (cases s)
  case None
  then show ?thesis
    by (intro states_counted_cong [OF _ _ assms(2)]) (simp_all add: UpdateClientConnState_def Let_def)
next
  case (Some x)
  obtain y0 where y0: "y0 = y\<lparr>resolverErr := None, brouter := rsv_router x, bport := rsv_port x\<rparr>" by blast
  have c0: "states_counted cnt y0" by (rule states_counted_cong [OF _ _ assms(2)]) (simp_all add: y0)
  show ?thesis
  proof (cases "rsv_endpoints x = []")
    case True
    then show ?thesis using Some
      by (intro states_counted_cong [OF _ _ assms(2)]) (simp_all add: UpdateClientConnState_def Let_def)
  next
    case False
    obtain as where as: "concat (map fst (rsv_endpoints x)) = as" by blast
    obtain new y1 where c: "connect_all bi as Map.empty y0 = (new, y1)" by fastforce
    have f: "\<forall>k \<in> set as. \<forall>sc. bi_new bi k = Inr sc \<longrightarrow> scStates y0 sc = None"
      "inj_on (bi_new bi) {k \<in> set as. \<exists>sc. bi_new bi k = Inr sc}" "distinct as"
      using assms(3) [rule_format, OF Some, unfolded as] by (simp_all add: fresh_conns_def y0)
    have c1: "states_counted cnt y1"
      using connect_all_counted [OF assms(1) f(3) c0 f(1,2), of Map.empty] c by simp
    have "snd (UpdateClientConnState bi s y) =
        (if \<forall>key \<in> set as. new key = None
         then ResolverError (ErrCode ErrNoEndpointAvailable) True ((shutdown_gone (bi_keys bi) new y1)\<lparr>subConns := new\<rparr>)
         else update_state (regeneratePicker ((shutdown_gone (bi_keys bi) new y1)\<lparr>subConns := new\<rparr>)))"
      using False c Some unfolding UpdateClientConnState_def as [symmetric] y0 by (simp add: Let_def)
    then show ?thesis using shutdown_gone_spec [of "bi_keys bi" new y1]
      by (intro states_counted_cong [OF _ _ c1]) (simp_all add: update_state_def)
  qed
qed

text \<open>A transition that is not ignored.\<close>

definition ignored :: "connState \<Rightarrow> connState \<Rightarrow> bool" where
  "ignored oldS s \<longleftrightarrow> oldS = TransientFailure \<and> (s = Connecting \<or> s = Idle)"

lemma updateSubConnState_fields:
  assumes "scStates y sc = Some oldS" and "\<not> ignored oldS s"
  shows "scStates (updateSubConnState bi sc s err y) =
      (if s = Shutdown then (scStates y)(sc := None) else (scStates y)(sc \<mapsto> s))"
    and "csEvltr (updateSubConnState bi sc s err y) = snd (bi_record bi oldS s (csEvltr y))"
    and "bstate (updateSubConnState bi sc s err y) = fst (bi_record bi oldS s (csEvltr y))"
    and "subConns (updateSubConnState bi sc s err y) = subConns y"
  using assms by (cases s; auto simp: updateSubConnState_def ignored_def Let_def update_state_def split: prod.split)+

lemma updateSubConnState_ignored:
  assumes "scStates y sc = None \<or> (\<exists>oldS. scStates y sc = Some oldS \<and> ignored oldS s)"
  shows "scStates (updateSubConnState bi sc s err y) = scStates y"
    and "csEvltr (updateSubConnState bi sc s err y) = csEvltr y"
    and "bstate (updateSubConnState bi sc s err y) = bstate y"
    and "bpicker (updateSubConnState bi sc s err y) = bpicker y"
  using assms by (auto simp: updateSubConnState_def ignored_def)

lemma updateSubConnState_counted:
  assumes "evaluator_ok (bi_record bi) cnt" and "states_counted cnt y"
  shows "states_counted cnt (updateSubConnState bi sc s err y)"
proof (cases "\<exists>oldS. scStates y sc = Some oldS \<and> \<not> ignored oldS s")
  case False
  then show ?thesis
    by (cases "scStates y sc") (intro states_counted_cong [OF _ _ assms(2)] updateSubConnState_ignored; simp)+
next
  case True
  then obtain oldS where o: "scStates y sc = Some oldS" "\<not> ignored oldS s" by blast
  note fields = updateSubConnState_fields [OF o, of bi err]
  have fin: "finite (dom (scStates y))" and ns: "\<forall>c. scStates y c \<noteq> Some Shutdown"
    and eq: "\<And>t. t \<noteq> Shutdown \<Longrightarrow> cnt (csEvltr y) t = count_state (scStates y) t"
    using assms(2) by (simp_all add: states_counted_def)
  have "cnt (snd (bi_record bi oldS s (csEvltr y))) t = count_state (scStates (updateSubConnState bi sc s err y)) t"
    if "t \<noteq> Shutdown" for t
    using that o(1) eq [OF that] evaluator_okD(2) [OF assms(1) that]
    by (simp add: fields count_state_drop [OF fin] count_state_put [OF fin])
  then show ?thesis using fin ns by (simp add: states_counted_def fields)
qed

lemma updateSubConnState_aggregate:
  assumes "evaluator_ok (bi_record bi) cnt" and "states_counted cnt y"
    and "scStates y sc = Some oldS" and "\<not> ignored oldS s"
  shows "bstate (updateSubConnState bi sc s err y) = aggregate (count_state (scStates (updateSubConnState bi sc s err y)))"
proof -
  let ?y = "updateSubConnState bi sc s err y"
  have "states_counted cnt ?y" by (rule updateSubConnState_counted [OF assms(1,2)])
  then have "cnt (csEvltr ?y) t = count_state (scStates ?y) t" if "t \<noteq> Shutdown" for t
    using that by (simp add: states_counted_def)
  then have "aggregate (cnt (csEvltr ?y)) = aggregate (count_state (scStates ?y))"
    by (simp add: aggregate_def)
  then show ?thesis
    by (simp add: updateSubConnState_fields [OF assms(3,4)] evaluator_okD(1) [OF assms(1)])
qed

lemma aggregate_Ready:
  assumes "finite (dom m)"
  shows "aggregate (count_state m) = Ready \<longleftrightarrow> (\<exists>sc. m sc = Some Ready)"
proof -
  have "finite {sc. m sc = Some Ready}" by (rule finite_subset [OF _ assms]) auto
  then have "0 < count_state m Ready \<longleftrightarrow> (\<exists>sc. m sc = Some Ready)"
    by (auto simp: count_state_def card_gt_0_iff)
  then show ?thesis by (simp add: aggregate_def)
qed

text \<open>A run of the balancer.\<close>

inductive bal_step :: "('v \<Rightarrow> connState \<Rightarrow> int) \<Rightarrow> 'v balancer \<Rightarrow> 'v balancer \<Rightarrow> bool" for cnt where
  bal_addresses:
    "evaluator_ok (bi_record bi) cnt \<Longrightarrow>
     \<forall>x. s = Some x \<longrightarrow> distinct (concat (map fst (rsv_endpoints x))) \<and> fresh_conns bi (concat (map fst (rsv_endpoints x))) y \<Longrightarrow>
     bal_step cnt y (snd (UpdateClientConnState bi s y))"
| bal_state: "evaluator_ok (bi_record bi) cnt \<Longrightarrow> bal_step cnt y (updateSubConnState bi sc s err y)"
| bal_error: "bal_step cnt y (ResolverError err (\<forall>k. subConns y k = None) y)"

inductive bal_reach :: "('v \<Rightarrow> connState \<Rightarrow> int) \<Rightarrow> 'v \<Rightarrow> 'v balancer \<Rightarrow> bool" for cnt ev where
  bal_start: "bal_reach cnt ev (balancer_Build ev)"
| bal_next: "bal_reach cnt ev y \<Longrightarrow> bal_step cnt y y' \<Longrightarrow> bal_reach cnt ev y'"

lemma bal_reach_counted:
  assumes "bal_reach cnt ev y" and "\<forall>s. cnt ev s = 0"
  shows "states_counted cnt y"
  using assms(1)
proof induction
  case bal_start
  show ?case using assms(2) by (rule states_counted_Build)
next
  case (bal_next y y')
  from bal_next(2) show ?case
  proof cases
    case (bal_addresses bi s)
    then show ?thesis using UpdateClientConnState_counted bal_next.IH by blast
  next
    case (bal_state bi sc s err)
    then show ?thesis using updateSubConnState_counted bal_next.IH by blast
  next
    case (bal_error err)
    then show ?thesis by (intro states_counted_cong [OF _ _ bal_next.IH]) simp_all
  qed
qed

section \<open>Resolver, balancer and picker\<close>

lemma Pick_routed:
  assumes "pick_target info y = Ret mt"
    and "Route env bs eng st inp mt (pk_router y) w = (Ret (n, Some e, port, meta, None), w')"
  shows "Pick env bs eng st md inp info y w =
    (Ret (case pk_subConns y (address (IP e) port) of None \<Rightarrow> Inl ErrNoSubConnAvailable | Some sc \<Rightarrow> Inr (sc, md meta)), w')"
  using assms by (simp add: Pick_def split: option.split)

lemma Pick_not_routed:
  assumes "pick_target info y = Ret mt"
    and "Route env bs eng st inp mt (pk_router y) w = (Ret (n, e, port, meta, Some err), w')"
  shows "Pick env bs eng st md inp info y w = (Ret (Inl err), w')"
  using assms by (simp add: Pick_def)

lemma offered_mem:
  "selector_at n w = Some c \<Longrightarrow> service_at (Service (raw c)) (wTable w) = Some s \<Longrightarrow> e \<in> set (svEndpoints s) \<Longrightarrow>
     address (IP e) (port_of (SPort (raw c)) e) \<in> offered w n"
  by (simp add: offered_def)

text \<open>
  Every endpoint of a service a router's selector names has a connection, once the addresses the
  resolver found have gone through the balancer without an error.
\<close>

lemma published_connected:
  assumes "endpoint_groups st ns {} w = (Ret gs, w1)"
    and "\<forall>n \<in> set ns. selector_at n w \<noteq> None" and "\<not> serviceMu (wTable w)" and "services (wTable w) \<noteq> None"
    and "UpdateClientConnState bi (Some \<lparr>rsv_endpoints = gs, rsv_router = rn, rsv_port = rp\<rparr>) y = (err, y')"
    and "gs \<noteq> []" and "range_order (bi_keys bi) (subConns y)" and "\<forall>k. \<exists>sc. bi_new bi k = Inr sc"
    and "n \<in> set ns" and "selector_at n w = Some c" and "service_at (Service (raw c)) (wTable w) = Some s"
    and "e \<in> set (svEndpoints s)"
  shows "\<exists>sc. subConns y' (address (IP e) (port_of (SPort (raw c)) e)) = Some sc"
proof -
  have gs: "distinct (concat (map fst gs))" "set (concat (map fst gs)) = published w ns"
    using endpoint_groups_spec [OF assms(2-4), of st "{}"] assms(1) by auto
  have "address (IP e) (port_of (SPort (raw c)) e) \<in> set (concat (map fst gs))"
    unfolding gs(2) published_def using offered_mem [OF assms(10-12)] assms(9) by blast
  moreover have "connection bi (subConns y) k \<noteq> None" for k
  proof -
    obtain sc where "bi_new bi k = Inr sc" using assms(8) by blast
    then show ?thesis by (simp add: connection_def split: option.split)
  qed
  ultimately show ?thesis
    using UpdateClientConnState_eq(1) [OF _ _ assms(7,5)] gs(1) assms(6) by auto
qed

end
