(* ===== verification/EchoTcp.thy ===== *)
theory EchoTcp
  imports SdkClient
begin

text \<open>
  \<open>cmd/example/echo-tcp\<close>: the router's protocol for servers that do not use gRPC. A message is a map
  of headers, data and an error in a byte format of its own; a frame carries it with the number of
  its request; the server's loop checks each request against the routing table of its SDK; the
  client matches responses to requests by number. Bytes are characters. \<open>Errorf\<close> is what
  \<open>fmt.Errorf\<close> makes of a format without arguments.
\<close>

section \<open>Little-endian numbers\<close>

definition put32 :: "u32 \<Rightarrow> string" where
  "put32 w = (let n = unat w in
     [char_of (n mod 256), char_of (n div 256 mod 256), char_of (n div 65536 mod 256), char_of (n div 16777216 mod 256)])"

definition get32 :: "string \<Rightarrow> u32" where
  "get32 s = word_of_nat (of_char (s ! 0) + 256 * of_char (s ! 1) + 65536 * of_char (s ! 2) + 16777216 * of_char (s ! 3))"

definition put_len :: "string \<Rightarrow> string" where
  "put_len s = put32 (word_of_nat (length s))"

text \<open>\<open>binary.Read\<close> of an \<open>int32\<close>: too few bytes are used up and leave the zero.\<close>

definition read32 :: "string \<Rightarrow> u32 \<times> string" where
  "read32 b = (if length b < 4 then (0, []) else (get32 b, drop 4 b))"

text \<open>A new slice of that length, which a negative length panics on, filled by one \<open>Read\<close>.\<close>

definition read_bytes :: "u32 \<Rightarrow> string \<Rightarrow> (string \<times> string) result" where
  "read_bytes n b =
     (if sint n < 0 then Panicked BadLength
      else (let k = unat n in Ret (take k b @ replicate (k - length b) (CHR 0x00), drop k b)))"

section \<open>Messages\<close>

text \<open>The headers are in the order in which the loop of \<open>Marshal\<close> visits the map.\<close>

record tcpData =
  dHeaders :: "(string \<times> string) list"
  dData :: string
  dErr :: "go_error option"

definition Marshal :: "tcpData \<Rightarrow> string" where
  "Marshal d =
     put32 (word_of_nat (length (dHeaders d)))
     @ concat (map (\<lambda>(k, v). put_len k @ k @ put_len v @ v) (dHeaders d))
     @ put_len (dData d) @ dData d
     @ (case dErr d of Some e \<Rightarrow> put_len (error_text e) @ error_text e | None \<Rightarrow> put32 0)"

fun read_headers :: "nat \<Rightarrow> string \<Rightarrow> (string \<times> string) list \<Rightarrow> ((string \<times> string) list \<times> string) result" where
  "read_headers 0 b hs = Ret (hs, b)"
| "read_headers (Suc n) b hs =
     (let (keyLen, b) = read32 b in
      out_bind (read_bytes keyLen b) (\<lambda>(key, b).
        let (valueLen, b) = read32 b in
        out_bind (read_bytes valueLen b) (\<lambda>(value, b).
          read_headers n b (AList.update key value hs))))"

definition UnmarshalData :: "(string \<Rightarrow> string) \<Rightarrow> string \<Rightarrow> tcpData result" where
  "UnmarshalData Errorf b =
     (let (headerCount, b) = read32 b in
      out_bind (read_headers (nat (sint headerCount)) b []) (\<lambda>(hs, b).
        let (dataLen, b) = read32 b in
        out_bind (read_bytes dataLen b) (\<lambda>(dat, b).
          let (errLen, b) = read32 b in
          if sint errLen > 0
          then out_bind (read_bytes errLen b) (\<lambda>(errMsg, b).
                 Ret \<lparr>dHeaders = hs, dData = dat,
                   dErr = Some (case UnmarshalError errMsg of
                                  Some e \<Rightarrow> ErrCode e
                                | None \<Rightarrow> ErrText (Errorf errMsg))\<rparr>)
          else Ret \<lparr>dHeaders = hs, dData = dat, dErr = None\<rparr>)))"

section \<open>The server's connections\<close>

text \<open>One read of a frame: the stream ends between frames, the loop gives up, it panics, or a frame.\<close>

datatype frameRead = FEof | FStop | FPanic | FFrame u32 string string

definition read_frame :: "string \<Rightarrow> frameRead" where
  "read_frame s =
     (if s = [] then FEof
      else if length s < 4 then FStop
      else (let i = get32 s; s = drop 4 s in
        if length s < 4 then FStop
        else (let len = sint (get32 s); s = drop 4 s in
          if len > 65536 then FStop
          else if len < 0 then FPanic
          else if length s < nat len then FStop
          else FFrame i (take (nat len) s) (drop (nat len) s))))"

lemma read_frame_shorter: "read_frame s = FFrame i d rest \<Longrightarrow> length rest < length s"
  by (auto simp: read_frame_def Let_def split: if_splits)

record response =
  rsp_id :: u32
  rsp_data :: string
  rsp_sent :: "report option"

text \<open>
  One request: the response, and the custom route a goroutine is to set, for the value of \<open>x-uid\<close> to
  the endpoint of the header. \<open>perm\<close> is the order in which \<open>Marshal\<close> visits the headers.
\<close>

definition serve_request :: "(int \<Rightarrow> string \<Rightarrow> string) \<Rightarrow> (string \<Rightarrow> string) \<Rightarrow> 're storeOps option \<Rightarrow>
    ((string \<times> string) list \<Rightarrow> (string \<times> string) list) \<Rightarrow> u32 \<Rightarrow> string \<Rightarrow>
    (('m, 're) world \<times> sdkServer, go_error, response \<times> (string \<times> endpoint option) option) go" where
  "serve_request status_text Errorf st perm i dat = (\<lambda>s.
     case UnmarshalData Errorf dat of
       Panicked p \<Rightarrow> (Panicked p, s)
     | Blocked \<Rightarrow> (Blocked, s)
     | Ret d \<Rightarrow>
         go_bind (OnRequestReceived status_text st (map_of (dHeaders d))) (\<lambda>(sent, err).
           let hs = map_of (dHeaders d);
               d = d\<lparr>dErr := err, dHeaders := perm (dHeaders d)\<rparr>;
               route = (if hs ''set-custom-route'' \<noteq> None
                        then Some (hget hs ''x-uid'', EndpointFromString (hget hs ''yapr-endpoint'')) else None)
           in go_ret (\<lparr>rsp_id = i, rsp_data = Marshal d, rsp_sent = sent\<rparr>, route)) s)"

text \<open>The reading goroutine; the flag is whether the channel of responses was closed.\<close>

function serve_loop :: "(int \<Rightarrow> string \<Rightarrow> string) \<Rightarrow> (string \<Rightarrow> string) \<Rightarrow> 're storeOps option \<Rightarrow>
    ((string \<times> string) list \<Rightarrow> (string \<times> string) list) \<Rightarrow> string \<Rightarrow> (('m, 're) world \<times> sdkServer) \<Rightarrow>
    bool result \<times> (response \<times> (string \<times> endpoint option) option) list \<times> (('m, 're) world \<times> sdkServer)" where
  "serve_loop status_text Errorf st perm s x =
     (case read_frame s of
        FEof \<Rightarrow> (Ret True, [], x)
      | FStop \<Rightarrow> (Ret False, [], x)
      | FPanic \<Rightarrow> (Panicked BadLength, [], x)
      | FFrame i d rest \<Rightarrow>
          (case serve_request status_text Errorf st perm i d x of
             (Ret r, x) \<Rightarrow>
               (case serve_loop status_text Errorf st perm rest x of (c, out, x) \<Rightarrow> (c, r # out, x))
           | (Panicked p, x) \<Rightarrow> (Panicked p, [], x)
           | (Blocked, x) \<Rightarrow> (Blocked, [], x)))"
  by pat_completeness auto

termination serve_loop
  by (relation "measure (\<lambda>(_, _, _, _, s, _). length s)") (auto dest: read_frame_shorter)

declare serve_loop.simps [simp del]

text \<open>The writing goroutine.\<close>

definition response_bytes :: "response \<Rightarrow> string" where
  "response_bytes r = put32 (rsp_id r) @ put_len (rsp_data r) @ rsp_data r"

fun write_responses :: "response list \<Rightarrow> sdkServer \<Rightarrow> string \<times> sdkServer" where
  "write_responses [] y = ([], y)"
| "write_responses (r # rsps) y =
     (case write_responses rsps (case rsp_sent r of Some rp \<Rightarrow> onResponseSent rp y | None \<Rightarrow> y) of
        (out, y') \<Rightarrow> (response_bytes r @ out, y'))"

section \<open>The client's connections\<close>

text \<open>Requests that wait are known by their number; a response is delivered to one of them.\<close>

record tcpClient =
  cl_id :: u32
  pendingRequests :: "u32 set"

definition NewClient :: tcpClient where
  "NewClient = \<lparr>cl_id = 0, pendingRequests = {}\<rparr>"

definition client_Send :: "string \<Rightarrow> tcpClient \<Rightarrow> (u32 \<times> string) \<times> tcpClient" where
  "client_Send message c =
     (let i = cl_id c + 1 in
      ((i, put32 i @ put_len message @ message),
       c\<lparr>cl_id := i, pendingRequests := insert i (pendingRequests c)\<rparr>))"

function client_receive :: "string \<Rightarrow> tcpClient \<Rightarrow> (u32 \<times> string) list \<times> tcpClient" where
  "client_receive s c =
     (if length s < 4 then ([], c)
      else (let rid = get32 s; s = drop 4 s in
        if rid \<notin> pendingRequests c then ([], c)
        else (let c = c\<lparr>pendingRequests := pendingRequests c - {rid}\<rparr> in
          if length s < 4 then ([], c)
          else (let k = unat (get32 s); s = drop 4 s in
            if length s < k then ([], c)
            else (case client_receive (drop k s) c of (ds, c) \<Rightarrow> ((rid, take k s) # ds, c))))))"
  by pat_completeness auto

termination client_receive
  by (relation "measure (\<lambda>(s, _). length s)") auto

declare client_receive.simps [simp del]

text \<open>
  The \<open>requestSender\<close> of the client, which panics for an unknown address and does not look at the
  response; \<open>clients\<close> are the addresses it is connected to.
\<close>

definition tcp_request :: "string set \<Rightarrow> string \<Rightarrow> string \<Rightarrow> ((string \<times> string) list \<Rightarrow> (string \<times> string) list) \<Rightarrow>
    endpoint \<Rightarrow> u32 \<Rightarrow> (string \<times> string) list \<Rightarrow> (string \<times> string) result" where
  "tcp_request clients uid dat perm e port hs =
     (let addr = IP e @ '':'' @ show_nat (unat port) in
      if addr \<notin> clients then Panicked (PanicMsg ''client not found'')
      else Ret (addr, Marshal \<lparr>dHeaders = perm (AList.update ''x-uid'' uid hs), dData = dat, dErr = None\<rparr>))"

definition createData :: "string \<Rightarrow> go_error + string" where
  "createData sz =
     (if sz = ''100B'' then Inr (replicate 100 (CHR ''A''))
      else if sz = ''1KB'' then Inr (replicate 1024 (CHR ''A''))
      else if sz = ''10KB'' then Inr (replicate (10 * 1024) (CHR ''A''))
      else if sz = ''64KB'' then Inr (replicate (64 * 1024) (CHR ''A''))
      else if sz = ''128KB'' then Inr (replicate (128 * 1024) (CHR ''A''))
      else Inl (ErrText ''size should be 100B 1KB 10KB 64KB 128KB''))"

section \<open>Reading back what was written\<close>

lemma length_put32 [simp]: "length (put32 w) = 4"
  by (simp add: put32_def Let_def)

lemma put32_not_Nil [simp]: "put32 w \<noteq> []"
  by (simp add: put32_def Let_def)

lemma four_bytes:
  assumes "n < 4294967296"
  shows "n mod 256 + 256 * (n div 256 mod 256) + 65536 * (n div 65536 mod 256) + 16777216 * (n div 16777216 mod 256) = (n :: nat)"
proof -
  have d: "n div 65536 = n div 256 div 256" "n div 16777216 = n div 256 div 256 div 256"
    by (simp_all add: div_mult2_eq [symmetric])
  have "n div 256 div 256 div 256 < 256" using assms by (simp add: div_mult2_eq [symmetric] less_mult_imp_div_less)
  then have "n div 256 div 256 div 256 mod 256 = n div 256 div 256 div 256" by simp
  moreover have "256 * (n div 256) + n mod 256 = n" "256 * (n div 256 div 256) + n div 256 mod 256 = n div 256"
    "256 * (n div 256 div 256 div 256) + n div 256 div 256 mod 256 = n div 256 div 256" by simp_all
  ultimately show ?thesis unfolding d by linarith
qed

lemma get32_put32 [simp]: "get32 (put32 w @ s) = w"
proof -
  obtain n where n: "n = unat w" by blast
  have "n < 4294967296" using unsigned_less [of w] by (simp add: n)
  note f = four_bytes [OF this]
  have "get32 (put32 w @ s) = word_of_nat (n mod 256 + 256 * (n div 256 mod 256)
      + 65536 * (n div 65536 mod 256) + 16777216 * (n div 16777216 mod 256))"
    by (simp only: get32_def put32_def Let_def n [symmetric] append.simps nth_Cons_0 nth_Cons_Suc numeral_2_eq_2
        numeral_3_eq_3 One_nat_def of_char_of) simp
  then show ?thesis unfolding f by (simp add: n)
qed

lemma drop_put32 [simp]: "drop 4 (put32 w @ s) = s"
  by (simp add: put32_def Let_def)

lemma read32_put32 [simp]: "read32 (put32 w @ b) = (w, b)"
  by (simp add: read32_def)

text \<open>Lengths a message can have.\<close>

definition small :: "'a list \<Rightarrow> bool" where
  "small s \<longleftrightarrow> length s < 2147483648"

lemma small_word:
  assumes "small s"
  shows "unat (word_of_nat (length s) :: u32) = length s" and "sint (word_of_nat (length s) :: u32) = int (length s)"
proof -
  have l: "length s < 2147483648" using assms by (simp add: small_def)
  show u: "unat (word_of_nat (length s) :: u32) = length s" using l by (simp add: unat_of_nat take_bit_nat_eq_self)
  show "sint (word_of_nat (length s) :: u32) = int (length s)"
    using l by (simp add: signed_of_nat signed_take_bit_int_eq_self)
qed

lemma read_bytes_put [simp]: "small s \<Longrightarrow> read_bytes (word_of_nat (length s)) (s @ b) = Ret (s, b)"
  by (simp add: read_bytes_def small_word)

lemma read_headers_put:
  assumes "\<forall>(k, v) \<in> set hs. small k \<and> small v" and "distinct (map fst (acc @ hs))"
  shows "read_headers (length hs) (concat (map (\<lambda>(k, v). put_len k @ k @ put_len v @ v) hs) @ b) acc = Ret (acc @ hs, b)"
  using assms
proof (induction hs arbitrary: acc)
  case (Cons kv hs)
  obtain k v where kv: "kv = (k, v)" by (cases kv)
  have "AList.update k v acc = acc @ [(k, v)]"
    using Cons.prems(2) kv by (intro alist_update_new) auto
  moreover have "read_headers (length hs) (concat (map (\<lambda>(k, v). put_len k @ k @ put_len v @ v) hs) @ b) (acc @ [(k, v)])
      = Ret ((acc @ [(k, v)]) @ hs, b)"
    using Cons.prems kv by (intro Cons.IH) auto
  ultimately show ?case using Cons.prems(1) kv by (simp add: put_len_def)
qed simp

definition small_data :: "tcpData \<Rightarrow> bool" where
  "small_data d \<longleftrightarrow>
     small (dHeaders d) \<and> (\<forall>(k, v) \<in> set (dHeaders d). small k \<and> small v) \<and> distinct (map fst (dHeaders d))
     \<and> small (dData d) \<and> (\<forall>e. dErr d = Some e \<longrightarrow> small (error_text e))"

text \<open>The error as it comes out: only its text travels.\<close>

definition carried_error :: "(string \<Rightarrow> string) \<Rightarrow> go_error option \<Rightarrow> go_error option" where
  "carried_error Errorf e =
     (case e of
        None \<Rightarrow> None
      | Some x \<Rightarrow>
          (if error_text x = [] then None
           else Some (case UnmarshalError (error_text x) of Some c \<Rightarrow> ErrCode c | None \<Rightarrow> ErrText (Errorf (error_text x)))))"

lemma small_Nil [simp]: "small []"
  by (simp add: small_def)

lemma UnmarshalData_Marshal:
  assumes "small_data d"
  shows "UnmarshalData Errorf (Marshal d) = Ret (d\<lparr>dErr := carried_error Errorf (dErr d)\<rparr>)"
proof -
  have hs: "read_headers (length (dHeaders d))
      (concat (map (\<lambda>(k, v). put_len k @ k @ put_len v @ v) (dHeaders d)) @ b) [] = Ret (dHeaders d, b)" for b
    using read_headers_put [of "dHeaders d" "[]"] assms by (simp add: small_data_def)
  have n: "nat (sint (word_of_nat (length (dHeaders d)) :: u32)) = length (dHeaders d)"
    using assms by (simp add: small_data_def small_word)
  note r = UnmarshalData_def Marshal_def put_len_def hs n
  show ?thesis
  proof (cases "dErr d")
    case None
    then show ?thesis using assms hs n
      by (simp add: UnmarshalData_def Marshal_def put_len_def [of "dData d"] small_data_def carried_error_def
          read32_def [of "put32 0"]) (simp add: put32_def get32_def Let_def)
  next
    case (Some e)
    have sm: "small (error_text e)" "small (dData d)" using assms Some by (simp_all add: small_data_def)
    have pos: "sint (word_of_nat (length (error_text e)) :: u32) > 0 \<longleftrightarrow> error_text e \<noteq> []"
      by (simp add: small_word [OF sm(1)])
    have rb: "read_bytes (word_of_nat (length (error_text e))) (error_text e) = Ret (error_text e, [])"
      using read_bytes_put [OF sm(1), of "[]"] by simp
    show ?thesis using sm Some hs n pos rb
      by (simp add: UnmarshalData_def Marshal_def put_len_def [of "dData d"] put_len_def [of "error_text e"] carried_error_def)
  qed
qed

text \<open>Coded errors arrive, errors that were turned into gRPC status errors do not.\<close>

lemma carried_coded: "wf_ewc e \<Longrightarrow> carried_error Errorf (Some (ErrCode e)) = Some (ErrCode (e\<lparr>Data := sort_key fst (Data e)\<rparr>))"
proof -
  assume wf: "wf_ewc e"
  have "Error e \<noteq> []" using Error_prefix [of e] by (auto simp: HasPrefix_def)
  then show ?thesis by (simp add: carried_error_def UnmarshalError_Error [OF wf])
qed

lemma carried_status:
  assumes "UnmarshalError (status_text 10086 (Error e)) = None" and "status_text 10086 (Error e) \<noteq> []"
  shows "carried_error Errorf (Some (ToGRPCError status_text e)) = Some (ErrText (Errorf (status_text 10086 (Error e))))"
  using assms by (simp add: carried_error_def ToGRPCError_def)

section \<open>Frames\<close>

definition frame :: "u32 \<Rightarrow> string \<Rightarrow> string" where
  "frame i dat = put32 i @ put_len dat @ dat"

lemma read_frame_frame:
  assumes "length dat \<le> 65536"
  shows "read_frame (frame i dat @ s) = FFrame i dat s"
proof -
  have "small dat" using assms by (simp add: small_def)
  note w = small_word [OF this]
  show ?thesis using assms by (simp add: read_frame_def frame_def Let_def put_len_def w)
qed

lemma client_Send_frame: "snd (fst (client_Send m c)) = frame (cl_id c + 1) m"
  by (simp add: client_Send_def frame_def Let_def)

lemma response_bytes_frame: "response_bytes r = frame (rsp_id r) (rsp_data r)"
  by (simp add: response_bytes_def frame_def)

text \<open>A length with the highest bit set makes the reading goroutine panic.\<close>

lemma read_frame_negative:
  assumes "sint n < 0"
  shows "read_frame (put32 i @ put32 n @ s) = FPanic"
  using assms by (simp add: read_frame_def Let_def)

lemma serve_loop_frames:
  assumes "\<forall>(i, d) \<in> set xs. length d \<le> 65536"
  shows "case serve_loop st er g perm (concat (map (\<lambda>(i, d). frame i d) xs)) x of
      (Ret c, out, x') \<Rightarrow> c \<and> map (rsp_id \<circ> fst) out = map fst xs
    | (Panicked p, out, x') \<Rightarrow> \<exists>ys. map fst xs = map (rsp_id \<circ> fst) out @ ys \<and> ys \<noteq> []
    | (Blocked, out, x') \<Rightarrow> True"
  using assms
proof (induction xs arbitrary: x)
  case Nil
  then show ?case by (simp add: serve_loop.simps read_frame_def)
next
  case (Cons a xs)
  obtain i d where a: "a = (i, d)" by (cases a)
  have rf: "read_frame (frame i d @ concat (map (\<lambda>(i, d). frame i d) xs)) = FFrame i d (concat (map (\<lambda>(i, d). frame i d) xs))"
    using Cons.prems a by (intro read_frame_frame) simp
  obtain r x1 where r: "serve_request st er g perm i d x = (r, x1)" by (metis surj_pair)
  show ?case
  proof (cases r)
    case (Ret q)
    have qi: "rsp_id (fst q) = i"
      using r Ret by (auto simp: serve_request_def go_bind_def Let_def split: outcome.splits prod.splits option.splits)
    obtain c out x2 where s: "serve_loop st er g perm (concat (map (\<lambda>(i, d). frame i d) xs)) x1 = (c, out, x2)"
      by (metis prod_cases3)
    have ih: "case (c, out, x2) of
      (Ret c, out, x') \<Rightarrow> c \<and> map (rsp_id \<circ> fst) out = map fst xs
    | (Panicked p, out, x') \<Rightarrow> \<exists>ys. map fst xs = map (rsp_id \<circ> fst) out @ ys \<and> ys \<noteq> []
    | (Blocked, out, x') \<Rightarrow> True"
      using Cons.IH [of x1] Cons.prems unfolding s by simp
    have eq: "serve_loop st er g perm (concat (map (\<lambda>(i, d). frame i d) (a # xs))) x = (c, q # out, x2)"
      using rf r Ret s a by (subst serve_loop.simps) simp
    show ?thesis unfolding eq using ih qi a by (cases c) auto
  next
    case (Panicked p)
    then have "serve_loop st er g perm (concat (map (\<lambda>(i, d). frame i d) (a # xs))) x = (Panicked p, [], x1)"
      using rf r a by (subst serve_loop.simps) simp
    then show ?thesis by simp
  next
    case Blocked
    then have "serve_loop st er g perm (concat (map (\<lambda>(i, d). frame i d) (a # xs))) x = (Blocked, [], x1)"
      using rf r a by (subst serve_loop.simps) simp
    then show ?thesis by simp
  qed
qed

text \<open>Responses in any order reach the requests they answer.\<close>

lemma client_receive_frames:
  assumes "distinct (map fst xs)" and "\<forall>(i, d) \<in> set xs. i \<in> pendingRequests c \<and> length d < 2 ^ 32"
  shows "client_receive (concat (map (\<lambda>(i, d). frame i d) xs)) c =
    (xs, c\<lparr>pendingRequests := pendingRequests c - fst ` set xs\<rparr>)"
  using assms
proof (induction xs arbitrary: c)
  case Nil
  then show ?case by (simp add: client_receive.simps)
next
  case (Cons a xs)
  obtain i d where a: "a = (i, d)" by (cases a)
  let ?c = "c\<lparr>pendingRequests := pendingRequests c - {i}\<rparr>"
  have u: "unat (word_of_nat (length d) :: u32) = length d"
    using Cons.prems(2) a by (simp add: unat_of_nat take_bit_nat_eq_self)
  have "client_receive (concat (map (\<lambda>(i, d). frame i d) xs)) ?c = (xs, ?c\<lparr>pendingRequests := pendingRequests ?c - fst ` set xs\<rparr>)"
    by (rule Cons.IH) (use Cons.prems a in force)+
  moreover have "A - {i} - B = A - insert i B" for A B :: "u32 set" by blast
  ultimately show ?case using Cons.prems a u
    by (subst client_receive.simps) (simp add: frame_def [of i d] put_len_def [of d] Let_def)
qed

end
