(* ===== verification/TransportGuarantees.thy ===== *)
theory TransportGuarantees
  imports Fixtures GrpcBalance EchoTcp
begin

text \<open>
  What the transports guarantee: the resolver, balancer and picker of gRPC, the retries of a client,
  the errors a server sends, and the messages and frames of the protocol over TCP; and where the
  retries and the errors fail.
\<close>

section \<open>Connections\<close>


definition ex_bal :: "(connState \<Rightarrow> int) balInput" where
  "ex_bal = \<lparr>bi_record = count_evaluator, bi_new = (\<lambda>_. Inr 1), bi_keys = []\<rparr>"

definition ex_resolved :: resolverState where
  "ex_resolved = \<lparr>rsv_endpoints = [([''10.0.0.1:23333''], ''echosvr'')], rsv_router = ''front'', rsv_port = 9090\<rparr>"


text \<open>C23: once the addresses the resolver found for the selectors of a router have gone through the
  balancer, a call that is routed to an endpoint of one of their services is given a connection.\<close>

theorem published_picked:
  assumes "endpoint_groups st ns {} w = (Ret gs, w1)"
    and "\<forall>n \<in> set ns. selector_at n w \<noteq> None" and "\<not> serviceMu (wTable w)" and "services (wTable w) \<noteq> None"
    and "UpdateClientConnState bi (Some \<lparr>rsv_endpoints = gs, rsv_router = rn, rsv_port = rp\<rparr>) y = (err, y')"
    and "gs \<noteq> []" and "range_order (bi_keys bi) (subConns y)" and "\<forall>k. \<exists>sc. bi_new bi k = Inr sc"
    and "n \<in> set ns" and "selector_at n w = Some c" and "service_at (Service (raw c)) (wTable w) = Some s"
    and "e \<in> set (svEndpoints s)"
    and "pick_target info (NewPicker (subConns y') rn rp) = Ret mt"
    and "Route env bs eng st inp mt rn w2 = (Ret (Service (raw c), Some e, port_of (SPort (raw c)) e, meta, None), w3)"
  shows "\<exists>sc. subConns y' (address (IP e) (port_of (SPort (raw c)) e)) = Some sc
    \<and> Pick env bs eng st md inp info (NewPicker (subConns y') rn rp) w2 = (Ret (Inr (sc, md meta)), w3)"
proof -
  obtain sc where "subConns y' (address (IP e) (port_of (SPort (raw c)) e)) = Some sc"
    using published_connected [OF assms(1-12)] by blast
  moreover have "pk_router (NewPicker (subConns y') rn rp) = rn" "pk_subConns (NewPicker (subConns y') rn rp) = subConns y'"
    by (simp_all add: NewPicker_def)
  ultimately show ?thesis using Pick_routed [OF assms(13), of env bs eng st inp w2] assms(14) by auto
qed

definition ex_info :: pickInfo where
  "ex_info = \<lparr>pi_method = ''/Echo'', pi_metadata = Some [(''x-uid'', [''7''])], pi_done = False\<rparr>"

theorem published_picked_witness:
  "\<exists>y' meta w3. UpdateClientConnState ex_bal (Some ex_resolved) (balancer_Build (\<lambda>_. 0)) = (None, y')
     \<and> Pick ex_env builtin_builders ex_engine (Some (ex_store ex_e1)) id ex_routeInput ex_info (NewPicker (subConns y') ''front'' 9090)
          (ex_world (ex_warm ex_picked)) = (Ret (Inr (1, meta)), w3)"
proof -
  let ?w = "ex_world (ex_warm ex_picked)"
  let ?b = "balancer_Build (\<lambda>_. 0) :: (connState \<Rightarrow> int) balancer"
  have sel: "selector_at ''echo'' ?w = Some (ex_warm ex_picked)" by (simp add: ex_world_def selector_at_def)
  have raw: "Service (raw (ex_warm ex_picked)) = ''echosvr''" "port_of (SPort (raw (ex_warm ex_picked))) ex_e1 = 23333"
    by (simp_all add: ex_warm_def ex_core_def NewCoreSelector_def ex_selector_def port_of_def ex_e1_def)
  have tab: "\<not> serviceMu (wTable ?w)" "services (wTable ?w) = Some [''echosvr'' \<mapsto> ex_service]"
    "service_at ''echosvr'' (wTable ?w) = Some ex_service" by (simp_all add: ex_world_def ex_table_def service_at_def)
  have addr: "address (IP ex_e1) 23333 = ''10.0.0.1:23333''"
    by (simp add: address_def ex_e1_def show_nat.simps digit_char_def ex_digits)
  have g: "\<exists>w1. endpoint_groups (Some (ex_store ex_e1)) [''echo''] {} ?w = (Ret (rsv_endpoints ex_resolved), w1)"
    using raw(2) by (simp add: sel raw(1) world_GetService_eq [OF tab(1,2)] tab(3) Endpoints_def ex_service_eq Let_def addr ex_resolved_def)
  obtain err y' where u: "UpdateClientConnState ex_bal (Some ex_resolved) ?b = (err, y')" by fastforce
  have err: "err = None" "subConns y' ''10.0.0.1:23333'' = Some 1"
    using u by (auto simp: UpdateClientConnState_def ex_resolved_def ex_bal_def balancer_Build_def Let_def update_state_def
        regeneratePicker_def cc_def)
  obtain hd w3 where r: "Route ex_env builtin_builders ex_engine (Some (ex_store ex_e1)) ex_routeInput ex_target ''front'' ?w =
      (Ret (Service (raw (ex_warm ex_picked)), Some ex_e1, port_of (SPort (raw (ex_warm ex_picked))) ex_e1, Some hd, None), w3)"
    using ex_route unfolding raw by blast
  have t: "pick_target ex_info (NewPicker (subConns y') ''front'' 9090) = Ret ex_target"
    by (simp add: pick_target_def ex_info_def NewPicker_def ex_target_def nth_go_def)
  have u': "UpdateClientConnState ex_bal (Some \<lparr>rsv_endpoints = rsv_endpoints ex_resolved, rsv_router = ''front'', rsv_port = 9090\<rparr>) ?b = (err, y')"
    using u by (simp add: ex_resolved_def)
  obtain w1 where w1: "endpoint_groups (Some (ex_store ex_e1)) [''echo''] {} ?w = (Ret (rsv_endpoints ex_resolved), w1)"
    using g by blast
  have "\<exists>sc. subConns y' (address (IP ex_e1) (port_of (SPort (raw (ex_warm ex_picked))) ex_e1)) = Some sc
    \<and> Pick ex_env builtin_builders ex_engine (Some (ex_store ex_e1)) id ex_routeInput ex_info (NewPicker (subConns y') ''front'' 9090) ?w =
       (Ret (Inr (sc, id (Some hd))), w3)"
    by (rule published_picked [where s = ex_service, OF w1 _ tab(1) _ u' _ _ _ _ sel _ _ t r])
      (use tab(2,3) sel raw(1) in \<open>simp_all add: ex_resolved_def ex_bal_def balancer_Build_def range_order_def ex_service_eq\<close>)
  then show ?thesis using u err unfolding raw addr by auto
qed

section \<open>Errors and retries\<close>

text \<open>C28: an error with a code that a server turns into a gRPC status error comes out at the client with
  its code, its message and its data, and \<open>As\<close> recovers the same error from its text.\<close>

theorem errcode_roundtrip:
  assumes "status_keeps_message fe" and "wf_ewc e"
  shows "\<exists>e'. FromGRPCError fe (ToGRPCError status_text e) = Some e' \<and> As (ErrCode e) = Some e'
    \<and> Code e' = Code e \<and> Msg e' = Msg e \<and> map_of (Data e') = map_of (Data e)"
  using FromGRPC_ToGRPC [OF assms] As_ErrCode [OF assms(2)] assms(2)
  by (simp add: wf_ewc_def map_of_sort_key)

lemma status_of_keeps [simp]: "status_keeps_message status_of"
  by (simp add: status_keeps_message_def)

theorem errcode_roundtrip_witness:
  "\<exists>e'. FromGRPCError status_of (ToGRPCError (\<lambda>_ m. m) (WithData ErrWrongEndpoint [(''selectorName'', ''echo'')])) = Some e'
     \<and> Code e' = 1017 \<and> map_of (Data e') ''selectorName'' = Some ''echo''"
proof -
  have "wf_ewc (WithData ErrWrongEndpoint [(''selectorName'', ''echo'')])"
    by (simp add: wf_ewc_def ErrWrongEndpoint_def int64_range_def)
  from errcode_roundtrip [OF status_of_keeps this, of "\<lambda>_ m. m"] show ?thesis
    by (auto simp: ErrWrongEndpoint_def)
qed

text \<open>The refusal of a server, as its client reads it.\<close>

lemma wrong_endpoint_read:
  assumes "status_keeps_message fe"
  shows "\<exists>ec. wrong_endpoint_error fe (wrong_endpoint status_text sel hv rawEndpoint) ec
    \<and> data_field ec ''selectorName'' = sel \<and> data_field ec ''headerValue'' = hv \<and> data_field ec ''endpoint'' = rawEndpoint"
proof -
  let ?d = "[(''selectorName'', sel), (''headerValue'', hv), (''endpoint'', rawEndpoint)]"
  let ?e = "WithData ErrWrongEndpoint ?d"
  have wf: "wf_ewc ?e" by (simp add: wf_ewc_def ErrWrongEndpoint_def int64_range_def)
  have "distinct (map fst ?d)" by simp
  then have "map_of (sort_key fst ?d) = map_of ?d" by (rule map_of_sort_key)
  then show ?thesis using FromGRPC_ToGRPC [OF assms wf, of status_text]
    by (intro exI [of _ "?e\<lparr>Data := sort_key fst ?d\<rparr>"])
      (simp add: wrong_endpoint_error_def wrong_endpoint_def data_field_def del: sort_key_simps)
qed

text \<open>C25: a call over another transport than gRPC is sent at most three times and always to the
  endpoint its route led to at first; when that server refuses it, because the custom route has
  moved, all three tries fail and the call ends with \<open>ErrMaxRetries\<close>, although the cache of the
  client has been refreshed in between.\<close>

theorem invoke_exhausted:
  fixes w w' :: "('m, 're) world" and g :: "'re storeOps"
  assumes "client_route env bs eng (Some g) inp t rn w = (Ret (n, e, port, Some hs, None), w')"
    and "status_keeps_message fe" and "notifiable w' sel"
  shows "(\<forall>answer r w'' h lg. Invoke env bs eng fe (Some g) inp t rn (recording answer) (w, (h0, [])) = (r, (w'', (h, lg)))
       \<longrightarrow> length lg \<le> 3 \<and> (\<forall>(n', e', port', hs') \<in> set lg. n' = n \<and> e' = e \<and> port' = port))
    \<and> (\<exists>w'' h lg. Invoke env bs eng fe (Some g) inp t rn
           (recording (\<lambda>_. Ret (Some (wrong_endpoint status_text sel hv rawEndpoint)))) (w, (h0, [])) =
           (Ret (Some (ErrCode ErrMaxRetries)), (w'', (h, lg)))
         \<and> map (\<lambda>c. fst (snd c)) lg = [e, e, e])"
proof -
  obtain ec where "wrong_endpoint_error fe (wrong_endpoint status_text sel hv rawEndpoint) ec" "data_field ec ''selectorName'' = sel"
    using wrong_endpoint_read [OF assms(2)] by blast
  then have "\<exists>w'' h lg. Invoke env bs eng fe (Some g) inp t rn
           (recording (\<lambda>_. Ret (Some (wrong_endpoint status_text sel hv rawEndpoint)))) (w, (h0, [])) =
           (Ret (Some (ErrCode ErrMaxRetries)), (w'', (h, lg))) \<and> map (\<lambda>c. fst (snd c)) lg = [e, e, e]"
    using Invoke_exhausted [OF assms(1), of fe _ ec] assms(3) by simp
  then show ?thesis using Invoke_same_endpoint [OF assms(1)] by blast
qed

lemma ex_client_route:
  "\<exists>hd w'. client_route ex_env builtin_builders ex_engine (Some (ex_store ex_e1)) ex_routeInput ex_target ''front''
       (ex_world (ex_warm ex_picked)) = (Ret (''echosvr'', Some ex_e1, 23333, Some hd, None), w') \<and> notifiable w' ''echo''"
proof -
  let ?w = "ex_world (ex_warm ex_picked)"
  have g: "GetRouter (Some (ex_store ex_e1)) ''front'' ?w = (Ret (Some ''front'', None), ?w)"
    by (simp add: GetRouter_def with_mu_def ex_world_def)
  obtain hd w' where r: "Route ex_env builtin_builders ex_engine (Some (ex_store ex_e1)) ex_routeInput ex_target ''front'' ?w =
      (Ret (''echosvr'', Some ex_e1, 23333, Some hd, None), w')" "\<not> selectorMu w'" "wSelectors w' = Some [''echo'' \<mapsto> ex_warm ex_picked]"
    using ex_route by blast
  have "notifiable w' ''echo''"
    using r(2,3) by (simp add: notifiable_def selector_at_def ex_warm_def ex_core_def NewCoreSelector_def ex_picked_def)
  then show ?thesis using r(1) by (simp add: client_route_def g)
qed

theorem invoke_exhausted_witness:
  "\<exists>w'' h lg. Invoke ex_env builtin_builders ex_engine status_of (Some (ex_store ex_e1)) ex_routeInput ex_target ''front''
      (recording (\<lambda>_. Ret (Some (wrong_endpoint (\<lambda>_ m. m) ''echo'' ''7'' (endpoint_String ex_e1)))))
      (ex_world (ex_warm ex_picked), (None, [])) = (Ret (Some (ErrCode ErrMaxRetries)), (w'', (h, lg)))
    \<and> map (\<lambda>c. fst (snd c)) lg = [Some ex_e1, Some ex_e1, Some ex_e1]"
proof -
  obtain hd w' where r: "client_route ex_env builtin_builders ex_engine (Some (ex_store ex_e1)) ex_routeInput ex_target ''front''
       (ex_world (ex_warm ex_picked)) = (Ret (''echosvr'', Some ex_e1, 23333, Some hd, None), w')" "notifiable w' ''echo''"
    using ex_client_route by blast
  show ?thesis using invoke_exhausted [OF r(1) status_of_keeps r(2)] by blast
qed

text \<open>C40: over gRPC every try adds its \<open>yapr-last-endpoint\<close> header to those of the tries before; after two
  refusals the third try carries both endpoints, the older first, and a server reads only the older.\<close>

theorem grpc_headers_pile_up:
  fixes w :: "('m, 're) world" and g :: "'re storeOps"
  assumes "status_keeps_message fe" and "notifiable w sel" and "md ''yapr-last-endpoint'' = None"
    and "err = (\<lambda>i. wrong_endpoint status_text sel hv (endpoint_String (es i)))"
  shows "\<exists>w' md' m1 m2 m. GRPCClientInterceptor fe (Some g)
        (recording_md (\<lambda>i. if i < 2 then Some (err i) else None)) (w, (Some md, [])) = (Ret None, (w', (md', [Some m, m2, m1])))
    \<and> m ''yapr-last-endpoint'' = Some [endpoint_String (es 0), endpoint_String (es 1)]
    \<and> first_values [(''yapr-last-endpoint'', the (m ''yapr-last-endpoint''))] Map.empty =
        Ret [''yapr-last-endpoint'' \<mapsto> endpoint_String (es 0)]"
proof -
  have "\<forall>i. \<exists>ec. wrong_endpoint_error fe (err i) ec \<and> data_field ec ''selectorName'' = sel
      \<and> data_field ec ''endpoint'' = endpoint_String (es i)"
    using wrong_endpoint_read [OF assms(1)] unfolding assms(4) by metis
  then obtain ec where ec: "\<And>i. wrong_endpoint_error fe (err i) (ec i)" "\<And>i. data_field (ec i) ''selectorName'' = sel"
    "\<And>i. data_field (ec i) ''endpoint'' = endpoint_String (es i)" by metis
  obtain w' md' m1 m2 m where "GRPCClientInterceptor fe (Some g)
        (recording_md (\<lambda>i. if i < 2 then Some (err i) else None)) (w, (Some md, [])) = (Ret None, (w', (md', [Some m, m2, m1])))"
    "m ''yapr-last-endpoint'' = Some [endpoint_String (es 0), endpoint_String (es 1)]"
    using GRPC_headers_pile_up [where err = err and ec = ec and fe = fe and n = sel and w = w and md = md and g = g]
      ec assms(2,3) by auto
  then show ?thesis
    by (intro exI [of _ w'] exI [of _ md'] exI [of _ m1] exI [of _ m2] exI [of _ m]) (simp add: nth_go_def)
qed

theorem grpc_headers_pile_up_witness:
  "\<exists>w' md' m1 m2 m. GRPCClientInterceptor status_of (Some (ex_store ex_e1))
        (recording_md (\<lambda>i. if i < 2 then Some (wrong_endpoint (\<lambda>_ m. m) ''echo'' ''7'' (endpoint_String (if i = 0 then ex_e1 else ex_e2))) else None))
        (ex_world (ex_warm ex_picked), (Some Map.empty, [])) = (Ret None, (w', (md', [Some m, m2, m1])))
    \<and> m ''yapr-last-endpoint'' = Some [endpoint_String ex_e1, endpoint_String ex_e2]"
proof -
  have n: "notifiable (ex_world (ex_warm ex_picked)) ''echo''"
    by (simp add: notifiable_def selector_at_def ex_world_def ex_warm_def ex_core_def NewCoreSelector_def ex_picked_def)
  show ?thesis
    using grpc_headers_pile_up [OF status_of_keeps n _ refl, of Map.empty "ex_store ex_e1" "\<lambda>_ m. m" "''7''" "\<lambda>i. if i = 0 then ex_e1 else ex_e2"]
    by auto
qed

section \<open>Messages and frames over TCP\<close>

text \<open>C26: a message of the protocol over TCP is read back as it was written, whatever the order of its
  headers, when it carries no error or an error with a code (whose data comes out sorted).\<close>

theorem tcp_message_roundtrip:
  assumes "small_data d"
  shows "(dErr d = None \<longrightarrow> UnmarshalData Errorf (Marshal d) = Ret d)
    \<and> (\<forall>e. dErr d = Some (ErrCode e) \<and> wf_ewc e \<longrightarrow>
         UnmarshalData Errorf (Marshal d) = Ret (d\<lparr>dErr := Some (ErrCode (e\<lparr>Data := sort_key fst (Data e)\<rparr>))\<rparr>))"
  using UnmarshalData_Marshal [OF assms, of Errorf] carried_coded [of _ Errorf]
  by (auto simp: carried_error_def [of Errorf None])

lemma ex_small [simp]: "length s < 1000 \<Longrightarrow> small s"
  by (simp add: small_def)

definition ex_message :: tcpData where
  "ex_message = \<lparr>dHeaders = [(''x-uid'', ''7''), (''yapr-selector'', ''echo'')], dData = ''hi'', dErr = None\<rparr>"

lemma ex_message_small: "small_data ex_message"
  by (simp add: small_data_def ex_message_def)

theorem tcp_message_roundtrip_witness: "UnmarshalData id (Marshal ex_message) = Ret ex_message"
  using tcp_message_roundtrip [OF ex_message_small, of id] by (simp add: ex_message_def)

text \<open>The requests a client sends one after the other.\<close>

fun send_all :: "string list \<Rightarrow> tcpClient \<Rightarrow> string \<times> tcpClient" where
  "send_all [] c = ([], c)"
| "send_all (m # ms) c =
     (case client_Send m c of ((i, b), c1) \<Rightarrow> (case send_all ms c1 of (bs, c2) \<Rightarrow> (b @ bs, c2)))"

definition next_ids :: "u32 \<Rightarrow> nat \<Rightarrow> u32 list" where
  "next_ids i n = map (\<lambda>k. i + word_of_nat (Suc k)) [0..<n]"

lemma next_ids_Suc: "next_ids i (Suc n) = (i + 1) # next_ids (i + 1) n"
  by (simp add: next_ids_def upt_rec [of 0 "Suc n"] map_Suc_upt [symmetric] comp_def add.commute add.left_commute del: upt_Suc)

lemma send_all_eq:
  "send_all ms c =
     (concat (map (\<lambda>(i, d). frame i d) (zip (next_ids (cl_id c) (length ms)) ms)),
      c\<lparr>cl_id := cl_id c + word_of_nat (length ms),
        pendingRequests := pendingRequests c \<union> set (next_ids (cl_id c) (length ms))\<rparr>)"
proof (induction ms arbitrary: c)
  case (Cons m ms)
  then show ?case
    by (auto simp: client_Send_def Let_def frame_def next_ids_Suc add.assoc)
qed (simp add: next_ids_def)

lemma next_ids_distinct: "n < 2 ^ 32 \<Longrightarrow> distinct (next_ids i n)"
  by (auto simp: next_ids_def distinct_map inj_on_def word_of_nat_eq_iff take_bit_nat_eq_self simp del: of_nat_Suc)

lemma next_ids_length [simp]: "length (next_ids i n) = n"
  by (simp add: next_ids_def)

lemma write_responses_bytes: "fst (write_responses rsps y) = concat (map (\<lambda>(i, d). frame i d) (map (\<lambda>r. (rsp_id r, rsp_data r)) rsps))"
proof (induction rsps arbitrary: y)
  case (Cons r rsps)
  let ?w = "write_responses rsps (case rsp_sent r of Some rp \<Rightarrow> onResponseSent rp y | None \<Rightarrow> y)"
  have "fst (write_responses (r # rsps) y) = response_bytes r @ fst ?w" by (cases ?w) simp
  then show ?case by (simp add: Cons.IH response_bytes_frame)
qed simp

text \<open>When a server has read all the requests a new client has sent, it has answered each of them
  once and in order, and the client delivers every answer to the request that waits for it and has
  none left waiting.\<close>

theorem tcp_exchange:
  assumes "length ms < 2 ^ 32" and "\<forall>m \<in> set ms. length m \<le> 65536" and "send_all ms NewClient = (bytes, c)"
    and "serve_loop status_text Errorf st perm bytes x = (Ret closed, out, (w, y))"
    and "\<forall>r \<in> set (map fst out). length (rsp_data r) < 2 ^ 32"
  shows "closed \<and> client_receive (fst (write_responses (map fst out) y)) c =
      (map (\<lambda>r. (rsp_id r, rsp_data r)) (map fst out), c\<lparr>pendingRequests := {}\<rparr>)
    \<and> map (rsp_id \<circ> fst) out = next_ids 0 (length ms)"
proof -
  let ?xs = "zip (next_ids 0 (length ms)) ms"
  let ?ds = "map (\<lambda>r. (rsp_id r, rsp_data r)) (map fst out)"
  have c: "bytes = concat (map (\<lambda>(i, d). frame i d) ?xs)" "pendingRequests c = set (next_ids 0 (length ms))"
    using assms(3) by (auto simp: send_all_eq NewClient_def)
  have "\<forall>(i, d) \<in> set ?xs. length d \<le> 65536" using assms(2) by (auto dest: set_zip_rightD)
  from serve_loop_frames [OF this, of status_text Errorf st perm x] assms(4)
  have s: "closed" "map (rsp_id \<circ> fst) out = next_ids 0 (length ms)" by (simp_all add: c(1))
  then have f: "map fst ?ds = next_ids 0 (length ms)" by (simp add: comp_def)
  have "distinct (map fst ?ds)" unfolding f by (rule next_ids_distinct [OF assms(1)])
  moreover have pend: "fst ` set ?ds = pendingRequests c" unfolding c(2) f [symmetric] by (simp only: set_map)
  have "\<forall>(i, d) \<in> set ?ds. i \<in> pendingRequests c \<and> length d < 2 ^ 32"
  proof (clarify, intro conjI)
    fix i d assume id: "(i, d) \<in> set ?ds"
    show "i \<in> pendingRequests c" unfolding pend [symmetric] using id by (rule rev_image_eqI) simp
    obtain r where "r \<in> set (map fst out)" "d = rsp_data r" using id by auto
    then show "length d < 2 ^ 32" using assms(5) by blast
  qed
  ultimately have "client_receive (concat (map (\<lambda>(i, d). frame i d) ?ds)) c =
      (?ds, c\<lparr>pendingRequests := pendingRequests c - fst ` set ?ds\<rparr>)"
    by (rule client_receive_frames)
  then show ?thesis using s pend by (simp add: write_responses_bytes)
qed

theorem tcp_exchange_witness:
  "\<exists>bytes c closed out w y. send_all [Marshal ex_message] NewClient = (bytes, c)
     \<and> serve_loop (\<lambda>_ m. m) id (Some (ex_store ex_e1)) id bytes (ex_world (ex_warm ex_picked), new_sdkServer ''svr-1'') =
         (Ret closed, out, (w, y))
     \<and> map fst (fst (client_receive (fst (write_responses (map fst out) y)) c)) = [1]
     \<and> pendingRequests (snd (client_receive (fst (write_responses (map fst out) y)) c)) = {}"
proof -
  let ?m = "Marshal ex_message"
  let ?x = "(ex_world (ex_warm ex_picked), new_sdkServer ''svr-1'')"
  let ?d = "ex_message\<lparr>dErr := Some (ErrCode ErrInvalidMetadata)\<rparr>"
  have m: "UnmarshalData id ?m = Ret ex_message"
    using UnmarshalData_Marshal [OF ex_message_small, of id] by (simp add: ex_message_def carried_error_def)
  have "length (Error ErrInvalidMetadata) < 1000" by code_simp
  then have len: "length ?m \<le> 65536" "length (Marshal ?d) < 2 ^ 32"
    by (simp_all add: Marshal_def ex_message_def put_len_def)
  have "serve_request (\<lambda>_ m. m) id (Some (ex_store ex_e1)) id i ?m ?x =
      (Ret (\<lparr>rsp_id = i, rsp_data = Marshal ?d, rsp_sent = None\<rparr>, None), ?x)" for i
    by (simp add: serve_request_def m OnRequestReceived_def Let_def) (simp add: ex_message_def)
  moreover obtain bytes c where b: "send_all [?m] NewClient = (bytes, c)" by fastforce
  then have "bytes = frame 1 ?m @ []" by (auto simp: send_all_eq NewClient_def next_ids_def)
  moreover have "read_frame (frame 1 ?m @ []) = FFrame 1 ?m []" by (rule read_frame_frame [OF len(1)])
  moreover have "serve_loop (\<lambda>_ m. m) id (Some (ex_store ex_e1)) id [] ?x = (Ret True, [], ?x)"
    by (simp add: serve_loop.simps read_frame_def)
  ultimately have s: "serve_loop (\<lambda>_ m. m) id (Some (ex_store ex_e1)) id bytes ?x =
      (Ret True, [(\<lparr>rsp_id = 1, rsp_data = Marshal ?d, rsp_sent = None\<rparr>, None)], ?x)"
    by (subst serve_loop.simps) simp
  have o: "\<forall>r \<in> set (map fst [(\<lparr>rsp_id = 1, rsp_data = Marshal ?d, rsp_sent = None\<rparr>, None :: (string \<times> endpoint option) option)]). length (rsp_data r) < 2 ^ 32"
    using len(2) by simp
  show ?thesis using tcp_exchange [OF _ _ b s o] len(1) b s by auto
qed

text \<open>The text gRPC prints for a status is no JSON.\<close>

lemma rpc_text_not_json: "HasPrefix s ''rpc error: '' \<Longrightarrow> UnmarshalError s = None"
proof -
  assume "HasPrefix s ''rpc error: ''"
  then obtain t where s: "s = CHR ''r'' # t" by (auto simp: HasPrefix_def take_Cons' split: if_splits) (cases s; auto)
  have "scan_num s = None" by (simp add: s scan_num_def scan_int_def is_digit_def Let_def)
  then have "json_parse s = None"
    by (cases "2 * length s") (auto simp: s json_parse_def skip_ws_def is_ws_def HasPrefix_def Let_def)
  then show ?thesis by (simp add: UnmarshalError_def)
qed

text \<open>C39: over TCP the refusal of a server loses its code: a client that reads the response finds an error
  known by its text only, and the loop of retries ends with it instead of trying again.\<close>

theorem tcp_error_lost:
  assumes "\<forall>c m. HasPrefix (status_text c m) ''rpc error: ''" and "\<forall>txt. fe (ErrText txt) = None"
    and "dErr d = Some (wrong_endpoint status_text sel hv rawEndpoint)" and "small_data d"
  shows "\<exists>txt. UnmarshalData Errorf (Marshal d) = Ret (d\<lparr>dErr := Some (ErrText txt)\<rparr>)
    \<and> after_failure fe st (ErrText txt) hs s = (Ret (Inl (ErrText txt)), s)"
proof -
  obtain e where e: "wrong_endpoint status_text sel hv rawEndpoint = ToGRPCError status_text e"
    by (simp add: wrong_endpoint_def)
  have p: "HasPrefix (status_text 10086 (Error e)) ''rpc error: ''" using assms(1) by blast
  then have "status_text 10086 (Error e) \<noteq> []" by (auto simp: HasPrefix_def)
  then have "carried_error Errorf (dErr d) = Some (ErrText (Errorf (status_text 10086 (Error e))))"
    using carried_status [of status_text e Errorf] rpc_text_not_json [OF p] assms(3) e by simp
  then have "UnmarshalData Errorf (Marshal d) = Ret (d\<lparr>dErr := Some (ErrText (Errorf (status_text 10086 (Error e))))\<rparr>)"
    using UnmarshalData_Marshal [OF assms(4), of Errorf] by simp
  moreover have "after_failure fe st (ErrText t) hs s = (Ret (Inl (ErrText t)), s)" for t
    by (rule after_failure_other) (simp add: wrong_endpoint_error_def FromGRPCError_def assms(2))
  ultimately show ?thesis by blast
qed

theorem tcp_error_lost_witness:
  "\<exists>txt. UnmarshalData id (Marshal (ex_message\<lparr>dErr := Some (wrong_endpoint (\<lambda>_ m. ''rpc error: '' @ m) ''echo'' ''7'' ''a#b#1'')\<rparr>)) =
       Ret (ex_message\<lparr>dErr := Some (ErrText txt)\<rparr>)
     \<and> after_failure status_of (Some (ex_store ex_e1)) (ErrText txt) [] (ex_world (ex_warm ex_picked), ()) =
       (Ret (Inl (ErrText txt)), (ex_world (ex_warm ex_picked), ()))"
proof -
  let ?d = "ex_message\<lparr>dErr := Some (wrong_endpoint (\<lambda>_ m. ''rpc error: '' @ m) ''echo'' ''7'' ''a#b#1'')\<rparr>"
  have "length (error_text (wrong_endpoint (\<lambda>_ m. ''rpc error: '' @ m) ''echo'' ''7'' ''a#b#1'')) < 1000" by code_simp
  then have "small_data ?d" using ex_message_small by (auto simp: small_data_def)
  from tcp_error_lost [OF _ _ _ this, of "\<lambda>_ m. ''rpc error: '' @ m" status_of "''echo''" "''7''" "''a#b#1''" id]
  show ?thesis by (simp add: HasPrefix_def)
qed

end
