(* ===== verification/ClusterRouting.thy ===== *)
theory ClusterRouting
  imports ClusterView Router
begin

text \<open>
  What a selection does to the table of services: whatever it calls, the copies stay directories of
  the same pods, and the service it works on is the one its selector names. The endpoint it picks is
  therefore one whose lease is alive in what the client has read of the cluster.
\<close>

section \<open>Calls that keep a property of the state\<close>

definition keeps :: "('s \<Rightarrow> bool) \<Rightarrow> ('s, 'e, 'a) go \<Rightarrow> bool" where
  "keeps I f \<longleftrightarrow> (\<forall>s. I s \<longrightarrow> I (snd (f s)))"

lemma keepsI: "(\<And>s. I s \<Longrightarrow> I (snd (f s))) \<Longrightarrow> keeps I f"
  by (simp add: keeps_def)

lemma keepsD: "keeps I f \<Longrightarrow> I s \<Longrightarrow> f s = (r, s') \<Longrightarrow> I s'"
  unfolding keeps_def by (metis snd_conv)

lemma keeps_ret [intro]: "keeps I (go_ret x)"
  by (simp add: keeps_def go_ret_def)

lemma keeps_bind [intro]: "keeps I f \<Longrightarrow> (\<And>a. keeps I (g a)) \<Longrightarrow> keeps I (go_bind f g)"
  by (auto simp: keeps_def go_bind_def split: prod.split outcome.split)

section \<open>The table of a client\<close>

definition well_placed :: "(string \<Rightarrow> directory) \<Rightarrow> 'm receiver \<Rightarrow> bool" where
  "well_placed ds r \<longleftrightarrow>
     (\<exists>m. services (rtab r) = Some m \<and> copies_of ds m)
     \<and> (svc (rs r) = None \<or> svc (rs r) = Some (Service (raw (rs r))))"

lemma well_placed_rs:
  "well_placed ds r \<Longrightarrow> raw (f (rs r)) = raw (rs r) \<Longrightarrow> svc (f (rs r)) = svc (rs r) \<Longrightarrow> well_placed ds (set_rs f r)"
  by (simp add: well_placed_def set_rs_def)

lemma well_placed_put:
  assumes "well_placed ds r" and "\<And>d. implements d s \<Longrightarrow> implements d s'" and "service_at n (rtab r) = Some s"
  shows "well_placed ds (r\<lparr>rtab := put_service n s' (rtab r)\<rparr>)"
  using assms by (auto simp: well_placed_def put_service_def service_at_def copies_of_def)

lemma keeps_on_service:
  assumes "\<And>d s. implements d s \<Longrightarrow> implements d (snd (f s))"
  shows "keeps (well_placed ds) (on_service n f :: ('m receiver, go_error, 'a) go)"
proof (rule keepsI)
  fix r :: "'m receiver" assume r: "well_placed ds r"
  show "well_placed ds (snd (on_service n f r))"
    using r well_placed_put [OF r, of _ "snd (f _)" n] assms
    by (cases "service_at n (rtab r)") (auto simp: on_service_def split_beta Let_def)
qed

lemma keeps_rs:
  "(\<And>c. raw (f c) = raw c \<and> svc (f c) = svc c) \<Longrightarrow> keeps (well_placed ds) (\<lambda>r. (x r, set_rs f r))"
  by (rule keepsI) (simp add: well_placed_rs)

lemma keeps_locks [intro]:
  "keeps (well_placed ds) lock_smu" "keeps (well_placed ds) unlock_smu"
  "keeps (well_placed ds) lock_strategyMu" "keeps (well_placed ds) unlock_strategyMu"
  by (auto intro!: keepsI simp: lock_mu_def unlock_mu_def well_placed_rs)

lemma GetService_filled:
  assumes "services w = Some m" and "GetService st n w = (Ret (n', err), w')"
  shows "services w' = Some m \<and> (err = None \<longrightarrow> n' = Some n)"
  using assms
  by (auto simp: GetService_def with_mu_def load_services_def go_bind_def service_at_def split: if_splits option.splits)

lemma GetService_filled_table:
  "services w = Some m \<Longrightarrow> services (snd (GetService st n w)) = Some m"
  by (auto simp: GetService_def with_mu_def load_services_def go_bind_def split: option.splits)

lemma keeps_MustService [intro]: "keeps (well_placed ds) (MustService st :: ('m receiver, go_error, string) go)"
proof (rule keepsI)
  fix r :: "'m receiver" assume r: "well_placed ds r"
  show "well_placed ds (snd (MustService st r))"
  proof (cases "svc (rs r)")
    case None
    obtain m where m: "services (rtab r) = Some m" "copies_of ds m" using r by (auto simp: well_placed_def)
    obtain q t where g: "GetService st (Service (raw (rs r))) (rtab r) = (q, t)" by fastforce
    then have t: "services t = Some m" using GetService_filled_table [OF m(1), of st "Service (raw (rs r))"] by simp
    have n: "n = Some (Service (raw (rs r)))" if "q = Ret (n, None)" for n
      using GetService_filled [OF m(1) g [unfolded that]] by simp
    show ?thesis using None r t m(2) g n
      by (cases q) (auto simp: MustService_def well_placed_def lock_mu_def unlock_mu_def go_bind_def set_rs_def split: option.split prod.split)
  next
    case (Some n)
    then show ?thesis using r by (simp add: MustService_def)
  qed
qed

lemma keeps_init_strategy [intro]: "keeps (well_placed ds) (init_strategy bs)"
  by (rule keepsI)
    (auto simp: init_strategy_def go_bind_def lock_mu_def unlock_mu_def go_ret_def Let_def well_placed_rs
      split: option.split outcome.split prod.split)

lemma keeps_update_strategy [intro]: "keeps (well_placed ds) (update_strategy env st inp :: ('m receiver, go_error, unit) go)"
proof (rule keepsI)
  fix r :: "'m receiver" assume r: "well_placed ds r"
  have k: "keeps (well_placed ds) (EndpointsWithAttribute st fs :: ('m receiver, _, _) go)" for fs
    unfolding EndpointsWithAttribute_def
  proof (intro keeps_bind keeps_MustService)
    show "keeps (well_placed ds) (\<lambda>r. on_service n (Attributes (Name (raw (rs r)))) r)" for n
      by (rule keepsI) (auto intro!: keepsD [OF keeps_on_service, OF _ _ surjective_pairing]
          simp: Attributes_def Let_def implements_update split: prod.split)
  qed (auto simp: keeps_def)
  show "well_placed ds (snd (update_strategy env st inp r))"
  proof (cases "strat (rs r)")
    case (Some x)
    obtain q r1 where e: "EndpointsWithAttribute st (Strategy_EndpointFilters x) r = (q, r1)" by fastforce
    have "well_placed ds r1" by (rule keepsD [OF k r e])
    then show ?thesis using Some e
      by (cases q) (auto simp: update_strategy_def go_bind_def well_placed_rs split: outcome.split)
  qed (use r in \<open>simp add: update_strategy_def\<close>)
qed

lemma keeps_refresh_strategy [intro]: "keeps (well_placed ds) (refresh_strategy env st inp n :: ('m receiver, go_error, unit) go)"
proof -
  have v: "keeps (well_placed ds) (on_service n Version)"
    by (rule keeps_on_service) (simp add: Version_eq implements_update)
  have store: "keeps (well_placed ds) (\<lambda>r :: 'm receiver.
      (Ret (), set_rs (lastUpdate_update (\<lambda>_. Some (now2 inp)) \<circ> lastVersion_update (\<lambda>_. v)) r))" for v
    by (rule keeps_rs) simp
  have cond: "keeps (well_placed ds) f \<Longrightarrow> keeps (well_placed ds) (\<lambda>r. if P r then f r else (Ret (), r))"
    for f :: "('m receiver, go_error, unit) go" and P
    by (auto simp: keeps_def)
  show ?thesis unfolding refresh_strategy_def
    by (intro cond keeps_bind v keeps_locks keeps_update_strategy store)
qed

lemma keeps_pick_endpoint [intro]: "keeps (well_placed ds) (pick_endpoint env st inp t n)"
  by (rule keepsI)
    (auto simp: pick_endpoint_def Let_def well_placed_rs split: option.split outcome.split prod.split)

theorem Selector_Select_keeps: "keeps (well_placed ds) (Selector_Select env bs st inp t)"
  unfolding Selector_Select_def
  by (intro keeps_bind keeps_MustService keeps_init_strategy) (auto split: option.split)

section \<open>What is picked is alive\<close>

lemma Selector_Select_alive:
  assumes "Selector_Select env bs st inp t r = (Ret (e, h, None), r')" and "well_placed ds r"
  shows "\<exists>x. e = Some x \<and> x \<in> dir_available (ds (Service (raw (rs r)))) \<and> raw (rs r') = raw (rs r)"
proof -
  obtain x n s a where x: "e = Some x" "svc (rs r') = Some n" "service_at n (rtab r') = Some s"
      "GetAttribute x (Name (raw (rs r'))) s = Some a" "Available a" "raw (rs r') = raw (rs r)"
    using Selector_Select_checked [OF assms(1)] by blast
  have r': "well_placed ds r'" by (rule keepsD [OF Selector_Select_keeps assms(2,1)])
  then have n: "n = Service (raw (rs r))" and s: "implements (ds n) s"
    using x(2,3,6) by (auto simp: well_placed_def copies_of_def service_at_def)
  have "x \<in> dir_available (ds n)"
    using s x(4,5) by (cases "attrMap s x") (auto simp: implements_def GetAttribute_def)
  then show ?thesis using x(1,6) n by blast
qed

end
