(* ===== verification/Watchers.thy ===== *)
theory Watchers
  imports SdkServer "HOL-Library.Multiset"
begin

text \<open>
  The loops of \<open>core/store/impl/impl.go\<close> that turn what etcd and Redis send into calls of listeners:
  the watch on services, the notifications about attributes, of which each is handled by a goroutine
  of its own, and the messages about migrations, until the loop is cancelled.
\<close>

section \<open>The watch on services\<close>

text \<open>The calls of the listener for the responses of the watch, each a batch of events.\<close>

definition service_watch :: "etcdEvent list list \<Rightarrow> (string \<times> serviceChange) list" where
  "service_watch responses = concat (map (List.map_filter service_event) responses)"

text \<open>How etcd batches the events of some requests does not matter.\<close>

lemma service_watch_changes:
  "concat responses = List.map_filter req_event reqs \<Longrightarrow> service_watch responses = changes_of reqs"
proof -
  have "service_watch responses = List.map_filter service_event (concat responses)"
    by (induction responses) (auto simp: service_watch_def List.map_filter_def)
  then show "concat responses = List.map_filter req_event reqs \<Longrightarrow> service_watch responses = changes_of reqs"
    by (simp add: changes_of_def)
qed

section \<open>Notifications about attributes\<close>

text \<open>\<open>json.Unmarshal\<close> of a notification: a value of another type is an error and the loop goes on.\<close>

definition dec_string :: "json \<Rightarrow> string \<Rightarrow> string \<times> bool" where
  "dec_string v old = (case v of JStr s \<Rightarrow> (s, False) | JNull \<Rightarrow> (old, False) | _ \<Rightarrow> (old, True))"

definition dec_ntf_field :: "string \<times> json \<Rightarrow> attributeChangeNTF \<times> bool \<Rightarrow> attributeChangeNTF \<times> bool" where
  "dec_ntf_field m nb =
     (case (m, nb) of ((k, v), (n, b)) \<Rightarrow>
        if field_is k ''selector'' then (case dec_string v (ntf_selector n) of (s, e) \<Rightarrow> (n\<lparr>ntf_selector := s\<rparr>, b \<or> e))
        else if field_is k ''endpoint'' then (case dec_string v (ntf_endpoint n) of (s, e) \<Rightarrow> (n\<lparr>ntf_endpoint := s\<rparr>, b \<or> e))
        else if field_is k ''attribute'' then (case dec_string v (ntf_attribute n) of (s, e) \<Rightarrow> (n\<lparr>ntf_attribute := s\<rparr>, b \<or> e))
        else (n, b))"

definition zero_ntf :: attributeChangeNTF where
  "zero_ntf = \<lparr>ntf_selector = [], ntf_endpoint = [], ntf_attribute = []\<rparr>"

definition dec_ntf :: "string \<Rightarrow> attributeChangeNTF \<times> bool" where
  "dec_ntf s =
     (case json_parse s of
        Some (JObj ms) \<Rightarrow> fold dec_ntf_field ms (zero_ntf, False)
      | Some JNull \<Rightarrow> (zero_ntf, False)
      | _ \<Rightarrow> (zero_ntf, True))"

definition on_attribute_payload :: "string \<Rightarrow> (svc_op option) result" where
  "on_attribute_payload payload =
     (case dec_ntf payload of
        (_, True) \<Rightarrow> Ret None
      | (ntf, False) \<Rightarrow> on_attribute_change ntf)"

text \<open>
  The goroutines finish in any order; a list of payloads in that order, and what the copy of a
  service becomes. A goroutine that panics ends the process.
\<close>

fun apply_notices :: "string list \<Rightarrow> service \<Rightarrow> service result" where
  "apply_notices [] s = Ret s"
| "apply_notices (m # ms) s =
     out_bind (on_attribute_payload m) (\<lambda>q.
       apply_notices ms (case q of Some q \<Rightarrow> svc_apply q s | None \<Rightarrow> s))"

section \<open>Messages about migrations\<close>

text \<open>What the loop's \<open>select\<close> chooses: the closed channel \<open>cancel\<close>, or a message.\<close>

datatype watchInput = Cancelled | Incoming string

fun migration_loop :: "watchInput list \<Rightarrow> sdkServer \<Rightarrow> sdkServer" where
  "migration_loop [] y = y"
| "migration_loop (Cancelled # ins) y = y"
| "migration_loop (Incoming payload # ins) y =
     migration_loop ins
       (case migration_message payload of
          None \<Rightarrow> y
        | Some (sel, hv, src, dst) \<Rightarrow> onMigration sel hv src dst y)"

section \<open>The order of notifications\<close>

lemma field_is_ntf [simp]:
  "field_is ''selector'' ''selector''" "field_is ''endpoint'' ''endpoint''" "field_is ''attribute'' ''attribute''"
  "\<not> field_is ''endpoint'' ''selector''" "\<not> field_is ''attribute'' ''selector''" "\<not> field_is ''attribute'' ''endpoint''"
  by (simp_all add: field_is_def lower_char_def)

definition ntf_json :: "attributeChangeNTF \<Rightarrow> string" where
  "ntf_json n = json_text (JObj [(''selector'', JStr (ntf_selector n)), (''endpoint'', JStr (ntf_endpoint n)),
     (''attribute'', JStr (ntf_attribute n))])"

lemma dec_ntf_json: "dec_ntf (ntf_json n) = (n, False)"
proof -
  have ok: "json_ok (JObj [(''selector'', JStr (ntf_selector n)), (''endpoint'', JStr (ntf_endpoint n)),
      (''attribute'', JStr (ntf_attribute n))])" by simp
  show ?thesis unfolding dec_ntf_def ntf_json_def json_parse_text [OF ok]
    by (simp add: dec_ntf_field_def dec_string_def zero_ntf_def)
qed

text \<open>The notification about an attribute, and what a goroutine makes of it.\<close>

definition notice :: "endpoint \<Rightarrow> string \<Rightarrow> attributeInSelector \<Rightarrow> string" where
  "notice e sel a = ntf_json \<lparr>ntf_selector = sel, ntf_endpoint = endpoint_String e, ntf_attribute = attr_json a\<rparr>"

lemma on_attribute_notice:
  "sep_free e \<Longrightarrow> wf_attr a \<Longrightarrow> on_attribute_payload (notice e sel a) = Ret (Some (OpAttribute e sel a))"
  by (simp add: on_attribute_payload_def notice_def dec_ntf_json on_attribute_change_def dec_attr_json EndpointFromString_String)

text \<open>A payload is ignored, or panics, or is an attribute for an endpoint and a selector.\<close>

lemma on_attribute_payload_cases:
  obtains "on_attribute_payload m = Ret None" | "on_attribute_payload m = Panicked NilDeref"
  | e sel a where "on_attribute_payload m = Ret (Some (OpAttribute e sel a))"
proof (cases "dec_ntf m")
  case (Pair n b)
  show ?thesis
  proof (cases "b \<or> snd (dec_attr (ntf_attribute n))")
    case True
    then show ?thesis using Pair that(1)
      by (cases b; cases "dec_attr (ntf_attribute n)") (auto simp: on_attribute_payload_def on_attribute_change_def)
  next
    case False
    then obtain a where "dec_attr (ntf_attribute n) = (a, False)" by (cases "dec_attr (ntf_attribute n)") auto
    then show ?thesis using Pair False that
      by (cases "EndpointFromString (ntf_endpoint n)") (auto simp: on_attribute_payload_def on_attribute_change_def)
  qed
qed

definition notice_key :: "string \<Rightarrow> (endpoint \<times> string) option" where
  "notice_key m =
     (case on_attribute_payload m of
        Ret (Some (OpAttribute e sel a)) \<Rightarrow> Some (e, sel)
      | _ \<Rightarrow> None)"

definition notice_act :: "string \<Rightarrow> service \<Rightarrow> service" where
  "notice_act m s = (case on_attribute_payload m of Ret (Some q) \<Rightarrow> svc_apply q s | _ \<Rightarrow> s)"

lemma notice_act_simps:
  "on_attribute_payload m = Ret None \<Longrightarrow> notice_act m s = s"
  "on_attribute_payload m = Ret (Some q) \<Longrightarrow> notice_act m s = svc_apply q s"
  by (simp_all add: notice_act_def)

lemma apply_notices_eq:
  "apply_notices ms s =
     (if \<exists>m \<in> set ms. on_attribute_payload m = Panicked NilDeref then Panicked NilDeref else Ret (fold notice_act ms s))"
proof (induction ms arbitrary: s)
  case (Cons m ms)
  show ?case
    by (cases m rule: on_attribute_payload_cases) (simp_all add: Cons.IH notice_act_simps)
qed simp

lemma SetAttributeInSelector_commute:
  assumes "(e, sel) \<noteq> (f, sel')"
  shows "SetAttributeInSelector e sel a (SetAttributeInSelector f sel' b s) =
    SetAttributeInSelector f sel' b (SetAttributeInSelector e sel a s)"
proof (cases "e = f")
  case True
  then have "sel \<noteq> sel'" using assms by simp
  then show ?thesis using True by (simp add: SetAttributeInSelector_def setDirty_def Let_def fun_upd_twist)
next
  case False
  then show ?thesis by (simp add: SetAttributeInSelector_def setDirty_def Let_def fun_upd_twist)
qed

lemma notice_act_commute:
  assumes "notice_key m = None \<or> notice_key m \<noteq> notice_key m' \<or> m = m'"
  shows "notice_act m \<circ> notice_act m' = notice_act m' \<circ> notice_act m"
proof (cases "m = m'")
  case False
  show ?thesis
  proof (rule ext, simp only: comp_apply)
    fix s
    show "notice_act m (notice_act m' s) = notice_act m' (notice_act m s)"
      using assms False
      by (cases m rule: on_attribute_payload_cases; cases m' rule: on_attribute_payload_cases)
        (auto simp: notice_act_def notice_key_def SetAttributeInSelector_commute)
  qed
qed simp

lemma apply_notices_perm:
  assumes "mset ms = mset ms'"
    and "\<And>m m'. m \<in> set ms \<Longrightarrow> m' \<in> set ms \<Longrightarrow> m \<noteq> m' \<Longrightarrow> notice_key m = None \<or> notice_key m \<noteq> notice_key m'"
  shows "apply_notices ms s = apply_notices ms' s"
proof -
  have "fold notice_act ms = fold notice_act ms'"
    using assms(1) notice_act_commute assms(2) by (intro fold_multiset_equiv) blast+
  moreover have "set ms = set ms'" using assms(1) by (metis set_mset_mset)
  ultimately show ?thesis by (simp add: apply_notices_eq)
qed

text \<open>Two notifications for the same endpoint and selector: the one whose goroutine is last stays.\<close>

lemma attribute_order_matters:
  assumes "sep_free e" and "wf_attr a" and "wf_attr b" and "a \<noteq> b" and "e \<in> endpointsSet s"
  shows "apply_notices [notice e sel a, notice e sel b] s \<noteq> apply_notices [notice e sel b, notice e sel a] s"
proof -
  have "attrMap (SetAttributeInSelector e sel x (SetAttributeInSelector e sel y s)) e \<noteq>
      attrMap (SetAttributeInSelector e sel y (SetAttributeInSelector e sel x s)) e" if "x \<noteq> y" for x y
    using assms(5) that
    by (auto simp: SetAttributeInSelector_def setDirty_def Let_def dest!: arg_cong [where f = "\<lambda>m. InSelector m sel"] split: option.splits)
  then show ?thesis
    using assms by (auto simp: on_attribute_notice dest!: arg_cong [where f = "\<lambda>s. attrMap s e"])
qed

section \<open>The table after a run of messages\<close>

lemma migration_loop_cancelled: "migration_loop (ins @ Cancelled # rest) y = migration_loop (ins @ [Cancelled]) y"
  by (induction ins y rule: migration_loop.induct) simp_all

lemma migration_loop_endpoints: "sv_endpoints (migration_loop ins y) = sv_endpoints y"
proof (induction ins y rule: migration_loop.induct)
  case (3 payload ins y)
  have "sv_endpoints (case migration_message payload of
      None \<Rightarrow> y | Some (sel, hv, src, dst) \<Rightarrow> onMigration sel hv src dst y) = sv_endpoints y"
    by (simp add: onMigration_frame split: option.split prod.split)
  then show ?case by (simp only: migration_loop.simps 3)
qed simp_all

end
