(* ===== verification/ConfigCodec.thy ===== *)
theory ConfigCodec
  imports StoreImpl
begin

text \<open>
  Selectors as the JSON texts in which \<open>LoadConfig\<close> of \<open>core/store/impl/impl.go\<close> puts them into etcd and
  \<open>GetSelectors\<close> reads them back, with the struct tags of \<open>core/types/types.go\<close>: every field is left out
  when it is empty, and a map is written in the order of its keys.
\<close>

section \<open>Encoding a selector\<close>

definition str_member :: "string \<Rightarrow> string \<Rightarrow> (string \<times> json) list" where
  "str_member k s = (if s = [] then [] else [(k, JStr s)])"

definition uint_member :: "string \<Rightarrow> u32 \<Rightarrow> (string \<times> json) list" where
  "uint_member k w = (if w = 0 then [] else [(k, json_uint w)])"

definition map_member :: "string \<Rightarrow> (string \<times> string) list \<Rightarrow> (string \<times> json) list" where
  "map_member k m = (if m = [] then [] else [(k, JObj (map (\<lambda>(x, v). (x, JStr v)) (sort_key fst m)))])"

definition selector_members :: "selector \<Rightarrow> (string \<times> json) list" where
  "selector_members s =
     str_member ''name'' (Name s) @ str_member ''service'' (Service s) @ uint_member ''port'' (SPort s)
     @ map_member ''headers'' (SHeaders s) @ str_member ''strategy'' (Strategy s)
     @ opt_member ''max_requests'' json_uint (MaxRequests s) @ str_member ''key'' (Key s)
     @ str_member ''cache_type'' (CacheType s) @ opt_member ''cache_size'' json_uint (CacheSize s)
     @ str_member ''script'' (Script s)"

definition selector_json :: "selector \<Rightarrow> string" where
  "selector_json s = json_text (JObj (selector_members s))"

section \<open>Decoding a selector\<close>

definition zero_selector :: selector where
  "zero_selector = \<lparr>Name = [], Service = [], SPort = 0, SHeaders = [], Strategy = [], MaxRequests = None,
     Key = [], CacheType = [], CacheSize = None, Script = []\<rparr>"

text \<open>A value for a plain string, number, map or pointer; \<open>None\<close> is an error of \<open>Unmarshal\<close>.\<close>

definition dec_str :: "json \<Rightarrow> string \<Rightarrow> string option" where
  "dec_str v old = (case v of JStr s \<Rightarrow> Some s | JNull \<Rightarrow> Some old | _ \<Rightarrow> None)"

definition dec_uint_or :: "json \<Rightarrow> u32 \<Rightarrow> u32 option" where
  "dec_uint_or v old = (if v = JNull then Some old else dec_uint v)"

definition dec_opt :: "json \<Rightarrow> u32 option option" where
  "dec_opt v = (if v = JNull then Some None else map_option Some (dec_uint v))"

fun dec_entries :: "(string \<times> json) list \<Rightarrow> (string \<times> string) list \<Rightarrow> (string \<times> string) list option" where
  "dec_entries [] m = Some m"
| "dec_entries ((k, v) # ms) m =
     (case dec_str v [] of None \<Rightarrow> None | Some s \<Rightarrow> dec_entries ms (AList.update k s m))"

definition dec_map :: "json \<Rightarrow> (string \<times> string) list \<Rightarrow> (string \<times> string) list option" where
  "dec_map v old = (case v of JObj ms \<Rightarrow> dec_entries ms old | JNull \<Rightarrow> Some [] | _ \<Rightarrow> None)"

definition dec_selector_field :: "string \<times> json \<Rightarrow> selector \<Rightarrow> selector option" where
  "dec_selector_field m s =
     (case m of (k, v) \<Rightarrow>
        if field_is k ''name'' then map_option (\<lambda>x. s\<lparr>Name := x\<rparr>) (dec_str v (Name s))
        else if field_is k ''service'' then map_option (\<lambda>x. s\<lparr>Service := x\<rparr>) (dec_str v (Service s))
        else if field_is k ''port'' then map_option (\<lambda>x. s\<lparr>SPort := x\<rparr>) (dec_uint_or v (SPort s))
        else if field_is k ''headers'' then map_option (\<lambda>x. s\<lparr>SHeaders := x\<rparr>) (dec_map v (SHeaders s))
        else if field_is k ''strategy'' then map_option (\<lambda>x. s\<lparr>Strategy := x\<rparr>) (dec_str v (Strategy s))
        else if field_is k ''max_requests'' then map_option (\<lambda>x. s\<lparr>MaxRequests := x\<rparr>) (dec_opt v)
        else if field_is k ''key'' then map_option (\<lambda>x. s\<lparr>Key := x\<rparr>) (dec_str v (Key s))
        else if field_is k ''cache_type'' then map_option (\<lambda>x. s\<lparr>CacheType := x\<rparr>) (dec_str v (CacheType s))
        else if field_is k ''cache_size'' then map_option (\<lambda>x. s\<lparr>CacheSize := x\<rparr>) (dec_opt v)
        else if field_is k ''script'' then map_option (\<lambda>x. s\<lparr>Script := x\<rparr>) (dec_str v (Script s))
        else Some s)"

definition dec_selector :: "string \<Rightarrow> selector option" where
  "dec_selector t =
     (case json_parse t of
        Some (JObj ms) \<Rightarrow> dec_members dec_selector_field ms zero_selector
      | Some JNull \<Rightarrow> Some zero_selector
      | _ \<Rightarrow> None)"

section \<open>Reading the configuration\<close>

text \<open>The answer of etcd is an error or the pairs under the prefix; a text that is not a selector ends the load.\<close>

fun load_selectors :: "(string \<times> string) list \<Rightarrow> (string \<rightharpoonup> selector) \<Rightarrow> go_error + (string \<rightharpoonup> selector)" where
  "load_selectors [] m = Inr m"
| "load_selectors ((k, v) # kvs) m =
     (case dec_selector v of
        None \<Rightarrow> Inl (ErrText ''json: cannot unmarshal'')
      | Some s \<Rightarrow> load_selectors kvs (m(TrimPrefix k ''slt/'' \<mapsto> s)))"

definition GetSelectors :: "go_error + (string \<times> string) list \<Rightarrow> go_error + (string \<rightharpoonup> selector)" where
  "GetSelectors response =
     (case response of
        Inl err \<Rightarrow> Inl err
      | Inr kvs \<Rightarrow> load_selectors kvs Map.empty)"

section \<open>A selector is read back\<close>

lemma field_is_selector [simp]:
  "field_is ''name'' ''name''" "field_is ''service'' ''service''" "field_is ''port'' ''port''"
  "field_is ''headers'' ''headers''" "field_is ''strategy'' ''strategy''" "field_is ''max_requests'' ''max_requests''"
  "field_is ''key'' ''key''" "field_is ''cache_type'' ''cache_type''" "field_is ''cache_size'' ''cache_size''"
  "field_is ''script'' ''script''"
  by (simp_all add: field_is_def)

lemma field_is_not [simp]:
  "\<not> field_is ''service'' ''name''" "\<not> field_is ''port'' ''name''" "\<not> field_is ''headers'' ''name''"
  "\<not> field_is ''strategy'' ''name''" "\<not> field_is ''max_requests'' ''name''" "\<not> field_is ''key'' ''name''"
  "\<not> field_is ''cache_type'' ''name''" "\<not> field_is ''cache_size'' ''name''" "\<not> field_is ''script'' ''name''"
  "\<not> field_is ''port'' ''service''" "\<not> field_is ''headers'' ''service''" "\<not> field_is ''strategy'' ''service''"
  "\<not> field_is ''max_requests'' ''service''" "\<not> field_is ''key'' ''service''" "\<not> field_is ''cache_type'' ''service''"
  "\<not> field_is ''cache_size'' ''service''" "\<not> field_is ''script'' ''service''"
  "\<not> field_is ''headers'' ''port''" "\<not> field_is ''strategy'' ''port''" "\<not> field_is ''max_requests'' ''port''"
  "\<not> field_is ''key'' ''port''" "\<not> field_is ''cache_type'' ''port''" "\<not> field_is ''cache_size'' ''port''"
  "\<not> field_is ''script'' ''port''"
  "\<not> field_is ''strategy'' ''headers''" "\<not> field_is ''max_requests'' ''headers''" "\<not> field_is ''key'' ''headers''"
  "\<not> field_is ''cache_type'' ''headers''" "\<not> field_is ''cache_size'' ''headers''" "\<not> field_is ''script'' ''headers''"
  "\<not> field_is ''max_requests'' ''strategy''" "\<not> field_is ''key'' ''strategy''" "\<not> field_is ''cache_type'' ''strategy''"
  "\<not> field_is ''cache_size'' ''strategy''" "\<not> field_is ''script'' ''strategy''"
  "\<not> field_is ''key'' ''max_requests''" "\<not> field_is ''cache_type'' ''max_requests''"
  "\<not> field_is ''cache_size'' ''max_requests''" "\<not> field_is ''script'' ''max_requests''"
  "\<not> field_is ''cache_type'' ''key''" "\<not> field_is ''cache_size'' ''key''" "\<not> field_is ''script'' ''key''"
  "\<not> field_is ''cache_size'' ''cache_type''" "\<not> field_is ''script'' ''cache_type''" "\<not> field_is ''script'' ''cache_size''"
  by (simp_all add: field_is_def lower_char_def)

lemma dec_members_append:
  "dec_members f (xs @ ys) x = (case dec_members f xs x of None \<Rightarrow> None | Some y \<Rightarrow> dec_members f ys y)"
  by (induction xs arbitrary: x) (auto split: option.splits)

lemma dec_members_str: "dec_members f (str_member k x) y = (if x = [] then Some y else f (k, JStr x) y)"
  by (simp add: str_member_def split: option.split)

lemma dec_members_uint: "dec_members f (uint_member k x) y = (if x = 0 then Some y else f (k, json_uint x) y)"
  by (simp add: uint_member_def split: option.split)

lemma dec_members_opt:
  "dec_members f (opt_member k g x) y = (case x of None \<Rightarrow> Some y | Some w \<Rightarrow> f (k, g w) y)"
  by (simp add: opt_member_def split: option.split)

lemma dec_entries_strings:
  "distinct (map fst (acc @ m)) \<Longrightarrow> dec_entries (map (\<lambda>(x, v). (x, JStr v)) m) acc = Some (acc @ m)"
proof (induction m arbitrary: acc)
  case (Cons kv m)
  obtain k v where kv: "kv = (k, v)" by (cases kv)
  have "AList.update k v acc = acc @ [(k, v)]" using Cons.prems kv by (intro alist_update_new) auto
  then show ?case using Cons.IH [of "acc @ [(k, v)]"] Cons.prems kv by (simp add: dec_str_def)
qed simp

text \<open>The map comes out in the order of its keys.\<close>

definition canonical :: "selector \<Rightarrow> selector" where
  "canonical s = s\<lparr>SHeaders := sort_key fst (SHeaders s)\<rparr>"

lemma dec_selector_members:
  assumes "distinct (map fst (SHeaders s))"
  shows "dec_members dec_selector_field (selector_members s) zero_selector = Some (canonical s)"
proof -
  have maps: "dec_members dec_selector_field (map_member ''headers'' (SHeaders s)) y = Some (y\<lparr>SHeaders := sort_key fst (SHeaders s)\<rparr>)"
    if "SHeaders y = []" for y
    using that dec_entries_strings [of "[]" "sort_key fst (SHeaders s)"] assms
    by (simp add: map_member_def dec_selector_field_def dec_map_def distinct_map)
  show ?thesis
    unfolding selector_members_def dec_members_append dec_members_str dec_members_uint dec_members_opt
    by (cases "MaxRequests s"; cases "CacheSize s")
      (simp_all add: maps dec_selector_field_def dec_str_def dec_uint_or_def dec_opt_def zero_selector_def canonical_def)
qed

lemma selector_members_ok: "json_ok (JObj (selector_members s))"
  by (cases "MaxRequests s"; cases "CacheSize s")
    (auto simp: selector_members_def str_member_def uint_member_def map_member_def opt_member_def list_all_iff)

lemma dec_selector_json:
  assumes "distinct (map fst (SHeaders s))"
  shows "dec_selector (selector_json s) = Some (canonical s)"
  unfolding dec_selector_def selector_json_def json_parse_text [OF selector_members_ok]
  by (simp add: dec_selector_members [OF assms])

section \<open>A configuration is read back\<close>

text \<open>What the keys of etcd are after some requests, and its answer to a read of a prefix.\<close>

fun etcd_keys :: "etcdReq list \<Rightarrow> (string \<rightharpoonup> string) \<Rightarrow> (string \<rightharpoonup> string)" where
  "etcd_keys [] kv = kv"
| "etcd_keys (EPut k v l # reqs) kv = etcd_keys reqs (kv(k \<mapsto> v))"
| "etcd_keys (EDelete k # reqs) kv = etcd_keys reqs (kv(k := None))"
| "etcd_keys (r # reqs) kv = etcd_keys reqs kv"

definition prefix_response :: "string \<Rightarrow> (string \<rightharpoonup> string) \<Rightarrow> (string \<times> string) list \<Rightarrow> bool" where
  "prefix_response pre kv response \<longleftrightarrow>
     distinct (map fst response) \<and> (\<forall>k v. (k, v) \<in> set response \<longleftrightarrow> HasPrefix k pre \<and> kv k = Some v)"

definition config_selectors :: "selector list \<Rightarrow> (string \<times> string option) list" where
  "config_selectors sels = map (\<lambda>s. (Name s, Some (selector_json s))) sels"

lemma etcd_keys_append: "etcd_keys (xs @ ys) kv = etcd_keys ys (etcd_keys xs kv)"
proof (induction xs arbitrary: kv)
  case (Cons x xs)
  then show ?case by (cases x) (simp_all del: fun_upd_apply)
qed simp

lemma HasPrefix_iff: "HasPrefix k p \<longleftrightarrow> (\<exists>x. k = p @ x)"
proof
  assume "HasPrefix k p"
  then have "k = p @ drop (length p) k" unfolding HasPrefix_def by (metis append_take_drop_id)
  then show "\<exists>x. k = p @ x" by blast
qed (auto simp: HasPrefix_def)

lemma etcd_keys_puts_other: "\<not> HasPrefix k pre \<Longrightarrow> etcd_keys (puts pre xs) kv k = kv k"
proof (induction xs arbitrary: kv)
  case (Cons x xs)
  obtain n t where x: "x = (n, t)" by (cases x)
  have "k \<noteq> pre @ n" using Cons.prems by (auto simp: HasPrefix_def)
  then show ?case using Cons by (cases t) (simp_all add: x puts_def List.map_filter_def)
qed (simp add: puts_def List.map_filter_def)

lemma etcd_keys_selectors:
  "distinct (map Name sels) \<Longrightarrow>
     etcd_keys (puts pre (config_selectors sels)) kv (pre @ n) =
       (case find (\<lambda>s. Name s = n) sels of Some s \<Rightarrow> Some (selector_json s) | None \<Rightarrow> kv (pre @ n))"
proof (induction sels arbitrary: kv)
  case (Cons s sels)
  have step: "puts pre (config_selectors (s # sels)) = EPut (pre @ Name s) (selector_json s) None # puts pre (config_selectors sels)"
    by (simp add: puts_def config_selectors_def List.map_filter_def)
  have "find (\<lambda>s'. Name s' = Name s) sels = None"
    using Cons.prems unfolding find_None_iff by (metis distinct.simps(2) image_eqI list.map(2) list.set_map)
  moreover have "etcd_keys (puts pre (config_selectors (s # sels))) kv (pre @ n) =
      (case find (\<lambda>s. Name s = n) sels of Some s \<Rightarrow> Some (selector_json s)
       | None \<Rightarrow> (kv(pre @ Name s \<mapsto> selector_json s)) (pre @ n))"
    unfolding step etcd_keys.simps using Cons.prems by (intro Cons.IH) simp
  ultimately show ?case by (cases "Name s = n") (auto split: option.split)
qed (simp add: puts_def config_selectors_def List.map_filter_def)

lemma load_selectors_ok:
  assumes "pre = ''slt/''" and "\<forall>(k, v) \<in> set kvs. HasPrefix k pre \<and> dec_selector v \<noteq> None" and "distinct (map fst kvs)"
  shows "\<exists>m'. load_selectors kvs m = Inr m'
    \<and> (\<forall>n. m' n = (case map_of kvs (pre @ n) of Some v \<Rightarrow> dec_selector v | None \<Rightarrow> m n))"
  using assms(2,3)
proof (induction kvs arbitrary: m)
  case (Cons kv kvs)
  obtain k v where kv: "kv = (k, v)" by (cases kv)
  obtain s where s: "dec_selector v = Some s" using Cons.prems(1) kv by auto
  obtain x where k: "k = pre @ x" using Cons.prems(1) kv unfolding HasPrefix_iff by auto
  have "\<exists>m'. load_selectors kvs (m(x \<mapsto> s)) = Inr m'
      \<and> (\<forall>n. m' n = (case map_of kvs (pre @ n) of Some v \<Rightarrow> dec_selector v | None \<Rightarrow> (m(x \<mapsto> s)) n))"
    using Cons.prems by (intro Cons.IH) simp_all
  then obtain m' where m': "load_selectors kvs (m(x \<mapsto> s)) = Inr m'"
      "\<forall>n. m' n = (case map_of kvs (pre @ n) of Some v \<Rightarrow> dec_selector v | None \<Rightarrow> (m(x \<mapsto> s)) n)"
    by blast
  have "TrimPrefix k ''slt/'' = x" unfolding k assms(1) by (rule TrimPrefix_append)
  then have "load_selectors (kv # kvs) m = Inr m'" using m'(1) by (simp add: kv s del: fun_upd_apply)
  moreover have "map_of kvs k = None" using Cons.prems(2) kv by (simp add: map_of_eq_None_iff)
  ultimately show ?case using m'(2) s unfolding kv k by (auto split: option.split)
qed simp

text \<open>The selectors of the configuration, and those of the keys that were there and are not in it.\<close>

definition read_selector :: "selector list \<Rightarrow> (string \<rightharpoonup> string) \<Rightarrow> string \<Rightarrow> selector option" where
  "read_selector sels kv n =
     (case find (\<lambda>s. Name s = n) sels of
        Some s \<Rightarrow> Some (canonical s)
      | None \<Rightarrow> Option.bind (kv (''slt/'' @ n)) dec_selector)"

lemma find_by_key: "distinct (map f xs) \<Longrightarrow> x \<in> set xs \<Longrightarrow> find (\<lambda>y. f y = f x) xs = Some x"
  by (induction xs) auto

lemma find_no_key: "find (\<lambda>y. f y = k) xs = None \<longleftrightarrow> k \<notin> f ` set xs"
  by (auto simp: find_None_iff)

lemma read_selector_config: "distinct (map Name sels) \<Longrightarrow> s \<in> set sels \<Longrightarrow> read_selector sels kv (Name s) = Some (canonical s)"
  by (simp add: read_selector_def find_by_key)

lemma read_selector_other: "n \<notin> Name ` set sels \<Longrightarrow> read_selector sels kv n = Option.bind (kv (''slt/'' @ n)) dec_selector"
  unfolding read_selector_def find_no_key [symmetric] by simp

lemma LoadConfig_GetSelectors:
  assumes "\<And>k. fail k = None" and "case found of Some v \<Rightarrow> v < ver | None \<Rightarrow> True"
    and "LoadConfig (Inr found) fail ver (config_selectors sels) rtrs = (err, reqs)"
    and "distinct (map Name sels)" and "\<forall>s \<in> set sels. distinct (map fst (SHeaders s))"
    and "\<forall>n v. kv (''slt/'' @ n) = Some v \<longrightarrow> dec_selector v \<noteq> None"
    and "prefix_response ''slt/'' (etcd_keys reqs kv) response"
  shows "err = None \<and> GetSelectors (Inr response) = Inr (read_selector sels kv)"
proof -
  have reqs: "reqs = puts ''slt/'' (config_selectors sels) @ puts ''rtr/'' rtrs @ [EPut ''version'' ver None]" "err = None"
    using assms(3) LoadConfig_ok [where fail = fail and found = found and ver = ver and sels = "config_selectors sels" and rtrs = rtrs]
      assms(1,2) by simp_all
  obtain pre where p: "pre = ''slt/''" by blast
  have reqs': "reqs = puts pre (config_selectors sels) @ puts ''rtr/'' rtrs @ [EPut ''version'' ver None]"
    unfolding p by (rule reqs(1))
  have pre: "\<not> HasPrefix (pre @ n) ''rtr/''" "pre @ n \<noteq> ''version''" for n
    by (simp_all add: HasPrefix_def p)
  have keys: "etcd_keys reqs kv (pre @ n) =
      (case find (\<lambda>s. Name s = n) sels of Some s \<Rightarrow> Some (selector_json s) | None \<Rightarrow> kv (pre @ n))" for n
  proof -
    have "etcd_keys reqs kv (pre @ n) = etcd_keys (puts pre (config_selectors sels)) kv (pre @ n)"
      unfolding reqs' etcd_keys_append using etcd_keys_puts_other [OF pre(1)] pre(2) by simp
    then show ?thesis using etcd_keys_selectors [OF assms(4)] by simp
  qed
  have dec: "Option.bind (etcd_keys reqs kv (pre @ n)) dec_selector = read_selector sels kv n" for n
  proof (cases "find (\<lambda>s. Name s = n) sels")
    case None
    then show ?thesis unfolding keys read_selector_def p [symmetric] by simp
  next
    case (Some s)
    then have "s \<in> set sels" by (auto simp: find_Some_iff)
    then show ?thesis
      using dec_selector_json assms(5) Some unfolding keys read_selector_def p [symmetric] by simp
  qed
  have resp: "distinct (map fst response)" "\<And>k v. (k, v) \<in> set response \<longleftrightarrow> HasPrefix k pre \<and> etcd_keys reqs kv k = Some v"
    using assms(7) by (auto simp: prefix_response_def p)
  have "dec_selector v \<noteq> None" if "(k, v) \<in> set response" for k v
  proof -
    have k: "HasPrefix k pre" "etcd_keys reqs kv k = Some v" using that resp(2) by simp_all
    then obtain n where n: "k = pre @ n" unfolding HasPrefix_iff by blast
    then have kv: "etcd_keys reqs kv (pre @ n) = Some v" using k(2) by simp
    show ?thesis
    proof (cases "find (\<lambda>s. Name s = n) sels")
      case None
      then have "kv (pre @ n) = Some v" using kv keys [of n] by simp
      then show ?thesis using assms(6) unfolding p by blast
    next
      case (Some s)
      then have "s \<in> set sels" by (auto simp: find_Some_iff)
      moreover have "v = selector_json s" using kv keys [of n] Some by simp
      ultimately show ?thesis using dec_selector_json assms(5) by simp
    qed
  qed
  then have "\<forall>(k, v) \<in> set response. HasPrefix k pre \<and> dec_selector v \<noteq> None" using resp(2) by blast
  then obtain m where m: "load_selectors response Map.empty = Inr m"
      "\<forall>n. m n = (case map_of response (pre @ n) of Some v \<Rightarrow> dec_selector v | None \<Rightarrow> None)"
    using load_selectors_ok [OF p _ resp(1), of Map.empty] by blast
  have "map_of response (pre @ n) = etcd_keys reqs kv (pre @ n)" for n
  proof -
    have "map_of response (pre @ n) = Some v \<longleftrightarrow> etcd_keys reqs kv (pre @ n) = Some v" for v
      using resp(1) resp(2) [of "pre @ n" v] by (simp add: map_of_eq_Some_iff HasPrefix_def)
    then show ?thesis by (metis option.exhaust)
  qed
  then have "m n = read_selector sels kv n" for n
    using m(2) dec [of n] by (cases "etcd_keys reqs kv (pre @ n)") simp_all
  then have "m = read_selector sels kv" by (rule ext)
  then show ?thesis using m(1) reqs(2) by (simp add: GetSelectors_def)
qed

end
