(* ===== verification/RouterCodec.thy ===== *)
theory RouterCodec
  imports ConfigCodec
begin

text \<open>
  Routers as the JSON texts in which \<open>LoadConfig\<close> of \<open>core/store/impl/impl.go\<close> puts them into etcd and
  \<open>GetRouter\<close> reads them back: rules with their matchers and their handlers of errors, with the struct
  tags of \<open>core/types/types.go\<close>. The memoised patterns of a matcher are not exported, so they are neither
  written nor read. A duration that is not finite has no JSON text, and \<open>LoadConfig\<close> passes such a
  router over.
\<close>

section \<open>Encoding\<close>

definition f32_member :: "string \<Rightarrow> float32 option \<Rightarrow> (string \<times> json) list option" where
  "f32_member k x =
     (case x of
        None \<Rightarrow> Some []
      | Some f \<Rightarrow> map_option (\<lambda>l. [(k, JNum l)]) (f32_text f))"

definition handler_json :: "errorHandler \<Rightarrow> json option" where
  "handler_json h =
     (case (f32_member ''interval'' (Interval h), f32_member ''timeout'' (HTimeout h)) of
        (Some interval, Some timeout) \<Rightarrow>
          Some (JObj (str_member ''solution'' (Solution h) @ opt_member ''times'' json_uint (Times h)
            @ interval @ timeout @ opt_member ''message'' JStr (Message h) @ opt_member ''code'' json_uint (HCode h)))
      | _ \<Rightarrow> None)"

definition list_member :: "string \<Rightarrow> json list \<Rightarrow> (string \<times> json) list" where
  "list_member k js = (if js = [] then [] else [(k, JArr js)])"

definition matcher_json :: "'re matcher \<Rightarrow> json" where
  "matcher_json m =
     JObj (str_member ''uri'' (MURI m) @ uint_member ''port'' (MPort m)
       @ map_member ''headers'' (case MHeaders m of None \<Rightarrow> [] | Some hs \<Rightarrow> hs))"

definition catch_members :: "(string \<times> errorHandler) list \<Rightarrow> (string \<times> json) list option" where
  "catch_members c =
     map_option (\<lambda>hs. if hs = [] then [] else [(''catch'', JObj hs)])
       (those (map (\<lambda>(e, h). map_option (Pair e) (handler_json h)) (sort_key fst c)))"

definition rule_json :: "'re rule \<Rightarrow> json option" where
  "rule_json r =
     map_option (\<lambda>c. JObj (list_member ''matchers'' (map matcher_json (Matchers r))
         @ str_member ''selector'' (RSelector r) @ c))
       (catch_members (Catch r))"

definition router_json :: "'re router \<Rightarrow> string option" where
  "router_json rt =
     map_option (\<lambda>rules. json_text (JObj (str_member ''name'' (RouterName rt) @ list_member ''rules'' rules
         @ str_member ''direct'' (Direct rt))))
       (those (map rule_json (Rules rt)))"

section \<open>Decoding\<close>

text \<open>
  \<open>null\<close> in place of a struct behind a pointer would leave a nil pointer in a list of rules, which
  the types of the model do not have and the encoder never writes; it is read as an error here.
\<close>

definition dec_f32 :: "json \<Rightarrow> float32 option option" where
  "dec_f32 v =
     (case v of
        JNum l \<Rightarrow> map_option Some (ParseFloat32 l)
      | JNull \<Rightarrow> Some None
      | _ \<Rightarrow> None)"

definition dec_opt_str :: "json \<Rightarrow> string option option" where
  "dec_opt_str v = (case v of JStr s \<Rightarrow> Some (Some s) | JNull \<Rightarrow> Some None | _ \<Rightarrow> None)"

definition dec_struct :: "(string \<times> json \<Rightarrow> 'a \<Rightarrow> 'a option) \<Rightarrow> json \<Rightarrow> 'a \<Rightarrow> 'a option" where
  "dec_struct f v old = (case v of JObj ms \<Rightarrow> dec_members f ms old | _ \<Rightarrow> None)"

text \<open>The elements of a list are read into those that are there already, as far as they go.\<close>

fun dec_list :: "(json \<Rightarrow> 'a \<Rightarrow> 'a option) \<Rightarrow> 'a \<Rightarrow> json list \<Rightarrow> 'a list \<Rightarrow> 'a list option" where
  "dec_list f z [] olds = Some []"
| "dec_list f z (j # js) olds =
     (case f j (case olds of [] \<Rightarrow> z | old # _ \<Rightarrow> old) of
        None \<Rightarrow> None
      | Some x \<Rightarrow> map_option (Cons x) (dec_list f z js (tl olds)))"

definition dec_slice :: "(json \<Rightarrow> 'a \<Rightarrow> 'a option) \<Rightarrow> 'a \<Rightarrow> json \<Rightarrow> 'a list \<Rightarrow> 'a list option" where
  "dec_slice f z v olds =
     (case v of
        JArr js \<Rightarrow> dec_list f z js olds
      | JNull \<Rightarrow> Some []
      | _ \<Rightarrow> None)"

definition zero_handler :: errorHandler where
  "zero_handler = \<lparr>Solution = [], Times = None, Interval = None, HTimeout = None, Message = None, HCode = None\<rparr>"

definition zero_matcher :: "'re matcher" where
  "zero_matcher = \<lparr>MURI = [], MPort = 0, MHeaders = None, regexURI = None, regexHeaders = None\<rparr>"

definition zero_rule :: "'re rule" where
  "zero_rule = \<lparr>Matchers = [], RSelector = [], Catch = []\<rparr>"

definition zero_router :: "'re router" where
  "zero_router = \<lparr>RouterName = [], Rules = [], Direct = []\<rparr>"

definition dec_handler_field :: "string \<times> json \<Rightarrow> errorHandler \<Rightarrow> errorHandler option" where
  "dec_handler_field m h =
     (case m of (k, v) \<Rightarrow>
        if field_is k ''solution'' then map_option (\<lambda>x. h\<lparr>Solution := x\<rparr>) (dec_str v (Solution h))
        else if field_is k ''times'' then map_option (\<lambda>x. h\<lparr>Times := x\<rparr>) (dec_opt v)
        else if field_is k ''interval'' then map_option (\<lambda>x. h\<lparr>Interval := x\<rparr>) (dec_f32 v)
        else if field_is k ''timeout'' then map_option (\<lambda>x. h\<lparr>HTimeout := x\<rparr>) (dec_f32 v)
        else if field_is k ''message'' then map_option (\<lambda>x. h\<lparr>Message := x\<rparr>) (dec_opt_str v)
        else if field_is k ''code'' then map_option (\<lambda>x. h\<lparr>HCode := x\<rparr>) (dec_opt v)
        else Some h)"

definition dec_headers :: "json \<Rightarrow> (string \<times> string) list option \<Rightarrow> (string \<times> string) list option option" where
  "dec_headers v old =
     (if v = JNull then Some None
      else map_option Some (dec_map v (case old of None \<Rightarrow> [] | Some hs \<Rightarrow> hs)))"

definition dec_matcher_field :: "string \<times> json \<Rightarrow> 're matcher \<Rightarrow> 're matcher option" where
  "dec_matcher_field m x =
     (case m of (k, v) \<Rightarrow>
        if field_is k ''uri'' then map_option (\<lambda>s. x\<lparr>MURI := s\<rparr>) (dec_str v (MURI x))
        else if field_is k ''port'' then map_option (\<lambda>w. x\<lparr>MPort := w\<rparr>) (dec_uint_or v (MPort x))
        else if field_is k ''headers'' then map_option (\<lambda>hs. x\<lparr>MHeaders := hs\<rparr>) (dec_headers v (MHeaders x))
        else Some x)"

text \<open>The handler of an error is read into a new struct, also where the map has one already.\<close>

fun dec_handlers :: "(string \<times> json) list \<Rightarrow> (string \<times> errorHandler) list \<Rightarrow> (string \<times> errorHandler) list option" where
  "dec_handlers [] c = Some c"
| "dec_handlers ((k, v) # ms) c =
     (case dec_struct dec_handler_field v zero_handler of
        None \<Rightarrow> None
      | Some h \<Rightarrow> dec_handlers ms (AList.update k h c))"

definition dec_catch :: "json \<Rightarrow> (string \<times> errorHandler) list \<Rightarrow> (string \<times> errorHandler) list option" where
  "dec_catch v old = (case v of JObj ms \<Rightarrow> dec_handlers ms old | JNull \<Rightarrow> Some [] | _ \<Rightarrow> None)"

definition dec_rule_field :: "string \<times> json \<Rightarrow> 're rule \<Rightarrow> 're rule option" where
  "dec_rule_field m r =
     (case m of (k, v) \<Rightarrow>
        if field_is k ''matchers'' then
          map_option (\<lambda>ms. r\<lparr>Matchers := ms\<rparr>) (dec_slice (dec_struct dec_matcher_field) zero_matcher v (Matchers r))
        else if field_is k ''selector'' then map_option (\<lambda>s. r\<lparr>RSelector := s\<rparr>) (dec_str v (RSelector r))
        else if field_is k ''catch'' then map_option (\<lambda>c. r\<lparr>Catch := c\<rparr>) (dec_catch v (Catch r))
        else Some r)"

definition dec_router_field :: "string \<times> json \<Rightarrow> 're router \<Rightarrow> 're router option" where
  "dec_router_field m rt =
     (case m of (k, v) \<Rightarrow>
        if field_is k ''name'' then map_option (\<lambda>s. rt\<lparr>RouterName := s\<rparr>) (dec_str v (RouterName rt))
        else if field_is k ''rules'' then
          map_option (\<lambda>ps. rt\<lparr>Rules := ps\<rparr>) (dec_slice (dec_struct dec_rule_field) zero_rule v (Rules rt))
        else if field_is k ''direct'' then map_option (\<lambda>s. rt\<lparr>Direct := s\<rparr>) (dec_str v (Direct rt))
        else Some rt)"

definition dec_router :: "string \<Rightarrow> 're router option" where
  "dec_router t =
     (case json_parse t of
        Some (JObj ms) \<Rightarrow> dec_members dec_router_field ms zero_router
      | Some JNull \<Rightarrow> Some zero_router
      | _ \<Rightarrow> None)"

definition impl_GetRouter :: "go_error + string option \<Rightarrow> go_error + 're router" where
  "impl_GetRouter response =
     (case response of
        Inl err \<Rightarrow> Inl err
      | Inr None \<Rightarrow> Inl (ErrCode ErrRouterNotFound)
      | Inr (Some bytes) \<Rightarrow>
          (case dec_router bytes of
             None \<Rightarrow> Inl (ErrText ''json: cannot unmarshal'')
           | Some rt \<Rightarrow> Inr rt))"

definition config_routers :: "'re router list \<Rightarrow> (string \<times> string option) list" where
  "config_routers rts = map (\<lambda>rt. (RouterName rt, router_json rt)) rts"

section \<open>A handler is read back\<close>

lemma field_is_handler [simp]:
  "field_is ''solution'' ''solution''" "field_is ''times'' ''times''" "field_is ''interval'' ''interval''"
  "field_is ''timeout'' ''timeout''" "field_is ''message'' ''message''" "field_is ''code'' ''code''"
  "\<not> field_is ''times'' ''solution''" "\<not> field_is ''interval'' ''solution''" "\<not> field_is ''timeout'' ''solution''"
  "\<not> field_is ''message'' ''solution''" "\<not> field_is ''code'' ''solution''"
  "\<not> field_is ''interval'' ''times''" "\<not> field_is ''timeout'' ''times''" "\<not> field_is ''message'' ''times''"
  "\<not> field_is ''code'' ''times''"
  "\<not> field_is ''timeout'' ''interval''" "\<not> field_is ''message'' ''interval''" "\<not> field_is ''code'' ''interval''"
  "\<not> field_is ''message'' ''timeout''" "\<not> field_is ''code'' ''timeout''" "\<not> field_is ''code'' ''message''"
  by (simp_all add: field_is_def lower_char_def)

lemma field_is_router [simp]:
  "field_is ''uri'' ''uri''" "\<not> field_is ''port'' ''uri''" "\<not> field_is ''headers'' ''uri''"
  "field_is ''matchers'' ''matchers''" "field_is ''selector'' ''selector''" "field_is ''catch'' ''catch''"
  "\<not> field_is ''selector'' ''matchers''" "\<not> field_is ''catch'' ''matchers''" "\<not> field_is ''catch'' ''selector''"
  "field_is ''rules'' ''rules''" "field_is ''direct'' ''direct''"
  "\<not> field_is ''rules'' ''name''" "\<not> field_is ''direct'' ''name''" "\<not> field_is ''direct'' ''rules''"
  by (simp_all add: field_is_def lower_char_def)

definition storable_handler :: "errorHandler \<Rightarrow> bool" where
  "storable_handler h \<longleftrightarrow> pred_option wf_f32 (Interval h) \<and> pred_option wf_f32 (HTimeout h)"

definition finite_handler :: "errorHandler \<Rightarrow> bool" where
  "finite_handler h \<longleftrightarrow> pred_option finite_f32 (Interval h) \<and> pred_option finite_f32 (HTimeout h)"

lemma f32_member_None: "f32_member k x = None \<longleftrightarrow> \<not> pred_option finite_f32 x"
  by (cases x) (simp_all add: f32_member_def f32_text_None)

lemma handler_json_None: "handler_json h = None \<longleftrightarrow> \<not> finite_handler h"
  using f32_member_None [of "''interval''" "Interval h"] f32_member_None [of "''timeout''" "HTimeout h"]
  by (auto simp: handler_json_def finite_handler_def split: option.splits)

lemma f32_member_ok: "f32_member k x = Some ms \<Longrightarrow> list_all (\<lambda>(k, v). json_ok v) ms"
  by (auto simp: f32_member_def f32_text_literal split: option.splits)

lemma handler_json_ok: "handler_json h = Some j \<Longrightarrow> json_ok j"
  by (auto simp: handler_json_def str_member_def opt_member_def f32_member_ok split: option.splits)

lemma dec_members_f32:
  "f32_member k x = Some ms \<Longrightarrow>
     dec_members f ms y = (case x of None \<Rightarrow> Some y | Some w \<Rightarrow> f (k, JNum (the (f32_text w))) y)"
  by (auto simp: f32_member_def split: option.splits)

lemma dec_f32_text:
  assumes "f32_member k (Some w) = Some ms" and "wf_f32 w"
  shows "dec_f32 (JNum (the (f32_text w))) = Some (Some w)"
  using assms f32_roundtrip by (auto simp: f32_member_def dec_f32_def)

lemma dec_handler_back:
  assumes "handler_json h = Some j" and "storable_handler h"
  shows "dec_struct dec_handler_field j zero_handler = Some h"
proof -
  obtain ms1 ms2 where m: "f32_member ''interval'' (Interval h) = Some ms1" "f32_member ''timeout'' (HTimeout h) = Some ms2"
    and j: "j = JObj (str_member ''solution'' (Solution h) @ opt_member ''times'' json_uint (Times h)
            @ ms1 @ ms2 @ opt_member ''message'' JStr (Message h) @ opt_member ''code'' json_uint (HCode h))"
    using assms(1) by (auto simp: handler_json_def split: option.splits)
  have i: "Interval h = Some w \<Longrightarrow> dec_f32 (JNum (the (f32_text w))) = Some (Some w)"
    and t: "HTimeout h = Some w \<Longrightarrow> dec_f32 (JNum (the (f32_text w))) = Some (Some w)" for w
    using dec_f32_text m assms(2) by (auto simp: storable_handler_def)
  show ?thesis
    unfolding dec_struct_def j json.case dec_members_append dec_members_str dec_members_opt
      dec_members_f32 [OF m(1)] dec_members_f32 [OF m(2)]
    by (cases "Times h"; cases "Interval h"; cases "HTimeout h"; cases "Message h"; cases "HCode h")
      (simp_all add: i t dec_handler_field_def dec_str_def dec_opt_def dec_opt_str_def zero_handler_def)
qed

section \<open>Matchers, rules and routers are read back\<close>

text \<open>What comes back: maps in the order of their keys, no memos, and no empty map.\<close>

definition canonical_matcher :: "'re matcher \<Rightarrow> 're matcher" where
  "canonical_matcher m =
     m\<lparr>MHeaders := (case MHeaders m of Some (h # hs) \<Rightarrow> Some (sort_key fst (h # hs)) | _ \<Rightarrow> None),
       regexURI := None, regexHeaders := None\<rparr>"

definition canonical_rule :: "'re rule \<Rightarrow> 're rule" where
  "canonical_rule r = r\<lparr>Matchers := map canonical_matcher (Matchers r), Catch := sort_key fst (Catch r)\<rparr>"

definition canonical_router :: "'re router \<Rightarrow> 're router" where
  "canonical_router rt = rt\<lparr>Rules := map canonical_rule (Rules rt)\<rparr>"

text \<open>Maps have distinct keys, and durations are numbers of type \<open>float32\<close>.\<close>

definition storable_headers :: "'re matcher \<Rightarrow> bool" where
  "storable_headers m \<longleftrightarrow> pred_option (\<lambda>hs. distinct (map fst hs)) (MHeaders m)"

definition storable_rule :: "'re rule \<Rightarrow> bool" where
  "storable_rule r \<longleftrightarrow> list_all storable_headers (Matchers r) \<and> distinct (map fst (Catch r)) \<and> list_all (\<lambda>(_, h). storable_handler h) (Catch r)"

definition storable_router :: "'re router \<Rightarrow> bool" where
  "storable_router rt \<longleftrightarrow> list_all storable_rule (Rules rt)"

definition finite_router :: "'re router \<Rightarrow> bool" where
  "finite_router rt \<longleftrightarrow> list_all (\<lambda>r. list_all (\<lambda>(_, h). finite_handler h) (Catch r)) (Rules rt)"

lemma dec_matcher_back:
  assumes "storable_headers m"
  shows "dec_struct dec_matcher_field (matcher_json m) zero_matcher = Some (canonical_matcher m)"
proof -
  have maps: "dec_members dec_matcher_field (map_member ''headers'' hs) y =
      Some (if hs = [] then y else y\<lparr>MHeaders := Some (sort_key fst hs)\<rparr>)"
    if "MHeaders y = None" "distinct (map fst hs)" for hs and y :: "'a matcher"
    using that dec_entries_strings [of "[]" "sort_key fst hs"]
    by (simp add: map_member_def dec_matcher_field_def dec_headers_def dec_map_def distinct_map)
  show ?thesis
    unfolding dec_struct_def matcher_json_def json.case dec_members_append dec_members_str dec_members_uint
    using assms
    by (cases "MHeaders m")
      (auto simp: maps storable_headers_def dec_matcher_field_def dec_str_def dec_uint_or_def zero_matcher_def
        canonical_matcher_def split: list.split)
qed

lemma dec_list_back:
  "(\<And>x. x \<in> set xs \<Longrightarrow> f (g x) z = Some (c x)) \<Longrightarrow> dec_list f z (map g xs) [] = Some (map c xs)"
  by (induction xs) simp_all

lemma those_length: "those xs = Some ys \<Longrightarrow> length ys = length xs"
  by (induction xs arbitrary: ys) (auto split: option.splits)

lemma dec_list_those:
  assumes "those (map g xs) = Some js" and "\<And>x j. x \<in> set xs \<Longrightarrow> g x = Some j \<Longrightarrow> f j z = Some (c x)"
  shows "dec_list f z js [] = Some (map c xs)"
  using assms
proof (induction xs arbitrary: js)
  case (Cons x xs)
  obtain j js' where j: "g x = Some j" "those (map g xs) = Some js'" "js = j # js'"
    using Cons.prems(1) by (auto split: option.splits)
  have "dec_list f z js' [] = Some (map c xs)" using Cons.prems(2) by (intro Cons.IH j(2)) simp
  moreover have "f j z = Some (c x)" using Cons.prems(2) j(1) by simp
  ultimately show ?case by (simp add: j(3))
qed simp

lemma dec_handlers_back:
  assumes "those (map (\<lambda>(e, h). map_option (Pair e) (handler_json h)) c) = Some ms"
    and "distinct (map fst (acc @ c))" and "list_all (\<lambda>(_, h). storable_handler h) c"
  shows "dec_handlers ms acc = Some (acc @ c)"
  using assms
proof (induction c arbitrary: ms acc)
  case (Cons eh c)
  obtain e h where eh: "eh = (e, h)" by (cases eh)
  obtain j ms' where j: "handler_json h = Some j" "ms = (e, j) # ms'"
    "those (map (\<lambda>(e, h). map_option (Pair e) (handler_json h)) c) = Some ms'"
    using Cons.prems(1) eh by (auto split: option.splits)
  have "AList.update e h acc = acc @ [(e, h)]" using Cons.prems(2) eh by (intro alist_update_new) auto
  moreover have "dec_struct dec_handler_field j zero_handler = Some h"
    using dec_handler_back [OF j(1)] Cons.prems(3) eh by simp
  ultimately show ?case
    using Cons.IH [OF j(3), of "acc @ [(e, h)]"] Cons.prems(2,3) by (simp add: j(2) eh)
qed simp

lemma dec_rule_back:
  assumes "rule_json r = Some j" and "storable_rule r"
  shows "dec_struct dec_rule_field j zero_rule = Some (canonical_rule r)"
proof -
  obtain hs where hs: "those (map (\<lambda>(e, h). map_option (Pair e) (handler_json h)) (sort_key fst (Catch r))) = Some hs"
    and j: "j = JObj (list_member ''matchers'' (map matcher_json (Matchers r)) @ str_member ''selector'' (RSelector r)
        @ (if hs = [] then [] else [(''catch'', JObj hs)]))"
    using assms(1) by (auto simp: rule_json_def catch_members_def)
  have c: "dec_handlers hs [] = Some (sort_key fst (Catch r))"
    using dec_handlers_back [OF hs, of "[]"] assms(2) by (simp add: storable_rule_def distinct_map list_all_iff)
  have e: "hs = [] \<longleftrightarrow> Catch r = []" using those_length [OF hs] by (auto simp: length_0_conv [symmetric] simp del: length_0_conv)
  have m: "dec_list (dec_struct dec_matcher_field) zero_matcher (map matcher_json (Matchers r)) []
      = Some (map canonical_matcher (Matchers r))"
    using assms(2) by (intro dec_list_back dec_matcher_back) (auto simp: storable_rule_def list_all_iff)
  show ?thesis
    unfolding dec_struct_def [of dec_rule_field] j json.case dec_members_append dec_members_str
    by (simp add: m c e list_member_def dec_rule_field_def dec_slice_def dec_str_def dec_catch_def zero_rule_def
        canonical_rule_def)
qed

lemma those_None: "those (map f xs) = None \<longleftrightarrow> (\<exists>x \<in> set xs. f x = None)"
  by (induction xs) (auto split: option.splits)

lemma rule_json_None: "rule_json r = None \<longleftrightarrow> \<not> list_all (\<lambda>(_, h). finite_handler h) (Catch r)"
  by (simp add: rule_json_def catch_members_def those_None list_all_iff case_prod_unfold handler_json_None)

lemma router_json_None: "router_json rt = None \<longleftrightarrow> \<not> finite_router rt"
  by (auto simp: router_json_def those_None rule_json_None finite_router_def list_all_iff)

lemma those_all:
  assumes "those (map f xs) = Some ys" and "\<And>x y. f x = Some y \<Longrightarrow> P y"
  shows "list_all P ys"
  using assms by (induction xs arbitrary: ys) (auto split: option.splits)

lemma matcher_json_ok: "json_ok (matcher_json m)"
  by (auto simp: matcher_json_def str_member_def uint_member_def map_member_def list_all_iff)

lemma rule_json_ok: "rule_json r = Some j \<Longrightarrow> json_ok j"
proof -
  assume "rule_json r = Some j"
  then obtain hs where hs: "those (map (\<lambda>(e, h). map_option (Pair e) (handler_json h)) (sort_key fst (Catch r))) = Some hs"
    and j: "j = JObj (list_member ''matchers'' (map matcher_json (Matchers r)) @ str_member ''selector'' (RSelector r)
        @ (if hs = [] then [] else [(''catch'', JObj hs)]))"
    by (auto simp: rule_json_def catch_members_def)
  have "list_all (\<lambda>(_, v). json_ok v) hs" using those_all [OF hs] handler_json_ok by fastforce
  then show "json_ok j" by (auto simp: j list_member_def str_member_def matcher_json_ok list_all_iff)
qed

lemma dec_router_json:
  assumes "router_json rt = Some t" and "storable_router rt"
  shows "dec_router t = Some (canonical_router rt)"
proof -
  obtain js where js: "those (map rule_json (Rules rt)) = Some js"
    and t: "t = json_text (JObj (str_member ''name'' (RouterName rt) @ list_member ''rules'' js @ str_member ''direct'' (Direct rt)))"
    using assms(1) by (auto simp: router_json_def)
  have "list_all json_ok js" using those_all [OF js] rule_json_ok by blast
  then have ok: "json_ok (JObj (str_member ''name'' (RouterName rt) @ list_member ''rules'' js @ str_member ''direct'' (Direct rt)))"
    by (simp add: str_member_def list_member_def)
  have "dec_list (dec_struct dec_rule_field) zero_rule js [] = Some (map canonical_rule (Rules rt))"
    using assms(2) by (intro dec_list_those [OF js] dec_rule_back) (auto simp: storable_router_def list_all_iff)
  moreover have "js = [] \<longleftrightarrow> Rules rt = []"
    using those_length [OF js] by (auto simp: length_0_conv [symmetric] simp del: length_0_conv)
  ultimately show ?thesis
    unfolding dec_router_def t json_parse_text [OF ok] option.case json.case dec_members_append dec_members_str
    by (simp add: list_member_def dec_router_field_def dec_slice_def dec_str_def zero_router_def canonical_router_def)
qed

section \<open>A configuration of routers is read back\<close>

text \<open>The routers \<open>LoadConfig\<close> puts, and the keys of those it does not have or passes over.\<close>

lemma etcd_keys_puts:
  "distinct (map fst xs) \<Longrightarrow>
     etcd_keys (puts pre xs) kv (pre @ n) =
       (case map_of xs n of Some (Some t) \<Rightarrow> Some t | _ \<Rightarrow> kv (pre @ n))"
proof (induction xs arbitrary: kv)
  case (Cons x xs)
  obtain m t where x: "x = (m, t)" by (cases x)
  have m: "map_of xs m = None" using Cons.prems x by (simp add: map_of_eq_None_iff)
  have IH: "etcd_keys (puts pre xs) kv' (pre @ n) = (case map_of xs n of Some (Some t) \<Rightarrow> Some t | _ \<Rightarrow> kv' (pre @ n))" for kv'
    using Cons.prems by (intro Cons.IH) simp
  show ?case
  proof (cases t)
    case None
    then have "puts pre (x # xs) = puts pre xs" by (simp add: x puts_def List.map_filter_def)
    then show ?thesis using IH [of kv] m None by (simp add: x)
  next
    case (Some b)
    then have "puts pre (x # xs) = EPut (pre @ m) b None # puts pre xs" by (simp add: x puts_def List.map_filter_def)
    then show ?thesis using IH [of "kv(pre @ m \<mapsto> b)"] m Some by (auto simp: x split: option.split)
  qed
qed (simp add: puts_def List.map_filter_def)

lemma LoadConfig_routers:
  assumes "\<And>k. fail k = None" and "case found of Some v \<Rightarrow> v < ver | None \<Rightarrow> True"
    and "LoadConfig (Inr found) fail ver sels (config_routers rts) = (err, reqs)"
    and "distinct (map RouterName rts)"
  shows "etcd_keys reqs kv (''rtr/'' @ n) =
    (case find (\<lambda>rt. RouterName rt = n) rts of
       Some rt \<Rightarrow> (case router_json rt of Some t \<Rightarrow> Some t | None \<Rightarrow> kv (''rtr/'' @ n))
     | None \<Rightarrow> kv (''rtr/'' @ n))"
proof -
  have reqs: "reqs = puts ''slt/'' sels @ puts ''rtr/'' (config_routers rts) @ [EPut ''version'' ver None]"
    using assms(3) LoadConfig_ok [where fail = fail and found = found and ver = ver and sels = sels and rtrs = "config_routers rts"]
      assms(1,2) by simp
  obtain pre where p: "pre = ''rtr/''" by blast
  have reqs': "reqs = puts ''slt/'' sels @ puts pre (config_routers rts) @ [EPut ''version'' ver None]"
    unfolding p by (rule reqs)
  have other: "\<not> HasPrefix (pre @ n) ''slt/''" "pre @ n \<noteq> ''version''"
    by (simp_all add: HasPrefix_def p)
  have "distinct (map fst (config_routers rts))" using assms(4) by (simp add: config_routers_def comp_def)
  then have "etcd_keys reqs kv (pre @ n) =
      (case map_of (config_routers rts) n of Some (Some t) \<Rightarrow> Some t | _ \<Rightarrow> kv (pre @ n))"
    unfolding reqs' etcd_keys_append using other(2) etcd_keys_puts_other [OF other(1)]
    by (simp add: etcd_keys_puts split: option.split)
  moreover have "map_of (config_routers rts) n = map_option router_json (find (\<lambda>rt. RouterName rt = n) rts)"
    by (induction rts) (simp_all add: config_routers_def)
  ultimately show ?thesis unfolding p by (auto split: option.split)
qed

lemma GetRouter_configured:
  assumes "\<And>k. fail k = None" and "case found of Some v \<Rightarrow> v < ver | None \<Rightarrow> True"
    and "LoadConfig (Inr found) fail ver sels (config_routers rts) = (err, reqs)"
    and "distinct (map RouterName rts)" and "rt \<in> set rts" and "storable_router rt" and "finite_router rt"
  shows "impl_GetRouter (Inr (etcd_keys reqs kv (''rtr/'' @ RouterName rt))) = Inr (canonical_router rt)"
proof -
  obtain t where t: "router_json rt = Some t" using router_json_None [of rt] assms(7) by auto
  then show ?thesis
    unfolding LoadConfig_routers [OF assms(1-4)] find_by_key [OF assms(4,5)]
    by (simp add: impl_GetRouter_def dec_router_json [OF t assms(6)])
qed

lemma GetRouter_kept:
  assumes "\<And>k. fail k = None" and "case found of Some v \<Rightarrow> v < ver | None \<Rightarrow> True"
    and "LoadConfig (Inr found) fail ver sels (config_routers rts) = (err, reqs)"
    and "distinct (map RouterName rts)" and "\<forall>rt \<in> set rts. RouterName rt = n \<longrightarrow> \<not> finite_router rt"
  shows "etcd_keys reqs kv (''rtr/'' @ n) = kv (''rtr/'' @ n)"
proof -
  have "router_json rt = None" if "find (\<lambda>rt. RouterName rt = n) rts = Some rt" for rt
    using that assms(5) router_json_None [of rt] by (auto simp: find_Some_iff)
  then show ?thesis unfolding LoadConfig_routers [OF assms(1-4)] by (auto split: option.split)
qed

end
