(* ===== verification/Startup.thy ===== *)
theory Startup
  imports RouterCodec SdkServer Dispatch
begin

text \<open>
  How a process comes up: the configuration file (\<open>core/config/config.go\<close>), the store with the lock
  around \<open>LoadConfig\<close> (\<open>core/store/impl/impl.go\<close>), the instance of the store (\<open>core/store/store.go\<close>), and
  \<open>Init\<close> and \<open>MustInstance\<close> of the SDKs (\<open>core/sdk/client/sdk.go\<close>, \<open>core/sdk/server/sdk.go\<close>). The file
  system, the YAML decoder and the answers of etcd are arguments. A start can end the process:
  \<open>logger.Fatalf\<close> exits.
\<close>

section \<open>The configuration\<close>

record etcdConfig =
  ecEndpoints :: "string list"
  ecDialTimeout :: int
  ecUsername :: string
  ecPassword :: string

record 're yaprConfig =
  ycVersion :: string
  ycRouters :: "'re router list"
  ycSelectors :: "selector list"

text \<open>The pointers of \<open>Config\<close> are nil when the file does not have the key; of Redis there is the address.\<close>

record 're config =
  cfEtcd :: "etcdConfig option"
  cfRedis :: "string option"
  cfYapr :: "'re yaprConfig option"

definition LoadConfigFile :: "(string \<Rightarrow> go_error + string) \<Rightarrow> (string \<Rightarrow> string) \<Rightarrow> (string \<Rightarrow> go_error + 're config) \<Rightarrow>
    string \<Rightarrow> go_error + 're config" where
  "LoadConfigFile ReadFile ExpandEnv Unmarshal configPath =
     (case ReadFile configPath of
        Inl err \<Rightarrow> Inl err
      | Inr b \<Rightarrow> (case Unmarshal (ExpandEnv b) of Inl err \<Rightarrow> Inl err | Inr cfg \<Rightarrow> Inr cfg))"

section \<open>The store\<close>

datatype 'a startup = Started 'a | Died "go_error panic" | Exited

text \<open>What etcd and Redis answer while a store is made.\<close>

record storeNet =
  sn_client :: "etcdConfig \<Rightarrow> go_error option"
  sn_redis :: "string \<Rightarrow> go_error option"
  sn_session :: "go_error option"
  sn_lock :: "go_error option"
  sn_version :: "go_error + string option"
  sn_put :: "string \<Rightarrow> go_error option"
  sn_unlock :: "go_error option"
  sn_close :: "go_error option"

text \<open>
  The body under the lock: a configuration that is nil is read only when etcd has answered. The
  deferred calls unlock, then close the session, after a panic too; they do not run when the process
  exits.
\<close>

definition LoadConfig_body :: "storeNet \<Rightarrow> 're yaprConfig option \<Rightarrow> (go_error option) result \<times> etcdReq list" where
  "LoadConfig_body net cfg =
     (case cfg of
        None \<Rightarrow> (case sn_version net of Inl err \<Rightarrow> Ret (Some err) | Inr _ \<Rightarrow> Panicked NilDeref, [])
      | Some c \<Rightarrow>
          (case LoadConfig (sn_version net) (sn_put net) (ycVersion c)
              (config_selectors (ycSelectors c)) (config_routers (ycRouters c)) of
             (err, reqs) \<Rightarrow> (Ret err, reqs)))"

definition LoadConfig_locked :: "storeNet \<Rightarrow> 're yaprConfig option \<Rightarrow> (go_error option) startup \<times> etcdReq list" where
  "LoadConfig_locked net cfg =
     (if sn_session net \<noteq> None then (Exited, [])
      else if sn_lock net \<noteq> None then (Exited, [])
      else (case LoadConfig_body net cfg of
              (res, reqs) \<Rightarrow>
                (if sn_unlock net \<noteq> None then Exited
                 else if sn_close net \<noteq> None then Exited
                 else (case res of Ret err \<Rightarrow> Started err | Panicked p \<Rightarrow> Died p | Blocked \<Rightarrow> Exited), reqs)))"

definition NewImpl :: "storeNet \<Rightarrow> 're config \<Rightarrow> string \<Rightarrow> impl startup \<times> etcdReq list" where
  "NewImpl net cfg pod =
     (case cfEtcd cfg of
        None \<Rightarrow> (Died NilDeref, [])
      | Some ec \<Rightarrow>
     (case sn_client net ec of
        Some err \<Rightarrow> (Died (PanicVal err), [])
      | None \<Rightarrow>
     (case cfRedis cfg of
        None \<Rightarrow> (Died NilDeref, [])
      | Some url \<Rightarrow>
     (case sn_redis net url of
        Some err \<Rightarrow> (Died (PanicVal err), [])
      | None \<Rightarrow>
     (case LoadConfig_locked net (cfYapr cfg) of
        (Started None, reqs) \<Rightarrow> (Started (new_impl pod), reqs)
      | (Started (Some err), reqs) \<Rightarrow> (Died (PanicVal err), reqs)
      | (Died p, reqs) \<Rightarrow> (Died p, reqs)
      | (Exited, reqs) \<Rightarrow> (Exited, reqs))))))"

section \<open>A process and its SDKs\<close>

text \<open>
  The variables of the packages: the store, the two SDKs (of the client only the pod is kept), the
  builders, what is registered with gRPC, and whether the server follows migrations.
\<close>

record 'm process =
  pr_store :: "impl option"
  pr_client :: "string option"
  pr_server :: "sdkServer option"
  pr_builders :: "'m builders"
  pr_grpc :: "string list"
  pr_follows :: bool

definition new_process :: "'m process" where
  "new_process = \<lparr>pr_store = None, pr_client = None, pr_server = None, pr_builders = Map.empty, pr_grpc = [], pr_follows = False\<rparr>"

definition RegisterStore :: "impl \<Rightarrow> 'm process \<Rightarrow> unit startup \<times> 'm process" where
  "RegisterStore s p =
     (if pr_store p \<noteq> None then (Died (PanicMsg ''store already registered''), p)
      else (Started (), p\<lparr>pr_store := Some s\<rparr>))"

text \<open>The part the two SDKs share: the configuration, a new store, and its registration.\<close>

definition open_store :: "go_error + 're config \<Rightarrow> storeNet \<Rightarrow> string \<Rightarrow> 'm process \<Rightarrow> unit startup \<times> etcdReq list \<times> 'm process" where
  "open_store cfg net pod p =
     (case cfg of
        Inl err \<Rightarrow> (Died (PanicVal err), [], p)
      | Inr c \<Rightarrow>
          (case NewImpl net c pod of
             (Started s, reqs) \<Rightarrow> (case RegisterStore s p of (r, p) \<Rightarrow> (r, reqs, p))
           | (Died e, reqs) \<Rightarrow> (Died e, reqs, p)
           | (Exited, reqs) \<Rightarrow> (Exited, reqs, p)))"

definition register_strategies :: "'m builders \<Rightarrow> 'm builders" where
  "register_strategies bs = bs ++ builtin_builders"

text \<open>\<open>Close\<close>: the second call is the command that shuts the Redis server down, not the client.\<close>

datatype closing = EtcdClose | RedisShutdown

definition impl_Close :: "closing list" where
  "impl_Close = [EtcdClose, RedisShutdown]"

text \<open>\<open>pod\<close> is the UUID the client makes.\<close>

definition client_Init :: "go_error + 're config \<Rightarrow> storeNet \<Rightarrow> string \<Rightarrow> bool \<Rightarrow> 'm process \<Rightarrow>
    string startup \<times> etcdReq list \<times> 'm process" where
  "client_Init cfg net pod initGrpc p =
     (case pr_client p of
        Some y \<Rightarrow> (Started y, [], p)
      | None \<Rightarrow>
          (case open_store cfg net pod p of
             (Died e, reqs, p) \<Rightarrow> (Died e, reqs, p)
           | (Exited, reqs, p) \<Rightarrow> (Exited, reqs, p)
           | (Started _, reqs, p) \<Rightarrow>
               (let p = p\<lparr>pr_builders := register_strategies (pr_builders p)\<rparr>;
                    p = (if initGrpc then p\<lparr>pr_grpc := pr_grpc p @ [''resolver'', ''balancer'']\<rparr> else p)
                in (Started pod, reqs, p\<lparr>pr_client := Some pod\<rparr>))))"

definition client_MustInstance :: "'m process \<Rightarrow> string result" where
  "client_MustInstance p =
     (case pr_client p of None \<Rightarrow> Panicked (PanicMsg ''yapr sdk not initialized'') | Some y \<Rightarrow> Ret y)"

definition server_Init :: "go_error + 're config \<Rightarrow> storeNet \<Rightarrow> string \<Rightarrow> 'm process \<Rightarrow>
    sdkServer startup \<times> etcdReq list \<times> 'm process" where
  "server_Init cfg net pod p =
     (case pr_server p of
        Some y \<Rightarrow> (Started y, [], p)
      | None \<Rightarrow>
          (case open_store cfg net pod p of
             (Died e, reqs, p) \<Rightarrow> (Died e, reqs, p)
           | (Exited, reqs, p) \<Rightarrow> (Exited, reqs, p)
           | (Started _, reqs, p) \<Rightarrow>
               (let y = new_sdkServer pod in (Started y, reqs, p\<lparr>pr_server := Some y, pr_follows := True\<rparr>))))"

definition server_MustInstance :: "'m process \<Rightarrow> sdkServer result" where
  "server_MustInstance p =
     (case pr_server p of None \<Rightarrow> Panicked (PanicMsg ''yapr sdk not initialized'') | Some y \<Rightarrow> Ret y)"

section \<open>What a start leaves behind\<close>

definition known_strategies :: "string set" where
  "known_strategies = {StrategyRandom, StrategyRoundRobin, StrategyWeightedRandom, StrategyWeightedRoundRobin,
     StrategyLeastRequest, StrategyLeastCost, StrategyHashRing, StrategyDirect, StrategyCustomLua}"

lemma dom_builtin: "dom builtin_builders = known_strategies"
  by (auto simp: builtin_builders_def RegisterStrategyBuilder_def known_strategies_def split: if_splits)

lemma open_store_Started:
  assumes "open_store cfg net pod p = (Started u, reqs, p')"
  shows "pr_store p = None \<and> p' = p\<lparr>pr_store := Some (new_impl pod)\<rparr>"
  using assms
  by (auto simp: open_store_def NewImpl_def RegisterStore_def
      split: sum.splits option.splits prod.splits startup.splits if_splits)

lemma open_store_again:
  assumes "pr_store p \<noteq> None"
  shows "\<exists>r reqs. open_store cfg net pod p = (r, reqs, p) \<and> (\<forall>u. r \<noteq> Started u)"
  using assms
  by (auto simp: open_store_def RegisterStore_def split: sum.splits prod.splits startup.splits)

lemma client_Init_Started:
  assumes "client_Init cfg net pod g p = (Started y, reqs, p')" and "pr_client p = None"
  shows "y = pod \<and> pr_store p = None
    \<and> p' = p\<lparr>pr_store := Some (new_impl pod), pr_client := Some pod,
             pr_builders := register_strategies (pr_builders p),
             pr_grpc := pr_grpc p @ (if g then [''resolver'', ''balancer''] else [])\<rparr>"
proof -
  obtain u r q where o: "open_store cfg net pod p = (Started u, r, q)"
    using assms by (auto simp: client_Init_def split: prod.splits startup.splits)
  then show ?thesis
    using open_store_Started [OF o] assms by (auto simp: client_Init_def Let_def)
qed

end
