(* ===== verification/Metrics.thy ===== *)
theory Metrics
  imports Errcode
begin

text \<open>
  \<open>pkg/yapr/metrics/metrics.go\<close> and \<open>pkg/yapr/logger/logger.go\<close>: what the program reports about
  itself. The calls of a process into Prometheus and zap are listed in the order in which they
  are made. The recorder of metrics is nil until \<open>Init\<close> has run in its goroutine, and a measurement
  before that panics. A duration is a value of a type parameter.
\<close>

section \<open>Measurements\<close>

datatype 'd measurement =
    IncRequestTotal string string
  | IncAddPodTotal string string
  | IncRemovePodTotal string string
  | IncHangPodTotal string string
  | ObserveRequestDuration string 'd
  | ObserveResolverDuration 'd
  | ObserveSelectorDuration string 'd
  | IncUpdateSelectorCnt string

datatype 'd promCall =
    NewCounterVec string "string list"
  | NewSummaryVec string "string list"
  | Inc string "string list"
  | Observe string "string list" 'd
  | HandleMetrics
  | ListenAndServe string

datatype recorder = RecorderImpl | RecorderMock

text \<open>The vectors of \<open>newMetricsRecorder\<close> with the names of their labels.\<close>

definition newMetricsRecorder :: "'d promCall list" where
  "newMetricsRecorder =
     [NewCounterVec ''request_total'' [''pod'', ''uri''],
      NewCounterVec ''add_pod_total'' [''service'', ''pod''],
      NewCounterVec ''remove_pod_total'' [''service'', ''pod''],
      NewCounterVec ''hang_pod_total'' [''service'', ''pod''],
      NewSummaryVec ''request_duration'' [''target''],
      NewSummaryVec ''resolver_duration'' [],
      NewSummaryVec ''selector_duration'' [''strategy''],
      NewCounterVec ''update_selector_cnt'' [''strategy'']]"

fun impl_measure :: "'d measurement \<Rightarrow> 'd promCall list" where
  "impl_measure (IncRequestTotal pod uri) = [Inc ''request_total'' [pod, uri]]"
| "impl_measure (IncAddPodTotal service pod) = [Inc ''add_pod_total'' [service, pod]]"
| "impl_measure (IncRemovePodTotal service pod) = [Inc ''remove_pod_total'' [service, pod]]"
| "impl_measure (IncHangPodTotal service pod) = [Inc ''hang_pod_total'' [service, pod]]"
| "impl_measure (ObserveRequestDuration target d) = [Observe ''request_duration'' [target] d]"
| "impl_measure (ObserveResolverDuration d) = [Observe ''resolver_duration'' [] d]"
| "impl_measure (ObserveSelectorDuration strategy d) = [Observe ''selector_duration'' [strategy] d]"
| "impl_measure (IncUpdateSelectorCnt strategy) = [Inc ''update_selector_cnt'' [strategy]]"

fun mock_measure :: "'d measurement \<Rightarrow> 'd promCall list" where
  "mock_measure (IncRequestTotal pod uri) = []"
| "mock_measure (IncAddPodTotal service pod) = []"
| "mock_measure (IncRemovePodTotal service pod) = []"
| "mock_measure (IncHangPodTotal service pod) = []"
| "mock_measure (ObserveRequestDuration target d) = []"
| "mock_measure (ObserveResolverDuration d) = []"
| "mock_measure (ObserveSelectorDuration strategy d) = []"
| "mock_measure (IncUpdateSelectorCnt strategy) = []"

section \<open>The recorder of a process\<close>

record 'd metrics =
  recorder :: "recorder option"
  prom :: "'d promCall list"

definition no_metrics :: "'d metrics" where
  "no_metrics = \<lparr>recorder = None, prom = []\<rparr>"

text \<open>
  \<open>Init\<close> up to the call of \<open>ListenAndServe\<close>, which does not return before it fails. A vector that has
  been registered before makes \<open>promauto\<close> panic.
\<close>

definition metrics_Init :: "nat \<Rightarrow> bool \<Rightarrow> ('d metrics, go_error, unit) go" where
  "metrics_Init port mock = (\<lambda>m.
     if \<not> mock \<and> list_ex (\<lambda>c. c \<in> set newMetricsRecorder) (prom m)
     then (Panicked (PanicMsg ''duplicate metrics collector registration attempted''), m)
     else (let m = (if mock then m\<lparr>recorder := Some RecorderMock\<rparr>
                    else m\<lparr>recorder := Some RecorderImpl, prom := prom m @ newMetricsRecorder @ [HandleMetrics]\<rparr>)
           in (Ret (), m\<lparr>prom := prom m @ [ListenAndServe (CHR '':'' # show_nat port)]\<rparr>)))"

definition measure_now :: "'d measurement \<Rightarrow> ('d metrics, go_error, unit) go" where
  "measure_now x = (\<lambda>m.
     case recorder m of
       None \<Rightarrow> (Panicked NilDeref, m)
     | Some RecorderImpl \<Rightarrow> (Ret (), m\<lparr>prom := prom m @ impl_measure x\<rparr>)
     | Some RecorderMock \<Rightarrow> (Ret (), m\<lparr>prom := prom m @ mock_measure x\<rparr>))"

section \<open>Labels\<close>

text \<open>\<open>WithLabelValues\<close> panics unless the vector was made with as many labels.\<close>

fun fits :: "'d promCall list \<Rightarrow> 'd promCall \<Rightarrow> bool" where
  "fits made (Inc n vs) = list_ex (\<lambda>c. case c of NewCounterVec m ls \<Rightarrow> m = n \<and> length ls = length vs | _ \<Rightarrow> False) made"
| "fits made (Observe n vs d) = list_ex (\<lambda>c. case c of NewSummaryVec m ls \<Rightarrow> m = n \<and> length ls = length vs | _ \<Rightarrow> False) made"
| "fits made _ = True"

fun all_fit :: "'d promCall list \<Rightarrow> 'd promCall list \<Rightarrow> bool" where
  "all_fit made [] = True"
| "all_fit made (c # cs) = (fits made c \<and> all_fit (made @ [c]) cs)"

lemma fits_more: "fits made c \<Longrightarrow> fits (made @ made') c"
  by (cases c) auto

lemma impl_measure_fits: "set newMetricsRecorder \<subseteq> set made \<Longrightarrow> c \<in> set (impl_measure x) \<Longrightarrow> fits made c"
  by (cases x) (force simp: newMetricsRecorder_def list_ex_iff)+

lemma all_fit_append: "all_fit made (xs @ ys) = (all_fit made xs \<and> all_fit (made @ xs) ys)"
  by (induction xs arbitrary: made) simp_all

text \<open>A process: starts of the recorder and measurements in any order, panics included.\<close>

inductive measured :: "'d metrics \<Rightarrow> bool" where
  measured_start: "measured no_metrics"
| measured_init: "measured m \<Longrightarrow> metrics_Init port mock m = (r, m') \<Longrightarrow> measured m'"
| measured_step: "measured m \<Longrightarrow> measure_now x m = (r, m') \<Longrightarrow> measured m'"

lemma all_fit_all: "(\<And>c. c \<in> set cs \<Longrightarrow> fits made c) \<Longrightarrow> all_fit made cs"
  by (induction cs arbitrary: made) (simp_all add: fits_more)

lemma measured_fits:
  "measured m \<Longrightarrow> all_fit [] (prom m) \<and> (recorder m = Some RecorderImpl \<longrightarrow> set newMetricsRecorder \<subseteq> set (prom m))"
proof (induction rule: measured.induct)
  case measured_start
  show ?case by (simp add: no_metrics_def)
next
  case (measured_init m port mock r m')
  have "all_fit made newMetricsRecorder" "all_fit made [HandleMetrics, ListenAndServe a]" "all_fit made [ListenAndServe a]"
    for made :: "'a promCall list" and a
    by (simp_all add: newMetricsRecorder_def)
  then show ?case using measured_init.IH measured_init.hyps(2)
    by (auto simp: metrics_Init_def Let_def all_fit_append split: if_splits)
next
  case (measured_step m x r m')
  then have IH: "all_fit [] (prom m)" "recorder m = Some RecorderImpl \<longrightarrow> set newMetricsRecorder \<subseteq> set (prom m)"
    by blast+
  have mock: "mock_measure x = []" by (cases x) simp_all
  show ?case
  proof (cases "recorder m")
    case None
    then show ?thesis using measured_step.hyps(2) IH by (auto simp: measure_now_def)
  next
    case (Some rc)
    have "all_fit (prom m) (impl_measure x)" if "rc = RecorderImpl"
      using IH(2) Some that by (intro all_fit_all) (auto intro: impl_measure_fits)
    then show ?thesis using Some IH measured_step.hyps(2) mock
      by (cases rc) (auto simp: measure_now_def all_fit_append)
  qed
qed

section \<open>The logger\<close>

text \<open>
  The methods of \<open>Logger\<close> and the functions of the package, which use the default logger. A logger has
  a core for the console and, when it is given a file, one for the file; an entry is written by each
  core when its level is enabled. \<open>Panic\<close> panics and \<open>Fatal\<close> ends the process whatever the level. The
  text of \<open>fmt.Sprintf\<close> is part of the argument; the formats of the encoders are left out.
\<close>

datatype level = DebugLevel | InfoLevel | WarnLevel | ErrorLevel | PanicLevel | FatalLevel

fun level_number :: "level \<Rightarrow> int" where
  "level_number DebugLevel = -1"
| "level_number InfoLevel = 0"
| "level_number WarnLevel = 1"
| "level_number ErrorLevel = 2"
| "level_number PanicLevel = 4"
| "level_number FatalLevel = 5"

lemma level_number_inject: "level_number l = level_number k \<longleftrightarrow> l = k"
  by (cases l; cases k) simp_all

instantiation level :: linorder
begin

definition less_eq_level :: "level \<Rightarrow> level \<Rightarrow> bool" where
  "less_eq_level l k = (level_number l \<le> level_number k)"

definition less_level :: "level \<Rightarrow> level \<Rightarrow> bool" where
  "less_level l k = (level_number l < level_number k)"

instance
  by standard (auto simp: less_eq_level_def less_level_def level_number_inject)

end

datatype encoder = ConsoleEncoder | JSONEncoder

datatype logSink = Stdout | LogFile string

record logger =
  lg_level :: level
  lg_cores :: "(encoder \<times> logSink) list"

datatype logCall = LogWrite encoder logSink level string | LogSync "(encoder \<times> logSink) list"

datatype logEnd = Continues | Panics | Exits

definition logger_New :: "level \<Rightarrow> string option \<Rightarrow> logger" where
  "logger_New l fileOut =
     \<lparr>lg_level = l,
      lg_cores = (ConsoleEncoder, Stdout) # (case fileOut of Some f \<Rightarrow> [(JSONEncoder, LogFile f)] | None \<Rightarrow> [])\<rparr>"

definition NewWithLogFile :: "level \<Rightarrow> string \<Rightarrow> logger" where
  "NewWithLogFile l path = logger_New l (Some path)"

definition SetLevel :: "level \<Rightarrow> logger \<Rightarrow> logger" where
  "SetLevel l lg = lg\<lparr>lg_level := l\<rparr>"

definition logger_log :: "level \<Rightarrow> string \<Rightarrow> logger \<Rightarrow> logEnd \<times> logCall list" where
  "logger_log l msg lg =
     (case l of PanicLevel \<Rightarrow> Panics | FatalLevel \<Rightarrow> Exits | _ \<Rightarrow> Continues,
      if lg_level lg \<le> l then map (\<lambda>(enc, out). LogWrite enc out l msg) (lg_cores lg) else [])"

record logState =
  std :: logger
  logged :: "logCall list"

definition log_start :: logState where
  "log_start = \<lparr>std = logger_New InfoLevel None, logged = []\<rparr>"

definition ReplaceDefault :: "logger \<Rightarrow> logState \<Rightarrow> logState" where
  "ReplaceDefault l s = s\<lparr>std := l\<rparr>"

definition log_SetLevel :: "level \<Rightarrow> logState \<Rightarrow> logState" where
  "log_SetLevel l s = s\<lparr>std := SetLevel l (std s)\<rparr>"

definition log_now :: "level \<Rightarrow> string \<Rightarrow> logState \<Rightarrow> logEnd \<times> logState" where
  "log_now l msg s = (case logger_log l msg (std s) of (r, cs) \<Rightarrow> (r, s\<lparr>logged := logged s @ cs\<rparr>))"

definition log_Sync :: "logState \<Rightarrow> logState" where
  "log_Sync s = s\<lparr>logged := logged s @ [LogSync (lg_cores (std s))]\<rparr>"

text \<open>Once the mains have replaced the default logger, no message of a lower level is written.\<close>

lemma log_now_level:
  "log_now l msg s = (r, s') \<Longrightarrow> LogWrite enc out k m \<in> set (logged s') \<Longrightarrow>
     LogWrite enc out k m \<in> set (logged s) \<or> lg_level (std s) \<le> k \<and> (enc, out) \<in> set (lg_cores (std s)) \<and> m = msg \<and> k = l"
  by (auto simp: log_now_def logger_log_def split: if_splits)

end
