(* ===== verification/EchoServer.thy ===== *)
theory EchoServer
  imports SdkCluster ClusterView Metrics EchoTcp
begin

text \<open>
  The example servers (\<open>cmd/example/echo/server\<close>, \<open>cmd/example/echo-tcp/server\<close>,
  \<open>cmd/example/stress/server\<close>): the ports a server takes, its loop of registrations, the weights it
  reports, the handler of an echo request, and the connections of the stress server. Flags, signals
  and listeners are left out.
\<close>

section \<open>Ports\<close>

text \<open>\<open>for port := lo; port < hi; port++\<close> over \<open>uint32\<close>.\<close>

function ports_between :: "u32 \<Rightarrow> u32 \<Rightarrow> u32 list" where
  "ports_between port hi = (if port < hi then port # ports_between (port + 1) hi else [])"
  by pat_completeness auto

lemma unat_next: "(port :: u32) < hi \<Longrightarrow> unat (port + 1) = unat port + 1"
proof -
  assume "port < hi"
  then have "unat port < unat hi" by (simp add: word_less_nat_alt)
  moreover have "unat hi < 2 ^ 32" using unsigned_less [of hi] by simp
  ultimately have "unat port + 1 < 2 ^ 32" by linarith
  then show ?thesis by (intro unat_word_Suc) simp
qed

lemma unat_word_of_int32: "0 \<le> k \<Longrightarrow> k < 2 ^ 32 \<Longrightarrow> unat (word_of_int k :: u32) = nat k"
  by (simp add: unat_eq_nat_uint uint_word_of_int take_bit_int_eq_self)

termination ports_between
  by (relation "measure (\<lambda>(port, hi). unat hi - unat port)") (simp_all add: unat_next word_less_nat_alt)

declare ports_between.simps [simp del]

definition server_ports :: "int \<Rightarrow> int \<Rightarrow> u32 list" where
  "server_ports i endpointCnt =
     ports_between (word_of_int (23333 + (i - 1) * endpointCnt)) (word_of_int (23333 + i * endpointCnt))"

text \<open>The endpoints of a server: one for each port.\<close>

definition server_endpoints :: "string \<Rightarrow> int \<Rightarrow> int \<Rightarrow> sdkServer \<Rightarrow> endpoint list" where
  "server_endpoints ip i endpointCnt y = map (\<lambda>port. NewEndpointWithPort ip port y) (server_ports i endpointCnt)"

lemma ports_between_unat: "map unat (ports_between lo hi) = [unat lo ..< unat hi]"
proof (induction lo hi rule: ports_between.induct)
  case (1 port hi)
  show ?case
  proof (cases "port < hi")
    case True
    then have "[unat port ..< unat hi] = unat port # [unat (port + 1) ..< unat hi]"
      by (simp add: unat_next upt_conv_Cons word_less_nat_alt)
    then show ?thesis using 1 [OF True] True by (simp add: ports_between.simps [of port])
  next
    case False
    then show ?thesis by (simp add: ports_between.simps [of port] word_less_nat_alt)
  qed
qed

lemma server_ports_unat:
  assumes "1 \<le> i" and "0 \<le> cnt" and "23333 + i * cnt < 2 ^ 32"
  shows "map unat (server_ports i cnt) = [nat (23333 + (i - 1) * cnt) ..< nat (23333 + i * cnt)]"
proof -
  have "0 \<le> (i - 1) * cnt" "(i - 1) * cnt \<le> i * cnt" "0 \<le> i * cnt"
    using assms(1,2) by (simp_all add: mult_right_mono)
  then have u: "unat (word_of_int (23333 + (i - 1) * cnt) :: u32) = nat (23333 + (i - 1) * cnt)"
    "unat (word_of_int (23333 + i * cnt) :: u32) = nat (23333 + i * cnt)"
    using assms(3) by (intro unat_word_of_int32; linarith)+
  show ?thesis unfolding server_ports_def ports_between_unat u by (rule refl)
qed

section \<open>The loop of registrations\<close>

text \<open>
  Every element of the list is one round: a registration with those answers of etcd, which is kept
  alive until the next round begins; a registration that fails panics. The requests are listed.
\<close>

fun keep_registered :: "string \<Rightarrow> endpoint list \<Rightarrow> registerNet list \<Rightarrow> impl \<times> sdkServer \<Rightarrow>
    unit result \<times> etcdReq list \<times> impl \<times> sdkServer" where
  "keep_registered n es [] x = (Ret (), [], x)"
| "keep_registered n es (net # nets) x =
     (case sdk_RegisterService net n es x of
        (Some err, reqs, x) \<Rightarrow> (Panicked (PanicVal err), reqs, x)
      | (None, reqs, x) \<Rightarrow>
          if nets = [] then (Ret (), reqs, x)
          else (case sdk_UnregisterService n x of (reqs2, x) \<Rightarrow>
              (case keep_registered n es nets x of (r, reqs3, x) \<Rightarrow> (r, reqs @ reqs2 @ reqs3, x))))"

section \<open>Weights\<close>

text \<open>\<open>setWeight\<close>: the answers of Redis are the same for every endpoint; an error panics.\<close>

fun setWeight :: "'r redis \<Rightarrow> cjson \<Rightarrow> go_error + string \<Rightarrow> go_error option \<Rightarrow> int \<Rightarrow> endpoint list \<Rightarrow>
    (impl \<times> 'r, go_error, attributeChangeNTF list) go" where
  "setWeight rd cj load net weight [] = go_ret []"
| "setWeight rd cj load net weight (e # es) =
     go_bind (SetEndpointAttribute rd cj load net (Some e) ''echo-weighted''
                \<lparr>Weight = Some (word_of_int weight), RPS = None, Deadline = None\<rparr>) (\<lambda>(err, ntf).
       case err of
         Some er \<Rightarrow> go_panic (PanicVal er)
       | None \<Rightarrow> go_bind (setWeight rd cj load net weight es) (\<lambda>ntfs.
           go_ret (case ntf of Some x \<Rightarrow> x # ntfs | None \<Rightarrow> ntfs)))"

section \<open>The echo handler\<close>

text \<open>Values of a key of the metadata, and the answers of Redis to one call that sets a route.\<close>

definition mdGet :: "(string \<rightharpoonup> string list) \<Rightarrow> string \<Rightarrow> string list" where
  "mdGet md k = (case md k of None \<Rightarrow> [] | Some vs \<Rightarrow> vs)"

record routeNet =
  rt_load :: "go_error + string"
  rt_err :: "go_error option"
  rt_now :: int

definition echo_set_route :: "'r redis \<Rightarrow> routeNet \<Rightarrow> routeNet \<Rightarrow> endpoint \<Rightarrow> (string \<rightharpoonup> string list) option \<Rightarrow>
    ((impl \<times> 'r) \<times> sdkServer, go_error, string list) go" where
  "echo_set_route rd net1 net2 e md =
     (case md of
        None \<Rightarrow> go_ret []
      | Some m \<Rightarrow>
          (case mdGet m ''x-uid'' of
             [] \<Rightarrow> go_ret []
           | uid # _ \<Rightarrow>
               if mdGet m ''set-custom-route'' = [] then go_ret []
               else go_bind (sdk_SetCustomRoute rd (rt_load net1) (rt_err net1) (rt_now net1) ''echo-dir'' uid e None 0)
                 (\<lambda>((old, err), m1).
                    let sent = (case m1 of Some x \<Rightarrow> [x] | None \<Rightarrow> []) in
                    if err \<noteq> None then go_ret sent
                    else if old \<noteq> None \<and> mdGet m ''overwrite'' \<noteq> []
                    then go_bind (sdk_SetCustomRoute rd (rt_load net2) (rt_err net2) (rt_now net2) ''echo-dir'' uid e old 0)
                           (\<lambda>(_, m2). go_ret (sent @ (case m2 of Some x \<Rightarrow> [x] | None \<Rightarrow> [])))
                    else go_ret sent)))"

text \<open>The handler: the messages it has published and the response.\<close>

definition Echo :: "'r redis \<Rightarrow> routeNet \<Rightarrow> routeNet \<Rightarrow> string \<Rightarrow> endpoint \<Rightarrow> (string \<rightharpoonup> string list) option \<Rightarrow>
    (((impl \<times> 'r) \<times> sdkServer) \<times> 'd metrics, go_error, string list \<times> string) go" where
  "Echo rd net1 net2 name e md = (\<lambda>(s, mt).
     case echo_set_route rd net1 net2 e md s of
       (Panicked p, s) \<Rightarrow> (Panicked p, (s, mt))
     | (Blocked, s) \<Rightarrow> (Blocked, (s, mt))
     | (Ret sent, s) \<Rightarrow>
         (case measure_now (IncRequestTotal name ''echo/Echo'') mt of
            (Panicked p, mt) \<Rightarrow> (Panicked p, (s, mt))
          | (Blocked, mt) \<Rightarrow> (Blocked, (s, mt))
          | (Ret _, mt) \<Rightarrow> (Ret (sent, ''-> '' @ name), (s, mt))))"

section \<open>A server that loses its lease registers again\<close>

text \<open>The error a registration ends with, when the service is not registered yet.\<close>

definition register_error :: "registerNet \<Rightarrow> go_error option" where
  "register_error net =
     (case rn_grant net of
        Inl err \<Rightarrow> Some err
      | Inr _ \<Rightarrow>
          if rn_keepalive net \<noteq> None then rn_keepalive net
          else if rn_put_lease net \<noteq> None then rn_put_lease net
          else rn_put_data net)"

lemma sdk_RegisterService_fails:
  "serviceToLease s n = None \<Longrightarrow> register_error net = Some err \<Longrightarrow>
     \<exists>reqs s'. sdk_RegisterService net n es (s, y) = (Some err, reqs, s', y)"
  by (auto simp: sdk_RegisterService_def RegisterService_def register_error_def Let_def split: sum.splits option.splits if_splits)

lemma sdk_RegisterService_works:
  assumes "serviceToLease s n = None" and "register_error net = None"
  shows "\<exists>reqs s'. RegisterService net n es s = ((True, None), reqs, s') \<and> im_pod s' = im_pod s \<and> serviceToLease s' n \<noteq> None
    \<and> sdk_RegisterService net n es (s, y) =
        (None, reqs, s', y\<lparr>sv_endpoints := sv_endpoints y \<union> set es, endpointsByService := (endpointsByService y)(n \<mapsto> es)\<rparr>)"
  using assms
  by (auto simp: sdk_RegisterService_def RegisterService_def register_error_def Let_def split: sum.splits option.splits if_splits)

lemma keep_registered_fails:
  "serviceToLease s n = None \<Longrightarrow> find (\<lambda>net. register_error net \<noteq> None) nets = Some net \<Longrightarrow> register_error net = Some err \<Longrightarrow>
     \<exists>reqs x. keep_registered n es nets (s, y) = (Panicked (PanicVal err), reqs, x)"
proof (induction nets arbitrary: s y)
  case (Cons net' nets)
  show ?case
  proof (cases "register_error net'")
    case None
    then have f: "find (\<lambda>net. register_error net \<noteq> None) nets = Some net" using Cons.prems(2) by simp
    then have ne: "nets \<noteq> []" by auto
    obtain reqs s' y' where reg: "sdk_RegisterService net' n es (s, y) = (None, reqs, s', y')"
      using sdk_RegisterService_works [OF Cons.prems(1) None] by blast
    obtain reqs2 s2 y2 where un: "sdk_UnregisterService n (s', y') = (reqs2, s2, y2)" by (metis surj_pair)
    then have "serviceToLease s2 n = None"
      by (auto simp: sdk_UnregisterService_def UnregisterService_def split: option.splits)
    from Cons.IH [OF this f Cons.prems(3), of y2] show ?thesis using reg un ne by (auto split: prod.split)
  next
    case (Some er)
    then have "net' = net" "er = err" using Cons.prems(2,3) by auto
    then show ?thesis using sdk_RegisterService_fails [OF Cons.prems(1) Some, of es y] by auto
  qed
qed simp

lemma changes_of_append: "changes_of (xs @ ys) = changes_of xs @ changes_of ys"
  by (simp add: changes_of_def List.map_filter_def)

lemma keep_registered_ok:
  assumes "CHR ''/'' \<notin> set n" and "CHR ''/'' \<notin> set (im_pod s)"
    and "serviceToLease s n = None" and "\<forall>net \<in> set nets. register_error net = None" and "nets \<noteq> []"
  shows "\<exists>reqs s' y'. keep_registered n es nets (s, y) = (Ret (), reqs, s', y') \<and> serviceToLease s' n \<noteq> None
    \<and> endpointsByService y' n = Some es \<and> set es \<subseteq> sv_endpoints y'
    \<and> (\<forall>ds. dirs_after ds (changes_of reqs) n (im_pod s) = Some (es, False))"
  using assms(2-5)
proof (induction nets arbitrary: s y)
  case (Cons net nets)
  let ?y = "y\<lparr>sv_endpoints := sv_endpoints y \<union> set es, endpointsByService := (endpointsByService y)(n \<mapsto> es)\<rparr>"
  have err: "register_error net = None" using Cons.prems(3) by simp
  obtain reqs s' where reg: "RegisterService net n es s = ((True, None), reqs, s')" "im_pod s' = im_pod s"
      "serviceToLease s' n \<noteq> None" "sdk_RegisterService net n es (s, y) = (None, reqs, s', ?y)"
    using sdk_RegisterService_works [OF Cons.prems(2) err, of es y] by blast
  have ch: "changes_of reqs = [(n, ChangePut (im_pod s) (map Some es))]"
    by (rule RegisterService_changes(1) [OF assms(1) Cons.prems(1) reg(1)])
  show ?case
  proof (cases "nets = []")
    case True
    have "dirs_after ds (changes_of reqs) n (im_pod s) = Some (es, False)" for ds
      by (simp add: ch dirs_after_def comp_def)
    then show ?thesis using reg(3,4) True by auto
  next
    case False
    obtain reqs2 s2 y2 where un: "sdk_UnregisterService n (s', ?y) = (reqs2, s2, y2)" by (metis surj_pair)
    then have s2: "serviceToLease s2 n = None" "im_pod s2 = im_pod s"
      using reg(2) by (auto simp: sdk_UnregisterService_def UnregisterService_def split: option.splits)
    obtain reqs3 s3 y3 where rest: "keep_registered n es nets (s2, y2) = (Ret (), reqs3, s3, y3)" "serviceToLease s3 n \<noteq> None"
        "endpointsByService y3 n = Some es" "set es \<subseteq> sv_endpoints y3"
        "\<forall>ds. dirs_after ds (changes_of reqs3) n (im_pod s2) = Some (es, False)"
      using Cons.IH [of s2 y2] Cons.prems(1,3) s2 False by auto
    have "keep_registered n es (net # nets) (s, y) = (Ret (), reqs @ reqs2 @ reqs3, s3, y3)"
      using reg(4) un rest(1) False by simp
    moreover have "dirs_after ds (changes_of (reqs @ reqs2 @ reqs3)) n (im_pod s) = Some (es, False)" for ds
      using rest(5) s2(2) by (simp add: changes_of_append dirs_after_append)
    ultimately show ?thesis using rest(2-4) by blast
  qed
qed simp

section \<open>What the echo handler does to a route\<close>

lemma sdk_SetCustomRoute_free:
  assumes "setCustomRouteSha s \<noteq> []" and "paired rd sel hv r" and "1000 \<le> now" and "live_route rd now sel hv r = None"
  shows "sdk_SetCustomRoute rd load None now sel hv e None timeout ((s, r), y) =
    (Ret ((None, None), None), ((s, store_route rd now sel hv (endpoint_String e) timeout r), y))"
  by (simp add: sdk_SetCustomRoute_def SetCustomRoute_loaded [OF assms(1)] set_route_script_cas [OF assms(2,3)] assms(4) Let_def)

lemma echo_set_route_eq:
  assumes "setCustomRouteSha s \<noteq> []" and "paired rd ''echo-dir'' uid r"
    and "rt_err net1 = None" and "rt_err net2 = None" and "1000 \<le> rt_now net1" and "1000 \<le> rt_now net2"
    and "live_route rd (rt_now net1) ''echo-dir'' uid r = map_option endpoint_String cur"
    and "live_route rd (rt_now net2) ''echo-dir'' uid r = map_option endpoint_String cur"
    and "\<forall>x. cur = Some x \<longrightarrow> sep_free x"
    and "mdGet m ''x-uid'' = uid # us" and "mdGet m ''set-custom-route'' \<noteq> []"
  shows "echo_set_route rd net1 net2 e (Some m) ((s, r), y) =
    (case cur of
       None \<Rightarrow> (Ret [], ((s, store_route rd (rt_now net1) ''echo-dir'' uid (endpoint_String e) 0 r), y))
     | Some x \<Rightarrow>
         if mdGet m ''overwrite'' = [] then (Ret [], ((s, r), y))
         else (Ret [''echo-dir'' @ '' '' @ uid @ '' '' @ endpoint_String x @ '' '' @ endpoint_String e],
               ((s, store_route rd (rt_now net2) ''echo-dir'' uid (endpoint_String e) 0 r),
                onMigration ''echo-dir'' uid (Some x) (Some e) y)))"
proof (cases cur)
  case None
  then show ?thesis
    using sdk_SetCustomRoute_free [OF assms(1,2,5), of "rt_load net1" e 0 y] assms(3,7,10,11)
    by (simp add: echo_set_route_def go_bind_def)
next
  case (Some x)
  have first: "sdk_SetCustomRoute rd (rt_load net1) None (rt_now net1) ''echo-dir'' uid e None 0 ((s, r), y) =
      (Ret ((Some x, None), None), ((s, r), y))"
    using sdk_SetCustomRoute_refused [OF assms(1,2,5), of x None "rt_load net1" e 0 y] assms(7,9) Some by simp
  have "live_route rd (rt_now net2) ''echo-dir'' uid r \<in> {None, Some (endpoint_String x)}" using assms(8) Some by simp
  from sdk_SetCustomRoute_moves [OF assms(1,2,6) this, of "rt_load net2" e 0 y]
  show ?thesis
    using first assms(3,4,10,11) Some by (simp add: echo_set_route_def go_bind_def NotifyMigration_def)
qed

section \<open>The stress server\<close>

text \<open>
  A connection without request numbers: one request is read, checked, answered and counted out
  before the next is read. \<open>written i\<close> says whether the two writes of the \<open>i\<close>-th response go through;
  when one does not, the goroutine returns at once.
\<close>

definition read_plain_frame :: "string \<Rightarrow> frameRead" where
  "read_plain_frame s =
     (if s = [] then FEof
      else if length s < 4 then FStop
      else (let len = sint (get32 s); s = drop 4 s in
        if len > 65536 then FStop
        else if len < 0 then FPanic
        else if length s < nat len then FStop
        else FFrame 0 (take (nat len) s) (drop (nat len) s)))"

lemma read_plain_frame_shorter: "read_plain_frame s = FFrame i d rest \<Longrightarrow> length rest < length s"
  by (auto simp: read_plain_frame_def Let_def split: if_splits)

definition stress_request :: "(int \<Rightarrow> string \<Rightarrow> string) \<Rightarrow> (string \<Rightarrow> string) \<Rightarrow> 're storeOps option \<Rightarrow>
    ((string \<times> string) list \<Rightarrow> (string \<times> string) list) \<Rightarrow> string \<Rightarrow>
    (('m, 're) world \<times> sdkServer, go_error, string \<times> report option) go" where
  "stress_request status_text Errorf st perm dat = (\<lambda>s.
     case UnmarshalData Errorf dat of
       Panicked p \<Rightarrow> (Panicked p, s)
     | Blocked \<Rightarrow> (Blocked, s)
     | Ret d \<Rightarrow>
         go_bind (OnRequestReceived status_text st (map_of (dHeaders d))) (\<lambda>(sent, err).
           go_ret (Marshal (d\<lparr>dErr := err, dHeaders := perm (dHeaders d)\<rparr>), sent)) s)"

function stress_loop :: "(int \<Rightarrow> string \<Rightarrow> string) \<Rightarrow> (string \<Rightarrow> string) \<Rightarrow> 're storeOps option \<Rightarrow>
    ((string \<times> string) list \<Rightarrow> (string \<times> string) list) \<Rightarrow> (nat \<Rightarrow> bool) \<Rightarrow> nat \<Rightarrow> string \<Rightarrow> (('m, 're) world \<times> sdkServer) \<Rightarrow>
    unit result \<times> string \<times> (('m, 're) world \<times> sdkServer)" where
  "stress_loop status_text Errorf st perm written i s x =
     (case read_plain_frame s of
        FEof \<Rightarrow> (Ret (), [], x)
      | FStop \<Rightarrow> (Ret (), [], x)
      | FPanic \<Rightarrow> (Panicked BadLength, [], x)
      | FFrame _ d rest \<Rightarrow>
          (case stress_request status_text Errorf st perm d x of
             (Panicked p, x) \<Rightarrow> (Panicked p, [], x)
           | (Blocked, x) \<Rightarrow> (Blocked, [], x)
           | (Ret (response, sent), (w, y)) \<Rightarrow>
               if \<not> written i then (Ret (), [], (w, y))
               else (case stress_loop status_text Errorf st perm written (Suc i) rest
                       (w, case sent of Some rp \<Rightarrow> onResponseSent rp y | None \<Rightarrow> y) of
                   (r, out, x) \<Rightarrow> (r, put_len response @ response @ out, x))))"
  by pat_completeness auto

termination stress_loop
  by (relation "measure (\<lambda>(_, _, _, _, _, _, s, _). length s)") (auto dest: read_plain_frame_shorter)

declare stress_loop.simps [simp del]

text \<open>The requests in flight under a key.\<close>

definition in_flight :: "sdkServer \<Rightarrow> string \<Rightarrow> u32" where
  "in_flight y key = (case requestCounter y key of Some c \<Rightarrow> c | None \<Rightarrow> 0)"

lemma in_flight_count:
  "in_flight (count_request rp y) key = in_flight y key + (if key = rp_key rp then 1 else 0)"
  "in_flight (onResponseSent rp y) key = in_flight y key - (if key = rp_key rp then 1 else 0)"
  by (auto simp: in_flight_def count_request_def onResponseSent_def checkUpdate_def add_requests_def)

text \<open>What one request, or none, adds to the count of a key.\<close>

definition counted :: "report option \<Rightarrow> string \<Rightarrow> u32" where
  "counted sent key = (case sent of Some rp \<Rightarrow> if key = rp_key rp then 1 else 0 | None \<Rightarrow> 0)"

lemma counted_None [simp]: "counted None key = 0"
  by (simp add: counted_def)

lemma in_flight_table [simp]: "in_flight (y\<lparr>routingTable := t\<rparr>) key = in_flight y key"
  by (simp add: in_flight_def)

lemma OnRequestReceived_in_flight:
  assumes "OnRequestReceived status_text st hs (w, y) = (r, (w', y'))"
  shows "in_flight y' key = in_flight y key + (case r of Ret (sent, err) \<Rightarrow> counted sent key | _ \<Rightarrow> 0)"
proof (cases "hs ''yapr-strategy''")
  case None
  then show ?thesis using assms by (auto simp: OnRequestReceived_errors(1))
next
  case strategy: (Some strategy)
  obtain g w1 where g: "GetSelector st (hget hs ''yapr-selector'') w = (g, w1)" by fastforce
  show ?thesis
  proof (cases g)
    case (Ret pe)
    obtain p err where pe: "pe = (p, err)" by (cases pe)
    show ?thesis
    proof (cases err)
      case (Some er)
      then show ?thesis
        using assms strategy g Ret pe by (auto simp: OnRequestReceived_def Let_def)
    next
      case None
      show ?thesis
      proof (cases "selector_at (hget hs ''yapr-selector'') w1")
        case c: None
        then show ?thesis using assms strategy g Ret pe None by (auto simp: OnRequestReceived_def Let_def)
      next
        case (Some c)
        show ?thesis
        proof (cases "strategy = StrategyDirect")
          case True
          obtain d t where d: "check_direct st (hget hs ''yapr-selector'') hs
              (EndpointFromString (hget hs ''yapr-endpoint'')) (routingTable y) = (d, t)" by fastforce
          show ?thesis
            using assms strategy g Ret pe None Some True d
            by (cases d) (auto simp: OnRequestReceived_def Let_def in_flight_count counted_def split: if_splits)
        next
          case False
          then show ?thesis
            using assms OnRequestReceived_other [where hs = hs and strategy = strategy and st = st and w = w and p = p and w' = w1 and c = c]
              strategy g Ret pe None Some
            by (auto simp: in_flight_count counted_def request_report_def split: if_splits)
        qed
      qed
    qed
  qed (use assms g strategy in \<open>auto simp: OnRequestReceived_def Let_def\<close>)
qed

lemma stress_request_in_flight:
  assumes "stress_request status_text Errorf st perm d (w, y) = (r, (w', y'))"
  shows "in_flight y' key = in_flight y key + (case r of Ret (out, sent) \<Rightarrow> counted sent key | _ \<Rightarrow> 0)"
proof (cases "UnmarshalData Errorf d")
  case (Ret m)
  obtain q w1 y1 where q: "OnRequestReceived status_text st (map_of (dHeaders m)) (w, y) = (q, (w1, y1))"
    by (metis surj_pair)
  show ?thesis
    using assms Ret q OnRequestReceived_in_flight [OF q, of key]
    by (cases q) (auto simp: stress_request_def split: prod.splits)
qed (use assms in \<open>auto simp: stress_request_def\<close>)

text \<open>Whatever a connection does, it leaves at most one request counted, and only when a write failed.\<close>

lemma stress_loop_in_flight:
  "\<exists>leak. (\<forall>key. in_flight (snd (snd (snd (stress_loop status_text Errorf st perm written i s (w, y))))) key =
      in_flight y key + counted leak key) \<and> (leak = None \<or> (\<exists>j \<ge> i. \<not> written j))"
proof (induction "length s" arbitrary: s i w y rule: less_induct)
  case less
  note unfold = stress_loop.simps [of status_text Errorf st perm written i s "(w, y)"]
  show ?case
  proof (cases "read_plain_frame s")
    case (FFrame k d rest)
    obtain q w1 y1 where q: "stress_request status_text Errorf st perm d (w, y) = (q, (w1, y1))" by (metis surj_pair)
    note n = stress_request_in_flight [OF q]
    show ?thesis
    proof (cases q)
      case (Ret os)
      obtain out sent where os: "os = (out, sent)" by (cases os)
      show ?thesis
      proof (cases "written i")
        case False
        then have "stress_loop status_text Errorf st perm written i s (w, y) = (Ret (), [], (w1, y1))"
          using FFrame q Ret os by (simp add: unfold)
        then show ?thesis using False n Ret os by (intro exI [of _ sent]) auto
      next
        case True
        define y2 where "y2 = (case sent of Some rp \<Rightarrow> onResponseSent rp y1 | None \<Rightarrow> y1)"
        have y2: "in_flight y2 key = in_flight y key" for key
          using n [of key] Ret os by (auto simp: y2_def in_flight_count counted_def split: option.split)
        obtain r o2 x2 where rest: "stress_loop status_text Errorf st perm written (Suc i) rest (w1, y2) = (r, o2, x2)"
          by (metis surj_pair)
        then have "stress_loop status_text Errorf st perm written i s (w, y) = (r, put_len out @ out @ o2, x2)"
          using FFrame q Ret os True by (simp add: unfold y2_def)
        moreover obtain leak where "\<forall>key. in_flight (snd x2) key = in_flight y2 key + counted leak key"
            "leak = None \<or> (\<exists>j \<ge> Suc i. \<not> written j)"
          using less [OF read_plain_frame_shorter [OF FFrame], of "Suc i" w1 y2] rest by auto
        ultimately show ?thesis using y2 by (intro exI [of _ leak]) (auto intro: Suc_leD)
      qed
    next
      case (Panicked p)
      then show ?thesis using FFrame q n by (intro exI [of _ None]) (simp add: unfold)
    next
      case Blocked
      then show ?thesis using FFrame q n by (intro exI [of _ None]) (simp add: unfold)
    qed
  qed (intro exI [of _ None]; simp add: unfold)+
qed

text \<open>The one request that leaks: counted, answered, and the write of the answer fails.\<close>

lemma write_failure_leaks:
  assumes "read_plain_frame s = FFrame k d rest" and "\<not> written i"
    and "stress_request status_text Errorf st perm d (w, y) = (Ret (out, Some rp), (w', y'))"
  shows "in_flight (snd (snd (snd (stress_loop status_text Errorf st perm written i s (w, y))))) (rp_key rp) =
    in_flight y (rp_key rp) + 1"
  using assms stress_request_in_flight [OF assms(3), of "rp_key rp"]
  by (simp add: stress_loop.simps [of status_text Errorf st perm written i s] counted_def)

end
