(* ===== verification/TcpConnections.thy ===== *)
theory TcpConnections
  imports EchoServer
begin

text \<open>
  The connections of \<open>cmd/example/echo-tcp/server\<close> over time: for each the goroutine that reads and
  serves, the goroutine that writes, and the channel of 1000 responses between them, as a step
  relation over all connections of a process, which share the SDK. A write that fails ends the
  writing goroutine; the reading one goes on until the channel is full.
\<close>

section \<open>Steps\<close>

text \<open>
  Of the bytes that have arrived the loop has not read the last ones; the other side may have closed its
  end. \<open>cn_arrived\<close> and \<open>cn_written\<close> are all the bytes so far.
\<close>

record tcpConn =
  cn_arrived :: string
  cn_unread :: string
  cn_ended :: bool
  cn_responses :: "response list"
  cn_reading :: bool
  cn_writing :: bool
  cn_written :: string

definition new_conn :: tcpConn where
  "new_conn = \<lparr>cn_arrived = [], cn_unread = [], cn_ended = False, cn_responses = [], cn_reading = True,
     cn_writing = True, cn_written = []\<rparr>"

definition conn_receives :: "string \<Rightarrow> tcpConn \<Rightarrow> tcpConn" where
  "conn_receives b c = c\<lparr>cn_arrived := cn_arrived c @ b, cn_unread := cn_unread c @ b\<rparr>"

text \<open>The length of a frame can be too large before its data has arrived.\<close>

definition oversized :: "string \<Rightarrow> bool" where
  "oversized s \<longleftrightarrow> 8 \<le> length s \<and> sint (get32 (drop 4 s)) > 65536"

definition response_capacity :: nat where
  "response_capacity = 1000"

definition response_sent :: "response \<Rightarrow> sdkServer \<Rightarrow> sdkServer" where
  "response_sent r y = (case rsp_sent r of Some rp \<Rightarrow> onResponseSent rp y | None \<Rightarrow> y)"

type_synonym 'w tcp_answering = "u32 \<Rightarrow> string \<Rightarrow> ('w \<times> sdkServer, go_error, response) go"

text \<open>
  \<open>ans\<close> answers a request. A step is one of connection \<open>j\<close>: a request that has arrived whole is served and
  its response put on the channel when there is room; reading ends, because the other side has closed
  or a frame is too large; a response is written and counted out. A fault is a write that fails
  after its first bytes, or the end of a stream. A run interleaves steps and faults with bytes that arrive.
\<close>

inductive tcp_step :: "'w tcp_answering \<Rightarrow> tcpConn list \<times> 'w \<times> sdkServer \<Rightarrow> tcpConn list \<times> 'w \<times> sdkServer \<Rightarrow> bool" for ans where
  step_serve: "j < length cs \<Longrightarrow> cs ! j = c \<Longrightarrow> cn_reading c \<Longrightarrow> read_frame (cn_unread c) = FFrame i d rest \<Longrightarrow>
    ans i d (w, y) = (Ret r, (w', y')) \<Longrightarrow> length (cn_responses c) < response_capacity \<Longrightarrow>
    tcp_step ans (cs, w, y) (cs[j := c\<lparr>cn_unread := rest, cn_responses := cn_responses c @ [r]\<rparr>], w', y')"
| step_stop: "j < length cs \<Longrightarrow> cs ! j = c \<Longrightarrow> cn_reading c \<Longrightarrow> read_frame (cn_unread c) \<in> {FEof, FStop} \<Longrightarrow>
    cn_ended c \<or> oversized (cn_unread c) \<Longrightarrow>
    tcp_step ans (cs, w, y) (cs[j := c\<lparr>cn_reading := False\<rparr>], w, y)"
| step_write: "j < length cs \<Longrightarrow> cs ! j = c \<Longrightarrow> cn_writing c \<Longrightarrow> cn_responses c = r # ps \<Longrightarrow>
    tcp_step ans (cs, w, y)
      (cs[j := c\<lparr>cn_responses := ps, cn_written := cn_written c @ response_bytes r\<rparr>], w, response_sent r y)"

inductive tcp_fault :: "tcpConn list \<times> 'w \<times> sdkServer \<Rightarrow> tcpConn list \<times> 'w \<times> sdkServer \<Rightarrow> bool" where
  step_fail: "j < length cs \<Longrightarrow> cs ! j = c \<Longrightarrow> cn_writing c \<Longrightarrow> cn_responses c = r # ps \<Longrightarrow> n < length (response_bytes r) \<Longrightarrow>
    tcp_fault (cs, w, y) (cs[j := c\<lparr>cn_responses := ps, cn_writing := False,
      cn_written := cn_written c @ take n (response_bytes r)\<rparr>], w, y)"
| step_end: "j < length cs \<Longrightarrow> tcp_fault (cs, w, y) (cs[j := (cs ! j)\<lparr>cn_ended := True\<rparr>], w, y)"

inductive tcp_run :: "'w tcp_answering \<Rightarrow> tcpConn list \<times> 'w \<times> sdkServer \<Rightarrow> tcpConn list \<times> 'w \<times> sdkServer \<Rightarrow> bool" for ans x where
  run_start: "tcp_run ans x x"
| run_step: "tcp_run ans x y \<Longrightarrow> tcp_step ans y z \<Longrightarrow> tcp_run ans x z"
| run_arrive: "tcp_run ans x (cs, w, y) \<Longrightarrow> j < length cs \<Longrightarrow>
    tcp_run ans x (cs[j := conn_receives b (cs ! j)], w, y)"
| run_fault: "tcp_run ans x y \<Longrightarrow> tcp_fault y z \<Longrightarrow> tcp_run ans x z"

text \<open>The answer of the server; the custom route it is told to set is set by another goroutine.\<close>

definition tcp_answer :: "(int \<Rightarrow> string \<Rightarrow> string) \<Rightarrow> (string \<Rightarrow> string) \<Rightarrow> 're storeOps option \<Rightarrow>
    ((string \<times> string) list \<Rightarrow> (string \<times> string) list) \<Rightarrow> ('m, 're) world tcp_answering" where
  "tcp_answer status_text Errorf st perm i d =
     go_bind (serve_request status_text Errorf st perm i d) (\<lambda>(r, route). go_ret r)"

section \<open>What waits and what is lost\<close>

definition counts :: "response list \<Rightarrow> string \<Rightarrow> u32" where
  "counts ps key = sum_list (map (\<lambda>r. counted (rsp_sent r) key) ps)"

lemma counts_simps [simp]:
  "counts [] key = 0" "counts (r # ps) key = counted (rsp_sent r) key + counts ps key"
  "counts (ps @ qs) key = counts ps key + counts qs key"
  by (simp_all add: counts_def)

definition waiting_counts :: "tcpConn list \<Rightarrow> string \<Rightarrow> u32" where
  "waiting_counts cs key = sum_list (map (\<lambda>c. counts (cn_responses c) key) cs)"

definition dead_writers :: "tcpConn list \<Rightarrow> nat" where
  "dead_writers cs = sum_list (map (\<lambda>c. if cn_writing c then 0 else 1) cs)"

lemma dead_writers_length: "dead_writers cs = length (filter (\<lambda>c. \<not> cn_writing c) cs)"
  by (induction cs) (simp_all add: dead_writers_def)

lemma sum_list_replace:
  fixes f :: "'a \<Rightarrow> 'b :: comm_monoid_add"
  shows "j < length xs \<Longrightarrow> sum_list (map f (xs[j := x])) + f (xs ! j) = sum_list (map f xs) + f x"
  by (induction xs arbitrary: j) (auto simp: nth_Cons ac_simps split: nat.split)

lemma waiting_replace:
  "j < length cs \<Longrightarrow> waiting_counts (cs[j := c]) key + counts (cn_responses (cs ! j)) key =
     waiting_counts cs key + counts (cn_responses c) key"
  unfolding waiting_counts_def by (rule sum_list_replace)

lemma dead_replace:
  "j < length cs \<Longrightarrow> dead_writers (cs[j := c]) + (if cn_writing (cs ! j) then 0 else 1) =
     dead_writers cs + (if cn_writing c then 0 else 1)"
  unfolding dead_writers_def by (rule sum_list_replace)

lemma in_flight_sent: "in_flight (response_sent r y) key + counted (rsp_sent r) key = in_flight y key"
  by (cases "rsp_sent r") (simp_all add: response_sent_def in_flight_count counted_def)

lemma counted_out: "w' + x = w \<Longrightarrow> a + x = b + w + l \<Longrightarrow> a = b + w' + l" for a b l w w' x :: u32
  by (auto simp: ac_simps)

lemma counted_lost: "w' + x = w \<Longrightarrow> a = b + w + l \<Longrightarrow> a = b + w' + (x + l)" for a b l w w' x :: u32
  by (auto simp: ac_simps)

section \<open>A server whose answers are counted\<close>

locale counting_server =
  fixes ans :: "'w tcp_answering"
  assumes answer_counted: "ans i d (w, y) = (Ret r, (w', y')) \<Longrightarrow> in_flight y' key = in_flight y key + counted (rsp_sent r) key"
begin

text \<open>What the connections owe: their waiting responses, and one lost response per failed write.\<close>

definition owes :: "sdkServer \<Rightarrow> tcpConn list \<times> 'w \<times> sdkServer \<Rightarrow> bool" where
  "owes y0 x \<longleftrightarrow>
     (case x of (cs, w, y) \<Rightarrow>
        (\<forall>c \<in> set cs. length (cn_responses c) \<le> response_capacity)
        \<and> (\<exists>lost. length lost = dead_writers cs
             \<and> (\<forall>key. in_flight y key = in_flight y0 key + waiting_counts cs key + counts lost key)))"

lemma owes_replace:
  assumes "owes y0 (cs, w, y)" and "j < length cs" and "cn_responses c = cn_responses (cs ! j)" and "cn_writing c = cn_writing (cs ! j)"
  shows "owes y0 (cs[j := c], w, y)"
proof -
  have "waiting_counts (cs[j := c]) key = waiting_counts cs key" for key
    using waiting_replace [OF assms(2), of c key] assms(3) by simp
  moreover have "dead_writers (cs[j := c]) = dead_writers cs"
    using dead_replace [OF assms(2), of c] assms(4) by simp
  moreover have "cs ! j \<in> set cs" using assms(2) by simp
  ultimately show ?thesis
    using assms(1,3) by (auto simp: owes_def dest!: set_update_subset_insert [THEN subsetD])
qed

lemma owes_step: "tcp_step ans x x' \<Longrightarrow> owes y0 x \<Longrightarrow> owes y0 x'"
proof (induction rule: tcp_step.induct)
  case (step_serve j cs c i d rest w y r w' y')
  then obtain lost where l: "length lost = dead_writers cs"
      "\<forall>key. in_flight y key = in_flight y0 key + waiting_counts cs key + counts lost key"
      "\<forall>c \<in> set cs. length (cn_responses c) \<le> response_capacity"
    by (auto simp: owes_def)
  let ?c = "c\<lparr>cn_unread := rest, cn_responses := cn_responses c @ [r]\<rparr>"
  have "waiting_counts (cs[j := ?c]) key = waiting_counts cs key + counted (rsp_sent r) key" for key
    using waiting_replace [OF step_serve.hyps(1), of ?c key] step_serve.hyps(2) by (simp add: ac_simps)
  moreover have "dead_writers (cs[j := ?c]) = dead_writers cs"
    using dead_replace [OF step_serve.hyps(1), of ?c] step_serve.hyps(2) by simp
  moreover have "\<forall>c \<in> set (cs[j := ?c]). length (cn_responses c) \<le> response_capacity"
    using l(3) step_serve.hyps(6) by (auto dest!: set_update_subset_insert [THEN subsetD])
  ultimately show ?case
    using l(1,2) answer_counted [OF step_serve.hyps(5)] by (auto simp: owes_def ac_simps intro!: exI [of _ lost])
next
  case (step_stop j cs c w y)
  then show ?case by (intro owes_replace) auto
next
  case (step_write j cs c r ps w y)
  then obtain lost where l: "length lost = dead_writers cs"
      "\<forall>key. in_flight y key = in_flight y0 key + waiting_counts cs key + counts lost key"
      "\<forall>c \<in> set cs. length (cn_responses c) \<le> response_capacity"
    by (auto simp: owes_def)
  let ?c = "c\<lparr>cn_responses := ps, cn_written := cn_written c @ response_bytes r\<rparr>"
  have "waiting_counts (cs[j := ?c]) key + counted (rsp_sent r) key = waiting_counts cs key" for key
    using waiting_replace [OF step_write.hyps(1), of ?c key] step_write.hyps(2,4) by (simp add: algebra_simps)
  moreover have "in_flight (response_sent r y) key + counted (rsp_sent r) key =
      in_flight y0 key + waiting_counts cs key + counts lost key" for key
    using l(2) by (simp add: in_flight_sent)
  ultimately have "in_flight (response_sent r y) key = in_flight y0 key + waiting_counts (cs[j := ?c]) key + counts lost key" for key
    by (rule counted_out)
  moreover have "dead_writers (cs[j := ?c]) = dead_writers cs"
    using dead_replace [OF step_write.hyps(1), of ?c] step_write.hyps(2) by simp
  moreover have "length (cn_responses c) \<le> response_capacity" using l(3) step_write.hyps(1,2) by auto
  then have "\<forall>c \<in> set (cs[j := ?c]). length (cn_responses c) \<le> response_capacity"
    using l(3) step_write.hyps(4) by (auto dest!: set_update_subset_insert [THEN subsetD])
  ultimately show ?case using l(1) by (auto simp: owes_def intro!: exI [of _ lost])
qed

lemma owes_fault: "tcp_fault x x' \<Longrightarrow> owes y0 x \<Longrightarrow> owes y0 x'"
proof (induction rule: tcp_fault.induct)
  case (step_fail j cs c r ps n w y)
  then obtain lost where l: "length lost = dead_writers cs"
      "\<forall>key. in_flight y key = in_flight y0 key + waiting_counts cs key + counts lost key"
      "\<forall>c \<in> set cs. length (cn_responses c) \<le> response_capacity"
    by (auto simp: owes_def)
  let ?c = "c\<lparr>cn_responses := ps, cn_writing := False, cn_written := cn_written c @ take n (response_bytes r)\<rparr>"
  have "waiting_counts (cs[j := ?c]) key + counted (rsp_sent r) key = waiting_counts cs key" for key
    using waiting_replace [OF step_fail.hyps(1), of ?c key] step_fail.hyps(2,4) by (simp add: algebra_simps)
  then have "in_flight y key = in_flight y0 key + waiting_counts (cs[j := ?c]) key + counts (r # lost) key" for key
    using counted_lost [OF _ l(2) [rule_format]] by simp
  moreover have "dead_writers (cs[j := ?c]) = Suc (dead_writers cs)"
    using dead_replace [OF step_fail.hyps(1), of ?c] step_fail.hyps(2,3) by simp
  moreover have "length (cn_responses c) \<le> response_capacity" using l(3) step_fail.hyps(1,2) by auto
  then have "\<forall>c \<in> set (cs[j := ?c]). length (cn_responses c) \<le> response_capacity"
    using l(3) step_fail.hyps(4) by (auto dest!: set_update_subset_insert [THEN subsetD])
  ultimately show ?case using l(1) by (auto simp: owes_def intro!: exI [of _ "r # lost"])
next
  case (step_end j cs w y)
  then show ?case by (intro owes_replace) auto
qed

lemma owes_run: "tcp_run ans x x' \<Longrightarrow> owes y0 x \<Longrightarrow> owes y0 x'"
proof (induction rule: tcp_run.induct)
  case (run_step x' x'')
  then show ?case by (blast intro: owes_step)
next
  case (run_fault x' x'')
  then show ?case by (blast intro: owes_fault)
qed (simp_all add: owes_replace conn_receives_def)

lemma owes_new: "owes y (replicate n new_conn, w, y)"
proof -
  have "waiting_counts (replicate n new_conn) key = 0" "dead_writers (replicate n new_conn) = 0" for key
    by (induction n) (simp_all add: waiting_counts_def dead_writers_def new_conn_def)
  then show ?thesis by (auto simp: owes_def new_conn_def intro!: exI [of _ "[]"])
qed

end

section \<open>Answers in order\<close>

text \<open>The frames that lead from one part of a stream to another.\<close>

inductive frames_read :: "string \<Rightarrow> (u32 \<times> string) list \<Rightarrow> string \<Rightarrow> bool" for s where
  read_none: "frames_read s [] s"
| read_one: "frames_read s fs s' \<Longrightarrow> read_frame s' = FFrame i d rest \<Longrightarrow> frames_read s (fs @ [(i, d)]) rest"

lemma get32_append: "4 \<le> length s \<Longrightarrow> get32 (s @ t) = get32 s"
proof -
  assume "4 \<le> length s"
  then have "(s @ t) ! k = s ! k" if "k < 4" for k using that by (simp add: nth_append)
  then show ?thesis by (simp add: get32_def)
qed

lemma read_frame_parts:
  "read_frame s = FFrame i d rest \<longleftrightarrow>
     (\<exists>n. i = get32 s \<and> n = sint (get32 (drop 4 s)) \<and> 0 \<le> n \<and> n \<le> 65536 \<and> 8 + nat n \<le> length s
        \<and> d = take (nat n) (drop 8 s) \<and> rest = drop (8 + nat n) s)"
proof (cases "8 \<le> length s")
  case True
  obtain n where n: "sint (get32 (drop 4 s)) = n" by blast
  have "s \<noteq> []" "\<not> length s < 4" "\<not> length (drop 4 s) < 4" "\<not> length s - 4 < 4" using True by auto
  then show ?thesis using True unfolding read_frame_def Let_def n by (auto simp: add.commute)
qed (auto simp: read_frame_def Let_def)

lemma read_frame_more:
  assumes "read_frame s = FFrame i d rest"
  shows "read_frame (s @ t) = FFrame i d (rest @ t)"
proof -
  obtain n where n: "i = get32 s" "n = sint (get32 (drop 4 s))" "0 \<le> n" "n \<le> 65536" "8 + nat n \<le> length s"
      "d = take (nat n) (drop 8 s)" "rest = drop (8 + nat n) s"
    using assms unfolding read_frame_parts by blast
  have "get32 (s @ t) = get32 s" "get32 (drop 4 (s @ t)) = get32 (drop 4 s)"
    using n(5) get32_append [of s t] get32_append [of "drop 4 s" t] by simp_all
  then show ?thesis
    unfolding read_frame_parts using n by (intro exI [of _ n]) simp
qed

lemma frames_read_more: "frames_read s fs s' \<Longrightarrow> frames_read (s @ t) fs (s' @ t)"
proof (induction rule: frames_read.induct)
  case read_none
  show ?case by (rule frames_read.read_none)
next
  case (read_one fs s' i d rest)
  then show ?case using read_frame_more [of s' i d rest t] by (intro frames_read.read_one)
qed

definition answer_of :: "'w tcp_answering \<Rightarrow> u32 \<times> string \<Rightarrow> response \<Rightarrow> bool" where
  "answer_of ans f r \<longleftrightarrow> (\<exists>x x'. ans (fst f) (snd f) x = (Ret r, x'))"

text \<open>
  What has been written are the answers to the requests read, one for each and in their order, up to
  those that wait; between them one is missing, or there in part, when a write has failed.
\<close>

definition answered :: "'w tcp_answering \<Rightarrow> tcpConn \<Rightarrow> bool" where
  "answered ans c \<longleftrightarrow>
     (\<exists>fs ws lost n. cn_written c = concat (map response_bytes ws) @ take n (concat (map response_bytes lost))
        \<and> frames_read (cn_arrived c) fs (cn_unread c)
        \<and> list_all2 (answer_of ans) fs (ws @ lost @ cn_responses c)
        \<and> length lost = (if cn_writing c then 0 else 1))"

lemma answeredI:
  assumes "cn_written c = concat (map response_bytes ws) @ take n (concat (map response_bytes lost))" and "frames_read (cn_arrived c) fs (cn_unread c)"
    and "list_all2 (answer_of ans) fs (ws @ lost @ cn_responses c)" and "length lost = (if cn_writing c then 0 else 1)"
  shows "answered ans c"
  using assms unfolding answered_def by blast

lemma answered_new: "answered ans new_conn"
  by (rule answeredI [of _ "[]" 0 "[]" "[]"]) (simp_all add: new_conn_def read_none)

lemma answered_receives: "answered ans c \<Longrightarrow> answered ans (conn_receives b c)"
  unfolding answered_def conn_receives_def using frames_read_more by fastforce

lemma answered_step: "tcp_step ans x x' \<Longrightarrow> \<forall>c \<in> set (fst x). answered ans c \<Longrightarrow> \<forall>c \<in> set (fst x'). answered ans c"
proof (induction rule: tcp_step.induct)
  case (step_serve j cs c i d rest w y r w' y')
  then have "answered ans c" by auto
  then obtain fs ws lost n where l: "cn_written c = concat (map response_bytes ws) @ take n (concat (map response_bytes lost))"
      "frames_read (cn_arrived c) fs (cn_unread c)" "list_all2 (answer_of ans) fs (ws @ lost @ cn_responses c)"
      "length lost = (if cn_writing c then 0 else 1)"
    unfolding answered_def by blast
  have "answer_of ans (i, d) r" using step_serve.hyps(5) by (auto simp: answer_of_def)
  then have "list_all2 (answer_of ans) (fs @ [(i, d)]) ((ws @ lost @ cn_responses c) @ [r])"
    using l(3) by (intro list_all2_appendI) simp_all
  then have "answered ans (c\<lparr>cn_unread := rest, cn_responses := cn_responses c @ [r]\<rparr>)"
    using l(1,4) read_one [OF l(2) step_serve.hyps(4)] by (intro answeredI [of _ ws n lost "fs @ [(i, d)]"]) simp_all
  then show ?case using step_serve.prems by (auto dest!: set_update_subset_insert [THEN subsetD])
next
  case (step_stop j cs c w y)
  then have "answered ans c" by auto
  then have "answered ans (c\<lparr>cn_reading := False\<rparr>)" by (simp add: answered_def)
  then show ?case using step_stop.prems by (auto dest!: set_update_subset_insert [THEN subsetD])
next
  case (step_write j cs c r ps w y)
  then have "answered ans c" by auto
  then obtain fs ws where l: "cn_written c = concat (map response_bytes ws)"
      "frames_read (cn_arrived c) fs (cn_unread c)" "list_all2 (answer_of ans) fs (ws @ r # ps)"
    using step_write.hyps(3,4) unfolding answered_def by auto
  have "answered ans (c\<lparr>cn_responses := ps, cn_written := cn_written c @ response_bytes r\<rparr>)"
    using l step_write.hyps(3) by (intro answeredI [of _ "ws @ [r]" 0 "[]" fs]) simp_all
  then show ?case using step_write.prems by (auto dest!: set_update_subset_insert [THEN subsetD])
qed

lemma answered_fault: "tcp_fault x x' \<Longrightarrow> \<forall>c \<in> set (fst x). answered ans c \<Longrightarrow> \<forall>c \<in> set (fst x'). answered ans c"
proof (induction rule: tcp_fault.induct)
  case (step_fail j cs c r ps n w y)
  then have "answered ans c" by auto
  then obtain fs ws where l: "cn_written c = concat (map response_bytes ws)"
      "frames_read (cn_arrived c) fs (cn_unread c)" "list_all2 (answer_of ans) fs (ws @ r # ps)"
    using step_fail.hyps(3,4) unfolding answered_def by auto
  have "answered ans (c\<lparr>cn_responses := ps, cn_writing := False, cn_written := cn_written c @ take n (response_bytes r)\<rparr>)"
    using l by (intro answeredI [of _ ws n "[r]" fs]) simp_all
  then show ?case using step_fail.prems by (auto dest!: set_update_subset_insert [THEN subsetD])
next
  case (step_end j cs w y)
  then have "answered ans (cs ! j)" by auto
  then have "answered ans ((cs ! j)\<lparr>cn_ended := True\<rparr>)" by (simp add: answered_def)
  then show ?case using step_end.prems by (auto dest!: set_update_subset_insert [THEN subsetD])
qed

lemma answered_run: "tcp_run ans x x' \<Longrightarrow> \<forall>c \<in> set (fst x). answered ans c \<Longrightarrow> \<forall>c \<in> set (fst x'). answered ans c"
proof (induction rule: tcp_run.induct)
  case (run_step x' x'')
  then show ?case by (blast dest: answered_step)
next
  case (run_arrive cs w y j b)
  then have "answered ans (conn_receives b (cs ! j))" by (intro answered_receives) auto
  then show ?case using run_arrive by (auto dest!: set_update_subset_insert [THEN subsetD])
next
  case (run_fault x' x'')
  then show ?case by (blast dest: answered_fault)
qed simp

text \<open>Where an answer carries the number of its request, the numbers written are those read.\<close>

locale ordered_server = counting_server +
  assumes answer_id: "ans i d x = (Ret r, x') \<Longrightarrow> rsp_id r = i"
begin

lemma answer_of_id: "answer_of ans f r \<Longrightarrow> rsp_id r = fst f"
  by (auto simp: answer_of_def dest: answer_id)

lemma answers_ids: "list_all2 (answer_of ans) fs ps \<Longrightarrow> map rsp_id ps = map fst fs"
  by (induction rule: list_all2_induct) (simp_all add: answer_of_id)

end

section \<open>The server of the example\<close>

lemma serve_request_in_flight:
  assumes "serve_request status_text Errorf st perm i d (w, y) = (Ret (r, route), (w', y'))"
  shows "in_flight y' key = in_flight y key + counted (rsp_sent r) key"
proof (cases "UnmarshalData Errorf d")
  case (Ret m)
  obtain q w1 y1 where q: "OnRequestReceived status_text st (map_of (dHeaders m)) (w, y) = (q, (w1, y1))"
    by (metis surj_pair)
  show ?thesis
    using assms Ret q OnRequestReceived_in_flight [OF q, of key]
    by (cases q) (auto simp: serve_request_def Let_def split: prod.splits)
qed (use assms in \<open>auto simp: serve_request_def\<close>)

lemma serve_request_id:
  "serve_request status_text Errorf st perm i d x = (Ret (r, route), x') \<Longrightarrow> rsp_id r = i"
  by (auto simp: serve_request_def go_bind_eq_Ret Let_def split: outcome.splits prod.splits)

interpretation echo_tcp: ordered_server "tcp_answer status_text Errorf st perm"
proof
  show "tcp_answer status_text Errorf st perm i d x = (Ret r, x') \<Longrightarrow> rsp_id r = i" for i d x r x'
    by (auto simp: tcp_answer_def go_bind_eq_Ret dest: serve_request_id)
  show "tcp_answer status_text Errorf st perm i d (w, y) = (Ret r, (w', y')) \<Longrightarrow>
      in_flight y' key = in_flight y key + counted (rsp_sent r) key" for i d w y r w' y' key
    by (auto simp: tcp_answer_def go_bind_eq_Ret dest: serve_request_in_flight)
qed

section \<open>After a failed write\<close>

text \<open>The reading goroutine is stuck as soon as the channel is full.\<close>

inductive_cases tcp_stepE: "tcp_step ans (cs, w, y) x"

lemma tcp_wedged:
  assumes "cn_unread (cs ! j) = s" and "read_frame s = FFrame i d rest" and "\<not> cn_writing (cs ! j)"
    and "length (cn_responses (cs ! j)) = response_capacity" and "tcp_step ans (cs, w, y) (cs', w', y')"
  shows "cs' ! j = cs ! j"
  using assms(5)
  by (cases rule: tcp_stepE) (use assms(1-4) in \<open>auto simp: nth_list_update split: if_splits\<close>)

end
