(* ===== verification/TcpCalls.thy ===== *)
theory TcpCalls
  imports TcpConnections "HOL-Library.Sublist"
begin

text \<open>
  A connection of \<open>cmd/example/echo-tcp/client\<close> over time: the goroutines that call \<open>Send\<close>, each in its
  atomic steps, the goroutine that writes the requests of the queue to the connection and the one that
  reads responses and hands each to the call that waits for it. The writing goroutine does not look at
  the errors of its writes; the reading one ends at the first error, and at a number it does not know.
\<close>

section \<open>Steps\<close>

text \<open>
  A call of \<open>Send\<close> with its message: before it has a number, with one, entered among the pending
  requests, queued and waiting for its response, and returned with it.
\<close>

datatype caller =
    Fresh string
  | Numbered u32 string
  | Entered u32 string
  | Waiting u32 string
  | Returned u32 string string

text \<open>The reading goroutine is about to read a number, or the rest of the response with that number, or has ended.\<close>

datatype readerState = ReadsId | ReadsBody u32 | ReadsNoMore

text \<open>
  \<open>ct_sent\<close> is what has been written to the connection and \<open>ct_arrived\<close> what has come over it, of which
  \<open>ct_unread\<close> is not read yet; \<open>ct_responses\<close> are the channels of the pending requests.
\<close>

record tcpCalls =
  ct_client :: tcpClient
  ct_callers :: "caller list"
  ct_queue :: "(u32 \<times> string) list"
  ct_sent :: string
  ct_up :: bool
  ct_arrived :: string
  ct_unread :: string
  ct_ended :: bool
  ct_reader :: readerState
  ct_responses :: "u32 \<rightharpoonup> string"

definition new_calls :: "string list \<Rightarrow> tcpCalls" where
  "new_calls ms =
     \<lparr>ct_client = NewClient, ct_callers = map Fresh ms, ct_queue = [], ct_sent = [], ct_up = True, ct_arrived = [],
      ct_unread = [], ct_ended = False, ct_reader = ReadsId, ct_responses = Map.empty\<rparr>"

definition send_capacity :: nat where
  "send_capacity = 1000"

definition calls_receive :: "string \<Rightarrow> tcpCalls \<Rightarrow> tcpCalls" where
  "calls_receive b c = c\<lparr>ct_arrived := ct_arrived c @ b, ct_unread := ct_unread c @ b\<rparr>"

text \<open>The steps while the connection works.\<close>

inductive call_step :: "tcpCalls \<Rightarrow> tcpCalls \<Rightarrow> bool" where
  call_number: "k < length (ct_callers c) \<Longrightarrow> ct_callers c ! k = Fresh m \<Longrightarrow> i = cl_id (ct_client c) + 1 \<Longrightarrow>
    call_step c (c\<lparr>ct_client := (ct_client c)\<lparr>cl_id := i\<rparr>, ct_callers := (ct_callers c)[k := Numbered i m]\<rparr>)"
| call_enter: "k < length (ct_callers c) \<Longrightarrow> ct_callers c ! k = Numbered i m \<Longrightarrow>
    call_step c (c\<lparr>ct_client := (ct_client c)\<lparr>pendingRequests := insert i (pendingRequests (ct_client c))\<rparr>,
      ct_callers := (ct_callers c)[k := Entered i m]\<rparr>)"
| call_queue: "k < length (ct_callers c) \<Longrightarrow> ct_callers c ! k = Entered i m \<Longrightarrow> length (ct_queue c) < send_capacity \<Longrightarrow>
    call_step c (c\<lparr>ct_queue := ct_queue c @ [(i, m)], ct_callers := (ct_callers c)[k := Waiting i m]\<rparr>)"
| call_write: "ct_queue c = (i, m) # q \<Longrightarrow> ct_up c \<Longrightarrow>
    call_step c (c\<lparr>ct_queue := q, ct_sent := ct_sent c @ frame i m\<rparr>)"
| call_write_lost: "ct_queue c = (i, m) # q \<Longrightarrow> \<not> ct_up c \<Longrightarrow> call_step c (c\<lparr>ct_queue := q\<rparr>)"
| call_read_id: "ct_reader c = ReadsId \<Longrightarrow> 4 \<le> length (ct_unread c) \<Longrightarrow> get32 (ct_unread c) = i \<Longrightarrow>
    i \<in> pendingRequests (ct_client c) \<Longrightarrow>
    call_step c (c\<lparr>ct_reader := ReadsBody i, ct_unread := drop 4 (ct_unread c),
      ct_client := (ct_client c)\<lparr>pendingRequests := pendingRequests (ct_client c) - {i}\<rparr>\<rparr>)"
| call_read_unknown: "ct_reader c = ReadsId \<Longrightarrow> 4 \<le> length (ct_unread c) \<Longrightarrow>
    get32 (ct_unread c) \<notin> pendingRequests (ct_client c) \<Longrightarrow>
    call_step c (c\<lparr>ct_reader := ReadsNoMore, ct_unread := drop 4 (ct_unread c)\<rparr>)"
| call_read_body: "ct_reader c = ReadsBody i \<Longrightarrow> 4 \<le> length (ct_unread c) \<Longrightarrow> unat (get32 (ct_unread c)) = n \<Longrightarrow>
    4 + n \<le> length (ct_unread c) \<Longrightarrow>
    call_step c (c\<lparr>ct_reader := ReadsId, ct_unread := drop (4 + n) (ct_unread c),
      ct_responses := (ct_responses c)(i \<mapsto> take n (drop 4 (ct_unread c)))\<rparr>)"
| call_return: "k < length (ct_callers c) \<Longrightarrow> ct_callers c ! k = Waiting i m \<Longrightarrow> ct_responses c i = Some d \<Longrightarrow>
    call_step c (c\<lparr>ct_callers := (ct_callers c)[k := Returned i m d]\<rparr>)"

text \<open>The connection fails: a write that gets only its first bytes out, and the end of the stream.\<close>

inductive call_fault :: "tcpCalls \<Rightarrow> tcpCalls \<Rightarrow> bool" where
  call_write_fails: "ct_queue c = (i, m) # q \<Longrightarrow> ct_up c \<Longrightarrow>
    call_fault c (c\<lparr>ct_queue := q, ct_sent := ct_sent c @ take n (frame i m), ct_up := False\<rparr>)"
| call_ends: "call_fault c (c\<lparr>ct_ended := True\<rparr>)"
| call_read_fails: "ct_ended c \<Longrightarrow> call_fault c (c\<lparr>ct_reader := ReadsNoMore\<rparr>)"

section \<open>Streams of frames\<close>

definition frames :: "(u32 \<times> string) list \<Rightarrow> string" where
  "frames xs = concat (map (\<lambda>(i, d). frame i d) xs)"

lemma frames_simps [simp]:
  "frames [] = []" "frames (p # xs) = frame (fst p) (snd p) @ frames xs" "frames (xs @ ys) = frames xs @ frames ys"
  by (simp_all add: frames_def split: prod.split)

text \<open>Lengths that a frame keeps.\<close>

definition framed :: "(u32 \<times> string) list \<Rightarrow> bool" where
  "framed xs \<longleftrightarrow> (\<forall>p \<in> set xs. length (snd p) < 2 ^ 32)"

lemma framed_simps [simp]:
  "framed []" "framed (p # xs) \<longleftrightarrow> length (snd p) < 2 ^ 32 \<and> framed xs" "framed (xs @ ys) \<longleftrightarrow> framed xs \<and> framed ys"
  by (auto simp: framed_def)

lemma put_len_inj: "put_len d @ s = put_len d' @ t \<Longrightarrow> length d < 2 ^ 32 \<Longrightarrow> length d' < 2 ^ 32 \<Longrightarrow> length d = length d'"
proof -
  assume e: "put_len d @ s = put_len d' @ t" and l: "length d < 2 ^ 32" "length d' < 2 ^ 32"
  have "(word_of_nat (length d) :: u32) = word_of_nat (length d')"
    using arg_cong [OF e, of get32] by (simp add: put_len_def)
  then have "unat (word_of_nat (length d) :: u32) = unat (word_of_nat (length d') :: u32)" by simp
  then show ?thesis using l by (simp add: unat_of_nat take_bit_nat_eq_self)
qed

lemma frame_inj:
  assumes "frame i d @ s = frame i' d' @ t" and "length d < 2 ^ 32" and "length d' < 2 ^ 32"
  shows "i = i' \<and> d = d' \<and> s = t"
proof -
  have e: "put32 i @ put_len d @ d @ s = put32 i' @ put_len d' @ d' @ t" using assms(1) by (simp add: frame_def)
  have i: "i = i'" using arg_cong [OF e, of get32] by simp
  have e2: "put_len d @ d @ s = put_len d' @ d' @ t" using arg_cong [OF e, of "drop 4"] by simp
  have l: "length d = length d'" by (rule put_len_inj [OF e2 assms(2,3)])
  then have "d @ s = d' @ t" using e2 by (simp add: put_len_def)
  then show ?thesis using i l by simp
qed

text \<open>A stream that starts with the first frames of a longer one goes on with the others.\<close>

lemma frames_prefix:
  assumes "frames xs @ s = frames ys @ t" and "framed xs" and "framed ys" and "length xs \<le> length ys"
  shows "\<exists>zs. ys = xs @ zs \<and> s = frames zs @ t"
  using assms
proof (induction xs arbitrary: ys)
  case (Cons p xs)
  then obtain q ys' where ys: "ys = q # ys'" by (cases ys) auto
  have "fst p = fst q \<and> snd p = snd q \<and> frames xs @ s = frames ys' @ t"
    using Cons.prems by (intro frame_inj) (simp_all add: ys)
  then show ?case using Cons.IH [of ys'] Cons.prems by (auto simp: ys prod_eq_iff)
qed simp

lemma length_frame: "length (frame i d) = 8 + length d"
  by (simp add: frame_def put_len_def)

lemma frames_shorter:
  assumes "frames xs @ s = frames ys" and "framed xs" and "framed ys"
  shows "\<exists>zs. ys = xs @ zs \<and> s = frames zs"
proof (cases "length xs \<le> length ys")
  case True
  then show ?thesis using frames_prefix [OF _ assms(2,3), of s "[]"] assms(1) by simp
next
  case False
  then obtain zs where z: "xs = ys @ zs" "[] = frames zs @ s"
    using frames_prefix [of ys "[]" xs s] assms by auto
  then have "zs = []" by (cases zs) (simp_all add: frame_def)
  then show ?thesis using z False by simp
qed

lemma bytes_of:
  assumes "a < 256" and "b < 256" and "c < 256" and "n = a + 256 * b + 65536 * c + 16777216 * (d :: nat)" and "d < 256"
  shows "n mod 256 = a \<and> n div 256 mod 256 = b \<and> n div 65536 mod 256 = c \<and> n div 16777216 mod 256 = d"
proof -
  have n: "n = a + 256 * (b + 256 * (c + 256 * d))" using assms(4) by simp
  have d1: "n div 256 = b + 256 * (c + 256 * d)" using assms(1) unfolding n by (subst div_mult_self2) simp_all
  have "n div 65536 = n div 256 div 256" by (simp add: div_mult2_eq [symmetric])
  then have d2: "n div 65536 = c + 256 * d" using assms(2) unfolding d1 by simp
  have "n div 16777216 = n div 65536 div 256" by (simp add: div_mult2_eq [symmetric])
  then have d3: "n div 16777216 = d" using assms(3) unfolding d2 by simp
  have "n mod 256 = a" using assms(1) unfolding n by (subst mod_mult_self2) simp
  moreover have "(b + 256 * (c + 256 * d)) mod 256 = b" using assms(2) by (subst mod_mult_self2) simp
  moreover have "(c + 256 * d) mod 256 = c" using assms(3) by (subst mod_mult_self2) simp
  ultimately show ?thesis using assms(5) by (simp add: d1 d2 d3)
qed

lemma put32_get32: "4 \<le> length s \<Longrightarrow> put32 (get32 s) @ drop 4 s = s"
proof -
  assume "4 \<le> length s"
  then obtain a b c d t where s: "s = a # b # c # d # t"
    by (metis Suc_le_length_iff numeral_eq_Suc pred_numeral_simps(2) pred_numeral_simps(3) semiring_norm(26) semiring_norm(27) One_nat_def)
  have l: "of_char x < (256 :: nat)" for x :: char by simp
  define n :: nat where "n = of_char a + 256 * of_char b + 65536 * of_char c + 16777216 * of_char d"
  have "n < 4294967296" using l [of a] l [of b] l [of c] l [of d] unfolding n_def by linarith
  then have u: "unat (word_of_nat n :: u32) = n" by (simp add: unat_of_nat take_bit_nat_eq_self)
  have g: "get32 s = word_of_nat n" by (simp add: get32_def s n_def numeral_2_eq_2 numeral_3_eq_3)
  have "n mod 256 = of_char a \<and> n div 256 mod 256 = of_char b \<and> n div 65536 mod 256 = of_char c \<and> n div 16777216 mod 256 = of_char d"
    by (rule bytes_of [OF l l l n_def l])
  then show ?thesis by (simp only: g put32_def u Let_def) (simp add: s)
qed

section \<open>Numbers\<close>

fun caller_msg :: "caller \<Rightarrow> string" where
  "caller_msg (Fresh m) = m"
| "caller_msg (Numbered i m) = m"
| "caller_msg (Entered i m) = m"
| "caller_msg (Waiting i m) = m"
| "caller_msg (Returned i m d) = m"

fun caller_id :: "caller \<Rightarrow> u32 option" where
  "caller_id (Fresh m) = None"
| "caller_id (Numbered i m) = Some i"
| "caller_id (Entered i m) = Some i"
| "caller_id (Waiting i m) = Some i"
| "caller_id (Returned i m d) = Some i"

text \<open>Requests that have been entered among the pending ones, and that have been handed to the queue.\<close>

fun entered :: "caller \<Rightarrow> u32 option" where
  "entered (Entered i m) = Some i"
| "entered (Waiting i m) = Some i"
| "entered (Returned i m d) = Some i"
| "entered _ = None"

fun handed :: "caller \<Rightarrow> (u32 \<times> string) option" where
  "handed (Waiting i m) = Some (i, m)"
| "handed (Returned i m d) = Some (i, m)"
| "handed _ = None"

lemma handed_id: "handed x = Some p \<Longrightarrow> caller_id x = Some (fst p) \<and> caller_msg x = snd p"
  by (cases x) auto

lemma entered_id: "entered x = Some i \<Longrightarrow> caller_id x = Some i"
  by (cases x) auto

text \<open>The calls that have a number are as many as the counter says, and their numbers differ.\<close>

definition numbered :: "u32 \<Rightarrow> u32 option list \<Rightarrow> bool" where
  "numbered n ids \<longleftrightarrow> length ids < 2 ^ 32 \<and> unat n = length (filter (\<lambda>i. i \<noteq> None) ids)
     \<and> (\<forall>k < length ids. \<forall>i. ids ! k = Some i \<longrightarrow> unat i \<le> unat n)
     \<and> (\<forall>k < length ids. \<forall>l < length ids. ids ! k \<noteq> None \<longrightarrow> ids ! k = ids ! l \<longrightarrow> k = l)"

lemma map_update_same: "k < length xs \<Longrightarrow> f x = f (xs ! k) \<Longrightarrow> map f (xs[k := x]) = map f xs"
  by (simp add: map_update list_update_same_conv)

lemma length_filter_update:
  "k < length xs \<Longrightarrow> \<not> P (xs ! k) \<Longrightarrow> P x \<Longrightarrow> length (filter P (xs[k := x])) = Suc (length (filter P xs))"
  by (induction xs arbitrary: k) (auto simp: nth_Cons split: nat.splits)

lemma Some_in_update:
  "k < length xs \<Longrightarrow> xs ! k = None \<Longrightarrow> Some p \<in> set (xs[k := y]) \<longleftrightarrow> y = Some p \<or> Some p \<in> set xs"
  by (induction xs arbitrary: k) (auto simp: nth_Cons split: nat.splits)

lemma numbered_new:
  assumes "numbered n ids" and "k < length ids" and "ids ! k = None"
  shows "numbered (n + 1) (ids[k := Some (n + 1)])"
proof -
  have "ids ! k \<in> set ids" using assms(2) by simp
  then have "length (filter (\<lambda>i. i \<noteq> None) ids) < length ids" using assms(3) by (intro length_filter_less [of "ids ! k"]) auto
  then have "unat n + 1 < 2 ^ 32" using assms(1) by (simp add: numbered_def)
  then have u: "unat (n + 1) = Suc (unat n)" using unat_add_lem [of n 1] by simp
  have i: "unat i \<le> unat n" if "l < length ids" "ids ! l = Some i" for l i
    using assms(1) that unfolding numbered_def by blast
  let ?ids = "ids[k := Some (n + 1)]"
  have "unat i \<le> unat (n + 1)" if "j < length ?ids" "?ids ! j = Some i" for j i
    using i [of j i] u assms(2) that by (auto simp: nth_list_update split: if_splits)
  moreover have "j = l" if "j < length ?ids" "l < length ?ids" "?ids ! j \<noteq> None" "?ids ! j = ?ids ! l" for j l
  proof -
    have new: "ids ! j \<noteq> Some (n + 1)" if "j < length ids" for j using i [OF that] u by fastforce
    have old: "ids ! j \<noteq> None \<Longrightarrow> ids ! j = ids ! l \<Longrightarrow> j = l" if "j < length ids" "l < length ids" for j l
      using assms(1) that unfolding numbered_def by blast
    have l: "j < length ids" "l < length ids" using that by simp_all
    have at: "?ids ! x = (if x = k then Some (n + 1) else ids ! x)" for x using assms(2) by (cases "x = k") simp_all
    show ?thesis
      using that(3,4) new [OF l(1)] new [OF l(2)] old [OF l] unfolding at by (metis (full_types))
  qed
  moreover have "unat (n + 1) = length (filter (\<lambda>i. i \<noteq> None) ?ids)"
    using u assms by (simp add: numbered_def length_filter_update)
  moreover have "length ?ids < 2 ^ 32" using assms(1) by (simp add: numbered_def)
  ultimately show ?thesis unfolding numbered_def by blast
qed

section \<open>The invariant of a connection\<close>

text \<open>
  \<open>fs\<close> are the requests that have left the queue: these and the ones in the queue are the requests that
  have been handed to it, and what has been written are their frames, the last of them in part when the
  connection has failed.
\<close>

definition handed_set :: "caller list \<Rightarrow> (u32 \<times> string) set" where
  "handed_set cs = {p. Some p \<in> set (map handed cs)}"

definition sent_ok :: "(u32 \<times> string) list \<Rightarrow> tcpCalls \<Rightarrow> bool" where
  "sent_ok fs c \<longleftrightarrow> prefix (ct_sent c) (frames fs) \<and> (ct_up c \<longrightarrow> ct_sent c = frames fs)
     \<and> distinct (map fst (fs @ ct_queue c)) \<and> set (fs @ ct_queue c) = handed_set (ct_callers c)"

text \<open>
  \<open>got\<close> are the responses that have been read: what has arrived is their frames and what the reading
  goroutine has still to read, and the pending requests are those entered that have no response.
\<close>

fun read_so_far :: "readerState \<Rightarrow> u32 set" where
  "read_so_far (ReadsBody i) = {i}"
| "read_so_far _ = {}"

definition entered_ids :: "caller list \<Rightarrow> u32 set" where
  "entered_ids cs = {i. Some i \<in> set (map entered cs)}"

fun read_at :: "(u32 \<times> string) list \<Rightarrow> readerState \<Rightarrow> string \<Rightarrow> string \<Rightarrow> bool" where
  "read_at got ReadsId arrived unread \<longleftrightarrow> arrived = frames got @ unread"
| "read_at got (ReadsBody i) arrived unread \<longleftrightarrow> arrived = frames got @ put32 i @ unread"
| "read_at got ReadsNoMore arrived unread \<longleftrightarrow> prefix (frames got) arrived"

definition read_ok :: "(u32 \<times> string) list \<Rightarrow> tcpCalls \<Rightarrow> bool" where
  "read_ok got c \<longleftrightarrow> framed got \<and> read_at got (ct_reader c) (ct_arrived c) (ct_unread c)"

definition dealt :: "(u32 \<times> string) list \<Rightarrow> readerState \<Rightarrow> (u32 \<rightharpoonup> string) \<Rightarrow> caller list \<Rightarrow> u32 set \<Rightarrow> bool" where
  "dealt got r R cs pend \<longleftrightarrow>
     (\<forall>i d. R i = Some d \<longrightarrow> (i, d) \<in> set got) \<and> dom R = fst ` set got
     \<and> (\<forall>i m d. Returned i m d \<in> set cs \<longrightarrow> (i, d) \<in> set got)
     \<and> fst ` set got \<subseteq> entered_ids cs \<and> read_so_far r \<subseteq> entered_ids cs
     \<and> (r \<noteq> ReadsNoMore \<longrightarrow> pend = entered_ids cs - fst ` set got - read_so_far r)"

definition dealt_ok :: "(u32 \<times> string) list \<Rightarrow> tcpCalls \<Rightarrow> bool" where
  "dealt_ok got c \<longleftrightarrow> dealt got (ct_reader c) (ct_responses c) (ct_callers c) (pendingRequests (ct_client c))"

definition calls_ok :: "string list \<Rightarrow> (u32 \<times> string) list \<Rightarrow> (u32 \<times> string) list \<Rightarrow> tcpCalls \<Rightarrow> bool" where
  "calls_ok ms fs got c \<longleftrightarrow> map caller_msg (ct_callers c) = ms
     \<and> numbered (cl_id (ct_client c)) (map caller_id (ct_callers c)) \<and> sent_ok fs c \<and> read_ok got c \<and> dealt_ok got c"

lemma calls_ok_new: "length ms < 2 ^ 32 \<Longrightarrow> calls_ok ms [] [] (new_calls ms)"
  by (auto simp: calls_ok_def new_calls_def NewClient_def numbered_def sent_ok_def read_ok_def dealt_ok_def dealt_def entered_ids_def handed_set_def comp_def)

lemma nth_in_callers: "k < length (ct_callers c) \<Longrightarrow> ct_callers c ! k = x \<Longrightarrow> x \<in> set (ct_callers c)"
  by auto

text \<open>A caller whose number no other has is the one that is found by it.\<close>

lemma numbered_same:
  assumes "numbered n (map caller_id cs)" and "k < length cs" and "l < length cs"
    and "caller_id (cs ! k) = Some i" and "caller_id (cs ! l) = Some i"
  shows "k = l"
  using assms by (simp add: numbered_def)

lemma fresh_entered:
  assumes "numbered n (map caller_id cs)" and "k < length cs" and "caller_id (cs ! k) = Some i" and "entered (cs ! k) = None"
  shows "i \<notin> entered_ids cs"
proof
  assume "i \<in> entered_ids cs"
  then obtain l where l: "l < length cs" "entered (cs ! l) = Some i" by (auto simp: entered_ids_def in_set_conv_nth)
  then have "k = l" by (intro numbered_same [OF assms(1,2) _ assms(3)] entered_id)
  then show False using assms(4) l(2) by simp
qed

lemma fresh_handed:
  assumes "numbered n (map caller_id cs)" and "k < length cs" and "caller_id (cs ! k) = Some i" and "handed (cs ! k) = None"
  shows "(i, m) \<notin> handed_set cs"
proof
  assume "(i, m) \<in> handed_set cs"
  then obtain l where l: "l < length cs" "handed (cs ! l) = Some (i, m)" by (auto simp: handed_set_def in_set_conv_nth)
  then have "caller_id (cs ! l) = Some i" using handed_id [OF l(2)] by simp
  then have "k = l" by (rule numbered_same [OF assms(1,2) l(1) assms(3)])
  then show False using assms(4) l(2) by simp
qed

lemma returned_update:
  "k < length cs \<Longrightarrow> Returned i m d \<in> set (cs[k := x]) \<Longrightarrow> Returned i m d = x \<or> Returned i m d \<in> set cs"
  by (auto dest!: set_update_subset_insert [THEN subsetD])

lemma calls_ok_receive: "calls_ok ms fs got c \<Longrightarrow> calls_ok ms fs got (calls_receive b c)"
  by (cases "ct_reader c") (simp_all add: calls_ok_def calls_receive_def sent_ok_def read_ok_def dealt_ok_def)

section \<open>Every step keeps the invariant\<close>

lemma entered_ids_same: "k < length cs \<Longrightarrow> entered x = entered (cs ! k) \<Longrightarrow> entered_ids (cs[k := x]) = entered_ids cs"
  by (simp add: entered_ids_def map_update_same del: set_map)

lemma entered_ids_new:
  "k < length cs \<Longrightarrow> entered (cs ! k) = None \<Longrightarrow> entered x = Some i \<Longrightarrow> entered_ids (cs[k := x]) = insert i (entered_ids cs)"
  using Some_in_update [of k "map entered cs" _ "Some i"] by (auto simp: entered_ids_def map_update simp del: set_map)

lemma handed_set_same: "k < length cs \<Longrightarrow> handed x = handed (cs ! k) \<Longrightarrow> handed_set (cs[k := x]) = handed_set cs"
  by (simp add: handed_set_def map_update_same del: set_map)

lemma handed_set_new:
  "k < length cs \<Longrightarrow> handed (cs ! k) = None \<Longrightarrow> handed x = Some p \<Longrightarrow> handed_set (cs[k := x]) = insert p (handed_set cs)"
  using Some_in_update [of k "map handed cs" _ "Some p"] by (auto simp: handed_set_def map_update simp del: set_map)

text \<open>A caller that goes on, with the same requests handed over and entered.\<close>

lemma sent_ok_caller:
  "sent_ok fs c \<Longrightarrow> k < length (ct_callers c) \<Longrightarrow> handed x = handed (ct_callers c ! k) \<Longrightarrow>
     sent_ok fs (c\<lparr>ct_callers := (ct_callers c)[k := x]\<rparr>)"
  by (simp add: sent_ok_def handed_set_same)

lemma dealt_ok_caller:
  assumes "dealt_ok got c" and "k < length (ct_callers c)" and "entered x = entered (ct_callers c ! k)"
    and "\<And>i m d. x = Returned i m d \<Longrightarrow> (i, d) \<in> set got"
  shows "dealt_ok got (c\<lparr>ct_callers := (ct_callers c)[k := x]\<rparr>)"
proof -
  have "\<forall>i m d. Returned i m d \<in> set ((ct_callers c)[k := x]) \<longrightarrow> (i, d) \<in> set got"
    using assms(1,4) returned_update [OF assms(2), of _ _ _ x] unfolding dealt_ok_def dealt_def by metis
  then show ?thesis using assms(1) entered_ids_same [where x = x, OF assms(2,3)] by (simp add: dealt_ok_def dealt_def)
qed

text \<open>A request that is entered, a number that is read, and a response that is read.\<close>

lemma dealt_enter:
  assumes "dealt got r R cs pend" and "entered_ids cs' = insert i (entered_ids cs)" and "i \<notin> entered_ids cs"
    and "\<forall>i m d. Returned i m d \<in> set cs' \<longrightarrow> (i, d) \<in> set got"
  shows "dealt got r R cs' (insert i pend)"
proof -
  have d: "\<forall>i d. R i = Some d \<longrightarrow> (i, d) \<in> set got" "dom R = fst ` set got" "fst ` set got \<subseteq> entered_ids cs"
      "read_so_far r \<subseteq> entered_ids cs" "r \<noteq> ReadsNoMore \<Longrightarrow> pend = entered_ids cs - fst ` set got - read_so_far r"
    using assms(1) by (simp_all add: dealt_def)
  then have e: "r \<noteq> ReadsNoMore \<Longrightarrow> insert i pend = entered_ids cs' - fst ` set got - read_so_far r"
      "fst ` set got \<subseteq> entered_ids cs'" "read_so_far r \<subseteq> entered_ids cs'"
    using assms(3) unfolding assms(2) by blast+
  show ?thesis unfolding dealt_def by (intro conjI impI) (fact d(1) d(2) assms(4) e(2) e(3) | erule e(1))+
qed

lemma dealt_read_id:
  "dealt got ReadsId R cs pend \<Longrightarrow> i \<in> pend \<Longrightarrow> dealt got (ReadsBody i) R cs (pend - {i})"
  unfolding dealt_def by simp

lemma dealt_read_body:
  "dealt got (ReadsBody i) R cs pend \<Longrightarrow> dealt (got @ [(i, d)]) ReadsId (R(i \<mapsto> d)) cs pend"
  unfolding dealt_def by (simp add: dom_def) blast

lemma dealt_no_more: "dealt got r R cs pend \<Longrightarrow> dealt got ReadsNoMore R cs pend'"
  unfolding dealt_def by simp

lemma calls_ok_number:
  assumes "calls_ok ms fs got c" and "k < length (ct_callers c)" and "ct_callers c ! k = Fresh m" and "i = cl_id (ct_client c) + 1"
  shows "calls_ok ms fs got (c\<lparr>ct_client := (ct_client c)\<lparr>cl_id := i\<rparr>, ct_callers := (ct_callers c)[k := Numbered i m]\<rparr>)"
proof -
  let ?c = "c\<lparr>ct_callers := (ct_callers c)[k := Numbered i m]\<rparr>"
  have "numbered i (map caller_id ((ct_callers c)[k := Numbered i m]))"
    using numbered_new [of "cl_id (ct_client c)" "map caller_id (ct_callers c)" k] assms by (simp add: calls_ok_def map_update)
  moreover have "map caller_msg ((ct_callers c)[k := Numbered i m]) = ms"
    using assms by (simp add: calls_ok_def map_update_same)
  moreover have "sent_ok fs ?c" "dealt_ok got ?c" "read_ok got ?c"
    using assms sent_ok_caller [of fs c k "Numbered i m"] dealt_ok_caller [of got c k "Numbered i m"]
    by (simp_all add: calls_ok_def read_ok_def)
  ultimately show ?thesis by (simp add: calls_ok_def sent_ok_def dealt_ok_def read_ok_def)
qed

lemma calls_ok_enter:
  assumes "calls_ok ms fs got c" and "k < length (ct_callers c)" and "ct_callers c ! k = Numbered i m"
  shows "calls_ok ms fs got (c\<lparr>ct_client := (ct_client c)\<lparr>pendingRequests := insert i (pendingRequests (ct_client c))\<rparr>,
      ct_callers := (ct_callers c)[k := Entered i m]\<rparr>)"
proof -
  let ?cs = "(ct_callers c)[k := Entered i m]"
  have old: "dealt_ok got c" using assms(1) by (simp add: calls_ok_def)
  have n: "i \<notin> entered_ids (ct_callers c)"
    using assms fresh_entered [of "cl_id (ct_client c)" "ct_callers c" k i] by (simp add: calls_ok_def)
  have e: "entered_ids ?cs = insert i (entered_ids (ct_callers c))"
    using assms(2,3) by (intro entered_ids_new) simp_all
  have r: "\<forall>j m' d. Returned j m' d \<in> set ?cs \<longrightarrow> (j, d) \<in> set got"
  proof (intro allI impI)
    fix j m' d assume "Returned j m' d \<in> set ?cs"
    from returned_update [OF assms(2) this] show "(j, d) \<in> set got" using old by (auto simp: dealt_ok_def dealt_def)
  qed
  have "dealt_ok got (c\<lparr>ct_client := (ct_client c)\<lparr>pendingRequests := insert i (pendingRequests (ct_client c))\<rparr>, ct_callers := ?cs\<rparr>)"
    using dealt_enter [OF old [unfolded dealt_ok_def] e n r] by (simp add: dealt_ok_def)
  moreover have "sent_ok fs (c\<lparr>ct_callers := ?cs\<rparr>)"
    using assms by (intro sent_ok_caller) (simp_all add: calls_ok_def)
  ultimately show ?thesis using assms by (simp add: calls_ok_def sent_ok_def read_ok_def map_update_same)
qed

lemma calls_ok_queue:
  assumes "calls_ok ms fs got c" and "k < length (ct_callers c)" and "ct_callers c ! k = Entered i m"
  shows "calls_ok ms fs got (c\<lparr>ct_queue := ct_queue c @ [(i, m)], ct_callers := (ct_callers c)[k := Waiting i m]\<rparr>)"
proof -
  let ?cs = "(ct_callers c)[k := Waiting i m]" and ?q = "ct_queue c @ [(i, m)]"
  have old: "set (fs @ ct_queue c) = handed_set (ct_callers c)" "distinct (map fst (fs @ ct_queue c))"
    using assms(1) by (simp_all add: calls_ok_def sent_ok_def)
  have "(i, m') \<notin> handed_set (ct_callers c)" for m'
    using assms fresh_handed [of "cl_id (ct_client c)" "ct_callers c" k i m'] by (simp add: calls_ok_def)
  then have "i \<notin> fst ` set (fs @ ct_queue c)" unfolding old(1) by fastforce
  then have "distinct (map fst (fs @ ?q))" using old(2) by auto
  moreover have "handed_set ?cs = insert (i, m) (handed_set (ct_callers c))"
    using assms(2,3) by (intro handed_set_new) simp_all
  then have "set (fs @ ?q) = handed_set ?cs" using old(1) by simp
  ultimately have "sent_ok fs (c\<lparr>ct_queue := ?q, ct_callers := ?cs\<rparr>)"
    using assms(1) by (simp add: calls_ok_def sent_ok_def del: map_append set_append distinct_append)
  moreover have "dealt_ok got (c\<lparr>ct_callers := ?cs\<rparr>)" using assms by (intro dealt_ok_caller) (simp_all add: calls_ok_def)
  ultimately show ?thesis using assms by (simp add: calls_ok_def read_ok_def dealt_ok_def map_update_same)
qed

text \<open>The goroutines of the connection; a request that leaves the queue has been sent, or lost.\<close>

lemma sent_ok_dequeued:
  assumes "sent_ok fs c" and "ct_queue c = (i, m) # q" and "prefix t (frame i m)" and "up \<longrightarrow> ct_up c \<and> t = frame i m"
    and "ct_up c \<or> t = []"
  shows "sent_ok (fs @ [(i, m)]) (c\<lparr>ct_queue := q, ct_sent := ct_sent c @ t, ct_up := up\<rparr>)"
proof -
  have s: "prefix (ct_sent c) (frames fs)" "ct_up c \<longrightarrow> ct_sent c = frames fs" using assms(1) by (simp_all add: sent_ok_def)
  have "prefix (ct_sent c @ t) (frames fs @ frame i m)"
  proof (cases "ct_up c")
    case False
    then show ?thesis using s(1) assms(5) by (simp add: prefix_prefix)
  qed (use s(2) assms(3) in simp)
  then show ?thesis using assms(1,2,4) by (simp add: sent_ok_def)
qed

lemma calls_ok_dequeued:
  assumes "calls_ok ms fs got c" and "ct_queue c = (i, m) # q" and "prefix t (frame i m)" and "up \<longrightarrow> ct_up c \<and> t = frame i m"
    and "ct_up c \<or> t = []"
  shows "calls_ok ms (fs @ [(i, m)]) got (c\<lparr>ct_queue := q, ct_sent := ct_sent c @ t, ct_up := up\<rparr>)"
  using assms(1) sent_ok_dequeued [OF _ assms(2-5), of fs] by (simp add: calls_ok_def read_ok_def dealt_ok_def)

lemma calls_ok_read_id:
  assumes "calls_ok ms fs got c" and "ct_reader c = ReadsId" and "4 \<le> length (ct_unread c)" and "get32 (ct_unread c) = i"
    and "i \<in> pendingRequests (ct_client c)"
  shows "calls_ok ms fs got (c\<lparr>ct_reader := ReadsBody i, ct_unread := drop 4 (ct_unread c),
      ct_client := (ct_client c)\<lparr>pendingRequests := pendingRequests (ct_client c) - {i}\<rparr>\<rparr>)"
proof -
  have d: "dealt got ReadsId (ct_responses c) (ct_callers c) (pendingRequests (ct_client c))"
    using assms(1,2) by (simp add: calls_ok_def dealt_ok_def)
  have "put32 i @ drop 4 (ct_unread c) = ct_unread c" using put32_get32 [OF assms(3)] assms(4) by simp
  then show ?thesis
    using assms(1,2) dealt_read_id [OF d assms(5)] by (simp add: calls_ok_def sent_ok_def read_ok_def dealt_ok_def)
qed

lemma calls_ok_read_body:
  assumes "calls_ok ms fs got c" and "ct_reader c = ReadsBody i" and "4 \<le> length (ct_unread c)"
    and "unat (get32 (ct_unread c)) = n" and "4 + n \<le> length (ct_unread c)"
  shows "calls_ok ms fs (got @ [(i, take n (drop 4 (ct_unread c)))]) (c\<lparr>ct_reader := ReadsId, ct_unread := drop (4 + n) (ct_unread c),
      ct_responses := (ct_responses c)(i \<mapsto> take n (drop 4 (ct_unread c)))\<rparr>)"
proof -
  let ?d = "take n (drop 4 (ct_unread c))"
  have d: "dealt got (ReadsBody i) (ct_responses c) (ct_callers c) (pendingRequests (ct_client c))"
    using assms(1,2) by (simp add: calls_ok_def dealt_ok_def)
  have l: "length ?d = n" "n < 2 ^ 32" using assms(3,5) unsigned_less [of "get32 (ct_unread c)"] assms(4) by auto
  have "put_len ?d = put32 (word_of_nat (unat (get32 (ct_unread c))))" by (simp only: put_len_def l(1) assms(4))
  then have "put_len ?d = put32 (get32 (ct_unread c))" by (simp only: of_nat_unat ucast_id unsigned_ucast_eq) 
  then have "frame i ?d @ drop (4 + n) (ct_unread c) = put32 i @ ct_unread c"
    using put32_get32 [OF assms(3)] append_take_drop_id [of n "drop 4 (ct_unread c)"] by (simp add: frame_def add.commute)
  then show ?thesis
    using assms(1,2) l dealt_read_body [OF d, of ?d] by (simp add: calls_ok_def sent_ok_def read_ok_def dealt_ok_def)
qed

lemma read_at_no_more: "read_at got r arrived unread \<Longrightarrow> read_at got ReadsNoMore arrived unread'"
  by (cases r) simp_all

lemma calls_ok_no_more:
  "calls_ok ms fs got c \<Longrightarrow> calls_ok ms fs got (c\<lparr>ct_reader := ReadsNoMore, ct_unread := s\<rparr>)"
  by (auto simp: calls_ok_def sent_ok_def read_ok_def dealt_ok_def dealt_no_more dest: read_at_no_more)

lemma calls_ok_return:
  assumes "calls_ok ms fs got c" and "k < length (ct_callers c)" and "ct_callers c ! k = Waiting i m" and "ct_responses c i = Some d"
  shows "calls_ok ms fs got (c\<lparr>ct_callers := (ct_callers c)[k := Returned i m d]\<rparr>)"
proof -
  have "(i, d) \<in> set got" using assms(1,4) by (simp add: calls_ok_def dealt_ok_def dealt_def)
  then have "dealt_ok got (c\<lparr>ct_callers := (ct_callers c)[k := Returned i m d]\<rparr>)"
    using assms by (intro dealt_ok_caller) (simp_all add: calls_ok_def)
  moreover have "sent_ok fs (c\<lparr>ct_callers := (ct_callers c)[k := Returned i m d]\<rparr>)"
    using assms by (intro sent_ok_caller) (simp_all add: calls_ok_def)
  ultimately show ?thesis using assms by (simp add: calls_ok_def read_ok_def map_update_same)
qed

theorem call_step_ok: "call_step c c' \<Longrightarrow> calls_ok ms fs got c \<Longrightarrow> \<exists>fs' got'. calls_ok ms fs' got' c'"
proof (induction rule: call_step.induct)
  case (call_number k c m i)
  then show ?case using calls_ok_number by blast
next
  case (call_enter k c i m)
  then show ?case using calls_ok_enter by blast
next
  case (call_queue k c i m)
  then show ?case using calls_ok_queue by blast
next
  case (call_write c i m q)
  have "c\<lparr>ct_queue := q, ct_sent := ct_sent c @ frame i m, ct_up := True\<rparr> = c\<lparr>ct_queue := q, ct_sent := ct_sent c @ frame i m\<rparr>"
    using call_write.hyps(2) by (cases c) simp
  then show ?case
    using calls_ok_dequeued [of ms fs got c i m q "frame i m" True] call_write by (metis prefix_order.refl)
next
  case (call_write_lost c i m q)
  have "c\<lparr>ct_queue := q, ct_sent := ct_sent c @ [], ct_up := False\<rparr> = c\<lparr>ct_queue := q\<rparr>"
    using call_write_lost.hyps(2) by (cases c) simp
  then show ?case
    using calls_ok_dequeued [of ms fs got c i m q "[]" False] call_write_lost by (metis Nil_prefix)
next
  case (call_read_id c i)
  then show ?case using calls_ok_read_id by blast
next
  case (call_read_unknown c)
  then show ?case using calls_ok_no_more by blast
next
  case (call_read_body c i n)
  then show ?case using calls_ok_read_body by blast
next
  case (call_return k c i m d)
  then show ?case using calls_ok_return by blast
qed

theorem call_fault_ok: "call_fault c c' \<Longrightarrow> calls_ok ms fs got c \<Longrightarrow> \<exists>fs' got'. calls_ok ms fs' got' c'"
proof (induction rule: call_fault.induct)
  case (call_write_fails c i m q n)
  then show ?case using calls_ok_dequeued [of ms fs got c i m q "take n (frame i m)" False] by (auto simp: take_is_prefix)
next
  case (call_ends c)
  then have "calls_ok ms fs got (c\<lparr>ct_ended := True\<rparr>)" by (simp add: calls_ok_def sent_ok_def read_ok_def dealt_ok_def)
  then show ?case by blast
next
  case (call_read_fails c)
  then show ?case using calls_ok_no_more [of ms fs got c "ct_unread c"] by auto
qed

end
