(* ===== verification/TcpExchange.thy ===== *)
theory TcpExchange
  imports TcpCalls
begin

text \<open>
  Clients and a server of \<open>cmd/example/echo-tcp\<close> together: on every connection the goroutines of the
  client (\<open>call_step\<close>) and of the server (\<open>tcp_step\<close>) interleave with bytes that arrive, any number of
  them at a time and in both directions. Whatever fails, a call that returns has the answer to its own
  request; and when nothing fails, every run ends, and it ends with all calls returned.
\<close>

section \<open>Steps\<close>

type_synonym link = "tcpCalls \<times> tcpConn"

inductive exchange_work :: "'w tcp_answering \<Rightarrow> link list \<times> 'w \<times> sdkServer \<Rightarrow> link list \<times> 'w \<times> sdkServer \<Rightarrow> bool" for ans where
  work_call: "j < length ls \<Longrightarrow> ls ! j = (c, s) \<Longrightarrow> call_step c c' \<Longrightarrow> exchange_work ans (ls, w, y) (ls[j := (c', s)], w, y)"
| work_serve: "tcp_step ans (map snd ls, w, y) (cs, w', y') \<Longrightarrow> exchange_work ans (ls, w, y) (zip (map fst ls) cs, w', y')"
| work_request: "j < length ls \<Longrightarrow> ls ! j = (c, s) \<Longrightarrow> b \<noteq> [] \<Longrightarrow> prefix (cn_arrived s @ b) (ct_sent c) \<Longrightarrow>
    exchange_work ans (ls, w, y) (ls[j := (c, conn_receives b s)], w, y)"
| work_response: "j < length ls \<Longrightarrow> ls ! j = (c, s) \<Longrightarrow> b \<noteq> [] \<Longrightarrow> prefix (ct_arrived c @ b) (cn_written s) \<Longrightarrow>
    exchange_work ans (ls, w, y) (ls[j := (calls_receive b c, s)], w, y)"

inductive exchange_fault :: "link list \<times> 'w \<times> sdkServer \<Rightarrow> link list \<times> 'w \<times> sdkServer \<Rightarrow> bool" where
  fault_call: "j < length ls \<Longrightarrow> ls ! j = (c, s) \<Longrightarrow> call_fault c c' \<Longrightarrow> exchange_fault (ls, w, y) (ls[j := (c', s)], w, y)"
| fault_serve: "tcp_fault (map snd ls, w, y) (cs, w', y') \<Longrightarrow> exchange_fault (ls, w, y) (zip (map fst ls) cs, w', y')"

text \<open>Runs, with faults or without.\<close>

inductive exchange_run :: "'w tcp_answering \<Rightarrow> bool \<Rightarrow> link list \<times> 'w \<times> sdkServer \<Rightarrow> link list \<times> 'w \<times> sdkServer \<Rightarrow> bool"
  for ans faulty x where
  exchange_start: "exchange_run ans faulty x x"
| exchange_goes_on: "exchange_run ans faulty x y \<Longrightarrow> exchange_work ans y z \<Longrightarrow> exchange_run ans faulty x z"
| exchange_fails: "exchange_run ans faulty x y \<Longrightarrow> faulty \<Longrightarrow> exchange_fault y z \<Longrightarrow> exchange_run ans faulty x z"

text \<open>One connection per list of messages to be sent.\<close>

definition new_links :: "string list list \<Rightarrow> link list" where
  "new_links mss = map (\<lambda>ms. (new_calls ms, new_conn)) mss"

section \<open>Every run ends\<close>

fun stage :: "caller \<Rightarrow> nat" where
  "stage (Fresh m) = 3"
| "stage (Numbered i m) = 2"
| "stage (Entered i m) = 1"
| "stage _ = 0"

definition is_waiting :: "caller \<Rightarrow> nat" where
  "is_waiting x = (case x of Waiting i m \<Rightarrow> 1 | _ \<Rightarrow> 0)"

text \<open>What is left to do on a connection, in the order in which one thing makes another.\<close>

definition link_less :: "(link \<times> link) set" where
  "link_less = measures
     [\<lambda>(c, s). sum_list (map stage (ct_callers c)),
      \<lambda>(c, s). length (ct_queue c),
      \<lambda>(c, s). length (ct_sent c) - length (cn_arrived s),
      \<lambda>(c, s). length (cn_unread s) + (if cn_reading s then 1 else 0),
      \<lambda>(c, s). length (cn_responses s),
      \<lambda>(c, s). length (cn_written s) - length (ct_arrived c),
      \<lambda>(c, s). length (ct_unread c) + (if ct_reader c = ReadsNoMore then 0 else 1),
      \<lambda>(c, s). sum_list (map is_waiting (ct_callers c))]"

lemma wf_link_less: "wf link_less"
  by (simp add: link_less_def)

lemma sum_list_map_update:
  "k < length xs \<Longrightarrow> sum_list (map f (xs[k := x])) + f (xs ! k) = sum_list (map f xs) + (f x :: nat)"
  by (rule sum_list_replace)

lemma call_step_less: "call_step c c' \<Longrightarrow> ((c', s), (c, s)) \<in> link_less"
proof (induction rule: call_step.induct)
  case (call_number k c m i)
  then show ?case using sum_list_map_update [of k "ct_callers c" stage "Numbered i m"] by (simp add: link_less_def)
next
  case (call_enter k c i m)
  then show ?case using sum_list_map_update [of k "ct_callers c" stage "Entered i m"] by (simp add: link_less_def)
next
  case (call_queue k c i m)
  then show ?case using sum_list_map_update [of k "ct_callers c" stage "Waiting i m"] by (simp add: link_less_def)
next
  case (call_return k c i m d)
  then show ?case
    using sum_list_map_update [of k "ct_callers c" stage "Returned i m d"] sum_list_map_update [of k "ct_callers c" is_waiting "Returned i m d"]
    by (simp add: link_less_def is_waiting_def)
qed (auto simp: link_less_def)

text \<open>A step of the server is one of one connection.\<close>

lemma tcp_step_at:
  assumes "tcp_step ans (cs, w, y) (cs', w', y')"
  obtains j s' where "j < length cs" and "cs' = cs[j := s']" and "\<And>c. ((c, s'), (c, cs ! j)) \<in> link_less"
    and "cn_arrived s' = cn_arrived (cs ! j)" and "prefix (cn_written (cs ! j)) (cn_written s')"
  using assms
proof (cases rule: tcp_step.cases)
  case (step_serve j c i d rest r)
  have "length rest < length (cn_unread c)" using step_serve by (auto dest: read_frame_shorter)
  then show ?thesis using step_serve by (intro that [of j "cs' ! j"]) (auto simp: link_less_def)
next
  case (step_stop j c)
  then show ?thesis by (intro that [of j "cs' ! j"]) (auto simp: link_less_def)
next
  case (step_write j c r ps)
  then show ?thesis by (intro that [of j "cs' ! j"]) (auto simp: link_less_def)
qed

lemma zip_update_snd: "j < length ls \<Longrightarrow> zip (map fst ls) ((map snd ls)[j := s]) = ls[j := (fst (ls ! j), s)]"
proof -
  assume j: "j < length ls"
  have "(map fst ls)[j := fst (ls ! j)] = map fst ls" using j by (simp add: map_update [symmetric])
  then show ?thesis using update_zip [of "map fst ls" "map snd ls" j "(fst (ls ! j), s)"] by (simp add: zip_map_fst_snd)
qed

lemma listrel1_update: "j < length ls \<Longrightarrow> (l, ls ! j) \<in> r \<Longrightarrow> (ls[j := l], ls) \<in> listrel1 r"
proof -
  assume "j < length ls" "(l, ls ! j) \<in> r"
  then have "(ls, ls[j := l]) \<in> listrel1 (r\<inverse>)" by (auto simp: listrel1_iff_update)
  then show ?thesis by (simp add: listrel1_converse)
qed

lemma exchange_work_less: "exchange_work ans x x' \<Longrightarrow> (fst x', fst x) \<in> listrel1 link_less"
proof (induction rule: exchange_work.induct)
  case (work_call j ls c s c' w y)
  then show ?case using call_step_less [of c c' s] by (auto intro!: listrel1_update)
next
  case (work_serve ls w y cs w' y')
  from work_serve obtain j s' where s: "j < length (map snd ls)" "cs = (map snd ls)[j := s']"
      "\<And>c. ((c, s'), (c, map snd ls ! j)) \<in> link_less"
    by (rule tcp_step_at) blast
  have "((fst (ls ! j), s'), ls ! j) \<in> link_less" using s(1) s(3) [of "fst (ls ! j)"] by simp
  then show ?case using s(1,2) by (auto simp: zip_update_snd intro!: listrel1_update)
next
  case (work_request j ls c s b w y)
  then have "length (cn_arrived s) + length b \<le> length (ct_sent c)" "0 < length b" by (auto dest: prefix_length_le)
  then have "length (ct_sent c) - (length (cn_arrived s) + length b) < length (ct_sent c) - length (cn_arrived s)" by linarith
  then have "((c, conn_receives b s), (c, s)) \<in> link_less" by (simp add: link_less_def conn_receives_def)
  then show ?case using work_request by (auto intro!: listrel1_update)
next
  case (work_response j ls c s b w y)
  then have "length (ct_arrived c) + length b \<le> length (cn_written s)" "0 < length b" by (auto dest: prefix_length_le)
  then have "length (cn_written s) - (length (ct_arrived c) + length b) < length (cn_written s) - length (ct_arrived c)" by linarith
  then have "((calls_receive b c, s), (c, s)) \<in> link_less" by (simp add: link_less_def calls_receive_def)
  then show ?case using work_response by (auto intro!: listrel1_update)
qed

theorem exchange_work_wf: "wf {(x', x). exchange_work ans x x'}"
proof (rule wf_subset)
  show "wf (inv_image (listrel1 link_less) fst)" by (simp add: wf_link_less)
  show "{(x', x). exchange_work ans x x'} \<subseteq> inv_image (listrel1 link_less) fst"
    by (auto dest: exchange_work_less)
qed

lemma exchange_run_goes_on:
  assumes "exchange_run ans faulty y z" and "exchange_run ans faulty x y"
  shows "exchange_run ans faulty x z"
  using assms
proof (induction rule: exchange_run.induct)
  case (exchange_goes_on y' z)
  then show ?case using exchange_run.exchange_goes_on by metis
next
  case (exchange_fails y' z)
  then show ?case using exchange_run.exchange_fails by metis
qed

lemma exchange_ends: "\<exists>z. exchange_run ans faulty x z \<and> \<not> (\<exists>z'. exchange_work ans z z')"
proof (induction x rule: wf_induct_rule [OF exchange_work_wf [of ans]])
  case (1 x)
  show ?case
  proof (cases "\<exists>z'. exchange_work ans x z'")
    case True
    then obtain y where y: "exchange_work ans x y" by blast
    then obtain z where "exchange_run ans faulty y z" "\<not> (\<exists>z'. exchange_work ans z z')" using 1 by blast
    then show ?thesis using exchange_run_goes_on [OF _ exchange_goes_on [OF exchange_start y]] by blast
  next
    case False
    then show ?thesis using exchange_start by blast
  qed
qed

section \<open>Both ends of a connection\<close>

definition link_ok :: "'w tcp_answering \<Rightarrow> string list \<Rightarrow> link \<Rightarrow> bool" where
  "link_ok ans ms l \<longleftrightarrow>
     (case l of (c, s) \<Rightarrow> (\<exists>fs got. calls_ok ms fs got c) \<and> answered ans s
        \<and> prefix (cn_arrived s) (ct_sent c) \<and> prefix (ct_arrived c) (cn_written s))"

lemma link_ok_new: "length ms < 2 ^ 32 \<Longrightarrow> link_ok ans ms (new_calls ms, new_conn)"
  using calls_ok_new [of ms] by (auto simp: link_ok_def answered_new) (simp_all add: new_calls_def new_conn_def)

lemma list_all2_update:
  "list_all2 P xs ys \<Longrightarrow> j < length ys \<Longrightarrow> (P (xs ! j) (ys ! j) \<Longrightarrow> P (xs ! j) y) \<Longrightarrow> list_all2 P xs (ys[j := y])"
  by (auto simp: list_all2_conv_all_nth nth_list_update)

lemma call_step_grows:
  "call_step c c' \<Longrightarrow> prefix (ct_sent c) (ct_sent c') \<and> ct_arrived c' = ct_arrived c \<and> ct_up c' = ct_up c \<and> ct_ended c' = ct_ended c"
  by (induction rule: call_step.induct) simp_all

lemma call_fault_grows: "call_fault c c' \<Longrightarrow> prefix (ct_sent c) (ct_sent c') \<and> ct_arrived c' = ct_arrived c"
  by (induction rule: call_fault.induct) simp_all

lemma tcp_fault_at:
  assumes "tcp_fault (cs, w, y) (cs', w', y')"
  obtains j s' where "j < length cs" and "cs' = cs[j := s']" and "cn_arrived s' = cn_arrived (cs ! j)"
    and "prefix (cn_written (cs ! j)) (cn_written s')"
  using assms
proof (cases rule: tcp_fault.cases)
  case (step_fail j c r ps n)
  then show ?thesis by (intro that [of j "cs' ! j"]) auto
next
  case (step_end j)
  then show ?thesis by (intro that [of j "cs' ! j"]) auto
qed

lemma link_ok_call:
  assumes "link_ok ans ms (c, s)" and "call_step c c' \<or> call_fault c c'"
  shows "link_ok ans ms (c', s)"
proof -
  have "prefix (ct_sent c) (ct_sent c')" "ct_arrived c' = ct_arrived c" using assms(2) call_step_grows call_fault_grows by blast+
  moreover have "\<exists>fs got. calls_ok ms fs got c'"
    using assms call_step_ok [of c c'] call_fault_ok [of c c'] by (auto simp: link_ok_def)
  ultimately show ?thesis using assms(1) by (auto simp: link_ok_def intro: prefix_order.trans)
qed

lemma link_answered: "link_ok ans ms l \<Longrightarrow> answered ans (snd l)"
  by (auto simp: link_ok_def split: prod.splits)

lemma links_answered: "list_all2 (link_ok ans) mss ls \<Longrightarrow> \<forall>s \<in> set (map snd ls). answered ans s"
  by (induction rule: list_all2_induct) (simp_all add: link_answered)

lemma links_ok_serve:
  assumes "list_all2 (link_ok ans) mss ls" and "\<forall>s \<in> set cs. answered ans s" and "j < length ls" and "cs = (map snd ls)[j := s']"
    and "cn_arrived s' = cn_arrived (map snd ls ! j)" and "prefix (cn_written (map snd ls ! j)) (cn_written s')"
  shows "list_all2 (link_ok ans) mss (zip (map fst ls) cs)"
proof -
  have "s' \<in> set cs" using assms(3,4) by (simp add: set_update_memI)
  then have "answered ans s'" using assms(2) by blast
  then have "link_ok ans ms (ls ! j) \<Longrightarrow> link_ok ans ms (fst (ls ! j), s')" for ms
    using assms(3,5,6) by (auto simp: link_ok_def split: prod.splits intro: prefix_order.trans)
  then show ?thesis unfolding assms(4) zip_update_snd [OF assms(3)] using assms(1,3) by (intro list_all2_update)
qed

lemma links_ok_work: "exchange_work ans x x' \<Longrightarrow> list_all2 (link_ok ans) mss (fst x) \<Longrightarrow> list_all2 (link_ok ans) mss (fst x')"
proof (induction rule: exchange_work.induct)
  case (work_call j ls c s c' w y)
  then show ?case using link_ok_call [of ans _ c s c'] by (auto intro!: list_all2_update)
next
  case (work_serve ls w y cs w' y')
  then have "\<forall>s \<in> set cs. answered ans s" using answered_step [OF work_serve.hyps(1)] links_answered [of ans mss ls] by auto
  moreover obtain j s' where "j < length (map snd ls)" "cs = (map snd ls)[j := s']" "cn_arrived s' = cn_arrived (map snd ls ! j)"
      "prefix (cn_written (map snd ls ! j)) (cn_written s')"
    by (rule tcp_step_at [OF work_serve.hyps(1)])
  ultimately show ?case using links_ok_serve [of ans mss ls cs j s'] work_serve.prems by simp
next
  case (work_request j ls c s b w y)
  then have "link_ok ans ms (c, s) \<Longrightarrow> link_ok ans ms (c, conn_receives b s)" for ms
    using answered_receives [of ans s b] by (auto simp: link_ok_def) (auto simp: conn_receives_def)
  then show ?case using work_request by (auto intro!: list_all2_update)
next
  case (work_response j ls c s b w y)
  then have "link_ok ans ms (c, s) \<Longrightarrow> link_ok ans ms (calls_receive b c, s)" for ms
    using calls_ok_receive [of ms _ _ c b] by (fastforce simp: link_ok_def calls_receive_def)
  then show ?case using work_response by (auto intro!: list_all2_update)
qed

lemma links_ok_fault: "exchange_fault x x' \<Longrightarrow> list_all2 (link_ok ans) mss (fst x) \<Longrightarrow> list_all2 (link_ok ans) mss (fst x')"
proof (induction rule: exchange_fault.induct)
  case (fault_call j ls c s c' w y)
  then show ?case using link_ok_call [of ans _ c s c'] by (auto intro!: list_all2_update)
next
  case (fault_serve ls w y cs w' y')
  then have "\<forall>s \<in> set cs. answered ans s" using answered_fault [OF fault_serve.hyps(1), of ans] links_answered [of ans mss ls] by auto
  moreover obtain j s' where "j < length (map snd ls)" "cs = (map snd ls)[j := s']" "cn_arrived s' = cn_arrived (map snd ls ! j)"
      "prefix (cn_written (map snd ls ! j)) (cn_written s')"
    by (rule tcp_fault_at [OF fault_serve.hyps(1)])
  ultimately show ?case using links_ok_serve [of ans mss ls cs j s'] fault_serve.prems by simp
qed

lemma links_ok_run:
  "exchange_run ans faulty x x' \<Longrightarrow> list_all2 (link_ok ans) mss (fst x) \<Longrightarrow> list_all2 (link_ok ans) mss (fst x')"
proof (induction rule: exchange_run.induct)
  case (exchange_goes_on y z)
  then show ?case by (blast dest: links_ok_work)
next
  case (exchange_fails y z)
  then show ?case by (blast dest: links_ok_fault)
qed

lemma links_ok_new: "\<forall>ms \<in> set mss. length ms < 2 ^ 32 \<Longrightarrow> list_all2 (link_ok ans) mss (new_links mss)"
  by (auto simp: new_links_def list_all2_conv_all_nth link_ok_new)

section \<open>Streams at both ends\<close>

lemma read_frame_bytes:
  assumes "read_frame s = FFrame i d rest"
  shows "s = frame i d @ rest \<and> length d \<le> 65536"
proof -
  obtain n where n: "i = get32 s" "n = sint (get32 (drop 4 s))" "0 \<le> n" "n \<le> 65536" "8 + nat n \<le> length s"
      "d = take (nat n) (drop 8 s)" "rest = drop (8 + nat n) s"
    using assms unfolding read_frame_parts by blast
  have l: "length d = nat n" using n(5,6) by simp
  have "word_of_nat (nat n) = (word_of_int n :: u32)" using n(3) by (rule of_nat_nat)
  then have "word_of_nat (nat n) = get32 (drop 4 s)" unfolding n(2) by simp
  then have "put_len d = put32 (get32 (drop 4 s))" by (simp add: put_len_def l)
  moreover have "put32 (get32 s) @ drop 4 s = s" "put32 (get32 (drop 4 s)) @ drop 4 (drop 4 s) = drop 4 s"
    using n(5) by (intro put32_get32; simp)+
  moreover have "d @ rest = drop 4 (drop 4 s)" using n(6,7) append_take_drop_id [of "nat n" "drop 8 s"] by (simp add: add.commute)
  ultimately show ?thesis using n(1,4) l by (simp add: frame_def)
qed

lemma frames_read_frames: "frames_read s fs s' \<Longrightarrow> s = frames fs @ s' \<and> framed fs \<and> (\<forall>p \<in> set fs. length (snd p) \<le> 65536)"
proof (induction rule: frames_read.induct)
  case (read_one fs s' i d rest)
  then show ?case using read_frame_bytes [of s' i d rest] by simp
qed simp

definition sent_as :: "response \<Rightarrow> u32 \<times> string" where
  "sent_as r = (rsp_id r, rsp_data r)"

lemma responses_frames: "concat (map response_bytes qs) = frames (map sent_as qs)"
  by (induction qs) (simp_all add: sent_as_def response_bytes_frame)

text \<open>Requests that a frame can hold, and answers that a response can.\<close>

definition sendable :: "'w tcp_answering \<Rightarrow> string list \<Rightarrow> bool" where
  "sendable ans ms \<longleftrightarrow> (\<forall>m \<in> set ms. length m < 2 ^ 32 \<and> (\<forall>i r. answer_of ans (i, m) r \<longrightarrow> length (rsp_data r) < 2 ^ 32))"

lemma handed_msg: "calls_ok ms fs got c \<Longrightarrow> p \<in> set fs \<Longrightarrow> \<exists>k < length ms. handed (ct_callers c ! k) = Some p \<and> ms ! k = snd p"
proof -
  assume c: "calls_ok ms fs got c" and "p \<in> set fs"
  then have "Some p \<in> set (map handed (ct_callers c))" by (auto simp: calls_ok_def sent_ok_def handed_set_def)
  then obtain k where k: "k < length (ct_callers c)" "handed (ct_callers c ! k) = Some p" by (auto simp: in_set_conv_nth)
  then have "caller_msg (ct_callers c ! k) = snd p" by (simp add: handed_id)
  then show ?thesis using c k by (auto simp: calls_ok_def)
qed

lemma framed_sent:
  assumes "calls_ok ms fs got c" and "sendable ans ms"
  shows "framed fs"
  unfolding framed_def
proof
  fix p assume "p \<in> set fs"
  then obtain k where "k < length ms" "ms ! k = snd p" using handed_msg [OF assms(1)] by blast
  then have "snd p \<in> set ms" by (metis nth_mem)
  then show "length (snd p) < 2 ^ 32" using assms(2) by (simp add: sendable_def)
qed

lemma framed_answers:
  assumes "list_all2 (answer_of ans) qs ps" and "set qs \<subseteq> set fs" and "calls_ok ms fs got c" and "sendable ans ms"
  shows "framed (map sent_as ps)"
  unfolding framed_def
proof
  fix q assume "q \<in> set (map sent_as ps)"
  then obtain j where j: "j < length ps" "q = sent_as (ps ! j)" by (auto simp: in_set_conv_nth)
  have "qs ! j \<in> set fs" "answer_of ans (qs ! j) (ps ! j)" using assms(1,2) j(1) by (auto simp: list_all2_conv_all_nth)
  moreover obtain i m where p: "qs ! j = (i, m)" by (cases "qs ! j")
  ultimately have "m \<in> set ms" using handed_msg [OF assms(3), of "(i, m)"] by (metis nth_mem snd_conv)
  then show "length (snd q) < 2 ^ 32"
    using assms(4) \<open>answer_of ans (qs ! j) (ps ! j)\<close> j(2) p by (auto simp: sendable_def sent_as_def)
qed

lemma framed_take: "framed xs \<Longrightarrow> framed (take n xs)"
  by (auto simp: framed_def dest: in_set_takeD)

text \<open>The server has read the first requests and the client the first responses.\<close>

lemma link_streams:
  assumes "link_ok ans ms (c, s)" and "sendable ans ms"
  obtains fs got qs zs ps n lost where "calls_ok ms fs got c"
    and "frames_read (cn_arrived s) qs (cn_unread s)" and "fs = qs @ zs" and "\<And>t. ct_up c \<Longrightarrow> ct_sent c = cn_arrived s @ t \<Longrightarrow> cn_unread s @ t = frames zs"
    and "list_all2 (answer_of ans) qs (ps @ cn_responses s)" and "prefix (cn_written s) (frames (map sent_as ps))"
    and "cn_writing s \<Longrightarrow> cn_written s = frames (map sent_as ps)" and "framed (map sent_as ps)"
    and "\<exists>us. map sent_as ps = got @ us"
proof -
  obtain fs got where c: "calls_ok ms fs got c" using assms(1) by (auto simp: link_ok_def)
  obtain qs ws lost n where a: "cn_written s = frames (map sent_as ws) @ take n (frames (map sent_as lost))"
      "frames_read (cn_arrived s) qs (cn_unread s)" "list_all2 (answer_of ans) qs (ws @ lost @ cn_responses s)"
      "length lost = (if cn_writing s then 0 else 1)"
    using assms(1) unfolding link_ok_def answered_def responses_frames by auto
  note r = frames_read_frames [OF a(2)]
  obtain t where t: "ct_sent c = cn_arrived s @ t" using assms(1) by (auto simp: link_ok_def prefix_def)
  obtain u where u: "frames fs = ct_sent c @ u" using c by (auto simp: calls_ok_def sent_ok_def prefix_def)
  have f: "frames qs @ cn_unread s @ t @ u = frames fs" using r t u by simp
  then obtain zs where zs: "fs = qs @ zs" "cn_unread s @ t @ u = frames zs"
    using frames_shorter [OF f] r framed_sent [OF c assms(2)] by blast
  have up: "cn_unread s @ t' = frames zs" if "ct_up c" "ct_sent c = cn_arrived s @ t'" for t'
  proof -
    have "ct_sent c = frames fs" using c that(1) by (simp add: calls_ok_def sent_ok_def)
    then show ?thesis using u t zs(2) that(2) by simp
  qed
  let ?ps = "ws @ lost"
  have fr: "framed (map sent_as ?ps)"
    using framed_answers [OF a(3) _ c assms(2)] zs(1) by simp
  have w: "prefix (cn_written s) (frames (map sent_as ?ps))" by (simp add: a(1) take_is_prefix)
  have "prefix (frames got) (ct_arrived c)" "framed got"
    using c by (cases "ct_reader c"; auto simp: calls_ok_def read_ok_def)+
  then have "prefix (frames got) (frames (map sent_as ?ps))" using assms(1) w by (auto simp: link_ok_def intro: prefix_order.trans)
  then obtain v where v: "frames got @ v = frames (map sent_as ?ps)" by (auto simp: prefix_def)
  have us: "\<exists>us. map sent_as ?ps = got @ us" using frames_shorter [OF v \<open>framed got\<close> fr] by blast
  have ps: "list_all2 (answer_of ans) qs (?ps @ cn_responses s)" using a(3) by simp
  have wr: "cn_writing s \<Longrightarrow> cn_written s = frames (map sent_as ?ps)" using a(1,4) by simp
  show ?thesis by (rule that [OF c a(2) zs(1) up ps w wr fr us])
qed

section \<open>Calls get the answers to their own requests\<close>

context ordered_server
begin

text \<open>A message that is too large is never answered.\<close>

lemma returned_answer:
  assumes "link_ok ans ms (c, s)" and "sendable ans ms" and "k < length ms" and "ct_callers c ! k = Returned i m d"
  shows "m = ms ! k \<and> (\<exists>r. answer_of ans (i, m) r \<and> d = rsp_data r) \<and> length m \<le> 65536"
proof -
  obtain fs got qs zs ps where l: "calls_ok ms fs got c" "fs = qs @ zs" "list_all2 (answer_of ans) qs (ps @ cn_responses s)"
      "\<exists>us. map sent_as ps = got @ us" "frames_read (cn_arrived s) qs (cn_unread s)"
    using link_streams [OF assms(1,2)] by metis
  have msg: "map caller_msg (ct_callers c) = ms" using l(1) by (simp add: calls_ok_def)
  then have k: "k < length (ct_callers c)" using assms(3) by auto
  then have ret: "Returned i m d \<in> set (ct_callers c)" using assms(4) by (metis nth_mem)
  then have "(i, d) \<in> set (map sent_as ps)" using l(1,4) by (fastforce simp: calls_ok_def dealt_ok_def dealt_def)
  then obtain j where j: "j < length ps" "rsp_id (ps ! j) = i" "rsp_data (ps ! j) = d"
    by (auto simp: in_set_conv_nth sent_as_def)
  have a: "answer_of ans (qs ! j) (ps ! j)" "j < length qs"
    using list_all2_nthD2 [OF l(3), of j] list_all2_lengthD [OF l(3)] j(1) by (simp_all add: nth_append)
  have "fst (qs ! j) = i" using answer_of_id [OF a(1)] j(2) by simp
  then have q: "(i, snd (qs ! j)) \<in> set (fs @ ct_queue c)" using a(2) by (auto simp: l(2))
  have "Some (i, m) \<in> set (map handed (ct_callers c))" using ret by force
  then have m: "(i, m) \<in> set (fs @ ct_queue c)" using l(1) unfolding calls_ok_def sent_ok_def handed_set_def by blast
  have "distinct (map fst (fs @ ct_queue c))" using l(1) unfolding calls_ok_def sent_ok_def by blast
  from eq_key_imp_eq_value [OF this q m] have "snd (qs ! j) = m" .
  then have "qs ! j = (i, m)" using \<open>fst (qs ! j) = i\<close> by (simp add: prod_eq_iff)
  then have "answer_of ans (i, m) (ps ! j)" using a(1) by simp
  moreover have "length m \<le> 65536" using frames_read_frames [OF l(5)] a(2) \<open>qs ! j = (i, m)\<close> by (metis nth_mem snd_conv)
  moreover have "m = ms ! k" using msg k assms(4) by (metis caller_msg.simps(5) nth_map)
  ultimately show ?thesis using j(3) by blast
qed

end

section \<open>Without faults\<close>

definition calm :: "link \<Rightarrow> bool" where
  "calm l \<longleftrightarrow> ct_up (fst l) \<and> ct_reader (fst l) \<noteq> ReadsNoMore \<and> cn_reading (snd l) \<and> cn_writing (snd l) \<and> \<not> cn_ended (snd l)"

lemma handed_then_entered: "handed x = Some p \<Longrightarrow> entered x = Some (fst p)"
  by (cases x) auto

lemma handed_entered: "p \<in> handed_set cs \<Longrightarrow> fst p \<in> entered_ids cs"
proof -
  assume "p \<in> handed_set cs"
  then obtain x where x: "x \<in> set cs" "handed x = Some p" by (auto simp: handed_set_def)
  from handed_then_entered [OF x(2)] have "entered x = Some (fst p)" .
  then show ?thesis using x(1) by (force simp: entered_ids_def)
qed

lemma read_frame_nil [simp]: "read_frame [] = FEof"
  by (simp add: read_frame_def)

lemma get32_frame: "get32 (frame i d @ s) = i" "get32 (drop 4 (frame i d @ s)) = word_of_nat (length d)"
  by (simp_all add: frame_def put_len_def)

text \<open>The next request the server reads is one of those sent.\<close>

lemma next_request:
  assumes "link_ok ans ms (c, s)" and "sendable ans ms" and "ct_up c" and "\<forall>m \<in> set ms. length m \<le> 65536"
  shows "\<not> oversized (cn_unread s)" and "read_frame (cn_unread s) = FFrame i d rest \<Longrightarrow> d \<in> set ms"
    and "cn_arrived s = ct_sent c \<Longrightarrow> cn_unread s \<noteq> [] \<Longrightarrow> \<exists>i d rest. read_frame (cn_unread s) = FFrame i d rest"
proof -
  obtain fs got qs zs where l: "calls_ok ms fs got c" "fs = qs @ zs" "\<And>t. ct_sent c = cn_arrived s @ t \<Longrightarrow> cn_unread s @ t = frames zs"
    using link_streams [OF assms(1,2)] assms(3) by metis
  obtain t where ct: "ct_sent c = cn_arrived s @ t" using assms(1) by (auto simp: link_ok_def prefix_def)
  note t = l(3) [OF ct]
  have z: "snd p \<in> set ms" "length (snd p) \<le> 65536" if "p \<in> set zs" for p
    using handed_msg [OF l(1), of p] l(2) that assms(4) by (auto dest: nth_mem)
  show "\<not> oversized (cn_unread s)"
  proof
    assume o: "oversized (cn_unread s)"
    then obtain q zs' where q: "zs = q # zs'" using t by (cases zs) (auto simp: oversized_def)
    have "4 \<le> length (drop 4 (cn_unread s))" using o by (auto simp: oversized_def)
    from get32_append [OF this, of t] have "get32 (drop 4 (cn_unread s @ t)) = get32 (drop 4 (cn_unread s))"
      using o by (simp add: oversized_def)
    then have "get32 (drop 4 (cn_unread s)) = word_of_nat (length (snd q))" by (simp only: t q frames_simps get32_frame(2))
    moreover have "small (snd q)" "length (snd q) \<le> 65536" using z [of q] q by (simp_all add: small_def)
    ultimately show False using o small_word(2) [of "snd q"] by (simp add: oversized_def)
  qed
  show "d \<in> set ms" if r: "read_frame (cn_unread s) = FFrame i d rest"
  proof -
    have m: "read_frame (frames zs) = FFrame i d (rest @ t)" using read_frame_more [OF r, of t] t by simp
    then obtain q zs' where q: "zs = q # zs'" by (cases zs) auto
    then have "read_frame (frames zs) = FFrame (fst q) (snd q) (frames zs')"
      using read_frame_frame [of "snd q" "fst q" "frames zs'"] z [of q] by simp
    then show ?thesis using m z [of q] q by simp
  qed
  show "\<exists>i d rest. read_frame (cn_unread s) = FFrame i d rest" if a: "cn_arrived s = ct_sent c" "cn_unread s \<noteq> []"
  proof -
    have u: "cn_unread s = frames zs" using l(3) [of "[]"] a(1) by simp
    then obtain q zs' where q: "zs = q # zs'" using a(2) by (cases zs) auto
    then show ?thesis using read_frame_frame [of "snd q" "fst q" "frames zs'"] z [of q] u by auto
  qed
qed

text \<open>The next response the client reads is one to a pending request.\<close>

context ordered_server
begin

lemma next_response:
  assumes "link_ok ans ms (c, s)" and "sendable ans ms" and "ct_reader c = ReadsId" and "4 \<le> length (ct_unread c)"
  shows "get32 (ct_unread c) \<in> pendingRequests (ct_client c)"
proof -
  obtain fs got qs zs ps us where l: "calls_ok ms fs got c" "fs = qs @ zs" "list_all2 (answer_of ans) qs (ps @ cn_responses s)"
      "prefix (cn_written s) (frames (map sent_as ps))" "map sent_as ps = got @ us"
    using link_streams [OF assms(1,2)] by metis
  have r: "ct_arrived c = frames got @ ct_unread c" using l(1) assms(3) by (simp add: calls_ok_def read_ok_def)
  have "prefix (ct_arrived c) (frames (map sent_as ps))" using assms(1) l(4) by (auto simp: link_ok_def intro: prefix_order.trans)
  then have "prefix (ct_unread c) (frames us)" by (simp add: r l(5))
  then obtain t where t: "frames us = ct_unread c @ t" by (auto simp: prefix_def)
  then obtain q us' where q: "us = q # us'" using assms(4) by (cases us) auto
  have "get32 (ct_unread c) = get32 (frames us)" using get32_append [OF assms(4), of t] t by simp
  then have i: "get32 (ct_unread c) = fst q" by (simp only: q frames_simps get32_frame(1))
  have ids: "map fst qs = map fst (got @ q # us') @ map rsp_id (cn_responses s)"
    using answers_ids [OF l(3)] by (simp add: sent_as_def comp_def flip: l(5) [unfolded q])
  have "distinct (map fst fs)" using l(1) by (simp add: calls_ok_def sent_ok_def)
  then have "distinct (map fst qs)" by (simp add: l(2))
  then have "distinct (map fst (got @ q # us') @ map rsp_id (cn_responses s))" unfolding ids .
  then have "fst q \<notin> fst ` set got" by auto
  moreover have "fst q \<in> set (map fst qs)" unfolding ids by simp
  then have "fst q \<in> fst ` set fs" by (auto simp: l(2))
  then have "fst q \<in> entered_ids (ct_callers c)"
    using l(1) handed_entered [of _ "ct_callers c"] unfolding calls_ok_def sent_ok_def by force
  ultimately show ?thesis using l(1) assms(3) by (simp add: i calls_ok_def dealt_ok_def dealt_def)
qed

lemma calm_call:
  assumes "link_ok ans ms (c, s)" and "sendable ans ms" and "calm (c, s)" and "call_step c c'"
  shows "calm (c', s)"
proof -
  have "ct_reader c' \<noteq> ReadsNoMore"
    using assms(4)
  proof (cases rule: call_step.cases)
    case call_read_unknown
    then show ?thesis using next_response [OF assms(1,2)] by blast
  qed (use assms(3) in \<open>simp_all add: calm_def\<close>)
  then show ?thesis using call_step_grows [OF assms(4)] assms(3) by (simp add: calm_def)
qed

end

text \<open>A client that has not read all that has arrived reads on, and one without a stuck caller has them all returned.\<close>

lemma reader_goes_on:
  assumes "calls_ok ms fs got c" and "ct_reader c \<noteq> ReadsNoMore" and "ct_arrived c = frames (got @ q # us)" and "length (snd q) < 2 ^ 32"
  shows "\<exists>c'. call_step c c'"
proof (cases "ct_reader c")
  case ReadsId
  then have "ct_unread c = frames (q # us)" using assms(1,3) by (simp add: calls_ok_def read_ok_def)
  then have "4 \<le> length (ct_unread c)" by (simp add: length_frame)
  then show ?thesis using ReadsId call_read_id call_read_unknown by blast
next
  case (ReadsBody i)
  then have "put32 i @ ct_unread c = frame (fst q) (snd q) @ frames us" using assms(1,3) by (simp add: calls_ok_def read_ok_def)
  from arg_cong [OF this, of "drop 4"] have u: "ct_unread c = put_len (snd q) @ snd q @ frames us" by (simp add: frame_def)
  have "unat (get32 (ct_unread c)) = length (snd q)"
    using assms(4) by (simp add: u put_len_def unat_of_nat take_bit_nat_eq_self)
  moreover have "4 \<le> length (ct_unread c)" "4 + length (snd q) \<le> length (ct_unread c)" by (simp_all add: u put_len_def)
  ultimately show ?thesis using call_read_body [OF ReadsBody] by blast
qed (use assms(2) in simp)

lemma stuck_caller:
  assumes "ct_queue c = []" and "\<not> (\<exists>c'. call_step c c')" and "k < length (ct_callers c)"
  shows "(\<exists>i m. ct_callers c ! k = Waiting i m \<and> ct_responses c i = None) \<or> (\<exists>i m d. ct_callers c ! k = Returned i m d)"
proof (cases "ct_callers c ! k")
  case (Fresh m)
  then show ?thesis using call_number [OF assms(3) _ refl] assms(2) by blast
next
  case (Numbered i m)
  then show ?thesis using call_enter [OF assms(3)] assms(2) by blast
next
  case (Entered i m)
  then show ?thesis using call_queue [OF assms(3)] assms(1,2) by (auto simp: send_capacity_def)
next
  case (Waiting i m)
  then show ?thesis using call_return [OF assms(3)] assms(2) by (cases "ct_responses c i") blast+
qed blast

definition msgs_ok :: "'w tcp_answering \<Rightarrow> (string \<Rightarrow> bool) \<Rightarrow> string list \<Rightarrow> bool" where
  "msgs_ok ans good ms \<longleftrightarrow> sendable ans ms \<and> (\<forall>m \<in> set ms. good m \<and> length m \<le> 65536)"

definition calm_link :: "'w tcp_answering \<Rightarrow> string list \<Rightarrow> link \<Rightarrow> bool" where
  "calm_link ans ms l \<longleftrightarrow> link_ok ans ms l \<and> calm l"

text \<open>A server that answers every request of some kind in every state of some kind.\<close>

locale total_server = ordered_server ans for ans :: "'w tcp_answering" +
  fixes good :: "string \<Rightarrow> bool" and inv :: "'w \<times> sdkServer \<Rightarrow> bool"
  assumes answers: "good m \<Longrightarrow> inv x \<Longrightarrow> \<exists>r x'. ans i m x = (Ret r, x') \<and> inv x'"
    and sent_keeps: "inv (w, y) \<Longrightarrow> inv (w, response_sent r y)"
begin

lemma calm_serve:
  assumes "list_all2 (calm_link ans) mss ls" and "\<forall>ms \<in> set mss. msgs_ok ans good ms" and "inv (w, y)"
    and "tcp_step ans (map snd ls, w, y) (cs, w', y')"
  shows "list_all2 (\<lambda>ms. calm) mss (zip (map fst ls) cs) \<and> inv (w', y')"
proof -
  have at: "link_ok ans (mss ! j) (fst (ls ! j), snd (ls ! j))" "calm (fst (ls ! j), snd (ls ! j))" "msgs_ok ans good (mss ! j)" if "j < length ls" for j
    using assms(1,2) that by (auto simp: list_all2_conv_all_nth calm_link_def)
  have keep: "list_all2 (\<lambda>ms. calm) mss (ls[j := (fst (ls ! j), s')])" if "j < length ls" "calm (fst (ls ! j), s')" for j s'
  proof -
    have "list_all2 (\<lambda>ms. calm) mss ls" using assms(1) by (rule list_all2_mono) (simp add: calm_link_def)
    then show ?thesis using that by (auto intro: list_all2_update)
  qed
  show ?thesis
    using assms(4)
  proof (cases rule: tcp_step.cases)
    case (step_serve j s i d rest r)
    then have j: "j < length ls" "s = snd (ls ! j)" by auto
    have "d \<in> set (mss ! j)"
      using next_request(2) [OF at(1) [OF j(1)], of i d rest] at(2,3) [OF j(1)] step_serve j(2) by (auto simp: msgs_ok_def calm_def)
    then have "good d" using at(3) [OF j(1)] by (simp add: msgs_ok_def)
    from answers [OF this assms(3), of i] have "inv (w', y')" using step_serve by auto
    moreover have "calm (fst (ls ! j), s\<lparr>cn_unread := rest, cn_responses := cn_responses s @ [r]\<rparr>)"
      using at(2) [OF j(1)] j(2) by (simp add: calm_def)
    ultimately show ?thesis using step_serve keep [OF j(1)] zip_update_snd [OF j(1)] by simp
  next
    case (step_stop j s)
    then have j: "j < length ls" "s = snd (ls ! j)" by auto
    have "\<not> oversized (cn_unread s)" "\<not> cn_ended s"
      using next_request(1) [OF at(1) [OF j(1)]] at(2,3) [OF j(1)] j(2) by (auto simp: msgs_ok_def calm_def)
    then show ?thesis using step_stop by blast
  next
    case (step_write j s r ps)
    then have j: "j < length ls" "s = snd (ls ! j)" by auto
    have "calm (fst (ls ! j), s\<lparr>cn_responses := ps, cn_written := cn_written s @ response_bytes r\<rparr>)"
      using at(2) [OF j(1)] j(2) by (simp add: calm_def)
    then show ?thesis using step_write keep [OF j(1)] zip_update_snd [OF j(1)] sent_keeps [OF assms(3), of r] by simp
  qed
qed

lemma calm_work:
  "exchange_work ans x x' \<Longrightarrow> list_all2 (calm_link ans) mss (fst x) \<Longrightarrow> \<forall>ms \<in> set mss. msgs_ok ans good ms \<Longrightarrow> inv (snd x) \<Longrightarrow>
     list_all2 (calm_link ans) mss (fst x') \<and> inv (snd x')"
proof -
  assume s: "exchange_work ans x x'" and c: "list_all2 (calm_link ans) mss (fst x)" and m: "\<forall>ms \<in> set mss. msgs_ok ans good ms" and i: "inv (snd x)"
  have ok: "list_all2 (link_ok ans) mss (fst x)" and cl: "list_all2 (\<lambda>ms. calm) mss (fst x)"
    using c by (rule list_all2_mono; simp add: calm_link_def)+
  from s have "list_all2 (\<lambda>ms. calm) mss (fst x') \<and> inv (snd x')"
  proof (cases rule: exchange_work.cases)
    case (work_call j ls c s c' w y)
    have "link_ok ans (mss ! j) (c, s)" "calm (c, s)" "sendable ans (mss ! j)"
      using ok cl m work_call by (auto simp: list_all2_conv_all_nth msgs_ok_def)
    then have "calm (c', s)" using calm_call work_call by blast
    then show ?thesis using work_call cl i by (auto intro: list_all2_update)
  next
    case (work_serve ls w y cs w' y')
    then show ?thesis using calm_serve [of mss ls w y cs w' y'] c m i by simp
  next
    case (work_request j ls c s b w y)
    have "calm (c, s)" using cl work_request by (auto simp: list_all2_conv_all_nth)
    then have "calm (c, conn_receives b s)" by (simp add: calm_def conn_receives_def)
    then show ?thesis using work_request cl i by (auto intro: list_all2_update)
  next
    case (work_response j ls c s b w y)
    have "calm (c, s)" using cl work_response by (auto simp: list_all2_conv_all_nth)
    then have "calm (calls_receive b c, s)" by (simp add: calm_def calls_receive_def)
    then show ?thesis using work_response cl i by (auto intro: list_all2_update)
  qed
  then show ?thesis using links_ok_work [OF s ok] by (auto simp: calm_link_def list_all2_conv_all_nth)
qed

lemma stuck_returned:
  assumes "list_all2 (calm_link ans) mss ls" and "\<forall>ms \<in> set mss. msgs_ok ans good ms" and "inv (w, y)"
    and "\<not> (\<exists>x'. exchange_work ans (ls, w, y) x')" and j: "j < length ls" and "k < length (mss ! j)"
  shows "\<exists>i m d. ct_callers (fst (ls ! j)) ! k = Returned i m d"
proof -
  obtain c s where ls: "ls ! j = (c, s)" by (cases "ls ! j")
  let ?ms = "mss ! j"
  have ok: "link_ok ans ?ms (c, s)" "calm (c, s)" "sendable ans ?ms" "\<forall>m \<in> set ?ms. good m \<and> length m \<le> 65536"
    using assms(1,2) j ls by (auto simp: list_all2_conv_all_nth calm_link_def msgs_ok_def)
  have s: "j < length (map snd ls)" "map snd ls ! j = s" using j ls by simp_all
  have call: "\<not> (\<exists>c'. call_step c c')" using assms(4) work_call [OF j ls, where ans = ans and w = w and y = y] by blast
  have tcp: "\<not> (\<exists>z. tcp_step ans (map snd ls, w, y) z)" using assms(4) work_serve [of ans ls w y] by (metis surj_pair)
  obtain t where t: "ct_sent c = cn_arrived s @ t" using ok(1) by (auto simp: link_ok_def prefix_def)
  have t0: "t = []" using assms(4) work_request [OF j ls, where b = t and ans = ans and w = w and y = y] t by auto
  obtain u where u: "cn_written s = ct_arrived c @ u" using ok(1) by (auto simp: link_ok_def prefix_def)
  have u0: "u = []" using assms(4) work_response [OF j ls, where b = u and ans = ans and w = w and y = y] u by auto
  have r0: "cn_responses s = []" using tcp step_write [OF s, where ans = ans and w = w and y = y] ok(2) by (cases "cn_responses s") (auto simp: calm_def)
  have a0: "cn_unread s = []"
  proof (rule ccontr)
    assume "cn_unread s \<noteq> []"
    then obtain i d rest where r: "read_frame (cn_unread s) = FFrame i d rest"
      using next_request(3) [OF ok(1,3)] ok(2,4) t t0 by (auto simp: calm_def)
    then have "good d" using next_request(2) [OF ok(1,3)] ok(2,4) by (auto simp: calm_def)
    from answers [OF this assms(3), of i] obtain q w' y' where a: "ans i d (w, y) = (Ret q, (w', y'))" by (metis surj_pair)
    show False using tcp step_serve [OF s _ r, where ans = ans and w = w and y = y] a ok(2) r0 by (auto simp: calm_def response_capacity_def)
  qed
  have q0: "ct_queue c = []"
    using call call_write [of c] ok(2) by (cases "ct_queue c") (auto simp: calm_def)
  obtain fs got qs zs ps us where l: "calls_ok ?ms fs got c" "fs = qs @ zs" "cn_unread s @ t = frames zs"
      "list_all2 (answer_of ans) qs (ps @ cn_responses s)" "cn_written s = frames (map sent_as ps)" "framed (map sent_as ps)"
      "map sent_as ps = got @ us"
    using link_streams [OF ok(1,3)] ok(2) t unfolding calm_def by (metis fst_conv snd_conv)
  have "zs = []" using l(3) a0 t0 by (cases zs) (auto simp: frame_def)
  moreover have "us = []"
  proof (cases us)
    case (Cons q us')
    then have g: "ct_arrived c = frames (got @ q # us')" "length (snd q) < 2 ^ 32" using l(5-7) u u0 by simp_all
    have "ct_reader c \<noteq> ReadsNoMore" using ok(2) by (simp add: calm_def)
    from reader_goes_on [OF l(1) this g] show ?thesis using call by blast
  qed
  then have "got = map sent_as ps" using l(7) by simp
  ultimately have ids: "map fst fs = map fst got" using answers_ids [OF l(4)] l(2) r0 by (simp add: sent_as_def comp_def)
  have k: "k < length (ct_callers c)" using l(1) assms(6) by (metis calls_ok_def length_map)
  show ?thesis
    using stuck_caller [OF q0 call k]
  proof
    assume "\<exists>i m. ct_callers c ! k = Waiting i m \<and> ct_responses c i = None"
    then obtain i m where w: "ct_callers c ! k = Waiting i m" "ct_responses c i = None" by blast
    then have "Some (i, m) \<in> set (map handed (ct_callers c))" using k by (metis handed.simps(1) length_map nth_map nth_mem)
    then have "(i, m) \<in> set fs" using l(1) q0 by (simp add: calls_ok_def sent_ok_def handed_set_def)
    then have "i \<in> set (map fst fs)" by force
    then have "i \<in> fst ` set got" unfolding ids by simp
    moreover have "dom (ct_responses c) = fst ` set got" using l(1) by (simp add: calls_ok_def dealt_ok_def dealt_def)
    ultimately show ?thesis using w(2) by blast
  qed (simp add: ls)
qed

lemma calm_run:
  assumes "exchange_run ans False x x'" and "list_all2 (calm_link ans) mss (fst x)" and "\<forall>ms \<in> set mss. msgs_ok ans good ms" and "inv (snd x)"
  shows "list_all2 (calm_link ans) mss (fst x') \<and> inv (snd x')"
  using assms
proof (induction rule: exchange_run.induct)
  case (exchange_goes_on y z)
  then show ?case by (blast dest: calm_work)
qed simp_all

lemma calm_new: "\<forall>ms \<in> set mss. length ms < 2 ^ 32 \<Longrightarrow> list_all2 (calm_link ans) mss (new_links mss)"
  using links_ok_new [of mss ans]
  by (auto simp: calm_link_def list_all2_conv_all_nth new_links_def calm_def new_calls_def new_conn_def)

text \<open>So a run that cannot go on has all its calls returned.\<close>

lemma exchange_returns:
  assumes "exchange_run ans False (new_links mss, w, y) (ls, w', y')" and "\<forall>ms \<in> set mss. msgs_ok ans good ms \<and> length ms < 2 ^ 32"
    and "inv (w, y)" and "\<not> (\<exists>x'. exchange_work ans (ls, w', y') x')" and "j < length mss" and "k < length (mss ! j)"
  shows "\<exists>i m d. ct_callers (fst (ls ! j)) ! k = Returned i m d"
proof -
  have "list_all2 (calm_link ans) mss ls \<and> inv (w', y')"
    using calm_run [OF assms(1), of mss] calm_new [of mss] assms(2,3) by simp
  moreover from this have "length mss = length ls" by (blast dest: list_all2_lengthD)
  ultimately show ?thesis using stuck_returned [of mss ls w' y' j k] assms(2,4-6) by simp
qed

end

section \<open>The server of the example answers every message\<close>

lemma GetSelector_returns:
  assumes "\<not> selectorMu w"
  shows "\<exists>p err w'. GetSelector (Some g) n w = (Ret (p, err), w') \<and> \<not> selectorMu w' \<and> (err = None \<longrightarrow> (\<exists>c. selector_at n w' = Some c))"
proof (cases "wSelectors w")
  case None
  note u = GetSelector_def with_mu_def load_selectors_def go_bind_def selector_at_def assms None
  show ?thesis
  proof (cases "st_GetSelectors g")
    case (Inl e)
    then show ?thesis by (simp add: u)
  next
    case (Inr m)
    then show ?thesis by (cases "m n") (simp_all add: u)
  qed
next
  case (Some m)
  then show ?thesis using GetSelector_eq [OF assms Some, of "Some g" n] assms by (auto simp: selector_at_def)
qed

lemma check_direct_returns: "\<exists>ok t'. check_direct (Some g) sel hs e t = (Ret ok, t')"
  by (auto simp: check_direct_def Refresh_def Let_def go_bind_def split: prod.splits option.splits)

lemma OnRequestReceived_returns:
  assumes "\<not> selectorMu w"
  shows "\<exists>a w' y'. OnRequestReceived status_text (Some g) hs (w, y) = (Ret a, (w', y')) \<and> \<not> selectorMu w'"
proof (cases "hs ''yapr-strategy''")
  case None
  then show ?thesis using assms by (simp add: OnRequestReceived_errors(1))
next
  case (Some strategy)
  obtain p err w' where g: "GetSelector (Some g) (hget hs ''yapr-selector'') w = (Ret (p, err), w')" "\<not> selectorMu w'"
      "err = None \<longrightarrow> (\<exists>c. selector_at (hget hs ''yapr-selector'') w' = Some c)"
    using GetSelector_returns [OF assms] by blast
  show ?thesis
  proof (cases err)
    case (Some e)
    then show ?thesis using g \<open>hs ''yapr-strategy'' = Some strategy\<close> by (simp add: OnRequestReceived_errors(2))
  next
    case None
    then obtain c where c: "selector_at (hget hs ''yapr-selector'') w' = Some c" using g(3) by blast
    obtain ok t where d: "check_direct (Some g) (hget hs ''yapr-selector'') hs (EndpointFromString (hget hs ''yapr-endpoint'')) (routingTable y) = (Ret ok, t)"
      using check_direct_returns by blast
    show ?thesis
      using OnRequestReceived_direct [OF _ g(1) [unfolded None] c d, of status_text]
        OnRequestReceived_other [OF Some _ g(1) [unfolded None] c, of status_text y] Some g(2)
      by (cases "strategy = StrategyDirect") auto
  qed
qed

definition echo_msg :: "string \<Rightarrow> bool" where
  "echo_msg m \<longleftrightarrow> (\<exists>d. small_data d \<and> m = Marshal d)"

definition unlocked :: "('m, 're) world \<times> sdkServer \<Rightarrow> bool" where
  "unlocked x \<longleftrightarrow> \<not> selectorMu (fst x)"

lemma tcp_answer_returns:
  assumes "small_data d" and "unlocked x"
  shows "\<exists>r x'. tcp_answer status_text Errorf (Some g) perm i (Marshal d) x = (Ret r, x') \<and> unlocked x'"
proof -
  obtain w y where x: "x = (w, y)" by (cases x)
  obtain a w' y' where "OnRequestReceived status_text (Some g) (map_of (dHeaders d)) (w, y) = (Ret a, (w', y'))" "\<not> selectorMu w'"
    using OnRequestReceived_returns [of w status_text g "map_of (dHeaders d)" y] assms(2) by (auto simp: x unlocked_def)
  then show ?thesis
    by (cases a) (simp add: tcp_answer_def serve_request_def UnmarshalData_Marshal [OF assms(1)] x go_bind_def go_ret_def Let_def unlocked_def)
qed

interpretation echo_total: total_server "tcp_answer status_text Errorf (Some g) perm" echo_msg unlocked
proof
  show "echo_msg m \<Longrightarrow> unlocked x \<Longrightarrow> \<exists>r x'. tcp_answer status_text Errorf (Some g) perm i m x = (Ret r, x') \<and> unlocked x'" for m x i
    using tcp_answer_returns unfolding echo_msg_def by blast
  show "unlocked (w, y) \<Longrightarrow> unlocked (w, response_sent r y)" for w y r by (simp add: unlocked_def)
qed

text \<open>An answer is the message itself, its headers in any order and with an error or none.\<close>

definition echo_of :: "((string \<times> string) list \<Rightarrow> (string \<times> string) list) \<Rightarrow> tcpData \<Rightarrow> string \<Rightarrow> bool" where
  "echo_of perm d s \<longleftrightarrow> (\<exists>e. s = Marshal (d\<lparr>dErr := e, dHeaders := perm (dHeaders d)\<rparr>))"

lemma tcp_answer_echo:
  assumes "small_data d" and "answer_of (tcp_answer status_text Errorf st perm) (i, Marshal d) r"
  shows "echo_of perm d (rsp_data r)"
  using assms(2)
  by (auto simp: answer_of_def tcp_answer_def serve_request_def UnmarshalData_Marshal [OF assms(1)] go_bind_eq_Ret Let_def echo_of_def)

text \<open>The client's larger payloads are such messages.\<close>

lemma large_payload:
  assumes "sz \<in> {''64KB'', ''128KB''}" and "createData sz = Inr v"
  shows "65536 < length (Marshal \<lparr>dHeaders = hs, dData = v, dErr = None\<rparr>)"
proof -
  have "65536 \<le> length v" using assms by (auto simp: createData_def)
  then show ?thesis by (simp add: Marshal_def)
qed

end
