(* ===== verification/ServerMains.thy ===== *)
theory ServerMains
  imports Startup EchoServer
begin

text \<open>
  The mains of the example servers, from the start of the process to the loop of registrations: the
  stress server (\<open>cmd/example/stress/server\<close>), the one over TCP (\<open>cmd/example/echo-tcp/server\<close>), which
  sets its weights once before, and the echo server (\<open>cmd/example/echo/server\<close>), which sets them in
  every round. The answers to \<open>net.Listen\<close>
  are an argument; flags are the arguments of the mains. A run of a main is the part up to the end of
  the rounds it is given; the requests of the start and those of the rounds are listed apart.
\<close>

section \<open>Starting\<close>

definition server_name :: "int \<Rightarrow> string" where
  "server_name i = ''svr-'' @ Itoa i"

definition listen_addr :: "string \<Rightarrow> u32 \<Rightarrow> string" where
  "listen_addr ip port = ip @ '':'' @ show_nat (unat port)"

text \<open>The first port that cannot be listened on.\<close>

fun listen_ports :: "(string \<Rightarrow> go_error option) \<Rightarrow> string \<Rightarrow> u32 list \<Rightarrow> go_error option" where
  "listen_ports listen ip [] = None"
| "listen_ports listen ip (port # ports) =
     (case listen (listen_addr ip port) of Some err \<Rightarrow> Some err | None \<Rightarrow> listen_ports listen ip ports)"

text \<open>The store and the SDK of a process, which the loop goes on with.\<close>

definition server_parts :: "'m process \<Rightarrow> (impl \<times> sdkServer) option" where
  "server_parts p = (case (pr_store p, pr_server p) of (Some s, Some y) \<Rightarrow> Some (s, y) | _ \<Rightarrow> None)"

definition put_parts :: "impl \<times> sdkServer \<Rightarrow> 'm process \<Rightarrow> 'm process" where
  "put_parts x p = p\<lparr>pr_store := Some (fst x), pr_server := Some (snd x)\<rparr>"

fun end_of :: "'a result \<Rightarrow> 'a startup" where
  "end_of (Ret x) = Started x"
| "end_of (Panicked e) = Died e"
| "end_of Blocked = Exited"

text \<open>\<open>Init\<close> and \<open>SetMigrationListener\<close>.\<close>

definition start_server :: "go_error + 're config \<Rightarrow> storeNet \<Rightarrow> string \<Rightarrow> 'm process \<Rightarrow>
    (impl \<times> sdkServer) startup \<times> etcdReq list \<times> 'm process" where
  "start_server cfg net name p =
     (case server_Init cfg net name p of
        (Died e, reqs, p) \<Rightarrow> (Died e, reqs, p)
      | (Exited, reqs, p) \<Rightarrow> (Exited, reqs, p)
      | (Started _, reqs, p) \<Rightarrow>
          (case server_parts p of
             None \<Rightarrow> (Died NilDeref, reqs, p)
           | Some (s, y) \<Rightarrow>
               (let x = (s, SetMigrationListener True y) in (Started x, reqs, put_parts x p))))"

section \<open>The stress server\<close>

text \<open>A port that cannot be listened on ends the process through \<open>logger.Fatalf\<close>.\<close>

definition stress_main :: "go_error + 're config \<Rightarrow> storeNet \<Rightarrow> (string \<Rightarrow> go_error option) \<Rightarrow> string \<Rightarrow> int \<Rightarrow> int \<Rightarrow>
    registerNet list \<Rightarrow> 'm process \<Rightarrow> unit startup \<times> etcdReq list \<times> etcdReq list \<times> 'm process" where
  "stress_main cfg net listen ip i endpointCnt rounds p =
     (case start_server cfg net (server_name i) p of
        (Died e, reqs, p) \<Rightarrow> (Died e, reqs, [], p)
      | (Exited, reqs, p) \<Rightarrow> (Exited, reqs, [], p)
      | (Started x, reqs, p) \<Rightarrow>
          (if listen_ports listen ip (server_ports i endpointCnt) \<noteq> None then (Exited, reqs, [], p)
           else (case keep_registered ''echosvr'' (server_endpoints ip i endpointCnt (snd x)) rounds x of
                   (r, reqs2, x) \<Rightarrow> (end_of r, reqs, reqs2, put_parts x p))))"

text \<open>The goroutine that waits for a signal: the service is deregistered and the process exits.\<close>

definition graceful_stop :: "'m process \<Rightarrow> unit startup \<times> etcdReq list \<times> 'm process" where
  "graceful_stop p =
     (case server_parts p of
        None \<Rightarrow> (Died NilDeref, [], p)
      | Some x \<Rightarrow> (case sdk_UnregisterService ''echosvr'' x of (reqs, x) \<Rightarrow> (Exited, reqs, put_parts x p)))"

section \<open>The server over TCP\<close>

text \<open>Weights that cannot be set panic before anything is registered.\<close>

definition tcp_main :: "'r redis \<Rightarrow> cjson \<Rightarrow> go_error + 're config \<Rightarrow> storeNet \<Rightarrow> (string \<Rightarrow> go_error option) \<Rightarrow> string \<Rightarrow>
    int \<Rightarrow> int \<Rightarrow> int \<Rightarrow> go_error + string \<Rightarrow> go_error option \<Rightarrow> registerNet list \<Rightarrow> 'm process \<times> 'r \<Rightarrow>
    unit startup \<times> etcdReq list \<times> etcdReq list \<times> attributeChangeNTF list \<times> 'm process \<times> 'r" where
  "tcp_main rd cj cfg net listen ip i endpointCnt weight load err rounds = (\<lambda>(p, r).
     case start_server cfg net (server_name i) p of
       (Died e, reqs, p) \<Rightarrow> (Died e, reqs, [], [], p, r)
     | (Exited, reqs, p) \<Rightarrow> (Exited, reqs, [], [], p, r)
     | (Started (s, y), reqs, p) \<Rightarrow>
         (let es = server_endpoints ip i endpointCnt y in
          if listen_ports listen ip (server_ports i endpointCnt) \<noteq> None then (Exited, reqs, [], [], p, r)
          else (case setWeight rd cj load err weight es (s, r) of
              (Panicked e, s, r) \<Rightarrow> (Died e, reqs, [], [], put_parts (s, y) p, r)
            | (Blocked, s, r) \<Rightarrow> (Exited, reqs, [], [], put_parts (s, y) p, r)
            | (Ret ntfs, s, r) \<Rightarrow>
                (case keep_registered ''echosvr'' es rounds (s, y) of
                   (e, reqs2, x) \<Rightarrow> (end_of e, reqs, reqs2, ntfs, put_parts x p, r)))))"

section \<open>The echo server\<close>

text \<open>A round also has the answers of Redis to its calls of \<open>SetEndpointAttribute\<close>.\<close>

record roundNet =
  rd_register :: registerNet
  rd_load :: "go_error + string"
  rd_err :: "go_error option"

fun keep_weighted :: "'r redis \<Rightarrow> cjson \<Rightarrow> int \<Rightarrow> string \<Rightarrow> endpoint list \<Rightarrow> roundNet list \<Rightarrow> (impl \<times> 'r) \<times> sdkServer \<Rightarrow>
    unit result \<times> etcdReq list \<times> attributeChangeNTF list \<times> (impl \<times> 'r) \<times> sdkServer" where
  "keep_weighted rd cj weight n es [] x = (Ret (), [], [], x)"
| "keep_weighted rd cj weight n es (net # nets) ((s, r), y) =
     (case sdk_RegisterService (rd_register net) n es (s, y) of
        (Some err, reqs, s, y) \<Rightarrow> (Panicked (PanicVal err), reqs, [], (s, r), y)
      | (None, reqs, s, y) \<Rightarrow>
          (case setWeight rd cj (rd_load net) (rd_err net) weight es (s, r) of
             (Panicked e, sr) \<Rightarrow> (Panicked e, reqs, [], sr, y)
           | (Blocked, sr) \<Rightarrow> (Blocked, reqs, [], sr, y)
           | (Ret ntfs, (s, r)) \<Rightarrow>
               if nets = [] then (Ret (), reqs, ntfs, (s, r), y)
               else (case sdk_UnregisterService n (s, y) of (reqs2, s, y) \<Rightarrow>
                   (case keep_weighted rd cj weight n es nets ((s, r), y) of
                      (e, reqs3, ntfs2, x) \<Rightarrow> (e, reqs @ reqs2 @ reqs3, ntfs @ ntfs2, x)))))"

text \<open>A port that cannot be listened on panics here.\<close>

definition echo_main :: "'r redis \<Rightarrow> cjson \<Rightarrow> go_error + 're config \<Rightarrow> storeNet \<Rightarrow> (string \<Rightarrow> go_error option) \<Rightarrow> string \<Rightarrow>
    int \<Rightarrow> int \<Rightarrow> int \<Rightarrow> roundNet list \<Rightarrow> 'm process \<times> 'r \<Rightarrow>
    unit startup \<times> etcdReq list \<times> etcdReq list \<times> attributeChangeNTF list \<times> 'm process \<times> 'r" where
  "echo_main rd cj cfg net listen ip i endpointCnt weight rounds = (\<lambda>(p, r).
     case start_server cfg net (server_name i) p of
       (Died e, reqs, p) \<Rightarrow> (Died e, reqs, [], [], p, r)
     | (Exited, reqs, p) \<Rightarrow> (Exited, reqs, [], [], p, r)
     | (Started (s, y), reqs, p) \<Rightarrow>
         (case listen_ports listen ip (server_ports i endpointCnt) of
            Some err \<Rightarrow> (Died (PanicVal err), reqs, [], [], p, r)
          | None \<Rightarrow>
              (case keep_weighted rd cj weight ''echosvr'' (server_endpoints ip i endpointCnt y) rounds ((s, r), y) of
                 (e, reqs2, ntfs, (s, r), y) \<Rightarrow> (end_of e, reqs, reqs2, ntfs, put_parts (s, y) p, r))))"

section \<open>A server that comes up\<close>

lemma server_Init_Started:
  assumes "server_Init cfg net name p = (Started y, reqs, p')" and "pr_server p = None"
  shows "y = new_sdkServer name \<and> pr_store p = None
    \<and> p' = p\<lparr>pr_store := Some (new_impl name), pr_server := Some y, pr_follows := True\<rparr>"
proof -
  obtain u r q where o: "open_store cfg net name p = (Started u, r, q)"
    using assms by (auto simp: server_Init_def split: prod.splits startup.splits)
  then show ?thesis
    using open_store_Started [OF o] assms by (auto simp: server_Init_def Let_def)
qed

lemma listen_ports_ok: "(\<And>a. listen a = None) \<Longrightarrow> listen_ports listen ip ports = None"
  by (induction ports) simp_all

lemma server_name_free: "CHR ''/'' \<notin> set (server_name i)"
  by (simp add: server_name_def Itoa_def show_nat_free)

lemma start_server_Started:
  assumes "start_server cfg net name p = (Started x, reqs, p')" and "pr_server p = None"
  shows "\<exists>y. x = (new_impl name, y) \<and> sv_pod y = name \<and> p' = put_parts x p' \<and> server_parts p' = Some x"
  using assms server_Init_Started [where cfg = cfg and net = net and name = name and p = p]
  by (auto simp: start_server_def server_parts_def put_parts_def SetMigrationListener_def new_sdkServer_def Let_def
      split: prod.splits startup.splits)

lemma server_endpoints_at:
  assumes "1 \<le> i" and "0 \<le> cnt" and "23333 + i * cnt < 2 ^ 32"
  shows "map (\<lambda>e. unat (Port e)) (server_endpoints ip i cnt y) = [nat (23333 + (i - 1) * cnt) ..< nat (23333 + i * cnt)]
    \<and> (\<forall>e \<in> set (server_endpoints ip i cnt y). IP e = ip \<and> Pod e = sv_pod y)"
  using server_ports_unat [OF assms] by (auto simp: server_endpoints_def NewEndpointWithPort_def comp_def)

text \<open>Servers of different numbers on one host take different ports.\<close>

lemma server_ports_disjoint:
  assumes "1 \<le> i" and "i < j" and "0 \<le> cnt" and "23333 + j * cnt < 2 ^ 32"
  shows "set (server_ports i cnt) \<inter> set (server_ports j cnt) = {}"
proof -
  have le: "i * cnt \<le> (j - 1) * cnt" using assms(2,3) by (intro mult_right_mono) simp_all
  have "(j - 1) * cnt \<le> j * cnt" using assms(3) by (intro mult_right_mono) simp_all
  then have i: "23333 + i * cnt < 2 ^ 32" using le assms(4) by linarith
  have "set (map unat (server_ports i cnt)) \<inter> set (map unat (server_ports j cnt)) = {}"
    unfolding server_ports_unat [OF assms(1,3) i] server_ports_unat [OF order_trans [OF assms(1) less_imp_le [OF assms(2)]] assms(3,4)]
    using le by (auto simp: nat_less_iff)
  then show ?thesis by (auto simp: disjoint_iff)
qed

text \<open>Weights are written to Redis only; a server over TCP that can set them goes on as the others do.\<close>

lemma load_script_keeps:
  assumes "load_script sha upd load s = (res, s')" and "\<And>x s. im_pod (upd x s) = im_pod s \<and> serviceToLease (upd x s) = serviceToLease s"
  shows "im_pod s' = im_pod s \<and> serviceToLease s' = serviceToLease s"
  using assms by (auto simp: load_script_def go_bind_def lock_mu_def unlock_mu_def split: if_splits sum.splits outcome.splits prod.splits)

lemma setWeight_keeps:
  "setWeight rd cj load err weight es (s, r) = (res, (s', r')) \<Longrightarrow> im_pod s' = im_pod s \<and> serviceToLease s' = serviceToLease s"
proof (induction es arbitrary: s r res)
  case (Cons e es)
  obtain a s1 r1 where a: "SetEndpointAttribute rd cj load err (Some e) ''echo-weighted''
      \<lparr>Weight = Some (word_of_int weight), RPS = None, Deadline = None\<rparr> (s, r) = (a, (s1, r1))" by (metis surj_pair)
  obtain b s2 where b: "load_script setAttributeSha (\<lambda>x. setAttributeSha_update (\<lambda>_. x)) load s = (b, s2)" by fastforce
  have "im_pod s2 = im_pod s \<and> serviceToLease s2 = serviceToLease s" by (rule load_script_keeps [OF b]) simp
  moreover have "s1 = s2" using a b by (auto simp: SetEndpointAttribute_def split: outcome.splits option.splits)
  ultimately have k: "im_pod s1 = im_pod s \<and> serviceToLease s1 = serviceToLease s" by simp
  show ?case
  proof (cases "s' = s1")
    case False
    then obtain res' where "setWeight rd cj load err weight es (s1, r1) = (res', (s', r'))"
      using Cons.prems a by (auto simp: go_bind_def go_ret_def go_panic_def split: outcome.splits prod.splits option.splits)
    then show ?thesis using Cons.IH k by metis
  qed (use k in simp)
qed (simp add: go_ret_def)

lemma tcp_main_no_weights:
  assumes "start_server cfg net (server_name i) p = (Started (s, y), reqs0, p')" and "\<And>a. listen a = None"
    and "setWeight rd cj load err weight (server_endpoints ip i cnt y) (s, r) = (Panicked e, (s1, r1))"
  shows "tcp_main rd cj cfg net listen ip i cnt weight load err rounds (p, r) = (Died e, reqs0, [], [], put_parts (s1, y) p', r1)"
  using assms listen_ports_ok [of listen, OF assms(2)] by (simp add: tcp_main_def Let_def)

lemma tcp_main_up:
  assumes "start_server cfg net (server_name i) p = (Started (s, y), reqs0, p')" and "pr_server p = None" and "\<And>a. listen a = None"
    and "setWeight rd cj load err weight (server_endpoints ip i cnt y) (s, r) = (Ret ntfs, (s1, r1))"
    and "\<forall>net \<in> set rounds. register_error net = None" and "rounds \<noteq> []"
  shows "\<exists>reqs q. tcp_main rd cj cfg net listen ip i cnt weight load err rounds (p, r) = (Started (), reqs0, reqs, ntfs, q, r1)
    \<and> (\<forall>ds. dirs_after ds (changes_of reqs) ''echosvr'' (server_name i) = Some (server_endpoints ip i cnt y, False))"
proof -
  have "s = new_impl (server_name i)" using start_server_Started [OF assms(1,2)] by auto
  then have s1: "im_pod s1 = server_name i" "serviceToLease s1 ''echosvr'' = None"
    using setWeight_keeps [OF assms(4)] by (simp_all add: new_impl_def)
  obtain reqs s' y' where "keep_registered ''echosvr'' (server_endpoints ip i cnt y) rounds (s1, y) = (Ret (), reqs, s', y')"
      "\<forall>ds. dirs_after ds (changes_of reqs) ''echosvr'' (server_name i) = Some (server_endpoints ip i cnt y, False)"
    using keep_registered_ok [of "''echosvr''", OF _ _ s1(2) assms(5,6), of "server_endpoints ip i cnt y" y] server_name_free [of i] s1(1) by auto
  then show ?thesis
    using assms(1,4) listen_ports_ok [of listen, OF assms(3)] by (simp add: tcp_main_def Let_def)
qed

end
