(* ===== verification/EchoClient.thy ===== *)
theory EchoClient
  imports EchoTcp SdkClient Metrics
begin

text \<open>
  The example clients (\<open>cmd/example/echo/client\<close>, \<open>cmd/example/echo-tcp/client\<close>,
  \<open>cmd/example/stress/client\<close>): the users they play, the connections the client over TCP opens when it
  starts, a request sent past the router, and one measured call. Load generation in parallel is
  left out.
\<close>

section \<open>Users and payloads\<close>

definition player_uids :: "nat \<Rightarrow> string list" where
  "player_uids cnt = map (\<lambda>i. show_nat (1000000 + i)) [0 ..< cnt]"

definition echo_createData :: "string \<Rightarrow> go_error + string" where
  "echo_createData sz =
     (if sz = ''100B'' then Inr (replicate 100 (CHR ''A''))
      else if sz = ''1KB'' then Inr (replicate 1024 (CHR ''A''))
      else if sz = ''10KB'' then Inr (replicate (10 * 1024) (CHR ''A''))
      else if sz = ''64KB'' then Inr (replicate (64 * 1024) (CHR ''A''))
      else if sz = ''128KB'' then Inr (replicate (128 * 1024) (CHR ''A''))
      else Inl (ErrText ''size should be 100B 1KB 10KB 64KB 128KB''))"

lemma player_uids_distinct: "distinct (player_uids cnt) \<and> length (player_uids cnt) = cnt"
  by (simp add: player_uids_def distinct_map inj_on_def)

section \<open>The connections over TCP\<close>

text \<open>One connection per address of the endpoints there are when the client starts; a failed dial panics.\<close>

definition tcp_addr :: "endpoint \<Rightarrow> string" where
  "tcp_addr e = IP e @ '':'' @ show_nat (unat (Port e))"

fun connect_endpoints :: "(string \<Rightarrow> go_error option) \<Rightarrow> endpoint list \<Rightarrow> (string \<rightharpoonup> tcpClient) \<Rightarrow> (string \<rightharpoonup> tcpClient) result" where
  "connect_endpoints dial [] m = Ret m"
| "connect_endpoints dial (e # es) m =
     (case dial (tcp_addr e) of
        Some err \<Rightarrow> Panicked (PanicVal err)
      | None \<Rightarrow> connect_endpoints dial es (m(tcp_addr e \<mapsto> NewClient)))"

text \<open>\<open>SendDirect\<close>: the number and the bytes that go to the server, or nothing.\<close>

definition SendDirect :: "string \<Rightarrow> string \<Rightarrow> string \<Rightarrow> (string \<rightharpoonup> tcpClient) \<Rightarrow>
    (u32 \<times> string) option \<times> (string \<rightharpoonup> tcpClient)" where
  "SendDirect target uid dat m =
     (case m target of
        None \<Rightarrow> (None, m)
      | Some c \<Rightarrow>
          (case client_Send (Marshal \<lparr>dHeaders = [(''x-uid'', uid)], dData = dat, dErr = None\<rparr>) c of
             (sent, c') \<Rightarrow> (Some sent, m(target \<mapsto> c'))))"

section \<open>Measured calls\<close>

text \<open>What the loop of a client does around a call that takes \<open>d\<close>.\<close>

definition measured_call :: "string \<Rightarrow> 'd \<Rightarrow> ('s, go_error, 'a) go \<Rightarrow> ('s \<times> 'd metrics, go_error, 'a) go" where
  "measured_call name d f = (\<lambda>(s, mt).
     case f s of
       (Panicked p, s) \<Rightarrow> (Panicked p, (s, mt))
     | (Blocked, s) \<Rightarrow> (Blocked, (s, mt))
     | (Ret a, s) \<Rightarrow>
         (case go_bind (measure_now (ObserveRequestDuration ''echo'' d))
                 (\<lambda>_. measure_now (IncRequestTotal name ''echo/Echo'')) mt of
            (Ret _, mt) \<Rightarrow> (Ret a, (s, mt))
          | (Panicked p, mt) \<Rightarrow> (Panicked p, (s, mt))
          | (Blocked, mt) \<Rightarrow> (Blocked, (s, mt))))"

text \<open>A call of the echo client: fresh outgoing metadata with the user, through the interceptor of the SDK.\<close>

definition echo_round :: "(go_error \<Rightarrow> string option) \<Rightarrow> 're storeOps option \<Rightarrow>
    (metadata option \<Rightarrow> (('m, 're, metadata option \<times> 'x) client, go_error, go_error option) go) \<Rightarrow> string \<Rightarrow> 'd \<Rightarrow> string \<Rightarrow>
    (('m, 're, metadata option \<times> 'x) client \<times> 'd metrics, go_error, go_error option) go" where
  "echo_round fe st invoker name d uid =
     measured_call name d (\<lambda>(w, (_, x)). GRPCClientInterceptor fe st invoker (w, (Some [''x-uid'' \<mapsto> [uid]], x)))"

section \<open>The stress client\<close>

text \<open>A call of the stress client is routed and not sent: its request sender returns nil.\<close>

definition stress_target :: "string \<Rightarrow> matchTarget" where
  "stress_target uid = \<lparr>URI = ''/Echo'', TPort = 9090, Headers = [''x-uid'' \<mapsto> uid], Timeout = False\<rparr>"

definition stress_call :: "'m env \<Rightarrow> 'm builders \<Rightarrow> 're regexEngine \<Rightarrow> (go_error \<Rightarrow> string option) \<Rightarrow> 're storeOps option \<Rightarrow>
    routeInput \<Rightarrow> string \<Rightarrow> (('m, 're, headers option \<times> 'x) client, go_error, go_error option) go" where
  "stress_call env bs eng fe st inp uid =
     Invoke env bs eng fe st inp (stress_target uid) ''echo'' (\<lambda>n e port hs. go_ret None)"

definition stress_round :: "'m env \<Rightarrow> 'm builders \<Rightarrow> 're regexEngine \<Rightarrow> (go_error \<Rightarrow> string option) \<Rightarrow> 're storeOps option \<Rightarrow>
    routeInput \<Rightarrow> string \<Rightarrow> 'd \<Rightarrow> string \<Rightarrow>
    (('m, 're, headers option \<times> 'x) client \<times> 'd metrics, go_error, go_error option) go" where
  "stress_round env bs eng fe st inp name d uid = measured_call name d (stress_call env bs eng fe st inp uid)"

text \<open>It fails exactly when there is no route, with the error of the router, and it never retries.\<close>

lemma stress_call_eq:
  assumes "client_route env bs eng st inp (stress_target uid) ''echo'' w = (Ret (n, e, port, hs, err), w')"
  shows "stress_call env bs eng fe st inp uid (w, (hs0, x)) = (Ret err, (w', (hs, x)))"
  using assms
  by (cases err) (simp_all add: stress_call_def Invoke_def go_bind_def on_world_def put_headers_def invoke_def go_ret_def
      numeral_3_eq_3)

section \<open>What is connected, and what a request past the router meets\<close>

lemma connect_endpoints_dom:
  "connect_endpoints dial es m = Ret m' \<Longrightarrow> dom m' = dom m \<union> tcp_addr ` set es"
  by (induction es arbitrary: m) (auto split: option.splits)

lemma connect_endpoints_ok: "(\<And>a. dial a = None) \<Longrightarrow> \<exists>m'. connect_endpoints dial es m = Ret m'"
  by (induction es arbitrary: m) auto

text \<open>An endpoint that appears later has no connection, and the request sender panics.\<close>

lemma late_endpoint_panics:
  assumes "connect_endpoints dial es Map.empty = Ret m" and "Port e = port" and "tcp_addr e \<notin> tcp_addr ` set es"
  shows "tcp_request (dom m) uid dat perm e port hs = Panicked (PanicMsg ''client not found'')"
  using connect_endpoints_dom [OF assms(1)] assms(2,3) by (simp add: tcp_request_def tcp_addr_def Let_def)

text \<open>The server answers a request without the headers of the router with an error.\<close>

lemma direct_request_refused:
  assumes "small uid" and "small dat"
  shows "\<exists>r. serve_request status_text Errorf st perm i (Marshal \<lparr>dHeaders = [(''x-uid'', uid)], dData = dat, dErr = None\<rparr>) (w, y) =
      (Ret (r, None), (w, y)) \<and> rsp_sent r = None
    \<and> rsp_data r = Marshal \<lparr>dHeaders = perm [(''x-uid'', uid)], dData = dat, dErr = Some (ErrCode ErrInvalidMetadata)\<rparr>"
proof -
  let ?d = "\<lparr>dHeaders = [(''x-uid'', uid)], dData = dat, dErr = None\<rparr>"
  have "small_data ?d" using assms by (simp add: small_data_def small_def)
  from UnmarshalData_Marshal [OF this, of Errorf]
  have u: "UnmarshalData Errorf (Marshal ?d) = Ret ?d" by (simp add: carried_error_def)
  have "OnRequestReceived status_text st (map_of (dHeaders ?d)) (w, y) = (Ret (None, Some (ErrCode ErrInvalidMetadata)), (w, y))"
    by (rule OnRequestReceived_errors(1)) simp
  then show ?thesis by (simp add: serve_request_def u Let_def)
qed

end
