(* ===== verification/ClientMains.thy ===== *)
theory ClientMains
  imports EchoClient
begin

text \<open>
  The goroutines that generate the load of the example clients (\<open>cmd/example/echo/client\<close>,
  \<open>cmd/example/echo-tcp/client\<close>, \<open>cmd/example/stress/client\<close>): each makes its share of the requests,
  one after the other. The draws of random numbers and the durations are arguments, one of each per
  round. How the goroutines interleave is left out; what happens on a connection is in \<open>TcpCalls\<close>.
\<close>

section \<open>Rounds\<close>

text \<open>The share of a goroutine, \<open>totalReq / concurrency\<close>; there is none when \<open>concurrency\<close> is not positive.\<close>

definition maxJ :: "int \<Rightarrow> int \<Rightarrow> nat" where
  "maxJ totalReq concurrency = nat (totalReq div concurrency)"

text \<open>A round is a call whose result is dropped; a panic ends the goroutine, and the process.\<close>

fun rounds_from :: "(nat \<Rightarrow> ('s, go_error, 'a) go) \<Rightarrow> nat \<Rightarrow> nat \<Rightarrow> ('s, go_error, unit) go" where
  "rounds_from round j 0 = go_ret ()"
| "rounds_from round j (Suc n) = go_bind (round j) (\<lambda>_. rounds_from round (Suc j) n)"

definition pick_user :: "string list \<Rightarrow> nat \<Rightarrow> string result" where
  "pick_user uids k = nth_go uids k"

text \<open>\<open>rand.Intn\<close> of zero panics.\<close>

definition Intn :: "nat \<Rightarrow> nat \<Rightarrow> nat result" where
  "Intn draw n = (if n = 0 then Panicked (PanicMsg ''invalid argument to Intn'') else Ret (draw mod n))"

definition with_user :: "string list \<Rightarrow> nat \<Rightarrow> (string \<Rightarrow> ('s, go_error, 'a) go) \<Rightarrow> ('s, go_error, 'a) go" where
  "with_user uids draw f = (\<lambda>s.
     case out_bind (Intn draw (length uids)) (\<lambda>k. pick_user uids k) of
       Ret uid \<Rightarrow> f uid s
     | Panicked p \<Rightarrow> (Panicked p, s)
     | Blocked \<Rightarrow> (Blocked, s))"

section \<open>The stress client\<close>

definition stress_goroutine :: "'m env \<Rightarrow> 'm builders \<Rightarrow> 're regexEngine \<Rightarrow> (go_error \<Rightarrow> string option) \<Rightarrow> 're storeOps option \<Rightarrow>
    string \<Rightarrow> int \<Rightarrow> int \<Rightarrow> (nat \<Rightarrow> nat) \<Rightarrow> (nat \<Rightarrow> routeInput) \<Rightarrow> (nat \<Rightarrow> 'd) \<Rightarrow>
    (('m, 're, headers option \<times> 'x) client \<times> 'd metrics, go_error, unit) go" where
  "stress_goroutine env bs eng fe st name totalReq concurrency draw inp d =
     rounds_from (\<lambda>j. with_user (player_uids 1000) (draw j) (stress_round env bs eng fe st (inp j) name (d j)))
       0 (maxJ totalReq concurrency)"

section \<open>The echo client\<close>

text \<open>
  Goroutine \<open>i\<close> calls over connection \<open>i % len(clients)\<close>, which panics when there is none; \<open>call\<close> is
  what gRPC does with a call of \<open>Echo\<close> on a connection. A wrong size of data ends the goroutine.
\<close>

definition echo_goroutine :: "(go_error \<Rightarrow> string option) \<Rightarrow> 're storeOps option \<Rightarrow>
    (nat \<Rightarrow> string \<Rightarrow> metadata option \<Rightarrow> (('m, 're, metadata option \<times> 'x) client, go_error, go_error option) go) \<Rightarrow>
    nat \<Rightarrow> string \<Rightarrow> string \<Rightarrow> int \<Rightarrow> int \<Rightarrow> (nat \<Rightarrow> nat) \<Rightarrow> (nat \<Rightarrow> 'd) \<Rightarrow> nat \<Rightarrow>
    (('m, 're, metadata option \<times> 'x) client \<times> 'd metrics, go_error, unit) go" where
  "echo_goroutine fe st call conns dataSize name totalReq concurrency draw d i =
     (if conns = 0 then go_panic DivZero
      else (case echo_createData dataSize of
          Inl err \<Rightarrow> go_ret ()
        | Inr v \<Rightarrow>
            rounds_from (\<lambda>j. with_user (player_uids 5) (draw j) (echo_round fe st (call (i mod conns) v) name (d j)))
              0 (maxJ totalReq concurrency)))"

section \<open>The client over TCP\<close>

text \<open>
  The \<open>requestSender\<close> hands the request to the connection and waits for the response, which it does
  not look at; \<open>ord\<close> is the order in which \<open>Marshal\<close> visits the headers.
\<close>

definition tcp_sender :: "string \<Rightarrow> string \<Rightarrow> (headers \<Rightarrow> (string \<times> string) list) \<Rightarrow>
    ('m, 're, headers option \<times> (string \<rightharpoonup> tcpClient)) requestSender" where
  "tcp_sender uid dat ord n e port hs = (\<lambda>(w, (h, m)).
     case e of
       None \<Rightarrow> (Panicked NilDeref, (w, (h, m)))
     | Some e \<Rightarrow>
         (let addr = IP e @ '':'' @ show_nat (unat port) in
          case m addr of
            None \<Rightarrow> (Panicked (PanicMsg ''client not found''), (w, (h, m)))
          | Some c \<Rightarrow>
              (case hs of
                 None \<Rightarrow> (Panicked (PanicMsg ''assignment to entry in nil map''), (w, (h, m)))
               | Some hs \<Rightarrow>
                   (let hs = hs(''x-uid'' \<mapsto> uid) in
                    (Ret None, (w, (Some hs, m(addr \<mapsto> snd (client_Send (Marshal \<lparr>dHeaders = ord hs, dData = dat, dErr = None\<rparr>) c)))))))))"

definition tcp_target :: "string \<Rightarrow> matchTarget" where
  "tcp_target uid = \<lparr>URI = ''/Echo'', TPort = 9090, Headers = [''x-uid'' \<mapsto> uid], Timeout = False\<rparr>"

definition tcp_Send :: "'m env \<Rightarrow> 'm builders \<Rightarrow> 're regexEngine \<Rightarrow> (go_error \<Rightarrow> string option) \<Rightarrow> 're storeOps option \<Rightarrow>
    (headers \<Rightarrow> (string \<times> string) list) \<Rightarrow> routeInput \<Rightarrow> string \<Rightarrow> string \<Rightarrow>
    (('m, 're, headers option \<times> (string \<rightharpoonup> tcpClient)) client, go_error, go_error option) go" where
  "tcp_Send env bs eng fe st ord inp dat uid =
     Invoke env bs eng fe st inp (tcp_target uid) ''echo'' (tcp_sender uid dat ord)"

text \<open>Past the router, to one of the addresses the client found when it started.\<close>

definition tcp_direct :: "string list \<Rightarrow> nat \<Rightarrow> string \<Rightarrow> string \<Rightarrow>
    (('m, 're, headers option \<times> (string \<rightharpoonup> tcpClient)) client, go_error, go_error option) go" where
  "tcp_direct addrs draw dat uid = (\<lambda>(w, (h, m)).
     case out_bind (Intn draw (length addrs)) (\<lambda>k. nth_go addrs k) of
       Ret target \<Rightarrow> (Ret None, (w, (h, snd (SendDirect target uid dat m))))
     | Panicked p \<Rightarrow> (Panicked p, (w, (h, m)))
     | Blocked \<Rightarrow> (Blocked, (w, (h, m))))"

definition tcp_goroutine :: "'m env \<Rightarrow> 'm builders \<Rightarrow> 're regexEngine \<Rightarrow> (go_error \<Rightarrow> string option) \<Rightarrow> 're storeOps option \<Rightarrow>
    (headers \<Rightarrow> (string \<times> string) list) \<Rightarrow> bool \<Rightarrow> string list \<Rightarrow> string \<Rightarrow> string \<Rightarrow> int \<Rightarrow> int \<Rightarrow>
    (nat \<Rightarrow> nat) \<Rightarrow> (nat \<Rightarrow> nat) \<Rightarrow> (nat \<Rightarrow> routeInput) \<Rightarrow> (nat \<Rightarrow> 'd) \<Rightarrow>
    (('m, 're, headers option \<times> (string \<rightharpoonup> tcpClient)) client \<times> 'd metrics, go_error, unit) go" where
  "tcp_goroutine env bs eng fe st ord useYapr addrs dataSize name totalReq concurrency draw pick inp d =
     (case createData dataSize of
        Inl err \<Rightarrow> go_ret ()
      | Inr v \<Rightarrow>
          rounds_from (\<lambda>j. with_user (player_uids 1000) (draw j) (\<lambda>uid. measured_call name (d j)
              (if useYapr then tcp_Send env bs eng fe st ord (inp j) v uid else tcp_direct addrs (pick j) v uid)))
            0 (maxJ totalReq concurrency))"

section \<open>What the load comes to\<close>

text \<open>
  All goroutines together make at most the requests asked for, and fewer when these cannot be shared
  out evenly; the rate the clients print at the end is computed from the number asked for.
\<close>

lemma total_load:
  assumes "0 < concurrency" and "0 \<le> totalReq"
  shows "concurrency * int (maxJ totalReq concurrency) = totalReq - totalReq mod concurrency"
  using assms by (simp add: maxJ_def pos_imp_zdiv_nonneg_iff minus_mod_eq_mult_div)

lemma with_user_known: "uids \<noteq> [] \<Longrightarrow> with_user uids draw f = f (uids ! (draw mod length uids))"
  by (simp add: with_user_def Intn_def pick_user_def)

text \<open>A goroutine whose rounds return returns, and every round has been measured by two calls of the recorder.\<close>

lemma measured_call_prom:
  assumes "measured_call name d f (s, mt) = (Ret a, (s', mt'))" and "recorder mt = Some RecorderImpl"
  shows "prom mt' = prom mt @ [Observe ''request_duration'' [''echo''] d, Inc ''request_total'' [name, ''echo/Echo'']]
    \<and> recorder mt' = Some RecorderImpl"
  using assms
  by (auto simp: measured_call_def measure_now_def go_bind_def split: prod.splits outcome.splits)

lemma rounds_measured:
  assumes "rounds_from (\<lambda>j. with_user uids (draw j) (\<lambda>uid. measured_call name (d j) (f j uid))) j n (s, mt) = (Ret (), (s', mt'))"
    and "recorder mt = Some RecorderImpl" and "uids \<noteq> []"
  shows "prom mt' = prom mt @ concat (map (\<lambda>j. [Observe ''request_duration'' [''echo''] (d j), Inc ''request_total'' [name, ''echo/Echo'']]) [j ..< j + n])"
  using assms(1,2)
proof (induction n arbitrary: j s mt)
  case (Suc n)
  then obtain a s1 mt1 where r: "measured_call name (d j) (f j (uids ! (draw j mod length uids))) (s, mt) = (Ret a, (s1, mt1))"
      "rounds_from (\<lambda>j. with_user uids (draw j) (\<lambda>uid. measured_call name (d j) (f j uid))) (Suc j) n (s1, mt1) = (Ret (), (s', mt'))"
    by (auto simp: with_user_known [OF assms(3)] go_bind_eq_Ret)
  note m = measured_call_prom [OF r(1) Suc.prems(2)]
  have "[j ..< j + Suc n] = j # [Suc j ..< Suc j + n]" by (simp add: upt_conv_Cons del: upt_Suc)
  then show ?case using Suc.IH [OF r(2)] m by (simp del: upt_Suc)
qed (simp add: go_ret_def)

text \<open>Three ways in which nothing, or not all, is sent.\<close>

lemma wrong_size_sends_nothing:
  assumes "sz \<notin> {''100B'', ''1KB'', ''10KB'', ''64KB'', ''128KB''}"
  shows "tcp_goroutine env bs eng fe st ord useYapr addrs sz name totalReq concurrency draw pick inp d x = (Ret (), x)"
  using assms by (simp add: tcp_goroutine_def createData_def go_ret_def)

lemma no_connection_panics: "echo_goroutine fe st call 0 sz name totalReq concurrency draw d i x = (Panicked DivZero, x)"
  by (simp add: echo_goroutine_def go_panic_def)

lemma no_endpoint_panics: "tcp_direct [] draw dat uid x = (Panicked (PanicMsg ''invalid argument to Intn''), x)"
  by (cases x) (auto simp: tcp_direct_def Intn_def)

text \<open>
  A call over TCP that is routed to an endpoint with a connection sends one message there, with the
  headers of the router and the user, and is never tried again.
\<close>

lemma tcp_Send_once:
  assumes "client_route env bs eng st inp (tcp_target uid) ''echo'' w = (Ret (n, Some e, port, Some hs, None), w')"
    and "m (IP e @ '':'' @ show_nat (unat port)) = Some c"
  shows "tcp_Send env bs eng fe st ord inp dat uid (w, (h0, m)) =
    (Ret None, (w', (Some (hs(''x-uid'' \<mapsto> uid)), m(IP e @ '':'' @ show_nat (unat port) \<mapsto>
       snd (client_Send (Marshal \<lparr>dHeaders = ord (hs(''x-uid'' \<mapsto> uid)), dData = dat, dErr = None\<rparr>) c)))))"
  using assms
  by (simp add: tcp_Send_def Invoke_routed invoke_def put_headers_def tcp_sender_def numeral_3_eq_3 go_bind_def go_ret_def Let_def)

end
