(* ===== verification/EtcdClient.thy ===== *)
theory EtcdClient
  imports Errcode
begin

text \<open>
  \<open>core/store/etcd/client.go\<close>: wrappers of the etcd library. The library's answers are arguments and
  the calls into it are listed. A field of the client that is nil and used panics; nothing in the
  source sets the fields, and \<open>Campaign\<close> does not store the election it makes.
\<close>

section \<open>The client\<close>

datatype etcdCall =
    CNewSession
  | CCampaign string string
  | CLeader string
  | CResign
  | CGrant int
  | CPut string string int
  | CKeepAlive int
  | CWatch string

record etcdClient =
  ec_cli :: bool
  ec_election :: bool
  ec_lease :: bool

definition NewEtcdClient :: "(string list \<times> int \<times> string \<times> string \<Rightarrow> go_error + 'c) \<Rightarrow>
    string list \<times> int \<times> string \<times> string \<Rightarrow> go_error + 'c" where
  "NewEtcdClient new cfg = (case new cfg of Inl err \<Rightarrow> Inl err | Inr client \<Rightarrow> Inr client)"

definition GetClient :: "etcdClient \<Rightarrow> bool" where
  "GetClient c = ec_cli c"

text \<open>Every method returns its result, the calls and the client as it is afterwards.\<close>

definition Campaign :: "go_error option \<Rightarrow> go_error option \<Rightarrow> string \<Rightarrow> string \<Rightarrow> etcdClient \<Rightarrow>
    (go_error option) result \<times> etcdCall list \<times> etcdClient" where
  "Campaign session campaign pre val c =
     (if \<not> ec_cli c then (Panicked NilDeref, [CNewSession], c)
      else case session of
          Some err \<Rightarrow> (Ret (Some err), [CNewSession], c)
        | None \<Rightarrow> (Ret campaign, [CNewSession, CCampaign pre val], c))"

definition Leader :: "go_error option \<Rightarrow> go_error + string list \<Rightarrow> string \<Rightarrow> etcdClient \<Rightarrow>
    (string \<times> go_error option) result \<times> etcdCall list \<times> etcdClient" where
  "Leader session leader pre c =
     (if \<not> ec_cli c then (Panicked NilDeref, [CNewSession], c)
      else case session of
          Some err \<Rightarrow> (Ret ([], Some err), [CNewSession], c)
        | None \<Rightarrow>
            (case leader of
               Inl err \<Rightarrow> (Ret ([], Some err), [CNewSession, CLeader pre], c)
             | Inr kvs \<Rightarrow> (out_bind (nth_go kvs 0) (\<lambda>v. Ret (v, None)), [CNewSession, CLeader pre], c)))"

definition Resign :: "go_error option \<Rightarrow> etcdClient \<Rightarrow> (go_error option) result \<times> etcdCall list \<times> etcdClient" where
  "Resign resign c = (if \<not> ec_election c then (Ret None, [], c) else (Ret resign, [CResign], c))"

definition KeepAlive :: "go_error + int \<Rightarrow> go_error option \<Rightarrow> go_error option \<Rightarrow> string \<Rightarrow> string \<Rightarrow> int \<Rightarrow> etcdClient \<Rightarrow>
    (go_error option) result \<times> etcdCall list \<times> etcdClient" where
  "KeepAlive grant put alive key val ttl c =
     (if \<not> ec_lease c then (Panicked NilDeref, [], c)
      else case grant of
          Inl err \<Rightarrow> (Ret (Some err), [CGrant ttl], c)
        | Inr lease \<Rightarrow>
            if \<not> ec_cli c then (Panicked NilDeref, [CGrant ttl], c)
            else (case put of
                Some err \<Rightarrow> (Ret (Some err), [CGrant ttl, CPut key val lease], c)
              | None \<Rightarrow> (Ret alive, [CGrant ttl, CPut key val lease, CKeepAlive lease], c)))"

definition EtcdWatch :: "string \<Rightarrow> etcdClient \<Rightarrow> unit result \<times> etcdCall list \<times> etcdClient" where
  "EtcdWatch key c = (if \<not> ec_cli c then (Panicked NilDeref, [], c) else (Ret (), [CWatch key], c))"

section \<open>Elections are not resigned\<close>

text \<open>The calls of a run of elections and resignations, with the answers of the library.\<close>

datatype electionOp = DoCampaign "go_error option" "go_error option" string string | DoResign "go_error option"

fun election_run :: "electionOp list \<Rightarrow> etcdClient \<Rightarrow> etcdCall list" where
  "election_run [] c = []"
| "election_run (DoCampaign s a pre val # ops) c =
     (case Campaign s a pre val c of (r, calls, c) \<Rightarrow> calls @ election_run ops c)"
| "election_run (DoResign a # ops) c = (case Resign a c of (r, calls, c) \<Rightarrow> calls @ election_run ops c)"

lemma never_resigned: "\<not> ec_election c \<Longrightarrow> CResign \<notin> set (election_run ops c)"
proof (induction ops arbitrary: c)
  case (Cons q ops)
  then show ?case by (cases q) (auto simp: Campaign_def Resign_def split: option.splits)
qed simp

end
