(* ===== verification/RoutesAlive.thy ===== *)
theory RoutesAlive
  imports SelectorRuns ClusterRouting
begin

text \<open>
  Routing over what a client has read of a cluster: an endpoint that \<open>Route\<close> returns is registered and
  its lease is alive, and for the strategies that do not refuse there is one whenever the service has one.
\<close>

lemma routed_alive:
  assumes "cluster_log im out (seen @ later)" and "has_seen K seen svcs" and "services (wTable w) = Some svcs"
    and "wRouters w rn = Some rt" and "Rules rt = us @ r # vs"
    and "\<forall>u \<in> set us. wf_rule eng u \<and> \<not> rule_matches eng t u" and "wf_rule eng r" and "rule_matches eng t r"
    and "selector_at (RSelector r) w = Some q" and "svc q = None \<or> svc q = Some (Service (raw q))"
    and "selects env bs st inp t (length us) (RSelector r) w (e, h, None) c"
  shows "\<exists>x port hd es. fst (Route env bs eng st inp t rn w) = Ret (Service (raw q), Some x, port, Some hd, None)
    \<and> dirs_of_log seen (Service (raw q)) (Pod x) = Some (es, False) \<and> x \<in> set es"
proof -
  have good: "good_log (seen @ later)" by (rule cluster_log_good [OF assms(1)])
  have copies: "copies_of (dirs_of_log seen) svcs"
    using client_reads_copies [OF assms(2) copies_of_new good_after_prefix [OF good]] by simp
  have sel: "Selector_Select env bs st (ri_sel inp (length us) 0) t \<lparr>rs = q, rtab = wTable w\<rparr> = (Ret (e, h, None), c)"
    using assms(9,11) by (auto simp: selects_def)
  have "well_placed (dirs_of_log seen) \<lparr>rs = q, rtab = wTable w\<rparr>"
    using copies assms(3,10) by (simp add: well_placed_def)
  then obtain x where x: "e = Some x" "x \<in> dir_available (dirs_of_log seen (Service (raw q)))" "raw (rs c) = raw q"
    using Selector_Select_alive [OF sel] by auto
  show ?thesis
    using apply_rule_success [OF assms(11), of "RouterName rt" "Catch r"] Route_first [OF assms(4-8)] x
    by (force simp: dir_available_def)
qed

lemma dir_available_nonempty:
  assumes "implements d s" and "d p = Some (es, False)" and "e \<in> set es"
  shows "e \<in> dir_available d"
proof -
  have "Pod e = p" using assms by (auto simp: implements_def wf_dir_def)
  then show ?thesis using assms(2,3) by (auto simp: dir_available_def)
qed

lemma implements_attribute:
  assumes "implements d s"
  shows "e \<in> endpointsSet s \<Longrightarrow> attrMap s e \<noteq> None"
    and "e \<in> dir_available d \<Longrightarrow> e \<in> set (svEndpoints s) \<and> Available (attribute_of n s e)"
proof -
  show "e \<in> endpointsSet s \<Longrightarrow> attrMap s e \<noteq> None" using assms by (auto simp: implements_def)
next
  assume e: "e \<in> dir_available d"
  then have "e \<in> dir_endpoints d" by (force simp: dir_available_def dir_endpoints_def)
  moreover from this obtain a where "attrMap s e = Some a" using assms by (auto simp: implements_def)
  ultimately show "e \<in> set (svEndpoints s) \<and> Available (attribute_of n s e)"
    using assms e by (auto simp: implements_def attribute_of_def)
qed

text \<open>
  The client has read that a pod is registered with at least one endpoint and alive; the selector is
  without a limit of requests, due, and has not yet seen the last change of the service.
\<close>

lemma selects_alive:
  assumes "implements d s" and "sel_ready env (Service (raw q)) \<lparr>rs = q, rtab = wTable w\<rparr> s"
    and "d p = Some (es, False)" and "es \<noteq> []" and "card (endpointsSet s) < 2 ^ 32"
    and "MaxRequests (raw q) = None" and "treemap_ok (env_treemap env)"
    and "\<not> selectorMu w" and "selector_at sn w = Some q"
    and "since_update (ri_sel inp i 0) \<lparr>rs = q, rtab = wTable w\<rparr>" and "lastVersion q < version (update s)"
    and "strategy_in_use bs \<lparr>rs = q, rtab = wTable w\<rparr> = Some x" and "generous x"
    and "range_order (in_ord (ri_sel inp i 0)) (eligible (Strategy_EndpointFilters x) (raw q) s)"
  shows "\<exists>e h c. selects env bs (Some g) inp t i sn w (Some e, Some h, None) c"
proof -
  let ?r = "\<lparr>rs = q, rtab = wTable w\<rparr>" and ?m = "eligible (Strategy_EndpointFilters x) (raw q) s"
  obtain e where "e \<in> set es" using assms(4) by (cases es) auto
  then have "e \<in> dir_available d" by (rule dir_available_nonempty [OF assms(1,3)])
  then have "?m e = Some (attribute_of (Name (raw q)) s e)"
    using generous_eligible [OF assms(13,6)] implements_attribute(2) [OF assms(1)] by blast
  then have some: "?m \<noteq> Map.empty" by auto
  have lim: "\<forall>e a. ?m e = Some a \<longrightarrow> Available a \<and> below_limit (raw q) a"
    using generous_eligible [OF assms(13,6)] assms(6) by (auto simp: below_limit_def)
  have chk: "\<forall>e \<in> endpointsSet s. checkable (raw q) s e"
    using implements_attribute(1) [OF assms(1)] assms(6) by (auto simp: checkable_def)
  obtain y h c where "Selector_Select env bs (Some g) (ri_sel inp i 0) t ?r = (Ret (Some y, Some h, None), c)"
    using Selector_Select_succeeds [OF assms(7,2,10) _ assms(12,13), of g t] assms(5,11,14) some lim chk by auto
  then show ?thesis using assms(8,9) by (auto simp: selects_def)
qed

end
