(* ===== verification/ProcessGuarantees.thy ===== *)
theory ProcessGuarantees
  imports RoutingGuarantees StoreGuarantees ClusterRouting LateClients Watchers Startup TcpExchange ServerMains ClientMains EtcdClient
    RoutesAlive
begin

text \<open>
  What whole processes guarantee: a client that routes over what it has read of the cluster, the
  configuration a process puts into etcd and another reads, notifications in any order, a server
  that registers again, the custom routes the echo server sets, and the requests in flight of the
  stress server.
\<close>

section \<open>Routing over a cluster\<close>

text \<open>C10: when a client has read any part of what the servers of a cluster do, however their calls and
  the expiries interleave, and routes over the services it has, the first rule that matches and
  selects without an error yields an endpoint that its pod has registered for the service of the
  selector and whose lease is alive in what the client has read.\<close>

theorem cluster_route:
  assumes "cluster_log im out (seen @ later)" and "has_seen K seen svcs" and "services (wTable w) = Some svcs"
    and "wRouters w rn = Some rt" and "Rules rt = us @ r # vs"
    and "\<forall>u \<in> set us. wf_rule eng u \<and> \<not> rule_matches eng t u" and "wf_rule eng r" and "rule_matches eng t r"
    and "selector_at (RSelector r) w = Some q" and "svc q = None \<or> svc q = Some (Service (raw q))"
    and "selects env bs st inp t (length us) (RSelector r) w (e, h, None) c"
  shows "\<exists>x port hd es. fst (Route env bs eng st inp t rn w) = Ret (Service (raw q), Some x, port, Some hd, None)
    \<and> dirs_of_log seen (Service (raw q)) (Pod x) = Some (es, False) \<and> x \<in> set es"
  by (rule routed_alive [OF assms])

definition ex_put :: change where
  "ex_put = (''echosvr'', ChangePut ''svr-1'' [Some ex_e1])"

lemma ex_put_read: "has_seen {''echosvr''} [ex_put] [''echosvr'' \<mapsto> ex_service]"
proof -
  have "on_service_change [] (''echosvr'', ChangePut ''svr-1'' [Some ex_e1]) (new_services {''echosvr''}) =
      Ret [''echosvr'' \<mapsto> ex_service]"
    by (simp add: on_service_change_def change_op_def new_services_def ex_service_def fun_eq_iff)
  from reads_snoc [OF reads_nil _ this] show ?thesis by (simp add: ex_put_def)
qed

text \<open>The run: a pod has registered, the client has read that and not yet that its lease expires.\<close>

theorem cluster_route_witness:
  "\<exists>x port hd. fst (Route ex_env builtin_builders ex_engine (Some (ex_store ex_e1)) ex_routeInput ex_target ''front''
       (ex_world (ex_warm (SRandom \<lparr>rnd_endpoints = [ex_e1]\<rparr>)))) = Ret (''echosvr'', Some x, port, Some hd, None)
     \<and> dirs_of_log [ex_put] ''echosvr'' (Pod x) = Some ([ex_e1], False)"
proof -
  let ?q = "ex_warm (SRandom \<lparr>rnd_endpoints = [ex_e1]\<rparr>)"
  obtain im where log: "cluster_log im (\<lambda>_. []) ([ex_put] @ [(''echosvr'', ChangeTimeout ''svr-1'')])"
    using ex_log_run by (auto simp: ex_log_def ex_put_def)
  obtain h c where "selects ex_env builtin_builders (Some (ex_store ex_e1)) ex_routeInput ex_target 1 ''echo'' (ex_world ?q) (Some ex_e1, h, None) c"
    using ex_warm_selects [OF ex_random] by blast
  then have c: "selects ex_env builtin_builders (Some (ex_store ex_e1)) ex_routeInput ex_target
      (length [ex_rule ''/Other'' []]) (RSelector (ex_rule ''/Echo'' [])) (ex_world ?q) (Some ex_e1, h, None) c"
    by (simp add: ex_rule_def)
  have q: "selector_at (RSelector (ex_rule ''/Echo'' [])) (ex_world ?q) = Some ?q" "svc ?q = Some (Service (raw ?q))"
      "Service (raw ?q) = ''echosvr''"
    by (simp_all add: selector_at_def ex_world_def ex_rule_def ex_warm_def ex_core_def NewCoreSelector_def ex_selector_def)
  have d: "dirs_of_log [ex_put] ''echosvr'' p = Some (es, b) \<Longrightarrow> es = [ex_e1]" for p es b
    by (auto simp: ex_put_def dirs_after_def split: if_splits)
  show ?thesis
    using cluster_route [OF log ex_put_read _ _ _ _ _ _ q(1) disjI2 [OF q(2)] c, of "''front''" ex_router "[]" ex_engine] q(3) d
    by (fastforce simp: ex_world_def ex_table_def ex_router_def)
qed

text \<open>C11: when what the client has read has a pod of the service registered with an endpoint and alive,
  and the selector of the first rule that matches has no limit of requests, uses a strategy that does
  not refuse (random, round robin, least request, least cost) and is due for the last change of the
  service, \<open>Route\<close> returns an endpoint that is registered and alive: a service with a server is reached.\<close>

theorem cluster_route_succeeds:
  assumes "cluster_log im out (seen @ later)" and "has_seen K seen svcs" and "services (wTable w) = Some svcs"
    and "wRouters w rn = Some rt" and "Rules rt = us @ r # vs"
    and "\<forall>u \<in> set us. wf_rule eng u \<and> \<not> rule_matches eng t u" and "wf_rule eng r" and "rule_matches eng t r"
    and "selector_at (RSelector r) w = Some q" and "\<not> selectorMu w"
    and "sel_ready env (Service (raw q)) \<lparr>rs = q, rtab = wTable w\<rparr> s"
    and "dirs_of_log seen (Service (raw q)) p = Some (es, False)" and "es \<noteq> []" and "card (endpointsSet s) < 2 ^ 32"
    and "MaxRequests (raw q) = None" and "treemap_ok (env_treemap env)"
    and "since_update (ri_sel inp (length us) 0) \<lparr>rs = q, rtab = wTable w\<rparr>" and "lastVersion q < version (update s)"
    and "strategy_in_use bs \<lparr>rs = q, rtab = wTable w\<rparr> = Some x" and "generous x"
    and "range_order (in_ord (ri_sel inp (length us) 0)) (eligible (Strategy_EndpointFilters x) (raw q) s)"
  shows "\<exists>y port hd es'. fst (Route env bs eng (Some g) inp t rn w) = Ret (Service (raw q), Some y, port, Some hd, None)
    \<and> dirs_of_log seen (Service (raw q)) (Pod y) = Some (es', False) \<and> y \<in> set es'"
proof -
  have "copies_of (dirs_of_log seen) svcs"
    using client_reads_copies [OF assms(2) copies_of_new good_after_prefix [OF cluster_log_good [OF assms(1)]]] by simp
  then have "implements (dirs_of_log seen (Service (raw q))) s"
    using assms(3,11) by (auto simp: copies_of_def sel_ready_def service_at_def)
  from selects_alive [OF this assms(11-16,10,9,17-21)]
  obtain y h c where "selects env bs (Some g) inp t (length us) (RSelector r) w (Some y, Some h, None) c" by blast
  moreover have "svc q = Some (Service (raw q))" using assms(11) by (simp add: sel_ready_def)
  ultimately show ?thesis using routed_alive [OF assms(1-9)] by blast
qed

text \<open>The run: a selector that has selected nothing yet, after the registration has been read.\<close>

theorem cluster_route_succeeds_witness:
  "\<exists>y port hd es. fst (Route ex_env builtin_builders ex_engine (Some (ex_store ex_e1)) ex_routeInput ex_target ''front''
       (ex_world (ex_core StrategyRandom))) = Ret (''echosvr'', Some y, port, Some hd, None)
     \<and> dirs_of_log [ex_put] ''echosvr'' (Pod y) = Some (es, False) \<and> y \<in> set es"
proof -
  let ?q = "ex_core StrategyRandom"
  obtain im where log: "cluster_log im (\<lambda>_. []) ([ex_put] @ [(''echosvr'', ChangeTimeout ''svr-1'')])"
    using ex_log_run by (auto simp: ex_log_def ex_put_def)
  have r: "\<lparr>rs = ?q, rtab = wTable (ex_world ?q)\<rparr> = ex_receiver ?q" "ri_sel ex_routeInput i k = ex_input" for i k
    by (simp_all add: ex_world_def ex_receiver_def ex_routeInput_def)
  have q: "Service (raw ?q) = ''echosvr''" "MaxRequests (raw ?q) = None" "lastVersion ?q = 0"
      "raw (rs (ex_receiver ?q)) = raw ?q"
    by (simp_all add: ex_core_def NewCoreSelector_def ex_selector_def ex_receiver_def)
  have due: "since_update ex_input (ex_receiver ?q)" "0 < version (update ex_service)"
    using ex_due by (simp_all add: select_due_def)
  have "strategy_in_use builtin_builders (ex_receiver ?q) = Some (SRandom (Random_Build (ex_selector StrategyRandom)))"
    by (rule ex_builder)
  moreover from this have "range_order (in_ord ex_input)
      (eligible (Strategy_EndpointFilters (SRandom (Random_Build (ex_selector StrategyRandom)) :: entry_list strategy)) (raw ?q) ex_service)"
    using ex_due q(4) by (auto simp: select_due_def)
  moreover have "dirs_of_log [ex_put] ''echosvr'' ''svr-1'' = Some ([ex_e1], False)" by (simp add: ex_put_def dirs_after_def)
  moreover have "card (endpointsSet ex_service) < 2 ^ 32" by (simp add: ex_service_eq)
  moreover have "sel_ready ex_env ''echosvr'' (ex_receiver ?q) ex_service" by (rule ex_ready)
  moreover have "services (wTable (ex_world ?q)) = Some [''echosvr'' \<mapsto> ex_service]" "wRouters (ex_world ?q) ''front'' = Some ex_router"
      "Rules ex_router = [ex_rule ''/Other'' []] @ ex_rule ''/Echo'' [] # []" "\<not> selectorMu (ex_world ?q)"
      "selector_at (RSelector (ex_rule ''/Echo'' [])) (ex_world ?q) = Some ?q"
    by (simp_all add: ex_world_def ex_table_def ex_router_def selector_at_def ex_rule_def)
  ultimately show ?thesis
    using cluster_route_succeeds [OF log ex_put_read, of "ex_world ?q" "''front''" ex_router "[ex_rule ''/Other'' []]" "ex_rule ''/Echo'' []"
        "[]" ex_engine ex_target ?q ex_env ex_service "''svr-1''" "[ex_e1]" ex_routeInput builtin_builders
        "SRandom (Random_Build (ex_selector StrategyRandom))" "ex_store ex_e1"] due q r
    by simp
qed

section \<open>Configuration\<close>

text \<open>C29: after a \<open>LoadConfig\<close> whose writes succeed and whose version is newer, \<open>GetSelectors\<close> reads every
  selector of the configuration back with all its fields, the headers sorted, and beside them only the
  selectors that etcd had under other names, which \<open>LoadConfig\<close> does not remove. \<open>GetRouter\<close> reads every
  router back with its rules in their order, their matchers without memos and their handlers with all
  their durations, unless a duration is not finite: such a router is passed over, and its key, like
  those of routers that are not in the configuration, is left as it was.\<close>

theorem config_roundtrip:
  assumes "\<And>k. fail k = None" and "case found of Some v \<Rightarrow> v < ver | None \<Rightarrow> True"
    and "LoadConfig (Inr found) fail ver (config_selectors sels) (config_routers rts) = (err, reqs)"
    and "distinct (map Name sels)" and "\<forall>s \<in> set sels. distinct (map fst (SHeaders s))"
    and "\<forall>n v. kv (''slt/'' @ n) = Some v \<longrightarrow> dec_selector v \<noteq> None"
    and "prefix_response ''slt/'' (etcd_keys reqs kv) response"
    and "distinct (map RouterName rts)" and "\<forall>rt \<in> set rts. storable_router rt"
  shows "\<exists>m. err = None \<and> GetSelectors (Inr response) = Inr m
    \<and> (\<forall>s \<in> set sels. m (Name s) = Some (s\<lparr>SHeaders := sort_key fst (SHeaders s)\<rparr>))
    \<and> (\<forall>n. n \<notin> Name ` set sels \<longrightarrow> m n = Option.bind (kv (''slt/'' @ n)) dec_selector)
    \<and> (\<forall>rt \<in> set rts. finite_router rt \<longrightarrow>
         impl_GetRouter (Inr (etcd_keys reqs kv (''rtr/'' @ RouterName rt))) = Inr (canonical_router rt))
    \<and> (\<forall>n. (\<forall>rt \<in> set rts. RouterName rt = n \<longrightarrow> \<not> finite_router rt) \<longrightarrow>
         etcd_keys reqs kv (''rtr/'' @ n) = kv (''rtr/'' @ n))"
proof (intro exI conjI)
  show "err = None" "GetSelectors (Inr response) = Inr (read_selector sels kv)"
    using LoadConfig_GetSelectors [OF assms(1-7)] by simp_all
  show "\<forall>s \<in> set sels. read_selector sels kv (Name s) = Some (s\<lparr>SHeaders := sort_key fst (SHeaders s)\<rparr>)"
    using read_selector_config [OF assms(4)] by (simp add: canonical_def)
  show "\<forall>n. n \<notin> Name ` set sels \<longrightarrow> read_selector sels kv n = Option.bind (kv (''slt/'' @ n)) dec_selector"
    using read_selector_other by blast
  show "\<forall>rt \<in> set rts. finite_router rt \<longrightarrow>
      impl_GetRouter (Inr (etcd_keys reqs kv (''rtr/'' @ RouterName rt))) = Inr (canonical_router rt)"
    using GetRouter_configured [OF assms(1-3,8)] assms(9) by blast
  show "\<forall>n. (\<forall>rt \<in> set rts. RouterName rt = n \<longrightarrow> \<not> finite_router rt) \<longrightarrow>
      etcd_keys reqs kv (''rtr/'' @ n) = kv (''rtr/'' @ n)"
    using GetRouter_kept [OF assms(1-3,8)] by blast
qed

text \<open>The router of \<open>deploy/example/direct.yaml\<close>, with its limit of 5.0 seconds.\<close>

definition direct_handler :: "string \<Rightarrow> errorHandler" where
  "direct_handler solution =
     \<lparr>Solution = solution, Times = None, Interval = None, HTimeout = None, Message = None, HCode = None\<rparr>"

definition direct_router :: "string router" where
  "direct_router =
     \<lparr>RouterName = ''echo'',
      Rules =
        [\<lparr>Matchers = [(ex_matcher ''.*/Echo'')\<lparr>MPort := 9090\<rparr>], RSelector = ''echo-dir'',
          Catch = [(RuleErrorNoEndpoint, direct_handler SolutionPass),
                   (RuleErrorEndpointUnavailable, (direct_handler SolutionBlock)\<lparr>HTimeout := Some (FNum False (5 * 2 ^ 149))\<rparr>),
                   (RuleErrorDefault, (direct_handler SolutionThrow)\<lparr>Message := Some ''unknown error'', HCode := Some 500\<rparr>)]\<rparr>,
         \<lparr>Matchers = [ex_matcher ''.*/Echo''], RSelector = ''echo-rr'', Catch = []\<rparr>],
      Direct = []\<rparr>"

lemma direct_router_ok: "storable_router direct_router" "finite_router direct_router"
  by (simp_all add: direct_router_def direct_handler_def ex_matcher_def storable_router_def storable_rule_def storable_handler_def
      storable_headers_def finite_router_def finite_handler_def finite_f32_def wf_f32_def rule_consts)

theorem config_roundtrip_witness:
  "\<exists>m reqs. LoadConfig (Inr (Some ''1'')) (\<lambda>_. None) ''2'' (config_selectors [ex_selector ''random'']) (config_routers [direct_router]) = (None, reqs)
     \<and> GetSelectors (Inr [(''slt/echo'', selector_json (ex_selector ''random''))]) = Inr m
     \<and> m ''echo'' = Some (ex_selector ''random'')
     \<and> impl_GetRouter (Inr (etcd_keys reqs Map.empty ''rtr/echo'')) = Inr (canonical_router direct_router)"
proof -
  let ?s = "ex_selector ''random''" and ?r = "[(''slt/echo'', selector_json (ex_selector ''random''))]"
  obtain err reqs where l: "LoadConfig (Inr (Some ''1'')) (\<lambda>_. None) ''2'' (config_selectors [?s]) (config_routers [direct_router]) = (err, reqs)"
    by fastforce
  obtain t where t: "router_json direct_router = Some t"
    using router_json_None [of direct_router] direct_router_ok(2) by auto
  have s: "Name ?s = ''echo''" "SHeaders ?s = []" "RouterName direct_router = ''echo''"
    by (simp_all add: ex_selector_def direct_router_def)
  have "reqs = [EPut ''slt/echo'' (selector_json ?s) None, EPut ''rtr/echo'' t None, EPut ''version'' ''2'' None]"
    using l LoadConfig_ok [where fail = "\<lambda>_. None" and found = "Some ''1''" and ver = "''2''"]
    by (simp add: config_selectors_def config_routers_def s t puts_def List.map_filter_def)
  then have "etcd_keys reqs Map.empty = [''slt/echo'' \<mapsto> selector_json ?s, ''rtr/echo'' \<mapsto> t, ''version'' \<mapsto> ''2'']" by simp
  then have r: "prefix_response ''slt/'' (etcd_keys reqs Map.empty) ?r"
    by (auto simp: prefix_response_def HasPrefix_def)
  show ?thesis
    using config_roundtrip [OF _ _ l _ _ _ r] l direct_router_ok by (auto simp: s)
qed

section \<open>Notifications about attributes\<close>

text \<open>C31: each notification is handled by a goroutine of its own; when no two of them are for the same
  endpoint and selector, the copy of the service does not depend on the order in which they finish.\<close>

theorem attribute_order:
  assumes "mset ms = mset ms'"
    and "\<forall>m \<in> set ms. \<forall>m' \<in> set ms. m = m' \<or> notice_key m = None \<or> notice_key m \<noteq> notice_key m'"
  shows "apply_notices ms s = apply_notices ms' s"
  using assms by (intro apply_notices_perm) blast+

theorem attribute_order_witness:
  "apply_notices [notice ex_e1 ''echo'' zero_attr, notice ex_e2 ''echo'' zero_attr] ex_service =
     apply_notices [notice ex_e2 ''echo'' zero_attr, notice ex_e1 ''echo'' zero_attr] ex_service"
proof -
  have "wf_attr zero_attr" by (simp add: wf_attr_def zero_attr_def)
  then have "notice_key (notice ex_e1 ''echo'' zero_attr) = Some (ex_e1, ''echo'')"
      "notice_key (notice ex_e2 ''echo'' zero_attr) = Some (ex_e2, ''echo'')"
    by (simp_all add: notice_key_def on_attribute_notice)
  then show ?thesis by (intro attribute_order) auto
qed

section \<open>Servers\<close>

text \<open>The loop of a server, which registers, waits until the lease is lost, deregisters and begins
  again: while its registrations succeed it goes on, in the end holds a lease and its endpoints, and a
  reader of its changes has its pod registered with exactly those endpoints and alive, whatever it
  read before; the first registration that fails ends the process with its error.\<close>

theorem server_reregisters:
  assumes "CHR ''/'' \<notin> set n" and "CHR ''/'' \<notin> set (im_pod s)" and "serviceToLease s n = None" and "nets \<noteq> []"
  shows "case find (\<lambda>net. register_error net \<noteq> None) nets of
      None \<Rightarrow> (\<exists>reqs s' y'. keep_registered n es nets (s, y) = (Ret (), reqs, s', y') \<and> serviceToLease s' n \<noteq> None
        \<and> endpointsByService y' n = Some es \<and> set es \<subseteq> sv_endpoints y'
        \<and> (\<forall>ds. dirs_after ds (changes_of reqs) n (im_pod s) = Some (es, False)))
    | Some net \<Rightarrow> (\<exists>reqs x. keep_registered n es nets (s, y) = (Panicked (PanicVal (the (register_error net))), reqs, x))"
proof (cases "find (\<lambda>net. register_error net \<noteq> None) nets")
  case None
  then have "\<forall>net \<in> set nets. register_error net = None" by (auto simp: find_None_iff)
  from keep_registered_ok [OF assms(1-3) this assms(4), of es y] None show ?thesis by simp
next
  case (Some net)
  then obtain err where "register_error net = Some err" by (auto simp: find_Some_iff)
  then show ?thesis using keep_registered_fails [OF assms(3) Some, of err es y] Some by simp
qed

text \<open>The run: the lease is lost once, and the second registration is refused a lease.\<close>

theorem server_reregisters_witness:
  "\<exists>reqs x. keep_registered ''echosvr'' [ex_e1]
      [\<lparr>rn_grant = Inr 7, rn_keepalive = None, rn_put_lease = None, rn_put_data = None\<rparr>,
       \<lparr>rn_grant = Inl (ErrText ''lease refused''), rn_keepalive = None, rn_put_lease = None, rn_put_data = None\<rparr>]
      (new_impl ''svr-1'', new_sdkServer ''svr-1'') = (Panicked (PanicVal (ErrText ''lease refused'')), reqs, x)"
  using server_reregisters [of "''echosvr''" "new_impl ''svr-1''"
      "[\<lparr>rn_grant = Inr 7, rn_keepalive = None, rn_put_lease = None, rn_put_data = None\<rparr>,
       \<lparr>rn_grant = Inl (ErrText ''lease refused''), rn_keepalive = None, rn_put_lease = None, rn_put_data = None\<rparr>]"
      "[ex_e1]" "new_sdkServer ''svr-1''"]
  by (simp add: new_impl_def register_error_def)


definition ex_store_net :: storeNet where
  "ex_store_net = \<lparr>sn_client = (\<lambda>_. None), sn_redis = (\<lambda>_. None), sn_session = None, sn_lock = None, sn_version = Inr None,
     sn_put = (\<lambda>_. None), sn_unlock = None, sn_close = None\<rparr>"

definition ex_config :: "string config" where
  "ex_config =
     \<lparr>cfEtcd = Some \<lparr>ecEndpoints = [''localhost:2379''], ecDialTimeout = 5, ecUsername = [], ecPassword = []\<rparr>,
      cfRedis = Some ''redis://localhost:6379'',
      cfYapr = Some \<lparr>ycVersion = ''1'', ycRouters = [], ycSelectors = [ex_selector ''random'']\<rparr>\<rparr>"


text \<open>C32: the echo handler, asked to set a custom route, leaves the user with a route to its own endpoint
  unless there was a live one that it may not overwrite; it publishes a migration exactly when it
  overwrites, and in every case answers with its name.\<close>

theorem echo_route:
  assumes "redis_ok rd" and "setCustomRouteSha s \<noteq> []" and "paired rd ''echo-dir'' uid r"
    and "rt_err net1 = None" and "rt_err net2 = None" and "1000 \<le> rt_now net1" and "1000 \<le> rt_now net2"
    and "live_route rd (rt_now net1) ''echo-dir'' uid r = map_option endpoint_String cur"
    and "live_route rd (rt_now net2) ''echo-dir'' uid r = map_option endpoint_String cur"
    and "\<forall>x. cur = Some x \<longrightarrow> sep_free x" and "sep_free e"
    and "mdGet m ''x-uid'' = uid # us" and "mdGet m ''set-custom-route'' \<noteq> []" and "recorder mt = Some rc"
  shows "\<exists>sent r' y' mt'. Echo rd net1 net2 name e (Some m) (((s, r), y), mt) =
        (Ret (sent, ''-> '' @ name), (((s, r'), y'), mt'))
    \<and> (if cur \<noteq> None \<and> mdGet m ''overwrite'' = [] then r' = r \<and> y' = y
       else GetCustomRoute rd None ''echo-dir'' uid r' = (Some e, None))
    \<and> length sent = (if cur \<noteq> None \<and> mdGet m ''overwrite'' \<noteq> [] then 1 else 0)"
proof -
  note set_route = echo_set_route_eq [OF assms(2-10,12,13), of e y]
  have stored: "GetCustomRoute rd None ''echo-dir'' uid (store_route rd now ''echo-dir'' uid (endpoint_String e) 0 r) = (Some e, None)" for now
    by (rule GetCustomRoute_stored [OF assms(1,11)])
  obtain mt' where mt': "measure_now (IncRequestTotal name ''echo/Echo'') mt = (Ret (), mt')"
    using assms(14) by (cases rc) (simp_all add: measure_now_def)
  show ?thesis
    using set_route stored mt' by (cases cur) (auto simp: Echo_def)
qed

definition ex_echo_redis :: "string \<times> string \<Rightarrow> string option" where
  "ex_echo_redis = store_route map_redis 5000 ''echo-dir'' ''7'' (endpoint_String ex_e1) 0 Map.empty"

definition ex_metadata :: "string \<rightharpoonup> string list" where
  "ex_metadata = [''x-uid'' \<mapsto> [''7''], ''set-custom-route'' \<mapsto> [''1''], ''overwrite'' \<mapsto> [''1'']]"

theorem echo_route_witness:
  "\<exists>sent r' y' mt'. Echo map_redis \<lparr>rt_load = Inr [], rt_err = None, rt_now = 6000\<rparr> \<lparr>rt_load = Inr [], rt_err = None, rt_now = 6001\<rparr>
        ''svr-2'' ex_e2 (Some ex_metadata)
        (((ex_impl, ex_echo_redis), new_sdkServer ''svr-2''), \<lparr>recorder = Some RecorderMock, prom = [] :: nat promCall list\<rparr>) =
        (Ret (sent, ''-> svr-2''), (((ex_impl, r'), y'), mt'))
     \<and> GetCustomRoute map_redis None ''echo-dir'' ''7'' r' = (Some ex_e2, None) \<and> length sent = 1"
proof -
  let ?net = "\<lambda>t. \<lparr>rt_load = Inr [], rt_err = None, rt_now = t\<rparr> :: routeNet"
  have p: "paired map_redis ''echo-dir'' ''7'' ex_echo_redis"
    unfolding ex_echo_redis_def by (rule paired_store [OF map_redis_ok]) (simp add: paired_def map_redis_def)
  have l: "live_route map_redis now ''echo-dir'' ''7'' ex_echo_redis = map_option endpoint_String (Some ex_e1)" for now
    unfolding ex_echo_redis_def by (subst live_store [OF map_redis_ok]) (simp_all add: int64_range_def)
  show ?thesis
    using echo_route [OF map_redis_ok ex_impl_sha p _ _ _ _ l l, of "?net 6000" "?net 6001" ex_e2 ex_metadata "[]"
        "\<lparr>recorder = Some RecorderMock, prom = [] :: nat promCall list\<rparr>" RecorderMock "''svr-2''" "new_sdkServer ''svr-2''"]
    by (simp add: mdGet_def ex_metadata_def)
qed




text \<open>The run: one that has ended, of a client with one call.\<close>

definition ex_echo :: tcpData where
  "ex_echo = \<lparr>dHeaders = [(''x-uid'', ''7'')], dData = [], dErr = None\<rparr>"

lemma ex_echo_small: "small_data ex_echo" "length (Marshal ex_echo) \<le> 65536"
  by (simp_all add: ex_echo_def small_data_def small_def Marshal_def put_len_def)

lemma ex_echo_sendable: "sendable (tcp_answer (\<lambda>_ _. []) (\<lambda>_. []) (Some (ex_store ex_e1)) (\<lambda>hs. hs)) [Marshal ex_echo]"
  (is "sendable ?ans _")
proof -
  have s: "small ''7''" "small ([] :: string)" by (simp_all add: small_def)
  have "length (Error ErrInvalidMetadata) < 1000" by code_simp
  then have l: "length (Marshal (ex_echo\<lparr>dErr := Some (ErrCode ErrInvalidMetadata)\<rparr>)) < 2 ^ 32"
    by (simp add: Marshal_def ex_echo_def put_len_def)
  have "length (rsp_data r) < 2 ^ 32" if q: "answer_of ?ans (i, Marshal ex_echo) r" for i r
  proof -
    obtain w y x' where a: "?ans i (Marshal ex_echo) (w, y) = (Ret r, x')" using q by (auto simp: answer_of_def)
    have "rsp_data r = Marshal (ex_echo\<lparr>dErr := Some (ErrCode ErrInvalidMetadata)\<rparr>)"
      using a direct_request_refused [OF s, of "\<lambda>_ _. []" "\<lambda>_. []" "Some (ex_store ex_e1)" "\<lambda>hs. hs" i w y]
      by (auto simp: tcp_answer_def go_bind_def go_ret_def ex_echo_def simp del: Marshal_def)
    then show ?thesis using l by simp
  qed
  then show ?thesis using ex_echo_small(2) by (simp add: sendable_def)
qed


text \<open>Whatever a connection of the stress server receives, it leaves the number of requests in flight
  under every key as it was, or one request is left counted for ever, and then a write of an answer
  has failed.\<close>

theorem stress_in_flight:
  "\<exists>leak. (\<forall>key. in_flight (snd (snd (snd (stress_loop status_text Errorf st perm written 0 s (w, y))))) key =
      in_flight y key + counted leak key) \<and> (leak = None \<or> (\<exists>j. \<not> written j))"
  using stress_loop_in_flight [of status_text Errorf st perm written 0 s w y] by blast

theorem stress_in_flight_witness:
  "in_flight (snd (snd (snd (stress_loop (\<lambda>_ _. []) (\<lambda>_. []) (Some (ex_store ex_e1)) (\<lambda>hs. hs) (\<lambda>_. True) 0
      (put_len (Marshal \<lparr>dHeaders = [(''x-uid'', ''7'')], dData = [], dErr = None\<rparr>)
         @ Marshal \<lparr>dHeaders = [(''x-uid'', ''7'')], dData = [], dErr = None\<rparr>)
      (ex_world (ex_core StrategyRandom), new_sdkServer ''svr-1''))))) ''echo'' = 0"
proof -
  have "in_flight (new_sdkServer ''svr-1'') ''echo'' = 0" by (simp add: in_flight_def new_sdkServer_def)
  then show ?thesis
    using stress_in_flight [of "\<lambda>_ _. []" "\<lambda>_. []" "Some (ex_store ex_e1)" "\<lambda>hs. hs" "\<lambda>_. True"
        "put_len (Marshal \<lparr>dHeaders = [(''x-uid'', ''7'')], dData = [], dErr = None\<rparr>)
         @ Marshal \<lparr>dHeaders = [(''x-uid'', ''7'')], dData = [], dErr = None\<rparr>"
        "ex_world (ex_core StrategyRandom)" "new_sdkServer ''svr-1''"]
    by (auto simp del: Marshal_def)
qed

end
