(* ===== verification/Spec2Isabelle.thy ===== *)
theory Spec2Isabelle
  imports RoutingGuarantees StrategyGuarantees StoreGuarantees ClusterGuarantees TransportGuarantees
    ProcessGuarantees
begin

text \<open>
  YAPR, a client-side router for services whose servers come and go (paths are under
  \<open>src/pkg/yapr/core\<close> unless they start with \<open>cmd\<close>).

  A process that calls a service asks a \<open>router\<close> (\<open>router.go\<close>) for an endpoint: the router's rules
  match the method, the port and the headers of the call, the first rule that matches names a
  \<open>selector\<close> (\<open>selector.go\<close>), and the selector asks its strategy (\<open>strategy/impl\<close>) to pick one of the
  endpoints of its service (\<open>types/service.go\<close>, \<open>service.go\<close>). A \<open>direct\<close> strategy looks up a custom
  route, a binding of a header value to an endpoint, through a cache (\<open>strategy/impl/cache\<close>).
  Routers, selectors, services and custom routes live in a store, etcd and Redis
  (\<open>store/impl/impl.go\<close>), which notifies every process of changes. A server process
  (\<open>sdk/server\<close>) registers its endpoints, checks that the requests it gets are its own, counts the
  requests in flight and reports them as attributes of its endpoints; it moves custom routes and
  tells the others by messages. A client process (\<open>sdk/client\<close>) retries the calls a server refuses.
  The SDK plugs into gRPC as resolver, balancer and picker (\<open>grpc\<close>); \<open>cmd/example/echo-tcp\<close> is a
  protocol of its own over TCP that uses the SDK directly.
\<close>

text \<open>
  The theories, in the order of their imports.

  \<^item> \<open>Prelude\<close>: machine integers, outcomes (a call returns, panics, or blocks on a lock for ever),
    sequencing of calls over a state, mutexes, and \<open>range\<close> over a Go map, whose order is an argument.
    \<open>GoText\<close>: numbers as text, \<open>strings.Split\<close> and prefixes. \<open>Json\<close>: the values, the printer and the
    parser of \<open>encoding/json\<close>, and that the parser inverts the printer. \<open>Float32\<close>: numbers of 32 bits,
    rounding, the shortest decimal of a number and that it is read back as that number. \<open>Codec\<close>:
    attributes and lists of endpoints as JSON.
  \<^item> \<open>Errcode\<close> (\<open>errcode/errcode.go\<close>): errors with codes, their text, \<open>As\<close>, \<open>Is\<close>, status errors.
  \<^item> \<open>Types\<close> (\<open>types/types.go\<close>): endpoints, attributes, matchers, rules, selectors, filters.
  \<^item> \<open>Service\<close> (\<open>types/service.go\<close>): the copy of a service, its invariant, and the directory of pods
    it implements (a refinement, \<open>implements_step\<close>).
  \<^item> \<open>Strategies\<close>, \<open>Treemap\<close>, \<open>Weighted\<close>, \<open>HashRing\<close>, \<open>Caches\<close>, \<open>DirectStrategies\<close>, \<open>Dispatch\<close>
    (\<open>strategy/**\<close>, \<open>strategy.go\<close>): the nine strategies and two caches; the locales
    \<open>safe_strategy\<close>, \<open>strategy_contract\<close>, \<open>generous_strategy\<close>, \<open>direct_cache\<close> are what their clients rely on, and every
    strategy and cache interprets them. Ordered maps of the library \<open>gods\<close> are an argument with a
    specification (\<open>treemap_ok\<close>), discharged for sorted association lists. \<open>CacheRuns\<close> is the abstract
    cache that the LRU list with its index, its hash map and its doubly linked list implements.
  \<^item> \<open>CoreSelector\<close>, \<open>Router\<close> (\<open>selector.go\<close>, \<open>service.go\<close>, \<open>store/store.go\<close>, \<open>router.go\<close>): the
    tables of a process with their mutexes, selection, matching, the handlers of errors, routing.
    \<open>SelectorRuns\<close>: runs of service events and selections. \<open>RoutesAlive\<close>: routes lead to registered
    endpoints that are alive.
  \<^item> \<open>StoreImpl\<close> (\<open>store/impl/impl.go\<close>): custom routes with the Lua script that sets them,
    attributes, registrations and their events, migrations, loading of the configuration.
    \<open>ConfigCodec\<close>, \<open>RouterCodec\<close>: selectors and routers as JSON, \<open>GetSelectors\<close> and \<open>GetRouter\<close>. \<open>Watchers\<close>: the loops that turn
    watch events and messages into calls of listeners.
  \<^item> \<open>ClusterView\<close>: the servers of a cluster as an inductive relation, whose steps are calls, the
    writes they cause one at a time, and expiries of leases, with the log of changes they leave in
    etcd, and what a client has that reads part of the log. \<open>LateClients\<close>: a client that loads first
    and reads on from there. \<open>ClusterRouting\<close>: selections keep the copies of services.
  \<^item> \<open>SdkServer\<close>, \<open>SdkReports\<close>, \<open>SdkCluster\<close> (\<open>sdk/server\<close>): the routing table (locale \<open>route_table\<close>),
    migrations, the check of requests, registration, and the counters with their reporting
    goroutines as a transition system. \<open>SdkClient\<close> (\<open>sdk/client\<close>): the loop of retries.
  \<^item> \<open>Grpc\<close>, \<open>GrpcBalance\<close> (\<open>grpc\<close>): resolver, picker, balancer, and the balancer over time.
  \<^item> \<open>Startup\<close> (\<open>config/config.go\<close>, \<open>NewImpl\<close>, \<open>store/store.go\<close>, \<open>Init\<close> of the SDKs): how a process
    comes up, dies or exits. \<open>EtcdClient\<close> (\<open>store/etcd/client.go\<close>). \<open>Metrics\<close> (\<open>pkg/yapr/metrics\<close>,
    \<open>pkg/yapr/logger\<close>): the calls into Prometheus and zap as lists.
  \<^item> \<open>EchoTcp\<close> (\<open>cmd/example/echo-tcp\<close>): messages, frames, the loops of server and client.
    \<open>EchoServer\<close>, \<open>EchoClient\<close> (\<open>cmd/example/echo\<close>, \<open>cmd/example/echo-tcp\<close>, \<open>cmd/example/stress\<close>): the
    ports and the loop of registrations of the servers, the echo handler, the connections of the
    stress server, and the clients around their calls. \<open>TcpConnections\<close>: the goroutines of all
    connections of the TCP server as a step relation (locales \<open>counting_server\<close>, \<open>ordered_server\<close>).
    \<open>TcpCalls\<close>: the goroutines of a client and of its connection as a step relation with its
    invariant. \<open>TcpExchange\<close>: both together over streams of bytes, whose runs end with every call
    answered by its own message (locale \<open>total_server\<close>). \<open>ServerMains\<close>, \<open>ClientMains\<close>: the mains of
    the servers from the start of the process on, and the goroutines that make the clients' load.
  \<^item> \<open>RoutingGuarantees\<close>, \<open>StrategyGuarantees\<close>, \<open>StoreGuarantees\<close>, \<open>ClusterGuarantees\<close>,
    \<open>TransportGuarantees\<close>, \<open>ProcessGuarantees\<close>: the properties C1 to C40, each with a
    closed run that meets its hypotheses on the values of \<open>Fixtures\<close> and \<open>HashPoints\<close>.
\<close>

text \<open>
  Conventions. A Go method on a pointer is a function from the state to an outcome and the new
  state; a nil pointer that the code follows is \<open>Panicked NilDeref\<close>, an index out of range, a failed
  assertion and a division by zero are panics as well, a second \<open>Lock\<close> of one goroutine is
  \<open>Blocked\<close>. The state a panicking or blocked call leaves behind is kept, because the locks it
  holds stay held. Pointers to attributes and endpoints are \<open>option\<close> values: what is
  written through one pointer is read through that pointer only, so sharing does not matter, except
  in the LRU cache, whose nodes are indices into a heap of nodes. A range over a map and a random number are
  arguments, so that a theorem holds for every order and every draw. \<open>uint32\<close> counters are words;
  \<open>int\<close> is an unbounded integer where the code cannot overflow it.

  Bounds and fuel. The JSON parser gets twice the length of its text as fuel, which the round trip
  shows to be enough for every text the encoder writes. The loops of \<open>retry\<close> and of the client's
  \<open>invoke\<close> are bounded by the counts of the code. A blocked request takes the events of a list in
  their order; C36 says that it ends when its time limit is among them. The loops over frames and
  ports, \<open>As\<close> and the scanner of JSON strings recur on a measure. The loop that shrinks the cache gets one step more than the size of its map, which
  \<open>Caches\<close> shows to be enough. No property has fuel in its statement.

  What is assumed, as named hypotheses with an instance each: the ordered maps (\<open>treemap_ok\<close>), Redis
  hash commands (\<open>redis_ok\<close>), that gRPC hands out the message a status was made of
  (\<open>status_keeps_message\<close>) and counts connections by state (\<open>evaluator_ok\<close>). Regular expressions, Lua,
  \<open>cjson\<close>, the answers of etcd, the file system, the YAML decoder and the clock
  are arguments without a law.

  Interleaving. A method that holds its mutex from entry to exit is one step. The steps of the
  counters, which run concurrently without one, are separate steps of \<open>sdk_step\<close>. The events a copy
  of a service receives interleave with selections in \<open>sel_run\<close>, and the calls of the servers of a
  cluster with each other and with expiries in \<open>cluster_log\<close>. Goroutines that handle notifications
  are applied in any order by \<open>apply_notices\<close>; those of the connections of the TCP server step in
  \<open>tcp_step\<close>, those of its clients in \<open>call_step\<close>, and \<open>exchange_run\<close> interleaves both with the arrival
  of any number of bytes and, where faults are allowed, with writes that fail and streams that end.
\<close>

text \<open>
  Not modelled: \<open>sidecar\<close>, which is commented out, and the generated package \<open>echopb\<close>; the calls of
  \<open>metrics\<close> and \<open>logger\<close> inside the other components, whose effects nothing reads (the definitions
  of \<open>Metrics\<close> stand for the packages themselves); the formats of the log encoders; flags, signals, sockets, sleeps and statistics of
  the mains of the examples and the interleaving of their load goroutines; the timers of goroutines.

  What the model shows the code not to do: C19 and C20 say what happens when the handlers of errors
  fall through, C25, C39 and C40 that retries after a refusal do not reach the new endpoint (over
  TCP) or carry stale headers (over gRPC), C35 that an unknown strategy leaves a selector locked,
  C37 that a route set again after its removal is announced without being stored, C9 that a client
  takes a pod whose lease expired before it loaded for alive, \<open>change_missed\<close> that it never learns
  what changes between its load and its watch, \<open>attribute_order_matters\<close> that of two notifications
  for one endpoint either may win, C33 and \<open>write_failure_leaks\<close> that a failed write leaves a request
  counted, \<open>large_payload\<close> with \<open>returned_answer\<close> that calls with large payloads wait for ever, and \<open>never_resigned\<close>, \<open>late_endpoint_panics\<close>
  and \<open>direct_request_refused\<close> what becomes of elections and of two kinds of requests.
\<close>

section \<open>Names on the wire\<close>

text \<open>The text form of an endpoint, which is its name in headers, in Redis and in messages, is read
  back as the endpoint when its host and its pod contain no separator, and only then.\<close>

theorem endpoint_text_roundtrip:
  "EndpointFromString (endpoint_String e) = (if sep_free e then Some e else None)"
  using EndpointFromString_String EndpointFromString_ambiguous by simp

theorem endpoint_text_roundtrip_witness:
  "EndpointFromString (endpoint_String \<lparr>IP = ''10.0.0.1'', Pod = ''svr-1'', Port = 23333\<rparr>)
     = Some \<lparr>IP = ''10.0.0.1'', Pod = ''svr-1'', Port = 23333\<rparr>"
  by (simp add: endpoint_text_roundtrip sep_free_def)

end
